(* ===== verification/Srt_Prelude.thy ===== *)
theory Srt_Prelude
  imports Main "HOL-Library.Word"
begin

text \<open>
  Shared vocabulary of the development: the machine integers of the Rust sources, the result of
  a fallible Rust computation, the ordering type of the standard library, big- and little-endian
  byte encodings, time values, and the generic facts on words and lists that the component
  theories use.

  Integers are those of a release build: \<open>+\<close>, \<open>-\<close> and \<open>*\<close> wrap around. A Rust panic
  (an \<open>unwrap\<close> of nothing, a failed \<open>assert\<close>, an out-of-range slice, \<open>todo!\<close>) is the value
  \<open>Panic\<close> of type \<open>outcome\<close>. Sizes and indices (\<open>usize\<close>) are natural numbers.
\<close>

unbundle bit_operations_syntax

named_theorems wire_simps \<open>unfolding of the byte readers and writers\<close>
named_theorems seq_simps \<open>arithmetic of modular sequence numbers\<close>

section \<open>Machine integers\<close>

type_synonym u8 = "8 word"
type_synonym u16 = "16 word"
type_synonym u32 = "32 word"
type_synonym u64 = "64 word"
type_synonym i32 = "32 word" \<comment> \<open>read with \<open>sint\<close>\<close>
type_synonym usize = nat

text \<open>Subtraction of 64-bit sizes in a release build, and the number of bits set.\<close>

definition usize_sub :: "usize \<Rightarrow> usize \<Rightarrow> usize" where
  "usize_sub a b = (if b \<le> a then a - b else a + 2 ^ 64 - b)"

definition count_ones :: "'a::len word \<Rightarrow> nat" where
  "count_ones w = length (filter (bit w) [0..<LENGTH('a)])"

lemma unat_of_nat_small: "n < 2 ^ LENGTH('a) \<Longrightarrow> unat (of_nat n :: 'a::len word) = n"
  by (simp add: unat_of_nat take_bit_nat_eq_self)

lemma usize_sub_le: "b \<le> a \<Longrightarrow> usize_sub a b = a - b"
  by (simp add: usize_sub_def)

section \<open>Results\<close>

datatype ('a, 'e) outcome = Ok 'a | Err 'e | Panic

text \<open>A computation that can panic but has no error value.\<close>

type_synonym 'a may_panic = "('a, unit) outcome"

fun bind_outcome :: "('a, 'e) outcome \<Rightarrow> ('a \<Rightarrow> ('b, 'e) outcome) \<Rightarrow> ('b, 'e) outcome" where
  "bind_outcome (Ok a) f = f a"
| "bind_outcome (Err e) f = Err e"
| "bind_outcome Panic f = Panic"

fun map_outcome_ok :: "('a \<Rightarrow> 'b) \<Rightarrow> ('a, 'e) outcome \<Rightarrow> ('b, 'e) outcome" where
  "map_outcome_ok f (Ok a) = Ok (f a)"
| "map_outcome_ok f (Err e) = Err e"
| "map_outcome_ok f Panic = Panic"

lemma bind_outcome_Ok_iff:
  "bind_outcome m f = Ok b \<longleftrightarrow> (\<exists>a. m = Ok a \<and> f a = Ok b)"
  by (cases m) auto

lemma bind_outcome_Panic_iff:
  "bind_outcome m f = Panic \<longleftrightarrow> m = Panic \<or> (\<exists>a. m = Ok a \<and> f a = Panic)"
  by (cases m) auto

lemma map_outcome_ok_Ok_iff:
  "map_outcome_ok f m = Ok b \<longleftrightarrow> (\<exists>a. m = Ok a \<and> b = f a)"
  by (cases m) auto

text \<open>\<open>std::cmp::Ordering\<close>\<close>

datatype Ordering = Less | Equal | Greater

definition cmp_int :: "int \<Rightarrow> int \<Rightarrow> Ordering" where
  "cmp_int a b = (if a < b then Less else if a = b then Equal else Greater)"

section \<open>Time\<close>

text \<open>
  \<open>std::time::Instant\<close> is a number of nanoseconds on an unbounded scale, \<open>std::time::Duration\<close> a
  natural number of nanoseconds. The difference of two instants is zero when the second is later
  (the documented saturating behaviour of \<open>Instant - Instant\<close>).
\<close>

type_synonym instant = int
type_synonym duration = nat

definition duration_from_micros :: "nat \<Rightarrow> duration" where
  "duration_from_micros us = us * 1000"

definition duration_from_millis :: "nat \<Rightarrow> duration" where
  "duration_from_millis ms = ms * 1000000"

definition as_micros :: "duration \<Rightarrow> nat" where
  "as_micros d = d div 1000"

definition as_millis :: "duration \<Rightarrow> nat" where
  "as_millis d = d div 1000000"

definition instant_sub :: "instant \<Rightarrow> instant \<Rightarrow> duration" where
  "instant_sub a b = nat (a - b)"

lemma as_micros_from_micros [simp]: "as_micros (duration_from_micros n) = n"
  by (simp add: as_micros_def duration_from_micros_def)

lemma as_millis_from_millis [simp]: "as_millis (duration_from_millis n) = n"
  by (simp add: as_millis_def duration_from_millis_def)

section \<open>Byte encodings\<close>

definition be16 :: "u16 \<Rightarrow> u8 list" where
  "be16 w = [ucast (drop_bit 8 w), ucast w]"

definition be32 :: "u32 \<Rightarrow> u8 list" where
  "be32 w = [ucast (drop_bit 24 w), ucast (drop_bit 16 w), ucast (drop_bit 8 w), ucast w]"

definition from_be16 :: "u8 \<Rightarrow> u8 \<Rightarrow> u16" where
  "from_be16 a b = push_bit 8 (ucast a) OR ucast b"

definition from_be32 :: "u8 \<Rightarrow> u8 \<Rightarrow> u8 \<Rightarrow> u8 \<Rightarrow> u32" where
  "from_be32 a b c d =
     push_bit 24 (ucast a) OR push_bit 16 (ucast b) OR push_bit 8 (ucast c) OR ucast d"

lemma length_be16 [simp]: "length (be16 w) = 2"
  by (simp add: be16_def)

lemma length_be32 [simp]: "length (be32 w) = 4"
  by (simp add: be32_def)

lemma from_be16_bytes: "from_be16 (ucast (drop_bit 8 w)) (ucast w) = w"
  by (rule bit_word_eqI) (auto simp: from_be16_def bit_simps)

lemma from_be32_bytes:
  "from_be32 (ucast (drop_bit 24 w)) (ucast (drop_bit 16 w)) (ucast (drop_bit 8 w)) (ucast w) = w"
proof (rule bit_word_eqI)
  fix n assume "n < LENGTH(32)"
  then consider "n < 8" | "8 \<le> n" "n < 16" | "16 \<le> n" "n < 24" | "24 \<le> n" "n < 32"
    by fastforce
  then show "bit (from_be32 (ucast (drop_bit 24 w)) (ucast (drop_bit 16 w)) (ucast (drop_bit 8 w))
      (ucast w)) n = bit w n"
    by cases (auto simp: from_be32_def bit_simps dest: bit_imp_le_length)
qed

lemma bit_u8_beyond: "8 \<le> n \<Longrightarrow> \<not> bit (w :: u8) n"
  by (auto dest: bit_imp_le_length)

lemma be32_from_be32: "be32 (from_be32 a b c d) = [a, b, c, d]"
  by (auto simp: be32_def from_be32_def bit_simps bit_u8_beyond intro!: bit_word_eqI)

lemma be16_from_be16: "be16 (from_be16 a b) = [a, b]"
  by (auto simp: be16_def from_be16_def bit_simps bit_u8_beyond intro!: bit_word_eqI)

text \<open>
  A read cursor is the list of the bytes still to be read; the readers return the value and the
  rest, and \<open>Panic\<close> where too few bytes remain.
\<close>

fun get_u8 :: "u8 list \<Rightarrow> (u8 \<times> u8 list, 'e) outcome" where
  "get_u8 (a # r) = Ok (a, r)"
| "get_u8 _ = Panic"

fun get_u16 :: "u8 list \<Rightarrow> (u16 \<times> u8 list, 'e) outcome" where
  "get_u16 (a # b # r) = Ok (from_be16 a b, r)"
| "get_u16 _ = Panic"

fun get_u32 :: "u8 list \<Rightarrow> (u32 \<times> u8 list, 'e) outcome" where
  "get_u32 (a # b # c # d # r) = Ok (from_be32 a b c d, r)"
| "get_u32 _ = Panic"

fun get_u32_le :: "u8 list \<Rightarrow> (u32 \<times> u8 list, 'e) outcome" where
  "get_u32_le (a # b # c # d # r) = Ok (from_be32 d c b a, r)"
| "get_u32_le _ = Panic"

fun get_u16_le :: "u8 list \<Rightarrow> (u16 \<times> u8 list, 'e) outcome" where
  "get_u16_le (a # b # r) = Ok (from_be16 b a, r)"
| "get_u16_le _ = Panic"

lemma get_u8_cons [wire_simps]: "get_u8 ([a] @ r) = Ok (a, r)"
  by simp

lemma get_u16_be16 [wire_simps]: "get_u16 (be16 w @ r) = Ok (w, r)"
  by (simp add: be16_def from_be16_bytes)

lemma get_u32_be32 [wire_simps]: "get_u32 (be32 w @ r) = Ok (w, r)"
  by (simp add: be32_def from_be32_bytes)

lemma get_u32_le_be32 [wire_simps]: "get_u32_le (rev (be32 w) @ r) = Ok (w, r)"
  by (simp add: be32_def from_be32_bytes)

lemma get_u16_le_be16 [wire_simps]: "get_u16_le (rev (be16 w) @ r) = Ok (w, r)"
  by (simp add: be16_def from_be16_bytes)

lemma get_u32_enough: "4 \<le> length bs \<Longrightarrow> \<exists>w r. get_u32 bs = Ok (w, r) \<and> length r = length bs - 4"
  by (cases bs rule: get_u32.cases) auto

lemma get_u32_OkD: "get_u32 bs = Ok (w, r) \<Longrightarrow> bs = be32 w @ r"
  by (cases bs rule: get_u32.cases) (auto simp: be32_from_be32)

lemma get_u16_OkD: "get_u16 bs = Ok (w, r) \<Longrightarrow> bs = be16 w @ r"
  by (cases bs rule: get_u16.cases) (auto simp: be16_from_be16)

end
