(* ===== verification/Modular_Num.thy ===== *)
theory Modular_Num
  imports Srt_Prelude
begin

text \<open>
  Modular numbers (\<open>srt-protocol/src/packet/modular_num.rs\<close>) and their two instances
  \<open>SeqNumber\<close> (31 bits) and \<open>MsgNumber\<close> (26 bits). The macro's width \<open>$num\<close> is the first
  argument of each operation; a value is its raw \<open>u32\<close>. The locale \<open>modular_number\<close> is the
  arithmetic that the buffers rely on; it is interpreted for both instances.
\<close>

section \<open>The operations of the macro\<close>

definition mod_MAX :: "nat \<Rightarrow> u32" where
  "mod_MAX num = push_bit num 1"

definition mod_MAX_DIFF :: "nat \<Rightarrow> u32" where
  "mod_MAX_DIFF num = push_bit (num - 1) 1"

definition mod_new_truncate :: "nat \<Rightarrow> u32 \<Rightarrow> u32" where
  "mod_new_truncate num from = from mod mod_MAX num"

datatype OutOfRangeError = OutOfRangeError

definition mod_new :: "nat \<Rightarrow> u32 \<Rightarrow> (u32, OutOfRangeError) outcome" where
  "mod_new num from = (if from > mod_MAX num then Err OutOfRangeError else Ok from)"

definition mod_add :: "nat \<Rightarrow> u32 \<Rightarrow> u32 \<Rightarrow> u32" where
  "mod_add num self other = (self + other) mod mod_MAX num"

definition mod_sub :: "nat \<Rightarrow> u32 \<Rightarrow> u32 \<Rightarrow> u32" where
  "mod_sub num self other =
     (if self < other then mod_MAX num - (other - self) else self - other)"

definition mod_diff :: "nat \<Rightarrow> u32 \<Rightarrow> u32 \<Rightarrow> u32" where
  "mod_diff num self other =
     (if self \<ge> other then self - other else mod_MAX num - (other - self))"

definition mod_cmp :: "nat \<Rightarrow> u32 \<Rightarrow> u32 \<Rightarrow> Ordering" where
  "mod_cmp num self other =
     (let diff = mod_diff num self other in
      if diff = 0 then Equal
      else if diff < mod_MAX_DIFF num then Greater
      else Less)"

definition mod_rem :: "u32 \<Rightarrow> u32 \<Rightarrow> u32" where
  "mod_rem self other = self mod other"

text \<open>The comparison operators that \<open>PartialOrd\<close> derives from \<open>cmp\<close>.\<close>

definition mod_lt :: "nat \<Rightarrow> u32 \<Rightarrow> u32 \<Rightarrow> bool" where
  "mod_lt num a b \<longleftrightarrow> mod_cmp num a b = Less"

definition mod_le :: "nat \<Rightarrow> u32 \<Rightarrow> u32 \<Rightarrow> bool" where
  "mod_le num a b \<longleftrightarrow> mod_cmp num a b \<noteq> Greater"

section \<open>The two instances\<close>

type_synonym SeqNumber = u32
type_synonym MsgNumber = u32

abbreviation seq_new_truncate :: "u32 \<Rightarrow> SeqNumber" where
  "seq_new_truncate \<equiv> mod_new_truncate 31"

abbreviation seq_add :: "SeqNumber \<Rightarrow> u32 \<Rightarrow> SeqNumber" where
  "seq_add \<equiv> mod_add 31"

abbreviation seq_sub :: "SeqNumber \<Rightarrow> u32 \<Rightarrow> SeqNumber" where
  "seq_sub \<equiv> mod_sub 31"

abbreviation seq_diff :: "SeqNumber \<Rightarrow> SeqNumber \<Rightarrow> u32" where
  "seq_diff \<equiv> mod_diff 31"

abbreviation seq_cmp :: "SeqNumber \<Rightarrow> SeqNumber \<Rightarrow> Ordering" where
  "seq_cmp \<equiv> mod_cmp 31"

abbreviation seq_lt :: "SeqNumber \<Rightarrow> SeqNumber \<Rightarrow> bool" where
  "seq_lt \<equiv> mod_lt 31"

abbreviation seq_le :: "SeqNumber \<Rightarrow> SeqNumber \<Rightarrow> bool" where
  "seq_le \<equiv> mod_le 31"

abbreviation msg_new_truncate :: "u32 \<Rightarrow> MsgNumber" where
  "msg_new_truncate \<equiv> mod_new_truncate 26"

abbreviation msg_add :: "MsgNumber \<Rightarrow> u32 \<Rightarrow> MsgNumber" where
  "msg_add \<equiv> mod_add 26"

text \<open>\<open>increment\<close> returns the old value and leaves the successor.\<close>

definition seq_increment :: "SeqNumber \<Rightarrow> SeqNumber \<times> SeqNumber" where
  "seq_increment self = (self, seq_add self 1)"

definition msg_increment :: "MsgNumber \<Rightarrow> MsgNumber \<times> MsgNumber" where
  "msg_increment self = (self, msg_add self 1)"

definition seq_saturating_sub :: "SeqNumber \<Rightarrow> SeqNumber \<Rightarrow> usize" where
  "seq_saturating_sub self other = unat self - unat other"

text \<open>A number is valid when it is below the modulus.\<close>

definition seq_valid :: "SeqNumber \<Rightarrow> bool" where
  "seq_valid s \<longleftrightarrow> unat s < 2 ^ 31"

definition msg_valid :: "MsgNumber \<Rightarrow> bool" where
  "msg_valid s \<longleftrightarrow> unat s < 2 ^ 26"

section \<open>The interface: arithmetic modulo an even divisor of the word size\<close>

locale modular_number =
  fixes add :: "u32 \<Rightarrow> u32 \<Rightarrow> u32"
    and diff :: "u32 \<Rightarrow> u32 \<Rightarrow> u32"
    and cmp :: "u32 \<Rightarrow> u32 \<Rightarrow> Ordering"
    and half :: nat
  assumes half_pos: "0 < half"
    and half_dvd: "2 * half dvd 2 ^ 32"
    and unat_add: "unat (add a n) = (unat a + unat n) mod (2 * half)"
    and unat_diff: "unat a < 2 * half \<Longrightarrow> unat b < 2 * half \<Longrightarrow>
      unat (diff a b) = (unat a + (2 * half - unat b)) mod (2 * half)"
    and cmp_diff: "cmp a b =
      (if diff a b = 0 then Equal else if unat (diff a b) < half then Greater else Less)"
begin

lemma add_valid: "unat (add a n) < 2 * half"
  using half_pos by (simp add: unat_add)

lemma diff_valid: "unat a < 2 * half \<Longrightarrow> unat b < 2 * half \<Longrightarrow> unat (diff a b) < 2 * half"
  using half_pos by (simp add: unat_diff)

lemma add_zero: "unat a < 2 * half \<Longrightarrow> add a 0 = a"
  by (simp add: word_unat_eq_iff unat_add)

lemma unat_plus_mod: "unat (i + j :: u32) mod (2 * half) = (unat i + unat j) mod (2 * half)"
proof -
  have "unat (i + j) = (unat i + unat j) mod 2 ^ 32"
    by (simp add: unat_word_ariths)
  then show ?thesis using half_dvd by (simp add: mod_mod_cancel)
qed

lemma add_add: "add (add a i) j = add a (i + j)"
proof (rule word_unat_eq_iff [THEN iffD2])
  have "unat (add (add a i) j) = (unat a + (unat i + unat j) mod (2 * half)) mod (2 * half)"
    by (simp add: unat_add mod_simps ac_simps)
  also have "\<dots> = unat (add a (i + j))"
    by (simp add: unat_add unat_plus_mod [symmetric] mod_add_right_eq)
  finally show "unat (add (add a i) j) = unat (add a (i + j))" .
qed

lemma diff_self: "unat a < 2 * half \<Longrightarrow> diff a a = 0"
  by (simp add: word_unat_eq_iff unat_diff)

lemma diff_add_cancel:
  assumes "unat a < 2 * half" "unat n < 2 * half"
  shows "diff (add a n) a = n"
proof (rule word_unat_eq_iff [THEN iffD2])
  have "unat (diff (add a n) a) = ((unat a + unat n) + (2 * half - unat a)) mod (2 * half)"
    by (simp add: unat_diff add_valid assms) (simp add: unat_add mod_simps)
  also have "(unat a + unat n) + (2 * half - unat a) = unat n + 2 * half"
    using assms by simp
  finally show "unat (diff (add a n) a) = unat n" using assms by simp
qed

lemma add_diff:
  assumes "unat a < 2 * half" "unat b < 2 * half"
  shows "add b (diff a b) = a"
proof (rule word_unat_eq_iff [THEN iffD2])
  have "unat (add b (diff a b)) = (unat b + (unat a + (2 * half - unat b))) mod (2 * half)"
    by (simp add: unat_add unat_diff assms mod_simps)
  also have "unat b + (unat a + (2 * half - unat b)) = unat a + 2 * half"
    using assms by simp
  finally show "unat (add b (diff a b)) = unat a" using assms by simp
qed

lemma diff_eq_0: "unat a < 2 * half \<Longrightarrow> unat b < 2 * half \<Longrightarrow> diff a b = 0 \<longleftrightarrow> a = b"
  by (metis add_diff add_zero diff_self)

lemma diff_pos:
  "unat a < 2 * half \<Longrightarrow> unat b < 2 * half \<Longrightarrow> a \<noteq> b \<Longrightarrow> 0 < unat (diff a b)"
  using diff_eq_0 [of a b] by (simp add: unat_gt_0)

lemma unat_diff_diff:
  assumes "unat a < 2 * half" "unat b < 2 * half" "unat c < 2 * half"
  shows "unat (diff a c) = (unat (diff a b) + unat (diff b c)) mod (2 * half)"
proof -
  have "(unat (diff a b) + unat (diff b c)) mod (2 * half)
      = ((unat a + (2 * half - unat b)) + (unat b + (2 * half - unat c))) mod (2 * half)"
    by (simp add: unat_diff assms mod_simps)
  also have "(unat a + (2 * half - unat b)) + (unat b + (2 * half - unat c))
      = (unat a + (2 * half - unat c)) + 2 * half"
    using assms by simp
  finally show ?thesis by (simp add: unat_diff assms)
qed

lemma diff_flip:
  assumes "unat a < 2 * half" "unat b < 2 * half" "a \<noteq> b"
  shows "unat (diff b a) = 2 * half - unat (diff a b)"
proof -
  have "(unat (diff a b) + unat (diff b a)) mod (2 * half) = 0"
    using unat_diff_diff [of a b a] diff_self [of a] assms by simp
  moreover have "0 < unat (diff a b)" "0 < unat (diff b a)"
    using assms by (auto intro!: diff_pos)
  moreover have "unat (diff a b) < 2 * half" "unat (diff b a) < 2 * half"
    using assms by (simp_all add: diff_valid)
  ultimately show ?thesis
    by (cases "unat (diff a b) + unat (diff b a) < 2 * half") (auto simp: le_mod_geq)
qed

lemma cmp_Equal: "unat a < 2 * half \<Longrightarrow> unat b < 2 * half \<Longrightarrow> cmp a b = Equal \<longleftrightarrow> a = b"
  by (simp add: cmp_diff diff_eq_0)

lemma cmp_Greater:
  "cmp a b = Greater \<longleftrightarrow> 0 < unat (diff a b) \<and> unat (diff a b) < half"
  by (simp add: cmp_diff unat_gt_0)

lemma cmp_Less: "cmp a b = Less \<longleftrightarrow> half \<le> unat (diff a b)"
  using half_pos by (auto simp: cmp_diff not_less)

lemma cmp_flip:
  assumes "unat a < 2 * half" "unat b < 2 * half" "unat (diff a b) \<noteq> half"
  shows "cmp b a = Less \<longleftrightarrow> cmp a b = Greater" "cmp b a = Greater \<longleftrightarrow> cmp a b = Less"
proof -
  show "cmp b a = Less \<longleftrightarrow> cmp a b = Greater"
    using assms diff_flip [of a b] diff_pos [of a b] diff_valid [of a b] half_pos
    by (cases "a = b") (auto simp: cmp_Less cmp_Greater diff_self)
  show "cmp b a = Greater \<longleftrightarrow> cmp a b = Less"
    using assms diff_flip [of a b] diff_self [of a] diff_valid [of a b] half_pos
    by (cases "a = b") (auto simp: cmp_Less cmp_Greater diff_self)
qed

lemma cmp_add:
  assumes "unat a < 2 * half" "0 < n" "unat n \<le> half"
  shows "cmp a (add a n) = Less"
proof -
  have n: "unat n < 2 * half" "0 < unat n"
    using assms half_pos by (auto simp: unat_gt_0 word_gt_0)
  have d: "diff (add a n) a = n"
    using assms n by (simp add: diff_add_cancel)
  then have "a \<noteq> add a n"
    using assms n diff_self [of a] by (auto simp: word_gt_0)
  then have "unat (diff a (add a n)) = 2 * half - unat n"
    using assms d diff_flip [of "add a n" a] by (simp add: add_valid)
  then show ?thesis
    using assms by (simp add: cmp_Less)
qed

text \<open>Inside a window of half the number space the order is that of the offsets.\<close>

lemma diff_offsets:
  assumes "unat a < 2 * half" "unat i < 2 * half" "unat j \<le> unat i"
  shows "diff (add a i) (add a j) = i - j"
proof -
  have ij: "i = j + (i - j)" "unat (i - j) = unat i - unat j"
    using assms by (simp_all add: unat_sub word_le_nat_alt)
  have "diff (add (add a j) (i - j)) (add a j) = i - j"
    by (rule diff_add_cancel) (use assms ij add_valid in auto)
  then show ?thesis using ij by (simp add: add_add)
qed

lemma cmp_window:
  assumes "unat a < 2 * half" "unat i < half" "unat j < half"
  shows "cmp (add a i) (add a j) =
    (if unat i < unat j then Less else if unat i = unat j then Equal else Greater)"
proof (cases "unat j \<le> unat i")
  case True
  then have "diff (add a i) (add a j) = i - j"
    using assms by (intro diff_offsets) auto
  moreover have "unat (i - j) = unat i - unat j"
    using True by (simp add: unat_sub word_le_nat_alt)
  ultimately show ?thesis using True assms half_pos
    by (auto simp: cmp_diff word_unat_eq_iff)
next
  case False
  then have "diff (add a j) (add a i) = j - i"
    using assms by (intro diff_offsets) auto
  moreover have "unat (j - i) = unat j - unat i"
    using False by (simp add: unat_sub word_le_nat_alt)
  ultimately have "cmp (add a j) (add a i) = Greater" "unat (diff (add a j) (add a i)) \<noteq> half"
    using False assms by (auto simp: cmp_Greater)
  then show ?thesis using False cmp_flip [of "add a j" "add a i"] by (simp add: add_valid)
qed

end

section \<open>The instances satisfy the interface\<close>

lemma unat_two_power: "num < 32 \<Longrightarrow> unat (2 ^ num :: u32) = 2 ^ num"
proof -
  assume n: "num < 32"
  have "unat (of_nat (2 ^ num) :: u32) = 2 ^ num mod 2 ^ 32"
    by (simp add: unat_of_nat del: of_nat_power)
  also have "\<dots> = 2 ^ num"
    using n by (intro mod_less power_strict_increasing) simp_all
  finally show ?thesis by simp
qed

lemma two_power_dvd_word: "num \<le> 32 \<Longrightarrow> (2 :: nat) ^ num dvd 2 ^ 32"
  by (rule le_imp_power_dvd)

lemma unat_mod_MAX: "num < 32 \<Longrightarrow> unat (mod_MAX num) = 2 ^ num"
  by (simp add: mod_MAX_def push_bit_eq_mult unat_two_power)

lemma unat_mod_add: "num < 32 \<Longrightarrow> unat (mod_add num a n) = (unat a + unat n) mod 2 ^ num"
proof -
  assume n: "num < 32"
  then have "(2::nat) ^ num dvd 2 ^ 32"
    by (intro two_power_dvd_word) simp
  then show ?thesis using n
    by (simp add: mod_add_def unat_mod_distrib unat_mod_MAX unat_word_ariths mod_mod_cancel)
qed

lemma unat_mod_diff:
  assumes "num < 32" "unat a < 2 ^ num" "unat b < 2 ^ num"
  shows "unat (mod_diff num a b) = (unat a + (2 ^ num - unat b)) mod 2 ^ num"
proof (cases "b \<le> a")
  case True
  then have "unat (a - b) = unat a - unat b" "unat b \<le> unat a"
    by (simp_all add: unat_sub word_le_nat_alt)
  moreover from this assms have e: "unat a + (2 ^ num - unat b) = (unat a - unat b) + 2 ^ num"
    by simp
  have "(unat a + (2 ^ num - unat b)) mod 2 ^ num = unat a - unat b"
    unfolding e using assms by simp
  ultimately have "(unat a + (2 ^ num - unat b)) mod 2 ^ num = unat (a - b)"
    by simp
  then show ?thesis using True by (simp add: mod_diff_def)
next
  case False
  then have ab: "unat a < unat b" "a \<le> b" by (simp_all add: word_less_nat_alt word_le_nat_alt)
  have ba: "unat (b - a) = unat b - unat a" using ab by (simp add: unat_sub)
  have "b - a \<le> mod_MAX num"
    using assms ba by (simp add: word_le_nat_alt unat_mod_MAX)
  then have "unat (mod_diff num a b) = 2 ^ num - (unat b - unat a)"
    using False assms ba by (simp add: mod_diff_def unat_sub unat_mod_MAX)
  then show ?thesis using ab assms by simp
qed

lemma unat_mod_MAX_DIFF: "0 < num \<Longrightarrow> num < 32 \<Longrightarrow> unat (mod_MAX_DIFF num) = 2 ^ (num - 1)"
  by (simp add: mod_MAX_DIFF_def push_bit_eq_mult unat_two_power)

lemma mod_cmp_alt:
  "0 < num \<Longrightarrow> num < 32 \<Longrightarrow> mod_cmp num a b =
     (if mod_diff num a b = 0 then Equal
      else if unat (mod_diff num a b) < 2 ^ (num - 1) then Greater else Less)"
  by (simp add: mod_cmp_def Let_def word_less_nat_alt unat_mod_MAX_DIFF)

lemma modular_number_instance:
  assumes "k < 31"
  shows "modular_number (mod_add (Suc k)) (mod_diff (Suc k)) (mod_cmp (Suc k)) (2 ^ k)"
proof
  show "2 * (2 :: nat) ^ k dvd 2 ^ 32"
    using two_power_dvd_word [of "Suc k"] assms by (simp del: power_Suc_0)
qed (use assms in \<open>simp_all add: unat_mod_add unat_mod_diff mod_cmp_alt
        del: power_Suc flip: power_Suc\<close>)

interpretation seq: modular_number "mod_add 31" "mod_diff 31" "mod_cmp 31" "2 ^ 30"
  using modular_number_instance [of 30] by simp

interpretation msg: modular_number "mod_add 26" "mod_diff 26" "mod_cmp 26" "2 ^ 25"
  using modular_number_instance [of 25] by simp

lemma seq_valid_alt: "seq_valid s \<longleftrightarrow> unat s < 2 * 2 ^ 30"
  by (simp add: seq_valid_def)

lemma seq_add_valid [simp, intro]: "seq_valid (seq_add s n)"
  using seq.add_valid [of s n] by (simp add: seq_valid_alt)

lemma seq_new_truncate_valid [simp, intro]: "seq_valid (seq_new_truncate n)"
  by (simp add: seq_valid_def mod_new_truncate_def unat_mod_distrib unat_mod_MAX)

lemma msg_new_truncate_valid [simp, intro]: "msg_valid (msg_new_truncate n)"
  by (simp add: msg_valid_def mod_new_truncate_def unat_mod_distrib unat_mod_MAX)

lemma seq_new_truncate_id: "seq_valid s \<Longrightarrow> seq_new_truncate s = s"
  by (simp add: seq_valid_def mod_new_truncate_def word_unat_eq_iff unat_mod_distrib unat_mod_MAX)

lemma msg_new_truncate_id: "msg_valid s \<Longrightarrow> msg_new_truncate s = s"
  by (simp add: msg_valid_def mod_new_truncate_def word_unat_eq_iff unat_mod_distrib unat_mod_MAX)

lemma seq_sub_eq_add:
  assumes "seq_valid s" "unat n \<le> 2 ^ 31"
  shows "seq_sub s n = seq_add s (2 ^ 31 - n)"
proof -
  have n: "n \<le> (2 ^ 31 :: u32)" "unat (2 ^ 31 - n) = 2 ^ 31 - unat n"
    using assms by (simp_all add: word_le_nat_alt unat_sub)
  have M: "mod_MAX 31 = 2 ^ 31" "unat (mod_MAX 31) = 2 ^ 31"
    by (simp_all add: mod_MAX_def)
  show ?thesis
  proof (cases "s < n")
    case True
    then have "unat s < unat n" "unat (n - s) = unat n - unat s"
      by (simp_all add: word_less_nat_alt unat_sub word_le_nat_alt)
    moreover from this have "n - s \<le> mod_MAX 31"
      using assms M by (simp add: word_le_nat_alt)
    ultimately have "unat (mod_MAX 31 - (n - s)) = 2 ^ 31 - (unat n - unat s)"
      using M by (simp add: unat_sub)
    then show ?thesis
      using \<open>unat s < unat n\<close> True n assms
      by (simp add: word_unat_eq_iff mod_sub_def unat_mod_add)
  next
    case False
    then have "unat n \<le> unat s" "unat (s - n) = unat s - unat n"
      by (simp_all add: word_le_nat_alt unat_sub not_less)
    moreover from this have "unat s + (2 ^ 31 - unat n) = (unat s - unat n) + 2 ^ 31"
      using assms by simp
    then have "(unat s + (2 ^ 31 - unat n)) mod 2 ^ 31 = unat s - unat n"
      using assms by (simp only: mod_add_self2) (simp add: seq_valid_def)
    ultimately show ?thesis
      using False n by (simp add: word_unat_eq_iff mod_sub_def unat_mod_add)
  qed
qed

section \<open>Consecutive sequence numbers\<close>

definition seqs_from :: "SeqNumber \<Rightarrow> nat \<Rightarrow> SeqNumber list" where
  "seqs_from s n = map (\<lambda>i. seq_add s (of_nat i)) [0..<n]"

lemma length_seqs_from [simp]: "length (seqs_from s n) = n"
  by (simp add: seqs_from_def)

lemma seqs_from_0 [simp]: "seqs_from s 0 = []"
  by (simp add: seqs_from_def)

lemma seqs_from_nth: "i < n \<Longrightarrow> seqs_from s n ! i = seq_add s (of_nat i)"
  by (simp add: seqs_from_def)

lemma seq_add_of_nat_add: "seq_add (seq_add s (of_nat m)) (of_nat i) = seq_add s (of_nat (m + i))"
  by (simp add: seq.add_add)

lemma seqs_from_append: "seqs_from s (m + n) = seqs_from s m @ seqs_from (seq_add s (of_nat m)) n"
  by (rule nth_equalityI) (auto simp: seqs_from_nth nth_append seq.add_add)

lemma seqs_from_Suc: "seqs_from s (Suc n) = seqs_from s n @ [seq_add s (of_nat n)]"
  by (simp add: seqs_from_def)

lemma drop_seqs_from: "k \<le> n \<Longrightarrow> drop k (seqs_from s n) = seqs_from (seq_add s (of_nat k)) (n - k)"
  using seqs_from_append [of s k "n - k"] by simp

lemma unat_seq_offset: "i < 2 ^ 31 \<Longrightarrow> unat (of_nat i :: u32) = i"
  by (rule unat_of_nat_small) simp

lemma seq_diff_offset:
  "seq_valid s \<Longrightarrow> i < 2 ^ 31 \<Longrightarrow> unat (seq_diff (seq_add s (of_nat i)) s) = i"
  using seq.diff_add_cancel [of s "of_nat i"] unat_seq_offset [of i] by (simp add: seq_valid_def)

lemma seq_offset_inj:
  "seq_valid s \<Longrightarrow> i < 2 ^ 31 \<Longrightarrow> j < 2 ^ 31 \<Longrightarrow>
    seq_add s (of_nat i) = seq_add s (of_nat j) \<longleftrightarrow> i = j"
  by (metis seq_diff_offset)

lemma seq_cmp_after:
  assumes "seq_valid s" "0 < k" "k \<le> 2 ^ 30"
  shows "seq_cmp s (seq_add s (of_nat k)) = Less"
proof -
  have "unat (of_nat k :: u32) = k" using assms by (intro unat_seq_offset) simp
  then show ?thesis
    using seq.cmp_add [of s "of_nat k"] assms by (simp add: seq_valid_def word_gt_0 word_unat_eq_iff)
qed

lemma seq_cmp_before:
  assumes "seq_valid s" "0 < k" "k < 2 ^ 30"
  shows "seq_cmp (seq_add s (of_nat k)) s = Greater"
  using assms seq_diff_offset [of s k] by (simp add: seq.cmp_Greater)

lemma seq_cmp_offsets:
  assumes "seq_valid s" "i < n + 2 ^ 30" "n \<le> i + 2 ^ 30"
  shows "seq_cmp (seq_add s (of_nat i)) (seq_add s (of_nat n)) =
    (if i < n then Less else if i = n then Equal else Greater)"
proof (cases i n rule: linorder_cases)
  case less
  then have "seq_add s (of_nat n) = seq_add (seq_add s (of_nat i)) (of_nat (n - i))"
    by (simp add: seq.add_add)
  then show ?thesis using less assms seq_cmp_after [of "seq_add s (of_nat i)" "n - i"] by simp
next
  case equal
  then show ?thesis
    using seq.cmp_Equal [of "seq_add s (of_nat i)" "seq_add s (of_nat n)"]
      seq_add_valid [of s "of_nat i"] seq_add_valid [of s "of_nat n"]
    by (simp add: seq_valid_def)
next
  case greater
  then have "seq_add s (of_nat i) = seq_add (seq_add s (of_nat n)) (of_nat (i - n))"
    by (simp add: seq.add_add)
  then show ?thesis using greater assms seq_cmp_before [of "seq_add s (of_nat n)" "i - n"] by simp
qed

text \<open>Every valid sequence number is in one of the three positions.\<close>

lemma seq_positions:
  assumes "seq_valid s" "seq_valid d" "n < 2 ^ 30"
  obtains i where "d = seq_add s (of_nat i)" "i < n + 2 ^ 30"
  | j where "seq_add d (of_nat j) = s" "0 < j" "j + n \<le> 2 ^ 30"
proof -
  let ?i = "unat (seq_diff d s)"
  have d: "seq_add s (seq_diff d s) = d" "?i < 2 ^ 31"
    using seq.add_diff [of d s] seq.diff_valid [of d s] assms by (simp_all add: seq_valid_def)
  show thesis
  proof (cases "?i < n + 2 ^ 30")
    case True
    then show thesis using d that(1) [of ?i] by simp
  next
    case False
    then have "seq_add d (of_nat (2 ^ 31 - ?i)) = seq_add s (of_nat (?i + (2 ^ 31 - ?i)))"
      using d(1) seq_add_of_nat_add [of s ?i "2 ^ 31 - ?i"] by simp
    also have "?i + (2 ^ 31 - ?i) = 2 ^ 31" using d(2) by simp
    also have "seq_add s (of_nat (2 ^ 31)) = s"
      using assms(1) by (simp add: word_unat_eq_iff unat_mod_add seq_valid_def)
    finally show thesis using that(2) [of "2 ^ 31 - ?i"] False d(2) by simp
  qed
qed

section \<open>Unbounded positions\<close>

text \<open>The 31-bit number of a position in a stream without bound.\<close>

definition seq_of :: "nat \<Rightarrow> SeqNumber" where
  "seq_of n = of_nat (n mod 2 ^ 31)"

lemma unat_seq_of: "unat (seq_of n) = n mod 2 ^ 31"
  unfolding seq_of_def by (rule unat_seq_offset) simp

lemma seq_of_valid [simp]: "seq_valid (seq_of n)"
  by (simp add: seq_valid_def unat_seq_of)

lemma mod_add_mod_dvd: "m dvd N \<Longrightarrow> (n mod m + k mod N) mod m = (n + k) mod (m :: nat)"
  using mod_mod_cancel [of m N k] mod_add_right_eq [of n "k mod N" m] mod_add_right_eq [of n k m]
  by (simp add: mod_add_left_eq)

lemma seq_of_add: "seq_of (n + k) = seq_add (seq_of n) (of_nat k)"
proof (rule word_unat_eq_iff [THEN iffD2])
  have "unat (seq_add (seq_of n) (of_nat k)) = (n mod 2 ^ 31 + k mod 2 ^ 32) mod 2 ^ 31"
    by (simp add: unat_mod_add unat_seq_of unat_of_nat take_bit_eq_mod)
  also have "\<dots> = (n + k) mod 2 ^ 31"
    by (rule mod_add_mod_dvd) (rule le_imp_power_dvd, simp)
  finally show "unat (seq_of (n + k)) = unat (seq_add (seq_of n) (of_nat k))"
    by (simp add: unat_seq_of)
qed

lemma seq_cmp_seq_of:
  assumes "n < m + 2 ^ 30" "m \<le> n + 2 ^ 30"
  shows "seq_cmp (seq_of n) (seq_of m) = (if n < m then Less else if n = m then Equal else Greater)"
proof -
  have z: "seq_of k = seq_add (seq_of 0) (of_nat k)" for k
    using seq_of_add [of 0 k] by simp
  show ?thesis using seq_cmp_offsets [of "seq_of 0" n m] assms by (simp add: z [of n] z [of m])
qed

lemma seq_diff_seq_of:
  assumes "m \<le> n" "n < m + 2 ^ 31"
  shows "unat (seq_diff (seq_of n) (seq_of m)) = n - m"
  using seq_diff_offset [of "seq_of m" "n - m"] seq_of_add [of m "n - m"] assms by simp

section \<open>Properties\<close>

text \<open>C25: Serial-number arithmetic. Two sequence numbers that lie within one window of
  \<open>2 ^ 30\<close> numbers, wherever the window starts and even if it crosses the wrap-around point,
  are ordered by \<open>Ord::cmp\<close> as their offsets in the window are.\<close>

theorem seq_cmp_window:
  assumes "seq_valid s" "unat i < 2 ^ 30" "unat j < 2 ^ 30"
  shows "seq_cmp (seq_add s i) (seq_add s j) =
    (if unat i < unat j then Less else if unat i = unat j then Equal else Greater)"
  by (rule seq.cmp_window) (use assms in \<open>simp_all add: seq_valid_def\<close>)

theorem seq_cmp_window_witness:
  "seq_cmp (seq_add 2147483647 3) (seq_add 2147483647 0) = Greater"
  using seq_cmp_window [of 2147483647 3 0] by (simp add: seq_valid_def)

text \<open>Moving a sequence number forwards and measuring the distance are inverse to each other,
  and moving backwards undoes moving forwards; all results stay below the modulus.\<close>

theorem seq_arith_inverse:
  assumes "seq_valid a" "seq_valid b" "unat n < 2 ^ 31"
  shows "seq_diff (seq_add a n) a = n \<and> seq_add b (seq_diff a b) = a \<and>
    seq_sub (seq_add a n) n = a \<and> seq_valid (seq_add a n) \<and> seq_valid (seq_sub a n)"
proof -
  have "n + (2 ^ 31 - n) = (2 ^ 31 :: u32)" by simp
  moreover have "seq_sub (seq_add a n) n = seq_add (seq_add a n) (2 ^ 31 - n)"
    using assms by (intro seq_sub_eq_add) simp_all
  ultimately have "seq_sub (seq_add a n) n = seq_add a (2 ^ 31)"
    by (simp add: seq.add_add)
  also have "\<dots> = a"
    using assms by (simp add: word_unat_eq_iff unat_mod_add seq_valid_def)
  finally have "seq_sub (seq_add a n) n = a" .
  moreover have "seq_valid (seq_sub a n)"
    using assms seq_sub_eq_add [of a n] by simp
  ultimately show ?thesis
    using assms by (simp add: seq.diff_add_cancel seq.add_diff seq_valid_alt unat_mod_add)
qed

theorem seq_arith_inverse_witness:
  "seq_diff (seq_add 2147483640 20) 2147483640 = 20 \<and> seq_sub (seq_add 2147483640 20) 20 = 2147483640"
  using seq_arith_inverse [of 2147483640 0 20] by (simp add: seq_valid_def)

text \<open>The order of sequence numbers is antisymmetric except at the distance
  \<open>MAX_DIFF\<close>, where both comparisons answer \<open>Less\<close>.\<close>

theorem seq_cmp_antisym:
  assumes "seq_valid a" "seq_valid b"
  shows "(seq_cmp a b = Less \<and> seq_cmp b a = Less) \<longleftrightarrow> unat (seq_diff a b) = 2 ^ 30"
proof
  assume l: "seq_cmp a b = Less \<and> seq_cmp b a = Less"
  show "unat (seq_diff a b) = 2 ^ 30"
    using l assms seq.cmp_flip [of a b] by (cases "unat (seq_diff a b) = 2 ^ 30") (auto simp: seq_valid_alt)
next
  assume d: "unat (seq_diff a b) = 2 ^ 30"
  then have "a \<noteq> b" using assms seq.diff_self [of a] by (auto simp: seq_valid_alt)
  then have "unat (seq_diff b a) = 2 ^ 30"
    using seq.diff_flip [of a b] d assms by (simp add: seq_valid_alt)
  with d show "seq_cmp a b = Less \<and> seq_cmp b a = Less"
    by (simp add: seq.cmp_Less)
qed

theorem seq_cmp_antisym_witness:
  "seq_cmp 0 1073741824 = Less \<and> seq_cmp 1073741824 0 = Less"
  using seq_cmp_antisym [of 0 1073741824] by (simp add: seq_valid_def mod_diff_def mod_MAX_def)

text \<open>The checked constructor \<open>SeqNumber::new\<close> returns a number that is not below the
  modulus exactly for the input \<open>MAX\<close>: its range check is off by one.\<close>

theorem seq_new_off_by_one:
  "mod_new 31 n = Ok s \<and> \<not> seq_valid s \<longleftrightarrow> n = 2 ^ 31 \<and> s = 2 ^ 31"
  by (auto simp: mod_new_def mod_MAX_def seq_valid_def word_unat_eq_iff word_less_nat_alt)

end
