(* ===== verification/Srt_Time.thy ===== *)
theory Srt_Time
  imports Srt_Prelude "HOL-Library.Signed_Division"
begin

text \<open>
  Time: the wrapping microsecond time stamps and signed time spans of the wire format
  (\<open>packet/time.rs\<close>), the mapping between local instants and remote time stamps
  (\<open>protocol/time/base.rs\<close>), the smoothed round-trip time (\<open>protocol/time/rtt.rs\<close>), periodic
  timers (\<open>protocol/time/timer.rs\<close>) and the set of timers of a connection
  (\<open>protocol/time/mod.rs\<close>).
\<close>

section \<open>Time stamps and time spans\<close>

type_synonym TimeStamp = u32
type_synonym TimeSpan = i32

definition TimeSpan_ZERO :: TimeSpan where
  "TimeSpan_ZERO = 0"

definition span_from_millis :: "i32 \<Rightarrow> TimeSpan" where
  "span_from_millis ms = ms * 1000"

definition span_add :: "TimeSpan \<Rightarrow> TimeSpan \<Rightarrow> TimeSpan" where
  "span_add self rhs = self + rhs"

definition span_add_duration :: "TimeSpan \<Rightarrow> duration \<Rightarrow> TimeSpan" where
  "span_add_duration self rhs = self + of_nat (as_micros rhs)"

definition span_sub_duration :: "TimeSpan \<Rightarrow> duration \<Rightarrow> TimeSpan" where
  "span_sub_duration self rhs = self - of_nat (as_micros rhs)"

definition span_neg :: "TimeSpan \<Rightarrow> TimeSpan" where
  "span_neg self = - self"

definition span_mul :: "TimeSpan \<Rightarrow> i32 \<Rightarrow> TimeSpan" where
  "span_mul self rhs = self * rhs"

definition span_div :: "TimeSpan \<Rightarrow> i32 \<Rightarrow> TimeSpan" where
  "span_div self rhs = word_of_int (sint self sdiv sint rhs)"

definition span_lt :: "TimeSpan \<Rightarrow> TimeSpan \<Rightarrow> bool" where
  "span_lt a b \<longleftrightarrow> sint a < sint b"

definition span_from_interval :: "instant \<Rightarrow> instant \<Rightarrow> TimeSpan" where
  "span_from_interval begin end =
     (if begin \<le> end then span_add_duration TimeSpan_ZERO (instant_sub end begin)
      else span_sub_duration TimeSpan_ZERO (instant_sub begin end))"

definition ts_add_span :: "TimeStamp \<Rightarrow> TimeSpan \<Rightarrow> TimeStamp" where
  "ts_add_span self rhs =
     (if sint rhs < 0 then self - word_of_int \<bar>sint rhs\<bar> else self + rhs)"

definition ts_sub_span :: "TimeStamp \<Rightarrow> TimeSpan \<Rightarrow> TimeStamp" where
  "ts_sub_span self rhs =
     (if sint rhs < 0 then self + word_of_int \<bar>sint rhs\<bar> else self - rhs)"

definition ts_add_duration :: "TimeStamp \<Rightarrow> duration \<Rightarrow> TimeStamp" where
  "ts_add_duration self rhs = self + of_nat (as_micros rhs)"

definition ts_sub_duration :: "TimeStamp \<Rightarrow> duration \<Rightarrow> TimeStamp" where
  "ts_sub_duration self rhs = self - of_nat (as_micros rhs)"

definition ts_diff :: "TimeStamp \<Rightarrow> TimeStamp \<Rightarrow> TimeSpan" where
  "ts_diff self rhs =
     (let pos_sub = self - rhs; neg_sub = rhs - self in
      if pos_sub < neg_sub then pos_sub else span_neg neg_sub)"

definition ts_cmp :: "TimeStamp \<Rightarrow> TimeStamp \<Rightarrow> Ordering" where
  "ts_cmp self other = cmp_int (sint (ts_diff self other)) 0"

definition ts_gt :: "TimeStamp \<Rightarrow> TimeStamp \<Rightarrow> bool" where
  "ts_gt a b \<longleftrightarrow> ts_cmp a b = Greater"

definition ts_lt :: "TimeStamp \<Rightarrow> TimeStamp \<Rightarrow> bool" where
  "ts_lt a b \<longleftrightarrow> ts_cmp a b = Less"

text \<open>\<open>Duration + TimeSpan\<close>: subtracting more than the duration holds panics.\<close>

definition duration_add_span :: "duration \<Rightarrow> TimeSpan \<Rightarrow> (duration, 'e) outcome" where
  "duration_add_span self rhs =
     (if sint rhs > 0 then Ok (self + duration_from_micros (nat (sint rhs)))
      else let d = duration_from_micros (nat \<bar>sint rhs\<bar>) in
           if d \<le> self then Ok (self - d) else Panic)"

definition instant_add_span :: "instant \<Rightarrow> TimeSpan \<Rightarrow> instant" where
  "instant_add_span self rhs =
     (let micros = sint rhs in
      if micros > 0 then self + int (duration_from_micros (nat micros))
      else self - int (duration_from_micros (nat \<bar>micros\<bar>)))"

definition instant_sub_span :: "instant \<Rightarrow> TimeSpan \<Rightarrow> instant" where
  "instant_sub_span self rhs =
     (let micros = sint rhs in
      if micros > 0 then self + int (duration_from_micros (nat micros))
      else self - int (duration_from_micros (nat \<bar>micros\<bar>)))"

section \<open>Facts on time stamps\<close>

lemma ts_add_span_plus [simp]: "ts_add_span t d = t + d"
  by (simp add: ts_add_span_def)

lemma ts_sub_span_minus [simp]: "ts_sub_span t d = t - d"
  by (simp add: ts_sub_span_def)

lemma ts_diff_minus [simp]: "ts_diff a b = a - b"
  by (simp add: ts_diff_def Let_def span_neg_def)

lemma instant_add_span_int: "instant_add_span t d = t + 1000 * sint d"
  by (simp add: instant_add_span_def Let_def duration_from_micros_def)

lemma instant_sub_span_int: "instant_sub_span t d = t + 1000 * sint d"
  by (simp add: instant_sub_span_def Let_def duration_from_micros_def)

lemma sint_i32_range: "- (2 ^ 31) \<le> sint (x :: i32)" "sint (x :: i32) < 2 ^ 31"
  using sint_ge [of x] sint_lt [of x] by simp_all

lemma sint_word_of_int_i32:
  "- (2 ^ 31) \<le> k \<Longrightarrow> k < 2 ^ 31 \<Longrightarrow> sint (word_of_int k :: i32) = k"
  by (simp add: sint_sbintrunc' signed_take_bit_int_eq_self)

section \<open>The time base\<close>

record TimeBase =
  tb_origin_time :: instant
  tb_reference_time :: instant
  tb_reference_ts :: TimeStamp

definition tb_new :: "instant \<Rightarrow> TimeBase" where
  "tb_new start_time =
     \<lparr>tb_origin_time = start_time, tb_reference_time = start_time, tb_reference_ts = 0\<rparr>"

definition tb_timestamp_from :: "TimeBase \<Rightarrow> instant \<Rightarrow> TimeStamp" where
  "tb_timestamp_from self instant =
     (if instant < tb_reference_time self
      then ts_sub_duration (tb_reference_ts self) (instant_sub (tb_reference_time self) instant)
      else ts_add_duration (tb_reference_ts self) (instant_sub instant (tb_reference_time self)))"

definition tb_instant_from :: "TimeBase \<Rightarrow> TimeStamp \<Rightarrow> instant" where
  "tb_instant_from self timestamp =
     instant_add_span (tb_reference_time self) (ts_diff timestamp (tb_reference_ts self))"

definition tb_adjust :: "TimeBase \<Rightarrow> instant \<Rightarrow> TimeSpan \<Rightarrow> TimeBase" where
  "tb_adjust self now drift =
     (let self = self\<lparr>tb_origin_time := instant_sub_span (tb_origin_time self) drift,
                      tb_reference_time := instant_sub_span (tb_reference_time self) drift\<rparr> in
      if now > tb_reference_time self
      then let delta = instant_sub now (tb_reference_time self) in
           self\<lparr>tb_reference_time := tb_reference_time self + int delta,
                tb_reference_ts := ts_add_duration (tb_reference_ts self) delta\<rparr>
      else self)"

section \<open>Round-trip time\<close>

record Rtt =
  rtt_mean :: TimeSpan
  rtt_variance :: TimeSpan

definition rtt_default :: Rtt where
  "rtt_default = \<lparr>rtt_mean = 10000, rtt_variance = 1000\<rparr>"

definition rtt_new :: "TimeSpan \<Rightarrow> TimeSpan \<Rightarrow> Rtt" where
  "rtt_new mean variance = \<lparr>rtt_mean = mean, rtt_variance = variance\<rparr>"

definition rtt_update :: "Rtt \<Rightarrow> TimeSpan \<Rightarrow> Rtt" where
  "rtt_update self rtt =
     (let mean = word_of_int ((sint (rtt_mean self) * 7 + sint rtt) sdiv 8) in
      self\<lparr>rtt_mean := mean,
           rtt_variance := word_of_int
             ((sint (rtt_variance self) * 3 + \<bar>sint (mean :: i32) - sint rtt\<bar>) sdiv 4)\<rparr>)"

text \<open>The conversion of a negative span to a duration panics.\<close>

definition span_as_duration :: "TimeSpan \<Rightarrow> (duration, 'e) outcome" where
  "span_as_duration s = (if sint s < 0 then Panic else Ok (duration_from_micros (nat (sint s))))"

definition rtt_mean_as_duration :: "Rtt \<Rightarrow> (duration, 'e) outcome" where
  "rtt_mean_as_duration self = span_as_duration (rtt_mean self)"

definition rtt_variance_as_duration :: "Rtt \<Rightarrow> (duration, 'e) outcome" where
  "rtt_variance_as_duration self = span_as_duration (rtt_variance self)"

section \<open>A periodic timer\<close>

record Timer =
  tm_period :: duration
  tm_last :: instant

definition timer_new :: "instant \<Rightarrow> duration \<Rightarrow> Timer" where
  "timer_new now period = \<lparr>tm_period = max period (duration_from_micros 1), tm_last = now\<rparr>"

definition timer_next_instant :: "Timer \<Rightarrow> instant" where
  "timer_next_instant self = tm_last self + int (tm_period self)"

definition timer_reset :: "Timer \<Rightarrow> instant \<Rightarrow> Timer" where
  "timer_reset self now = self\<lparr>tm_last := now\<rparr>"

definition timer_set_period :: "Timer \<Rightarrow> duration \<Rightarrow> Timer" where
  "timer_set_period self period = self\<lparr>tm_period := period\<rparr>"

definition timer_check_expired :: "Timer \<Rightarrow> instant \<Rightarrow> u32 option \<times> Timer" where
  "timer_check_expired self now =
     (if tm_period self = 0 then (Some 1, self)
      else if now \<ge> timer_next_instant self
      then let elapsed = instant_sub now (tm_last self);
               elapsed_periods = of_nat (elapsed div tm_period self) :: u32 in
           (Some elapsed_periods,
            self\<lparr>tm_last := tm_last self + int (tm_period self * unat elapsed_periods)\<rparr>)
      else (None, self))"

section \<open>The timers of a connection\<close>

record Timers =
  tms_snd :: Timer
  tms_full_ack :: Timer
  tms_nak :: Timer
  tms_exp :: Timer
  tms_exp_count :: u32
  tms_peer_idle :: Timer
  tms_statistics :: Timer

definition Timers_SYN :: duration where
  "Timers_SYN = duration_from_millis 10"

definition Timers_EXP_MAX :: u32 where
  "Timers_EXP_MAX = 16"

definition calculate_periods ::
  "u32 \<Rightarrow> Rtt \<Rightarrow> (duration \<times> duration \<times> duration, 'e) outcome" where
  "calculate_periods exp_count rtt =
     bind_outcome (rtt_mean_as_duration rtt) (\<lambda>mean.
     bind_outcome (rtt_variance_as_duration rtt) (\<lambda>variance.
       let nak_rtt_period = (mean + 4 * variance) div 2;
           nak_period = max nak_rtt_period (duration_from_millis 20);
           exp_rtt_period = 4 * mean + variance + Timers_SYN;
           exp_period = max (unat exp_count * exp_rtt_period)
                            (unat exp_count * duration_from_millis 300)
       in Ok (duration_from_millis 10, nak_period, exp_period)))"

definition timers_new :: "instant \<Rightarrow> duration \<Rightarrow> duration \<Rightarrow> (Timers, 'e) outcome" where
  "timers_new now statistics_interval peer_idle_timeout =
     bind_outcome (calculate_periods 1 rtt_default) (\<lambda>(ack, nak, exp).
       Ok \<lparr>tms_snd = timer_new now (duration_from_millis 1),
           tms_full_ack = timer_new now ack,
           tms_nak = timer_new now nak,
           tms_exp = timer_new now exp,
           tms_exp_count = 1,
           tms_peer_idle = timer_new now peer_idle_timeout,
           tms_statistics = timer_new now statistics_interval\<rparr>)"

definition next_timer ::
  "Timers \<Rightarrow> instant \<Rightarrow> bool \<Rightarrow> instant option \<Rightarrow> u32 \<Rightarrow> instant" where
  "next_timer self now has_packets_to_send next_message unacked_packets =
     (let timer = min (timer_next_instant (tms_exp self)) (timer_next_instant (tms_nak self));
          timer = (case next_message of None \<Rightarrow> timer | Some message \<Rightarrow> min timer message);
          timer = (if unacked_packets > 0
                   then min (timer_next_instant (tms_full_ack self)) timer else timer);
          timer = (if has_packets_to_send
                   then min (timer_next_instant (tms_snd self)) timer else timer)
      in max now timer)"

definition check_snd :: "Timers \<Rightarrow> instant \<Rightarrow> u32 option \<times> Timers" where
  "check_snd self now =
     (case timer_check_expired (tms_snd self) now of (r, t) \<Rightarrow> (r, self\<lparr>tms_snd := t\<rparr>))"

definition check_full_ack :: "Timers \<Rightarrow> instant \<Rightarrow> u32 option \<times> Timers" where
  "check_full_ack self now =
     (case timer_check_expired (tms_full_ack self) now of (r, t) \<Rightarrow> (r, self\<lparr>tms_full_ack := t\<rparr>))"

definition check_nak :: "Timers \<Rightarrow> instant \<Rightarrow> u32 option \<times> Timers" where
  "check_nak self now =
     (case timer_check_expired (tms_nak self) now of (r, t) \<Rightarrow> (r, self\<lparr>tms_nak := t\<rparr>))"

definition check_statistics :: "Timers \<Rightarrow> instant \<Rightarrow> u32 option \<times> Timers" where
  "check_statistics self now =
     (case timer_check_expired (tms_statistics self) now of
        (r, t) \<Rightarrow> (r, self\<lparr>tms_statistics := t\<rparr>))"

definition check_peer_idle_timeout :: "Timers \<Rightarrow> instant \<Rightarrow> u32 option \<times> Timers" where
  "check_peer_idle_timeout self now =
     (case timer_check_expired (tms_exp self) now of
        (None, exp) \<Rightarrow> (None, self\<lparr>tms_exp := exp\<rparr>)
      | (Some _, exp) \<Rightarrow>
          (case timer_check_expired (tms_peer_idle self) now of (r, idle) \<Rightarrow>
             let self = self\<lparr>tms_exp := exp, tms_peer_idle := idle\<rparr> in
             if r \<noteq> None \<and> tms_exp_count self > Timers_EXP_MAX then (r, self)
             else (None, self\<lparr>tms_exp_count := tms_exp_count self + 1\<rparr>)))"

definition update_snd_period :: "Timers \<Rightarrow> duration \<Rightarrow> Timers" where
  "update_snd_period self period = self\<lparr>tms_snd := timer_set_period (tms_snd self) period\<rparr>"

definition update_rtt :: "Timers \<Rightarrow> Rtt \<Rightarrow> (Timers, 'e) outcome" where
  "update_rtt self rtt =
     bind_outcome (calculate_periods (tms_exp_count self) rtt) (\<lambda>(ack, nak, exp).
       Ok (self\<lparr>tms_full_ack := timer_set_period (tms_full_ack self) ack,
                tms_nak := timer_set_period (tms_nak self) nak,
                tms_exp := timer_set_period (tms_exp self) exp\<rparr>))"

definition reset_exp :: "Timers \<Rightarrow> instant \<Rightarrow> Timers" where
  "reset_exp self now =
     self\<lparr>tms_exp_count := 1, tms_peer_idle := timer_reset (tms_peer_idle self) now\<rparr>"

section \<open>Properties\<close>

text \<open>C30: An expired timer with a non-zero period reports how many whole periods have passed and
  moves its start by exactly that many periods, so that the present lies inside the period it is
  now in: no expiry is lost and the timer does not drift.\<close>

theorem timer_check_expired_spec:
  assumes "0 < tm_period t" "timer_next_instant t \<le> now"
    and "nat (now - tm_last t) div tm_period t < 2 ^ 32"
  shows "\<exists>n. timer_check_expired t now = (Some n, t\<lparr>tm_last := tm_last t + int (tm_period t * unat n)\<rparr>)
    \<and> 1 \<le> unat n
    \<and> tm_last t + int (tm_period t * unat n) \<le> now
    \<and> now < tm_last t + int (tm_period t * unat n) + int (tm_period t)"
proof -
  define k where "k = nat (now - tm_last t) div tm_period t"
  have e: "int (nat (now - tm_last t)) = now - tm_last t"
    using assms by (simp add: timer_next_instant_def)
  have "unat (of_nat k :: u32) = k"
    using assms by (simp add: k_def unat_of_nat)
  moreover have "tm_period t \<le> nat (now - tm_last t)"
    using assms by (simp add: timer_next_instant_def)
  then have "1 \<le> k"
    using assms by (simp add: k_def div_greater_zero_iff Suc_leI)
  moreover have "tm_period t * k \<le> nat (now - tm_last t)"
    "nat (now - tm_last t) < tm_period t * k + tm_period t"
    using assms dividend_less_times_div [of "tm_period t" "nat (now - tm_last t)"]
    by (simp_all add: k_def)
  moreover have "timer_check_expired t now =
      (Some (of_nat k), t\<lparr>tm_last := tm_last t + int (tm_period t * unat (of_nat k :: u32))\<rparr>)"
    using assms by (simp add: timer_check_expired_def instant_sub_def k_def Let_def)
  moreover have "tm_last t + int (tm_period t * k) \<le> now"
    "now < tm_last t + int (tm_period t * k) + int (tm_period t)"
    using calculation(3,4) e by linarith+
  ultimately show ?thesis
    by (intro exI [of _ "of_nat k"]) (simp del: of_nat_mult)
qed

theorem timer_check_expired_spec_witness:
  "\<exists>n. timer_check_expired \<lparr>tm_period = 10, tm_last = 5\<rparr> 47
      = (Some n, \<lparr>tm_period = 10, tm_last = 5 + int (10 * unat n)\<rparr>)"
  using timer_check_expired_spec [of "\<lparr>tm_period = 10, tm_last = 5\<rparr>" 47]
  by (auto simp: timer_next_instant_def)

text \<open>Mapping a time stamp to a local instant and back gives the time stamp again, for every
  time base and every time stamp, including those across the 32-bit wrap-around.\<close>

theorem timestamp_roundtrip: "tb_timestamp_from tb (tb_instant_from tb ts) = ts"
proof -
  let ?d = "ts - tb_reference_ts tb"
  have "of_nat (nat (sint ?d)) = ?d" if "0 \<le> sint ?d"
    using that by simp
  moreover have "of_nat (nat (- sint ?d)) = - ?d" if "sint ?d < 0"
    using that by simp
  moreover have "nat (- (1000 * sint ?d)) div 1000 = nat (- sint ?d)"
    using nat_mult_distrib [of 1000 "- sint ?d"] by simp
  ultimately show ?thesis
    by (auto simp: tb_timestamp_from_def tb_instant_from_def instant_add_span_int instant_sub_def
        ts_sub_duration_def ts_add_duration_def as_micros_def not_less nat_mult_distrib)
qed

text \<open>Subtracting a time span from an instant is implemented as adding it: both operators are
  the same function.\<close>

theorem instant_sub_span_is_add:
  "instant_sub_span t d = instant_add_span t d"
  by (simp add: instant_sub_span_int instant_add_span_int)

lemma sdiv_bounds:
  fixes a :: int
  assumes "0 \<le> a" "0 < b"
  shows "a sdiv b = a div b"
  using assms by (simp add: signed_divide_int_def sgn_if)

text \<open>C31: The smoothed round-trip time never leaves the range spanned by its old value and the
  sample, and the deviation stays non-negative and representable: the fixed-point update does not
  overflow and the conversions to a duration that the timers make never panic.\<close>

theorem rtt_update_bounds:
  assumes "0 \<le> sint (rtt_mean r)" "0 \<le> sint (rtt_variance r)" "0 \<le> sint s"
  shows "sint (rtt_mean (rtt_update r s)) = (7 * sint (rtt_mean r) + sint s) div 8
    \<and> min (sint (rtt_mean r)) (sint s) \<le> sint (rtt_mean (rtt_update r s))
    \<and> sint (rtt_mean (rtt_update r s)) \<le> max (sint (rtt_mean r)) (sint s)
    \<and> 0 \<le> sint (rtt_variance (rtt_update r s))
    \<and> rtt_mean_as_duration (rtt_update r s) \<noteq> Panic
    \<and> rtt_variance_as_duration (rtt_update r s) \<noteq> Panic"
proof -
  let ?m = "(7 * sint (rtt_mean r) + sint s) div 8"
  have m: "sint (rtt_mean (rtt_update r s)) = ?m"
    using assms sint_i32_range(2) [of "rtt_mean r"] sint_i32_range(2) [of s]
    by (simp add: rtt_update_def Let_def sdiv_bounds sint_word_of_int_i32 mult.commute)
  have b: "min (sint (rtt_mean r)) (sint s) \<le> ?m" "?m \<le> max (sint (rtt_mean r)) (sint s)"
    by linarith+
  have mb: "0 \<le> ?m" "?m < 2 ^ 31"
    using assms b sint_i32_range(2) [of "rtt_mean r"] sint_i32_range(2) [of s] by linarith+
  let ?v = "sint (rtt_variance r) * 3 + \<bar>?m - sint s\<bar>"
  have v: "0 \<le> ?v" "?v < 4 * 2 ^ 31"
    using assms mb sint_i32_range(2) [of "rtt_variance r"] sint_i32_range(2) [of s] by linarith+
  have "rtt_variance (rtt_update r s) = word_of_int (?v sdiv 4)"
    using m by (simp add: rtt_update_def Let_def)
  then have "sint (rtt_variance (rtt_update r s)) = ?v div 4"
    using v by (simp add: sdiv_bounds sint_word_of_int_i32)
  then have nv: "0 \<le> sint (rtt_variance (rtt_update r s))"
    using v(1) by (simp only: pos_imp_zdiv_nonneg_iff zero_less_numeral)
  have nm: "0 \<le> sint (rtt_mean (rtt_update r s))"
    using mb(1) m by (simp only:)
  have "rtt_mean_as_duration (rtt_update r s) \<noteq> Panic"
    "rtt_variance_as_duration (rtt_update r s) \<noteq> Panic"
    using nm nv
    by (simp_all only: rtt_mean_as_duration_def rtt_variance_as_duration_def span_as_duration_def
        not_less [symmetric] if_False outcome.distinct not_False_eq_True)
  then show ?thesis
    using m b nv by (simp only:)
qed

theorem rtt_update_bounds_witness:
  "sint (rtt_mean (rtt_update rtt_default 50000)) = 15000"
  using rtt_update_bounds [of rtt_default 50000, THEN conjunct1] by (simp add: rtt_default_def)

text \<open>The time to sleep: the next timer instant is never in the past, and never later than the
  EXP or NAK timers, than a message waiting for release, than the ACK timer when packets are
  unacknowledged, and than the SND timer when packets wait to be sent.\<close>

theorem next_timer_spec:
  "now \<le> next_timer t now has_packets msg unacked
   \<and> next_timer t now has_packets msg unacked
       \<le> max now (min (timer_next_instant (tms_exp t)) (timer_next_instant (tms_nak t)))
   \<and> next_timer t now has_packets (Some m) unacked \<le> max now m
   \<and> (next_timer t now True msg unacked \<le> max now (timer_next_instant (tms_snd t)))
   \<and> (unacked = 0 \<or> next_timer t now has_packets msg unacked
       \<le> max now (timer_next_instant (tms_full_ack t)))"
  by (auto simp: next_timer_def Let_def word_gt_0 le_max_iff_disj min_le_iff_disj
      split: option.splits)

text \<open>The results of successive peer-idle checks.\<close>

fun peer_idle_checks :: "Timers \<Rightarrow> instant list \<Rightarrow> u32 option list" where
  "peer_idle_checks t [] = []"
| "peer_idle_checks t (now # nows) =
     (case check_peer_idle_timeout t now of (r, t') \<Rightarrow> r # peer_idle_checks t' nows)"

lemma check_peer_idle_timeout_count:
  assumes "unat (tms_exp_count t) < 17"
  shows "fst (check_peer_idle_timeout t now) = None
    \<and> unat (tms_exp_count (snd (check_peer_idle_timeout t now))) \<le> unat (tms_exp_count t) + 1"
proof -
  have "\<not> 16 < tms_exp_count t" "unat (tms_exp_count t + 1) = unat (tms_exp_count t) + 1"
    using assms by (auto simp: word_less_nat_alt unat_word_ariths)
  then show ?thesis
    by (auto simp: check_peer_idle_timeout_def Timers_EXP_MAX_def Let_def split: prod.splits option.splits)
qed

lemma peer_idle_checks_None:
  "unat (tms_exp_count t) + length nows \<le> 17 \<Longrightarrow> r \<in> set (peer_idle_checks t nows) \<Longrightarrow> r = None"
proof (induction nows arbitrary: t)
  case (Cons now nows)
  obtain r' t' where c: "check_peer_idle_timeout t now = (r', t')"
    by (cases "check_peer_idle_timeout t now")
  have "r' = None" "unat (tms_exp_count t') \<le> unat (tms_exp_count t) + 1"
    using check_peer_idle_timeout_count [of t now] Cons.prems(1) c by auto
  then have "r \<in> set (peer_idle_checks t' nows) \<Longrightarrow> r = None"
    using Cons.prems(1) by (intro Cons.IH) auto
  with Cons.prems(2) c \<open>r' = None\<close> show ?case by auto
qed simp

text \<open>The peer-idle timeout cannot fire in any of the first sixteen checks after a packet from
  the peer has reset the EXP counter, whatever the times of the checks.\<close>

theorem peer_idle_not_before_17:
  assumes "length nows \<le> 16"
  shows "set (peer_idle_checks (reset_exp t now) nows) \<subseteq> {None}"
  using peer_idle_checks_None [of "reset_exp t now" nows] assms by (auto simp: reset_exp_def)

theorem peer_idle_not_before_17_witness:
  "length [400000000 :: int, 800000000] \<le> 16
   \<and> set (peer_idle_checks
        (reset_exp \<lparr>tms_snd = timer_new 0 1000, tms_full_ack = timer_new 0 1000,
           tms_nak = timer_new 0 1000, tms_exp = timer_new 0 300000000, tms_exp_count = 3,
           tms_peer_idle = timer_new 0 1000, tms_statistics = timer_new 0 1000\<rparr> 0)
        [400000000, 800000000]) \<subseteq> {None}"
  using peer_idle_not_before_17 [of "[400000000, 800000000]"] by simp

end
