(* ===== verification/Loss_Compression.thy ===== *)
theory Loss_Compression
  imports Modular_Num
begin

text \<open>
  Compression of loss lists (\<open>packet/control/loss_compression.rs\<close>): the two iterators with their
  state, the lists that \<open>collect\<close> makes of them, and the constructors of \<open>CompressedLossList\<close>
  (\<open>packet/control/mod.rs\<close>). The underlying iterator is the list of the items it still yields.
\<close>

section \<open>Compression\<close>

text \<open>The bit \<open>1 << 31\<close> that marks the start of a range.\<close>

definition loop_flag :: u32 where
  "loop_flag = push_bit 31 1"

record CompressLossList =
  cl_iterator :: "SeqNumber list"
  cl_next :: "SeqNumber option"
  cl_last_in_loop :: "SeqNumber option"

text \<open>The \<open>loop\<close> of \<open>next\<close>, entered with \<open>this\<close> taken from \<open>self.next\<close>.\<close>

fun compress_loop ::
  "SeqNumber list \<Rightarrow> SeqNumber \<Rightarrow> SeqNumber option \<Rightarrow> (u32 option \<times> CompressLossList) may_panic" where
  "compress_loop [] this lst =
     Ok (Some this, \<lparr>cl_iterator = [], cl_next = None, cl_last_in_loop = lst\<rparr>)"
| "compress_loop (i # it) this lst =
     (if \<not> seq_lt this i then Panic
      else case lst of
        Some last_in_loop \<Rightarrow>
          if seq_add last_in_loop 2 = i then compress_loop it i (Some (seq_add last_in_loop 1))
          else Ok (Some this, \<lparr>cl_iterator = it, cl_next = Some i, cl_last_in_loop = None\<rparr>)
      | None \<Rightarrow>
          if seq_add this 1 = i
          then Ok (Some (this OR loop_flag),
                   \<lparr>cl_iterator = it, cl_next = Some i, cl_last_in_loop = Some this\<rparr>)
          else Ok (Some this, \<lparr>cl_iterator = it, cl_next = Some i, cl_last_in_loop = None\<rparr>))"

fun compress_next :: "CompressLossList \<Rightarrow> (u32 option \<times> CompressLossList) may_panic" where
  "compress_next self =
     (case cl_next self of
        Some this \<Rightarrow> compress_loop (cl_iterator self) this (cl_last_in_loop self)
      | None \<Rightarrow>
          (case cl_iterator self of
             [] \<Rightarrow> Ok (None, self)
           | i # it \<Rightarrow> compress_loop it i (cl_last_in_loop self)))"

declare compress_next.simps [simp del]

definition compress_loss_list :: "SeqNumber list \<Rightarrow> CompressLossList" where
  "compress_loss_list loss_list =
     \<lparr>cl_iterator = loss_list, cl_next = None, cl_last_in_loop = None\<rparr>"

definition cl_size :: "CompressLossList \<Rightarrow> nat" where
  "cl_size s = length (cl_iterator s) + (case cl_next s of None \<Rightarrow> 0 | Some _ \<Rightarrow> 1)"

lemma compress_loop_size:
  "compress_loop it this lst = Ok (Some w, s') \<Longrightarrow> cl_size s' \<le> length it"
  by (induction it this lst rule: compress_loop.induct)
    (auto simp: cl_size_def split: if_splits option.splits)

lemma compress_next_size:
  "compress_next s = Ok (Some w, s') \<Longrightarrow> cl_size s' < cl_size s"
  by (auto simp: compress_next.simps cl_size_def [of s] split: option.splits list.splits
      dest!: compress_loop_size)

function compress_collect :: "CompressLossList \<Rightarrow> u32 list may_panic" where
  "compress_collect s =
     (case compress_next s of
        Ok (Some w, s') \<Rightarrow> map_outcome_ok (Cons w) (compress_collect s')
      | Ok (None, _) \<Rightarrow> Ok []
      | Err e \<Rightarrow> Err e
      | Panic \<Rightarrow> Panic)"
  by pat_completeness auto
termination
  by (relation "measure cl_size") (auto dest: compress_next_size)

declare compress_collect.simps [simp del]

section \<open>Decompression\<close>

record DecompressLossList =
  dl_iterator :: "u32 list"
  dl_loop_next_end :: "(u32 \<times> u32) option"

definition decompress_next ::
  "DecompressLossList \<Rightarrow> (SeqNumber option \<times> DecompressLossList) may_panic" where
  "decompress_next self =
     (case dl_loop_next_end self of
        Some (next, end) \<Rightarrow>
          if next = end then Ok (Some (seq_new_truncate next), self\<lparr>dl_loop_next_end := None\<rparr>)
          else Ok (Some (seq_new_truncate next), self\<lparr>dl_loop_next_end := Some (next + 1, end)\<rparr>)
      | None \<Rightarrow>
          (case dl_iterator self of
             [] \<Rightarrow> Ok (None, self)
           | next # it \<Rightarrow>
               if next AND loop_flag \<noteq> 0
               then let next_num = next AND NOT loop_flag in
                    (case it of
                       [] \<Rightarrow> Panic
                     | i # it' \<Rightarrow>
                         Ok (Some (seq_new_truncate next_num),
                             \<lparr>dl_iterator = it', dl_loop_next_end = Some (next_num + 1, i)\<rparr>))
               else Ok (Some (seq_new_truncate next), self\<lparr>dl_iterator := it\<rparr>)))"

definition decompress_loss_list :: "u32 list \<Rightarrow> DecompressLossList" where
  "decompress_loss_list loss_list = \<lparr>dl_iterator = loss_list, dl_loop_next_end = None\<rparr>"

definition dl_rank :: "DecompressLossList \<Rightarrow> nat" where
  "dl_rank s = (case dl_loop_next_end s of None \<Rightarrow> 0 | Some (next, end) \<Rightarrow> Suc (unat (end - next)))"

lemma dl_rank_step: "next \<noteq> end \<Longrightarrow> unat (end - (next + 1)) < unat (end - next :: u32)"
proof -
  assume ne: "next \<noteq> end"
  then have "unat ((end - next) - 1) = unat (end - next) - 1"
    by (intro unat_minus_one) simp
  moreover have "end - (next + 1) = (end - next) - 1" by simp
  moreover have "0 < unat (end - next)" using ne by (simp add: unat_gt_0)
  ultimately show ?thesis by (metis diff_less zero_less_one)
qed

lemma decompress_next_decreases:
  "decompress_next s = Ok (Some w, s') \<Longrightarrow>
     (s', s) \<in> measures [\<lambda>s. length (dl_iterator s), dl_rank]"
  by (auto simp: decompress_next_def dl_rank_def Let_def dl_rank_step
      split: option.splits list.splits if_splits)

function decompress_collect :: "DecompressLossList \<Rightarrow> SeqNumber list may_panic" where
  "decompress_collect s =
     (case decompress_next s of
        Ok (Some w, s') \<Rightarrow> map_outcome_ok (Cons w) (decompress_collect s')
      | Ok (None, _) \<Rightarrow> Ok []
      | Err e \<Rightarrow> Err e
      | Panic \<Rightarrow> Panic)"
  by pat_completeness auto
termination
  by (relation "measures [\<lambda>s. length (dl_iterator s), dl_rank]")
    (auto dest: decompress_next_decreases simp del: in_measures)

declare decompress_collect.simps [simp del]

section \<open>Loss lists\<close>

type_synonym CompressedLossList = "u32 list"

definition try_from_iter :: "SeqNumber list \<Rightarrow> CompressedLossList option may_panic" where
  "try_from_iter iter =
     map_outcome_ok (\<lambda>loss_list. if loss_list = [] then None else Some loss_list)
       (compress_collect (compress_loss_list iter))"

text \<open>A Rust range \<open>start..end\<close> is empty unless \<open>start < end\<close>.\<close>

definition range_is_empty :: "SeqNumber \<Rightarrow> SeqNumber \<Rightarrow> bool" where
  "range_is_empty start end \<longleftrightarrow> \<not> seq_lt start end"

definition try_from_range :: "SeqNumber \<Rightarrow> SeqNumber \<Rightarrow> CompressedLossList option" where
  "try_from_range start end =
     (if range_is_empty start end then None
      else if seq_add start 1 = end then Some [start]
      else Some [loop_flag OR start, seq_sub end 1])"

definition iter_decompressed :: "CompressedLossList \<Rightarrow> SeqNumber list may_panic" where
  "iter_decompressed self = decompress_collect (decompress_loss_list self)"

section \<open>The collected lists, as plain recursions\<close>

text \<open>What is collected from a compressor that holds \<open>this\<close> and the rest \<open>it\<close>, when no order
  assertion fails.\<close>

fun compress_from :: "SeqNumber list \<Rightarrow> SeqNumber \<Rightarrow> SeqNumber option \<Rightarrow> u32 list" where
  "compress_from [] this lst = [this]"
| "compress_from (i # it) this (Some l) =
     (if seq_add l 2 = i then compress_from it i (Some (seq_add l 1))
      else this # compress_from it i None)"
| "compress_from (i # it) this None =
     (if seq_add this 1 = i then (this OR loop_flag) # compress_from it i (Some this)
      else this # compress_from it i None)"

lemma compress_collect_next:
  "compress_collect \<lparr>cl_iterator = it, cl_next = Some this, cl_last_in_loop = lst\<rparr> =
     (case compress_loop it this lst of
        Ok (Some w, s') \<Rightarrow> map_outcome_ok (Cons w) (compress_collect s')
      | Ok (None, _) \<Rightarrow> Ok []
      | Err e \<Rightarrow> Err e
      | Panic \<Rightarrow> Panic)"
  by (subst compress_collect.simps) (simp add: compress_next.simps)

lemma compress_collect_done:
  "compress_collect \<lparr>cl_iterator = [], cl_next = None, cl_last_in_loop = lst\<rparr> = Ok []"
  by (subst compress_collect.simps) (simp add: compress_next.simps)

lemma compress_collect_from:
  assumes "successively seq_lt (this # it)"
  shows "compress_collect \<lparr>cl_iterator = it, cl_next = Some this, cl_last_in_loop = lst\<rparr>
    = Ok (compress_from it this lst)"
  using assms
proof (induction it this lst rule: compress_from.induct)
  case (1 this lst)
  show ?case by (simp add: compress_collect_next compress_collect_done)
next
  case (2 i it this l)
  show ?case
  proof (cases "seq_add l 2 = i")
    case True
    with 2(1) 2(3) show ?thesis by (simp add: compress_collect_next)
  next
    case False
    with 2 show ?thesis by (simp add: compress_collect_next)
  qed
next
  case (3 i it this)
  then show ?case by (auto simp add: compress_collect_next)
qed

lemma compress_loss_list_collect:
  assumes "successively seq_lt (s # ss)"
  shows "compress_collect (compress_loss_list (s # ss)) = Ok (compress_from ss s None)"
proof -
  have "compress_collect (compress_loss_list (s # ss)) = (compress_collect
      \<lparr>cl_iterator = ss, cl_next = Some s, cl_last_in_loop = None\<rparr> :: u32 list may_panic)"
    by (subst compress_collect.simps, subst compress_collect_next)
      (simp add: compress_next.simps compress_loss_list_def)
  then show ?thesis using assms by (simp add: compress_collect_from)
qed

abbreviation decompress_from ::
  "u32 list \<Rightarrow> (u32 \<times> u32) option \<Rightarrow> SeqNumber list may_panic" where
  "decompress_from it loop \<equiv> decompress_collect \<lparr>dl_iterator = it, dl_loop_next_end = loop\<rparr>"

lemma decompress_from_Nil: "decompress_from [] None = Ok []"
  by (subst decompress_collect.simps) (simp add: decompress_next_def)

lemma decompress_from_loop:
  "decompress_from it (Some (n, e)) = map_outcome_ok (Cons (seq_new_truncate n))
     (decompress_from it (if n = e then None else Some (n + 1, e)))"
  by (subst decompress_collect.simps) (simp add: decompress_next_def)

lemma decompress_from_plain:
  "w AND loop_flag = 0 \<Longrightarrow> decompress_from (w # it) None =
     map_outcome_ok (Cons (seq_new_truncate w)) (decompress_from it None)"
  by (subst decompress_collect.simps) (simp add: decompress_next_def)

lemma decompress_from_start:
  "w AND loop_flag \<noteq> 0 \<Longrightarrow> decompress_from (w # e # it) None =
     map_outcome_ok (Cons (seq_new_truncate (w AND NOT loop_flag)))
       (decompress_from it (Some ((w AND NOT loop_flag) + 1, e)))"
  by (subst decompress_collect.simps) (simp add: decompress_next_def Let_def)

lemma decompress_from_unterminated:
  "w AND loop_flag \<noteq> 0 \<Longrightarrow> decompress_from [w] None = Panic"
  by (subst decompress_collect.simps) (simp add: decompress_next_def Let_def)

section \<open>Round trip\<close>

lemma bit_loop_flag: "bit loop_flag n \<longleftrightarrow> n = 31"
  unfolding loop_flag_def bit_push_bit_iff bit_1_iff possible_bit_word by auto

lemma valid_bit31:
  assumes "seq_valid s"
  shows "s AND loop_flag = 0" "(s OR loop_flag) AND loop_flag \<noteq> 0"
    "(s OR loop_flag) AND NOT loop_flag = s"
proof -
  have "s = take_bit 31 s"
    using assms
    by (simp add: seq_valid_def word_unat_eq_iff take_bit_eq_mod unat_mod_distrib)
  then have nb: "\<not> bit s n" if "31 \<le> n" for n
    using that by (metis bit_take_bit_iff not_less)
  then show "s AND loop_flag = 0"
    by (intro bit_word_eqI) (auto simp: bit_simps bit_loop_flag)
  have "bit ((s OR loop_flag) AND loop_flag) 31"
    by (simp add: bit_simps bit_loop_flag)
  then show "(s OR loop_flag) AND loop_flag \<noteq> 0"
    by (metis bit_0_eq bot_apply bot_bool_def)
  show "(s OR loop_flag) AND NOT loop_flag = s"
    using nb by (intro bit_word_eqI) (auto simp: bit_simps bit_loop_flag)
qed

lemma decompress_from_range:
  assumes "seq_valid s"
  shows "decompress_from ((s OR loop_flag) # e # it) None =
    map_outcome_ok (Cons s) (decompress_from it (Some (s + 1, e)))"
  using decompress_from_start [OF valid_bit31(2) [OF assms], of e it]
  unfolding valid_bit31(3) [OF assms] seq_new_truncate_id [OF assms] .

lemma map_outcome_ok_comp [simp]:
  "map_outcome_ok f (map_outcome_ok g m) = map_outcome_ok (f \<circ> g) m"
  by (cases m) auto

lemma decompress_loop_run:
  assumes "unat m \<le> unat e" "unat e < 2 ^ 31"
  shows "decompress_from it (Some (m, e)) =
    map_outcome_ok (append (map of_nat [unat m ..< Suc (unat e)])) (decompress_from it None)"
  using assms(1)
proof (induction "unat e - unat m" arbitrary: m)
  case 0
  then have "m = e" by (simp add: word_unat_eq_iff)
  moreover have "seq_new_truncate e = e"
    using assms by (simp add: seq_new_truncate_id seq_valid_def)
  ultimately show ?case by (cases "decompress_from it None") (auto simp: decompress_from_loop)
next
  case (Suc k)
  then have lt: "unat m < unat e" by simp
  then have m1: "unat (m + 1) = Suc (unat m)" "m \<noteq> e"
    using assms by (auto simp: unat_word_ariths)
  have "seq_new_truncate m = m"
    using lt assms by (simp add: seq_new_truncate_id seq_valid_def)
  moreover have "decompress_from it (Some (m + 1, e)) =
      map_outcome_ok (append (map of_nat [unat (m + 1) ..< Suc (unat e)])) (decompress_from it None)"
    using Suc.hyps(2) lt m1 by (intro Suc.hyps(1)) auto
  moreover have "[unat m ..< Suc (unat e)] = unat m # [unat (m + 1) ..< Suc (unat e)]"
    using lt m1 by (simp add: upt_rec)
  ultimately show ?case
    using m1(2) by (cases "decompress_from it None") (simp_all add: decompress_from_loop [of it m e])
qed

text \<open>How often a list steps from the last sequence number \<open>2 ^ 31 - 1\<close> to its successor \<open>0\<close>.\<close>

fun wraps :: "SeqNumber list \<Rightarrow> nat" where
  "wraps (a # b # r) = (if unat a = 2 ^ 31 - 1 \<and> b = 0 then 1 else 0) + wraps (b # r)"
| "wraps _ = 0"

lemma seq_add_one_cases:
  assumes "seq_valid l"
  obtains (step) "unat (seq_add l 1) = Suc (unat l)" "seq_add l 1 = l + 1" "Suc (unat l) < 2 ^ 31"
  | (wrap) "unat l = 2 ^ 31 - 1" "seq_add l 1 = 0"
proof (cases "Suc (unat l) < 2 ^ 31")
  case True
  then have "unat (seq_add l 1) = Suc (unat l)"
    using assms by (simp add: unat_mod_add seq_valid_def)
  with True show thesis
    by (intro step) (simp_all add: word_unat_eq_iff unat_word_ariths)
next
  case False
  then have "unat l = 2 ^ 31 - 1" using assms by (simp add: seq_valid_def)
  moreover from this have "unat (seq_add l 1) = 0"
    using assms by (simp add: unat_mod_add seq_valid_def)
  ultimately show thesis by (intro wrap) (simp_all add: unat_eq_zero)
qed

lemma seq_add_one_no_wrap:
  assumes "seq_valid l" "seq_add l 1 = i" "wraps (l # i # r) = 0"
  shows "unat i = Suc (unat l)" "i = l + 1" "wraps (i # r) = 0"
  using assms by (cases rule: seq_add_one_cases [OF assms(1)]; simp split: if_splits)+

lemma seq_add_one_step:
  assumes "seq_valid l" "seq_valid i" "unat l < unat i"
  shows "unat (seq_add l 1) = Suc (unat l)"
  using assms by (simp add: unat_mod_add seq_valid_def)

lemma seq_add_two: "seq_add l 2 = seq_add (seq_add l 1) 1"
  by (simp add: seq.add_add)

lemma compress_from_nonempty: "compress_from it this lst \<noteq> []"
  by (induction it this lst rule: compress_from.induct) auto

lemma decompress_compress_from:
  assumes "\<forall>s \<in> set (this # it). seq_valid s" "wraps (this # it) = 0"
  shows "case lst of
      None \<Rightarrow> decompress_from (compress_from it this lst) None = Ok (this # it)
    | Some l \<Rightarrow> seq_add l 1 = this \<longrightarrow> (\<forall>m. unat m \<le> unat this \<longrightarrow>
        decompress_from (tl (compress_from it this lst)) (Some (m, hd (compress_from it this lst)))
        = Ok (map of_nat [unat m ..< unat this] @ this # it))"
  using assms
proof (induction it this lst rule: compress_from.induct)
  case (1 this lst)
  then show ?case
    by (auto simp: decompress_from_plain decompress_loop_run decompress_from_Nil valid_bit31
        seq_new_truncate_id seq_valid_def split: option.splits)
next
  case (2 i it this l)
  then have asc: "\<forall>s \<in> set (i # it). seq_valid s" "wraps (i # it) = 0" "seq_valid this" "seq_valid i"
    by (auto split: if_splits)
  show ?case
  proof (cases "seq_add l 2 = i")
    case True
    have "decompress_from (tl (compress_from it i (Some this)))
        (Some (m, hd (compress_from it i (Some this)))) = Ok (map of_nat [unat m ..< unat this] @ this # i # it)"
      if l: "seq_add l 1 = this" and m: "unat m \<le> unat this" for m
    proof -
      have i: "seq_add this 1 = i" using True l by (simp add: seq_add_two)
      then have "unat i = Suc (unat this)" using asc(3) "2.prems"(2) seq_add_one_no_wrap(1) by blast
      then show ?thesis using "2.IH"(1) True asc l i m by simp
    qed
    then show ?thesis using True by auto
  next
    case False
    with 2 asc show ?thesis by (auto simp: decompress_loop_run seq_valid_def)
  qed
next
  case (3 i it this)
  then have asc: "\<forall>s \<in> set (i # it). seq_valid s" "wraps (i # it) = 0" "seq_valid this" "seq_valid i"
    by (auto split: if_splits)
  show ?case
  proof (cases "seq_add this 1 = i")
    case True
    let ?c = "compress_from it i (Some this)"
    have i1: "i = this + 1" using asc(3) True "3.prems"(2) by (rule seq_add_one_no_wrap(2))
    have "decompress_from (tl ?c) (Some (i, hd ?c)) = Ok (i # it)"
      using "3.IH"(1) True asc by simp
    then have "decompress_from ((this OR loop_flag) # hd ?c # tl ?c) None = Ok (this # i # it)"
      using asc i1 by (simp add: decompress_from_range)
    moreover have "hd ?c # tl ?c = ?c" by (simp add: compress_from_nonempty)
    ultimately show ?thesis using True by simp
  next
    case False
    with 3 asc show ?thesis by (simp add: decompress_from_plain valid_bit31 seq_new_truncate_id)
  qed
qed

lemma try_from_iter_compress_from:
  assumes "successively seq_lt (t # ts)"
  shows "try_from_iter (t # ts) = Ok (Some (compress_from ts t None))"
  using assms by (simp add: try_from_iter_def compress_loss_list_collect compress_from_nonempty)

lemma try_from_iter_roundtrip:
  assumes "\<forall>s \<in> set ss. seq_valid s" "successively seq_lt ss" "ss \<noteq> []" "wraps ss = 0"
  shows "\<exists>cs. try_from_iter ss = Ok (Some cs) \<and> iter_decompressed cs = Ok ss"
proof -
  obtain t ts where ss: "ss = t # ts" using assms by (cases ss) auto
  have "iter_decompressed (compress_from ts t None) = Ok ss"
    using decompress_compress_from [of t ts None] assms
    by (simp add: ss iter_decompressed_def decompress_loss_list_def)
  then show ?thesis using try_from_iter_compress_from assms(2) ss by blast
qed

section \<open>Ranges across the wrap-around point\<close>

text \<open>Decompression counts from the start of a range to its end in \<open>u32\<close> arithmetic, so a range
  whose end has wrapped around is counted up to \<open>2 ^ 32\<close> first.\<close>

lemma decompress_loop_length:
  assumes "decompress_from it None = Ok ys"
  shows "\<exists>xs. decompress_from it (Some (m, e)) = Ok xs \<and> length xs = Suc (unat (e - m)) + length ys"
proof (induction "unat (e - m)" arbitrary: m)
  case 0
  then have "m = e" by (simp add: unat_eq_zero)
  then show ?case using assms by (simp add: decompress_from_loop)
next
  case (Suc k)
  then have ne: "m \<noteq> e" by auto
  then have "unat (e - (m + 1)) = k"
    using Suc.hyps(2) unat_minus_one [of "e - m"] by (simp add: diff_diff_eq)
  then obtain xs where "decompress_from it (Some (m + 1, e)) = Ok xs"
    "length xs = Suc k + length ys"
    using Suc.hyps(1) [of "m + 1"] by auto
  then show ?case using ne Suc.hyps(2) by (simp add: decompress_from_loop [of it m e])
qed

lemma unat_add_no_overflow: "unat x + k < 2 ^ 32 \<Longrightarrow> unat (x + word_of_nat k) = unat x + k" for x :: u32
  by (simp add: unat_word_ariths unat_of_nat mod_add_right_eq)

lemma unat_diff_next:
  fixes m :: u32
  assumes "seq_valid this" "seq_add this 1 = i"
    "unat (this - m) + Suc n + 2 ^ 31 * wraps (this # i # r) < 2 ^ 32"
  shows "unat (i - m) + 2 ^ 31 * wraps (i # r) = Suc (unat (this - m) + 2 ^ 31 * wraps (this # i # r))"
  using assms(1)
proof (cases rule: seq_add_one_cases)
  case step
  then have w: "wraps (this # i # r) = wraps (i # r)" by auto
  then have "unat (this - m) + 1 < 2 ^ 32" using assms(3) by linarith
  from unat_add_no_overflow [OF this] have "unat (i - m) = unat (this - m) + 1"
    using step(2) assms(2) by (simp add: diff_add_eq)
  with w show ?thesis by simp
next
  case wrap
  have t: "this = 2 ^ 31 - 1" using wrap(1) by (simp add: word_unat_eq_iff)
  have w: "wraps (this # i # r) = Suc (wraps (i # r))" using wrap assms(2) by simp
  then have "unat (this - m) + (2 ^ 31 + 1) < 2 ^ 32" using assms(3) by simp
  from unat_add_no_overflow [OF this] have "unat (this - m + word_of_nat (2 ^ 31 + 1)) = unat (this - m) + (2 ^ 31 + 1)" .
  moreover have "this - m + word_of_nat (2 ^ 31 + 1) = i - m"
    using t wrap(2) assms(2) by simp
  ultimately have "unat (i - m) = unat (this - m) + (2 ^ 31 + 1)" by argo
  then show ?thesis using w by simp
qed

lemma decompress_compress_length:
  assumes "\<forall>s \<in> set (this # it). seq_valid s"
  shows "case lst of
      None \<Rightarrow> length it + 2 ^ 31 * wraps (this # it) < 2 ^ 32 \<longrightarrow>
        (\<exists>xs. decompress_from (compress_from it this lst) None = Ok xs
          \<and> length xs = Suc (length it) + 2 ^ 31 * wraps (this # it))
    | Some l \<Rightarrow> seq_add l 1 = this \<longrightarrow> (\<forall>m.
        unat (this - m) + length it + 2 ^ 31 * wraps (this # it) < 2 ^ 32 \<longrightarrow>
        (\<exists>xs. decompress_from (tl (compress_from it this lst)) (Some (m, hd (compress_from it this lst))) = Ok xs
          \<and> length xs = Suc (unat (this - m) + length it) + 2 ^ 31 * wraps (this # it)))"
  using assms
proof (induction it this lst rule: compress_from.induct)
  case (1 this lst)
  then show ?case
    using decompress_loop_length [OF decompress_from_Nil]
    by (auto simp: decompress_from_plain decompress_from_Nil valid_bit31 split: option.splits)
next
  case (2 i it this l)
  then have v: "seq_valid this" "\<forall>s \<in> set (i # it). seq_valid s" by auto
  show ?case
  proof (cases "seq_add l 2 = i")
    case True
    have "\<exists>xs. decompress_from (tl (compress_from it i (Some this))) (Some (m, hd (compress_from it i (Some this)))) = Ok xs
        \<and> length xs = Suc (unat (this - m) + length (i # it)) + 2 ^ 31 * wraps (this # i # it)"
      if l: "seq_add l 1 = this" and m: "unat (this - m) + length (i # it) + 2 ^ 31 * wraps (this # i # it) < 2 ^ 32" for m
    proof -
      have i: "seq_add this 1 = i" using True l by (simp add: seq_add_two)
      have "unat (i - m) + 2 ^ 31 * wraps (i # it) = Suc (unat (this - m) + 2 ^ 31 * wraps (this # i # it))"
        using unat_diff_next [OF v(1) i] m by simp
      moreover from this have "unat (i - m) + length it + 2 ^ 31 * wraps (i # it) < 2 ^ 32"
        using m by simp
      ultimately show ?thesis
        using "2.IH"(1) [OF True v(2)] l i by (auto simp del: wraps.simps(1))
    qed
    then show ?thesis using True by auto
  next
    case False
    have "\<exists>xs. decompress_from (compress_from it i None) (Some (m, this)) = Ok xs
        \<and> length xs = Suc (unat (this - m) + length (i # it)) + 2 ^ 31 * wraps (this # i # it)"
      if l: "seq_add l 1 = this" and m: "unat (this - m) + length (i # it) + 2 ^ 31 * wraps (this # i # it) < 2 ^ 32" for m
    proof -
      have w: "wraps (this # i # it) = wraps (i # it)"
        using v(1) False l by (cases rule: seq_add_one_cases) (auto simp: seq_add_two)
      then obtain ys where ys: "decompress_from (compress_from it i None) None = Ok ys"
        "length ys = Suc (length it) + 2 ^ 31 * wraps (i # it)"
        using "2.IH"(2) [OF False v(2)] m by auto
      show ?thesis using decompress_loop_length [OF ys(1), of m this] ys(2) w by auto
    qed
    then show ?thesis using False by auto
  qed
next
  case (3 i it this)
  then have v: "seq_valid this" "\<forall>s \<in> set (i # it). seq_valid s" by auto
  show ?case
  proof (cases "seq_add this 1 = i")
    case True
    let ?c = "compress_from it i (Some this)"
    have c: "?c = hd ?c # tl ?c" by (simp add: compress_from_nonempty)
    have "\<exists>xs. decompress_from (compress_from (i # it) this None) None = Ok xs
        \<and> length xs = Suc (length (i # it)) + 2 ^ 31 * wraps (this # i # it)"
      if m: "length (i # it) + 2 ^ 31 * wraps (this # i # it) < 2 ^ 32"
    proof -
      have "unat (this - this) + Suc (length it) + 2 ^ 31 * wraps (this # i # it) < 2 ^ 32" using m by simp
      note d = unat_diff_next [OF v(1) True this]
      have "i \<noteq> this"
        using v(1) True by (cases rule: seq_add_one_cases) auto
      then have "0 < unat (i - this)" by (simp add: unat_gt_0)
      then have "unat (i - (this + 1)) = unat (i - this) - 1"
        using unat_minus_one [of "i - this"] \<open>i \<noteq> this\<close> by (simp add: diff_diff_eq)
      then have u: "unat (i - (this + 1)) + 2 ^ 31 * wraps (i # it) = 2 ^ 31 * wraps (this # i # it)"
        using d \<open>0 < unat (i - this)\<close> by simp
      then have "unat (i - (this + 1)) + length it + 2 ^ 31 * wraps (i # it) < 2 ^ 32"
        using m by simp
      then obtain xs where xs: "decompress_from (tl ?c) (Some (this + 1, hd ?c)) = Ok xs"
        "length xs = Suc (unat (i - (this + 1)) + length it) + 2 ^ 31 * wraps (i # it)"
        using "3.IH"(1) [OF True v(2)] True by auto
      then have "decompress_from ((this OR loop_flag) # hd ?c # tl ?c) None = Ok (this # xs)"
        using v(1) xs(1) by (simp add: decompress_from_range)
      then show ?thesis
        using c True xs(2) u by simp
    qed
    then show ?thesis by simp
  next
    case False
    have "wraps (this # i # it) = wraps (i # it)"
      using v(1) False by (cases rule: seq_add_one_cases) auto
    then show ?thesis
      using "3.IH"(2) [OF False v(2)] False v(1) by (auto simp: decompress_from_plain valid_bit31)
  qed
qed

section \<open>Properties\<close>

text \<open>C20: Compressing a loss list and decompressing it gives the list back, and neither step panics,
  for every non-empty list of valid numbers whose neighbours are ordered by the modular comparison
  and in which \<open>2 ^ 31 - 1\<close> is nowhere followed by \<open>0\<close>. The list need not ascend as numbers: it may
  pass the wrap-around point as long as not both of its sides are lost.\<close>

theorem loss_list_roundtrip:
  assumes "\<forall>s \<in> set ss. seq_valid s" "successively seq_lt ss" "ss \<noteq> []" "wraps ss = 0"
  shows "\<exists>cs. try_from_iter ss = Ok (Some cs) \<and> iter_decompressed cs = Ok ss"
  using assms by (rule try_from_iter_roundtrip)

theorem loss_list_roundtrip_witness:
  "\<exists>cs. try_from_iter [2147483645, 2147483646, 1, 2, 3, 9] = Ok (Some cs)
    \<and> iter_decompressed cs = Ok [2147483645, 2147483646, 1, 2, 3, 9]"
  using loss_list_roundtrip [of "[2147483645, 2147483646, 1, 2, 3, 9]"]
  by (simp add: seq_valid_def mod_lt_def mod_cmp_def mod_diff_def mod_MAX_def mod_MAX_DIFF_def)

text \<open>A range of losses that is written in one step decompresses to the consecutive numbers from
  its start to the one before its end, when it does not pass the wrap-around point.\<close>

theorem loss_range_decompresses:
  assumes "seq_valid a" "seq_valid b" "unat a < unat b" "seq_lt a b"
  shows "\<exists>cs. try_from_range a b = Some cs \<and>
    iter_decompressed cs = Ok (map of_nat [unat a ..< unat b])"
proof (cases "seq_add a 1 = b")
  case True
  then have "unat b = Suc (unat a)"
    using assms seq_add_one_step [of a b] by simp
  then show ?thesis
    using True assms
    by (simp add: try_from_range_def range_is_empty_def iter_decompressed_def
        decompress_loss_list_def decompress_from_plain decompress_from_Nil valid_bit31
        seq_new_truncate_id)
next
  case False
  have "unat (seq_add a 1) = Suc (unat a)"
    using assms seq_add_one_step [of a b] by simp
  then have ab: "Suc (unat a) < unat b"
    using False assms by (metis Suc_lessI word_unat_eq_iff)
  then have b1: "unat (seq_sub b 1) = unat b - 1" "unat (a + 1) = Suc (unat a)"
    using assms by (auto simp: mod_sub_def word_less_nat_alt unat_sub word_le_nat_alt
        unat_word_ariths seq_valid_def)
  have "decompress_from [] (Some (a + 1, seq_sub b 1)) =
      Ok (map of_nat [Suc (unat a) ..< unat b])"
    using decompress_loop_run [of "a + 1" "seq_sub b 1" "[]"] b1 ab assms
    by (simp add: decompress_from_Nil seq_valid_def)
  moreover have "[unat a ..< unat b] = unat a # [Suc (unat a) ..< unat b]"
    using ab by (simp add: upt_rec)
  ultimately show ?thesis
    using False assms
    by (simp add: try_from_range_def range_is_empty_def iter_decompressed_def
        or.commute [of loop_flag] decompress_loss_list_def decompress_from_range)
qed

theorem loss_range_decompresses_witness:
  "\<exists>cs. try_from_range 5 8 = Some cs \<and> iter_decompressed cs = Ok (map of_nat [5 ..< 8])"
  using loss_range_decompresses [of 5 8]
  by (simp add: seq_valid_def mod_lt_def mod_cmp_def mod_diff_def mod_MAX_def mod_MAX_DIFF_def)

text \<open>A received loss list that ends inside a range makes decompression panic, whatever precedes
  the range start, as long as the preceding entries are single numbers.\<close>

theorem unterminated_loss_panics:
  assumes "\<forall>s \<in> set ss. seq_valid s" "w AND loop_flag \<noteq> 0"
  shows "iter_decompressed (ss @ [w]) = Panic"
  using assms
proof (induction ss)
  case Nil
  then show ?case
    by (simp add: iter_decompressed_def decompress_loss_list_def decompress_from_unterminated)
next
  case (Cons s ss)
  then show ?case
    by (simp add: iter_decompressed_def decompress_loss_list_def decompress_from_plain valid_bit31)
qed

theorem unterminated_loss_panics_witness:
  "iter_decompressed [7, 2147483653] = Panic"
  using unterminated_loss_panics [of "[7]" 2147483653]
  by (simp add: seq_valid_def loop_flag_def)

text \<open>C40: A loss list in which \<open>2 ^ 31 - 1\<close> is followed by \<open>0\<close>, once and anywhere in it, is not
  given back by decompression: neither step panics, but the range of losses around the wrap-around
  point is decompressed to \<open>2 ^ 31\<close> numbers more than were lost. This holds for every such list of
  less than \<open>2 ^ 31\<close> valid numbers whose neighbours are ordered by the modular comparison.\<close>

theorem loss_list_wrap_broken:
  assumes "\<forall>s \<in> set ss. seq_valid s" "successively seq_lt ss" "wraps ss = 1" "length ss < 2 ^ 31"
  shows "\<exists>cs xs. try_from_iter ss = Ok (Some cs) \<and> iter_decompressed cs = Ok xs
    \<and> length xs = length ss + 2 ^ 31"
proof -
  obtain t ts where ss: "ss = t # ts" using assms(3) by (cases ss) auto
  have "length ts + 2 ^ 31 * wraps (t # ts) < 2 ^ 32" using assms(3,4) ss by simp
  then obtain xs where "iter_decompressed (compress_from ts t None) = Ok xs"
    "length xs = Suc (length ts) + 2 ^ 31 * wraps ss"
    using decompress_compress_length [of t ts None] assms(1) ss
    by (auto simp: iter_decompressed_def decompress_loss_list_def)
  then show ?thesis
    using try_from_iter_compress_from [of t ts] assms(2,3) ss by auto
qed

theorem loss_list_wrap_broken_witness:
  "\<exists>cs xs. try_from_iter [2147483640, 2147483646, 2147483647, 0, 5] = Ok (Some cs) \<and> iter_decompressed cs = Ok xs
    \<and> length xs = 5 + 2 ^ 31"
  using loss_list_wrap_broken [of "[2147483640, 2147483646, 2147483647, 0, 5]"]
  by (simp add: seq_valid_def mod_lt_def mod_cmp_def mod_diff_def mod_MAX_def mod_MAX_DIFF_def)

end
