(* ===== verification/Data_Packet.thy ===== *)
theory Data_Packet
  imports Modular_Num Srt_Time
begin

text \<open>
  Data packets (\<open>packet/data.rs\<close>): the structure, its wire format in both directions and its size,
  and the parse errors of \<open>packet/error.rs\<close>.
\<close>

section \<open>Parse errors\<close>

datatype PacketParseError =
    NotEnoughData
  | BadUdtVersion i32
  | BadConnectionType i32
  | BadSocketType u16
  | BadControlType u16
  | UnsupportedSrtExtensionType u16
  | BadSrtExtensionMessage
  | BadCryptoLength u32
  | BadCipherKind u8
  | BadKeyPacketType u8
  | BadKeySign u16
  | BadAuth u8
  | BadStreamEncapsulation u8
  | StreamEncapsulationNotSrt
  | BadDataEncryption u8
  | StreamTypeNotUtf8
  | ZeroAckSequenceNumber
  | BadFilter "u8 list"

type_synonym 'a parse_result = "('a, PacketParseError) outcome"

section \<open>The packet\<close>

type_synonym SocketId = u32
type_synonym PacketLocation = u8

definition PL_MIDDLE :: PacketLocation where "PL_MIDDLE = 0"
definition PL_FIRST :: PacketLocation where "PL_FIRST = 0x80"
definition PL_LAST :: PacketLocation where "PL_LAST = 0x40"
definition PL_ONLY :: PacketLocation where "PL_ONLY = PL_FIRST OR PL_LAST"

definition flags_contain :: "'a::len word \<Rightarrow> 'a word \<Rightarrow> bool" where
  "flags_contain self other \<longleftrightarrow> self AND other = other"

definition location_from_bits_truncate :: "u8 \<Rightarrow> PacketLocation" where
  "location_from_bits_truncate bits = bits AND (PL_FIRST OR PL_LAST)"

datatype DataEncryption = DE_None | DE_Even | DE_Odd

fun data_encryption_as_u8 :: "DataEncryption \<Rightarrow> u8" where
  "data_encryption_as_u8 DE_None = 0x00"
| "data_encryption_as_u8 DE_Even = 0x08"
| "data_encryption_as_u8 DE_Odd = 0x10"

definition data_encryption_try_from :: "u8 \<Rightarrow> DataEncryption parse_result" where
  "data_encryption_try_from value =
     (let e = value AND 0x18 in
      if e = 0x00 then Ok DE_None
      else if e = 0x08 then Ok DE_Even
      else if e = 0x10 then Ok DE_Odd
      else Err (BadDataEncryption e))"

record DataPacket =
  dp_seq_number :: SeqNumber
  dp_message_loc :: PacketLocation
  dp_in_order_delivery :: bool
  dp_encryption :: DataEncryption
  dp_retransmitted :: bool
  dp_message_number :: MsgNumber
  dp_timestamp :: TimeStamp
  dp_dest_sockid :: SocketId
  dp_payload :: "u8 list"

definition data_parse :: "u8 list \<Rightarrow> DataPacket parse_result" where
  "data_parse buf =
     bind_outcome (get_u32 buf) (\<lambda>(w1, buf).
     let seq_number = seq_new_truncate w1 in
     bind_outcome (get_u32 buf) (\<lambda>(second_word_first_byte, buf).
     let swb1 = (ucast (drop_bit 24 second_word_first_byte) :: u8);
         message_loc = location_from_bits_truncate swb1 in
     bind_outcome (data_encryption_try_from swb1) (\<lambda>encryption.
     let retransmitted = (drop_bit 2 swb1 AND 1 = 1);
         in_order_delivery = (swb1 AND 0x20 \<noteq> 0);
         message_number = msg_new_truncate second_word_first_byte in
     bind_outcome (get_u32 buf) (\<lambda>(timestamp, buf).
     bind_outcome (get_u32 buf) (\<lambda>(dest_sockid, buf).
     Ok \<lparr>dp_seq_number = seq_number, dp_message_loc = message_loc,
         dp_in_order_delivery = in_order_delivery, dp_encryption = encryption,
         dp_retransmitted = retransmitted, dp_message_number = message_number,
         dp_timestamp = timestamp, dp_dest_sockid = dest_sockid, dp_payload = buf\<rparr>)))))"

definition data_flags :: "DataPacket \<Rightarrow> u8" where
  "data_flags self =
     dp_message_loc self OR push_bit 5 (of_bool (dp_in_order_delivery self))
       OR data_encryption_as_u8 (dp_encryption self) OR push_bit 2 (of_bool (dp_retransmitted self))"

definition data_serialize :: "DataPacket \<Rightarrow> u8 list may_panic" where
  "data_serialize self =
     (if dp_seq_number self AND push_bit 31 1 \<noteq> 0 then Panic
      else Ok (be32 (dp_seq_number self)
        @ be32 (dp_message_number self OR push_bit 24 (ucast (data_flags self)))
        @ be32 (dp_timestamp self) @ be32 (dp_dest_sockid self) @ dp_payload self))"

definition Packet_HEADER_SIZE :: nat where
  "Packet_HEADER_SIZE = 20 + 8 + 16"

definition data_wire_size :: "DataPacket \<Rightarrow> usize" where
  "data_wire_size self = Packet_HEADER_SIZE + length (dp_payload self)"

text \<open>The packets that can be represented on the wire.\<close>

definition data_wf :: "DataPacket \<Rightarrow> bool" where
  "data_wf p \<longleftrightarrow> seq_valid (dp_seq_number p) \<and> msg_valid (dp_message_number p)
     \<and> dp_message_loc p AND (PL_FIRST OR PL_LAST) = dp_message_loc p"

section \<open>Bits of the second word\<close>

lemma u8_eqI:
  fixes a b :: u8
  assumes "bit a 0 = bit b 0" "bit a 1 = bit b 1" "bit a 2 = bit b 2" "bit a 3 = bit b 3"
    "bit a 4 = bit b 4" "bit a 5 = bit b 5" "bit a 6 = bit b 6" "bit a 7 = bit b 7"
  shows "a = b"
proof (rule bit_word_eqI)
  fix n assume "n < LENGTH(8)"
  then consider "n = 0" | "n = 1" | "n = 2" | "n = 3" | "n = 4" | "n = 5" | "n = 6" | "n = 7"
    by fastforce
  then show "bit a n = bit b n" using assms by cases simp_all
qed

lemma first_last_mask: "PL_FIRST OR PL_LAST = 0xC0"
  by (simp add: PL_FIRST_def PL_LAST_def)

lemma flag_tests:
  fixes x :: u8
  shows "x AND 0x20 \<noteq> 0 \<longleftrightarrow> bit x 5" "drop_bit 2 x AND 1 = 1 \<longleftrightarrow> bit x 2"
proof -
  have "x AND 0x20 = 0" if "\<not> bit x 5"
    using that by (intro u8_eqI) (simp_all add: bit_and_iff)
  moreover have "\<not> bit x 5" if "x AND 0x20 = 0"
    using arg_cong [OF that, of "\<lambda>x. bit x 5"] by (simp add: bit_and_iff)
  ultimately show "x AND 0x20 \<noteq> 0 \<longleftrightarrow> bit x 5" by blast
  show "drop_bit 2 x AND 1 = 1 \<longleftrightarrow> bit x 2"
    by (simp add: bit_iff_odd_drop_bit and_one_eq odd_iff_mod_2_eq_one)
qed

lemma data_encryption_bits:
  "data_encryption_try_from x = Ok e \<longleftrightarrow> x AND 0x18 = data_encryption_as_u8 e"
  by (cases e) (auto simp: data_encryption_try_from_def Let_def)

lemma data_encryption_no_bits:
  "\<not> bit (data_encryption_as_u8 e) 0" "\<not> bit (data_encryption_as_u8 e) (Suc 0)"
  "\<not> bit (data_encryption_as_u8 e) 2" "\<not> bit (data_encryption_as_u8 e) 5"
  "\<not> bit (data_encryption_as_u8 e) 6" "\<not> bit (data_encryption_as_u8 e) 7"
  by (cases e; simp)+

lemma location_no_bits:
  fixes loc :: u8
  assumes "loc AND 0xC0 = loc"
  shows "\<not> bit loc 0" "\<not> bit loc (Suc 0)" "\<not> bit loc 2" "\<not> bit loc 3" "\<not> bit loc 4" "\<not> bit loc 5"
  using arg_cong [OF assms, of "\<lambda>x. bit x 0"] arg_cong [OF assms, of "\<lambda>x. bit x (Suc 0)"]
    arg_cong [OF assms, of "\<lambda>x. bit x 2"] arg_cong [OF assms, of "\<lambda>x. bit x 3"]
    arg_cong [OF assms, of "\<lambda>x. bit x 4"] arg_cong [OF assms, of "\<lambda>x. bit x 5"]
  by (simp_all add: bit_and_iff)

lemma bit_data_flags:
  assumes "dp_message_loc p AND 0xC0 = dp_message_loc p"
  shows "\<not> bit (data_flags p) 0" "\<not> bit (data_flags p) (Suc 0)"
    "bit (data_flags p) 2 \<longleftrightarrow> dp_retransmitted p"
    "bit (data_flags p) 3 \<longleftrightarrow> bit (data_encryption_as_u8 (dp_encryption p)) 3"
    "bit (data_flags p) 4 \<longleftrightarrow> bit (data_encryption_as_u8 (dp_encryption p)) 4"
    "bit (data_flags p) 5 \<longleftrightarrow> dp_in_order_delivery p"
    "bit (data_flags p) 6 \<longleftrightarrow> bit (dp_message_loc p) 6"
    "bit (data_flags p) 7 \<longleftrightarrow> bit (dp_message_loc p) 7"
  by (simp_all add: data_flags_def bit_or_iff location_no_bits [OF assms] data_encryption_no_bits
      split: if_splits; simp add: of_bool_def)+

text \<open>The first byte of the second word and the number below it.\<close>

lemma second_word_byte:
  fixes msg :: u32
  shows "bit (ucast (drop_bit 24 (msg OR push_bit 24 (ucast (f :: u8)))) :: u8) n \<longleftrightarrow>
    n < 8 \<and> (bit msg (24 + n) \<or> bit f n)"
  by (auto simp: bit_simps dest: bit_imp_le_length)

lemma msg_valid_bit: "msg_valid msg \<Longrightarrow> bit msg n \<Longrightarrow> n < 26"
proof -
  assume v: "msg_valid msg" and b: "bit msg n"
  have "msg = take_bit 26 msg"
    using v by (simp add: msg_valid_def word_unat_eq_iff take_bit_eq_mod unat_mod_distrib)
  with b show ?thesis by (metis bit_take_bit_iff)
qed

lemma msg_new_truncate_take_bit: "msg_new_truncate w = take_bit 26 w"
  by (simp add: mod_new_truncate_def mod_MAX_def take_bit_eq_mod)

lemma seq_new_truncate_take_bit: "seq_new_truncate w = take_bit 31 w"
  by (simp add: mod_new_truncate_def mod_MAX_def take_bit_eq_mod)

lemma second_word_number:
  fixes msg :: u32 and f :: u8
  assumes "msg_valid msg" "\<not> bit f 0" "\<not> bit f (Suc 0)"
  shows "take_bit 26 (msg OR push_bit 24 (ucast f)) = msg"
proof (rule bit_word_eqI)
  fix n assume "n < LENGTH(32)"
  consider "n < 24" | "n = 24" | "n = 25" | "26 \<le> n" by fastforce
  then show "bit (take_bit 26 (msg OR push_bit 24 (ucast f))) n = bit msg n"
    using assms(2,3) msg_valid_bit [OF assms(1), of n] by cases (auto simp: bit_simps)
qed

lemma second_word_fields:
  assumes wf: "data_wf p"
  defines "w \<equiv> dp_message_number p OR push_bit 24 (ucast (data_flags p))"
  defines "b \<equiv> ucast (drop_bit 24 w) :: u8"
  shows "location_from_bits_truncate b = dp_message_loc p"
    and "data_encryption_try_from b = Ok (dp_encryption p)"
    and "bit b 5 \<longleftrightarrow> dp_in_order_delivery p" "bit b 2 \<longleftrightarrow> dp_retransmitted p"
    and "msg_new_truncate w = dp_message_number p"
proof -
  have loc: "dp_message_loc p AND 0xC0 = dp_message_loc p" and m: "msg_valid (dp_message_number p)"
    using wf by (simp_all add: data_wf_def first_last_mask)
  have "bit b n \<longleftrightarrow> bit (data_flags p) n" if "2 \<le> n" "n < 8" for n
    using that msg_valid_bit [OF m, of "24 + n"] unfolding b_def w_def second_word_byte by auto
  then have bb: "bit b 2 \<longleftrightarrow> dp_retransmitted p"
    "bit b 3 \<longleftrightarrow> bit (data_encryption_as_u8 (dp_encryption p)) 3"
    "bit b 4 \<longleftrightarrow> bit (data_encryption_as_u8 (dp_encryption p)) 4"
    "bit b 5 \<longleftrightarrow> dp_in_order_delivery p"
    "bit b 6 \<longleftrightarrow> bit (dp_message_loc p) 6" "bit b 7 \<longleftrightarrow> bit (dp_message_loc p) 7"
    by (simp_all add: bit_data_flags [OF loc])
  show "bit b 5 \<longleftrightarrow> dp_in_order_delivery p" "bit b 2 \<longleftrightarrow> dp_retransmitted p"
    by (fact bb)+
  show "location_from_bits_truncate b = dp_message_loc p"
    unfolding location_from_bits_truncate_def first_last_mask
    by (rule u8_eqI) (simp_all add: bit_and_iff bb location_no_bits [OF loc])
  have "b AND 0x18 = data_encryption_as_u8 (dp_encryption p)"
    by (rule u8_eqI) (simp_all add: bit_and_iff bb data_encryption_no_bits)
  then show "data_encryption_try_from b = Ok (dp_encryption p)"
    by (simp add: data_encryption_bits)
  show "msg_new_truncate w = dp_message_number p"
    using second_word_number [OF m] bit_data_flags [OF loc]
    by (simp add: msg_new_truncate_take_bit w_def)
qed

lemma data_flags_of_parse:
  assumes "x AND 0x18 = data_encryption_as_u8 e"
  shows "location_from_bits_truncate x OR push_bit 5 (of_bool (bit x 5))
    OR data_encryption_as_u8 e OR push_bit 2 (of_bool (bit x 2)) = x AND 0xFC"
proof -
  have "bit (data_encryption_as_u8 e) n \<longleftrightarrow> bit x n \<and> bit (0x18 :: u8) n" for n
    unfolding assms [symmetric] by (simp add: bit_and_iff)
  then show ?thesis
    unfolding location_from_bits_truncate_def first_last_mask
    by (intro u8_eqI) (simp_all add: bit_or_iff bit_and_iff of_bool_def)
qed

lemma second_word_rebuild:
  fixes w :: u32
  shows "take_bit 26 w OR push_bit 24 (ucast ((ucast (drop_bit 24 w) :: u8) AND 0xFC)) = w"
    (is "?l = w")
proof (rule bit_word_eqI)
  fix n assume n: "n < LENGTH(32)"
  let ?b = "(ucast (drop_bit 24 w) :: u8) AND 0xFC"
  have l: "bit ?l n \<longleftrightarrow> n < 26 \<and> bit w n \<or> 24 \<le> n \<and> n < 32 \<and> bit ?b (n - 24)"
    using n by (simp add: bit_or_iff bit_take_bit_iff bit_push_bit_iff bit_ucast_iff) auto
  have b: "bit ?b k \<longleftrightarrow> bit w (24 + k)" if "k \<in> {2, 3, 4, 5, 6, 7}" for k
    using that by (auto simp: bit_and_iff bit_ucast_iff bit_drop_bit_eq)
  have lo: "\<not> bit ?b 0" "\<not> bit ?b (Suc 0)"
    by (simp_all add: bit_and_iff)
  consider "n < 24" | "n = 24" | "n = 25" | "26 \<le> n" by fastforce
  then show "bit ?l n = bit w n"
  proof cases
    case 4
    then have "n - 24 \<in> {2, 3, 4, 5, 6, 7}" using n by auto
    then show ?thesis using b [of "n - 24"] 4 n l by simp
  qed (use l lo in simp_all)
qed

lemma data_serialize_wf:
  assumes "data_wf p"
  shows "data_serialize p = Ok (be32 (dp_seq_number p)
    @ be32 (dp_message_number p OR push_bit 24 (ucast (data_flags p)))
    @ be32 (dp_timestamp p) @ be32 (dp_dest_sockid p) @ dp_payload p)"
proof -
  have "take_bit 31 (dp_seq_number p) = dp_seq_number p"
    using assms seq_new_truncate_id [of "dp_seq_number p"]
    by (simp add: data_wf_def seq_new_truncate_take_bit)
  then have no: "\<not> bit (dp_seq_number p) 31"
    using bit_take_bit_iff [of 31 "dp_seq_number p" 31] by simp
  have "dp_seq_number p AND push_bit 31 1 = 0"
  proof (rule bit_word_eqI)
    fix n assume "n < LENGTH(32)"
    then have "31 \<le> n \<Longrightarrow> n = 31" by simp
    then show "bit (dp_seq_number p AND push_bit 31 1) n = bit (0 :: u32) n"
      using no unfolding bit_and_iff bit_push_bit_iff by auto
  qed
  then show ?thesis
    by (simp add: data_serialize_def)
qed

lemma data_parse_OkD:
  assumes "data_parse bs = Ok p"
  shows "\<exists>w1 w2 ts sid pl. bs = be32 w1 @ be32 w2 @ be32 ts @ be32 sid @ pl
    \<and> (ucast (drop_bit 24 w2) :: u8) AND 0x18 = data_encryption_as_u8 (dp_encryption p)
    \<and> p = \<lparr>dp_seq_number = seq_new_truncate w1,
      dp_message_loc = location_from_bits_truncate (ucast (drop_bit 24 w2)),
      dp_in_order_delivery = bit (ucast (drop_bit 24 w2) :: u8) 5, dp_encryption = dp_encryption p,
      dp_retransmitted = bit (ucast (drop_bit 24 w2) :: u8) 2,
      dp_message_number = msg_new_truncate w2, dp_timestamp = ts, dp_dest_sockid = sid,
      dp_payload = pl\<rparr>"
proof -
  obtain w1 w2 ts sid pl e where "bs = be32 w1 @ be32 w2 @ be32 ts @ be32 sid @ pl"
    "data_encryption_try_from (ucast (drop_bit 24 w2)) = Ok e"
    "p = \<lparr>dp_seq_number = seq_new_truncate w1,
      dp_message_loc = location_from_bits_truncate (ucast (drop_bit 24 w2)),
      dp_in_order_delivery = bit (ucast (drop_bit 24 w2) :: u8) 5, dp_encryption = e,
      dp_retransmitted = bit (ucast (drop_bit 24 w2) :: u8) 2,
      dp_message_number = msg_new_truncate w2, dp_timestamp = ts, dp_dest_sockid = sid,
      dp_payload = pl\<rparr>"
    using assms
    by (auto simp: data_parse_def Let_def bind_outcome_Ok_iff flag_tests dest!: get_u32_OkD)
  then show ?thesis
    by (intro exI conjI) (auto simp: data_encryption_bits)
qed

lemma data_bytes_roundtrip:
  assumes "data_wf p"
  shows "\<exists>bs. data_serialize p = Ok bs \<and> data_parse bs = Ok p
    \<and> length bs + 28 = data_wire_size p \<and> 16 \<le> length bs \<and> \<not> bit (hd bs) 7"
proof (intro exI conjI)
  show "data_serialize p = Ok (be32 (dp_seq_number p)
    @ be32 (dp_message_number p OR push_bit 24 (ucast (data_flags p)))
    @ be32 (dp_timestamp p) @ be32 (dp_dest_sockid p) @ dp_payload p)" (is "_ = Ok ?bs")
    by (rule data_serialize_wf [OF assms])
  have sv: "seq_valid (dp_seq_number p)" using assms by (simp add: data_wf_def)
  then show "data_parse ?bs = Ok p"
    using second_word_fields [OF assms]
    by (simp add: data_parse_def wire_simps Let_def flag_tests seq_new_truncate_id)
  show "length ?bs + 28 = data_wire_size p"
    by (simp add: data_wire_size_def Packet_HEADER_SIZE_def)
  show "16 \<le> length ?bs" by simp
  have "take_bit 31 (dp_seq_number p) = dp_seq_number p"
    using sv seq_new_truncate_id [of "dp_seq_number p"] by (simp add: seq_new_truncate_take_bit)
  then have "\<not> bit (dp_seq_number p) 31"
    using bit_take_bit_iff [of 31 "dp_seq_number p" 31] by simp
  then show "\<not> bit (hd ?bs) 7"
    by (simp add: be32_def bit_simps)
qed

section \<open>Properties\<close>

definition sample_packet :: DataPacket where
  "sample_packet = \<lparr>dp_seq_number = 5, dp_message_loc = PL_FIRST, dp_in_order_delivery = True,
     dp_encryption = DE_Odd, dp_retransmitted = True, dp_message_number = 1, dp_timestamp = 7,
     dp_dest_sockid = 9, dp_payload = [1, 2]\<rparr>"

text \<open>C12: Serializing a parsed data packet reproduces the received bytes exactly, and the packet is in
  range, for every buffer whose first bit is clear.\<close>

theorem data_parse_serialize:
  assumes "data_parse bs = Ok p" "\<not> bit (hd bs) 7"
  shows "data_wf p \<and> data_serialize p = Ok bs"
proof -
  obtain w1 w2 ts sid pl e where
    bs: "bs = be32 w1 @ be32 w2 @ be32 ts @ be32 sid @ pl"
    and e: "(ucast (drop_bit 24 w2) :: u8) AND 0x18 = data_encryption_as_u8 e"
    and p: "p = \<lparr>dp_seq_number = seq_new_truncate w1,
      dp_message_loc = location_from_bits_truncate (ucast (drop_bit 24 w2)),
      dp_in_order_delivery = bit (ucast (drop_bit 24 w2) :: u8) 5, dp_encryption = e,
      dp_retransmitted = bit (ucast (drop_bit 24 w2) :: u8) 2,
      dp_message_number = msg_new_truncate w2, dp_timestamp = ts, dp_dest_sockid = sid,
      dp_payload = pl\<rparr>"
    using data_parse_OkD [OF assms(1)] by blast
  have "\<not> bit w1 31"
    using assms(2) bs by (simp add: be32_def bit_simps)
  then have w1: "take_bit 31 w1 = w1"
    by (intro bit_word_eqI) (auto simp: bit_simps less_Suc_eq numeral_eq_Suc)
  then have sv: "seq_new_truncate w1 = w1" "seq_valid w1"
    using seq_new_truncate_valid [of w1] by (simp_all add: seq_new_truncate_take_bit)
  have f: "data_flags p = (ucast (drop_bit 24 w2) :: u8) AND 0xFC"
    using data_flags_of_parse [OF e] by (simp add: p data_flags_def)
  have wf: "data_wf p"
    using sv by (simp add: p data_wf_def location_from_bits_truncate_def and.assoc msg_new_truncate_valid)
  then show ?thesis
    using data_serialize_wf [OF wf] sv
    by (simp add: f) (simp add: p bs msg_new_truncate_take_bit second_word_rebuild)
qed

theorem data_parse_serialize_witness:
  "data_parse [0, 0, 0, 5, 0xB4, 0, 0, 1, 0, 0, 0, 7, 0, 0, 0, 9, 1, 2] = Ok sample_packet
   \<and> \<not> bit (hd [0 :: u8, 0, 0, 5, 0xB4, 0, 0, 1, 0, 0, 0, 7, 0, 0, 0, 9, 1, 2]) 7
   \<and> data_serialize sample_packet = Ok [0, 0, 0, 5, 0xB4, 0, 0, 1, 0, 0, 0, 7, 0, 0, 0, 9, 1, 2]"
proof -
  have "data_parse [0, 0, 0, 5, 0xB4, 0, 0, 1, 0, 0, 0, 7, 0, 0, 0, 9, 1, 2] = Ok sample_packet"
    by (simp add: data_parse_def from_be32_def location_from_bits_truncate_def data_encryption_try_from_def
        sample_packet_def PL_FIRST_def PL_LAST_def seq_new_truncate_take_bit msg_new_truncate_take_bit)
  then show ?thesis
    using data_parse_serialize [of "[0, 0, 0, 5, 0xB4, 0, 0, 1, 0, 0, 0, 7, 0, 0, 0, 9, 1, 2]"]
    by simp
qed

end
