(* ===== verification/Srt_Control.thy ===== *)
theory Srt_Control
  imports Data_Packet "HOL-Library.List_Lexorder"
begin

text \<open>
  The SRT extension messages (\<open>packet/control/srt.rs\<close>) with the types they use from
  \<open>options/srt_version.rs\<close> and \<open>options/encryption.rs\<close>: the handshake extension, the keying
  material message, stream identifiers, congestion control names, packet filters and groups, each
  with its parser, its serializer and its size on the wire.

  A Rust \<open>String\<close> is the list of its UTF-8 bytes. A parser takes the unread bytes and returns the
  value with the bytes it left unread.
\<close>

section \<open>Versions and key sizes\<close>

record SrtVersion =
  v_major :: u8
  v_minor :: u8
  v_patch :: u8

definition SrtVersion_CURRENT :: SrtVersion where
  "SrtVersion_CURRENT = \<lparr>v_major = 1, v_minor = 3, v_patch = 1\<rparr>"

definition version_parse :: "u32 \<Rightarrow> SrtVersion" where
  "version_parse from =
     \<lparr>v_major = ucast (drop_bit 16 from), v_minor = ucast (drop_bit 8 from), v_patch = ucast from\<rparr>"

definition version_to_u32 :: "SrtVersion \<Rightarrow> u32" where
  "version_to_u32 self =
     ucast (v_major self) * 0x10000 + ucast (v_minor self) * 0x100 + ucast (v_patch self)"

definition version_cmp :: "SrtVersion \<Rightarrow> SrtVersion \<Rightarrow> Ordering" where
  "version_cmp self other =
     (case cmp_int (uint (v_major self)) (uint (v_major other)) of
        Equal \<Rightarrow>
          (case cmp_int (uint (v_minor self)) (uint (v_minor other)) of
             Equal \<Rightarrow> cmp_int (uint (v_patch self)) (uint (v_patch other))
           | ord \<Rightarrow> ord)
      | ord \<Rightarrow> ord)"

datatype KeySize = KS_Unspecified | KS_AES128 | KS_AES192 | KS_AES256

fun key_size_as_raw :: "KeySize \<Rightarrow> u8" where
  "key_size_as_raw KS_Unspecified = 0"
| "key_size_as_raw KS_AES128 = 16"
| "key_size_as_raw KS_AES192 = 24"
| "key_size_as_raw KS_AES256 = 32"

fun key_size_as_usize :: "KeySize \<Rightarrow> usize" where
  "key_size_as_usize KS_Unspecified = 16"
| "key_size_as_usize KS_AES128 = 16"
| "key_size_as_usize KS_AES192 = 24"
| "key_size_as_usize KS_AES256 = 32"

definition key_size_try_from :: "u16 \<Rightarrow> (KeySize, u16) outcome" where
  "key_size_try_from value =
     (if value = 0 then Ok KS_Unspecified
      else if value = 16 then Ok KS_AES128
      else if value = 24 then Ok KS_AES192
      else if value = 32 then Ok KS_AES256
      else Err value)"

section \<open>Message types\<close>

datatype GroupType = GT_Undefined | GT_Broadcast | GT_MainBackup | GT_Balancing | GT_Multicast
  | GT_Unrecognized u8

fun group_type_into :: "GroupType \<Rightarrow> u8" where
  "group_type_into GT_Undefined = 0"
| "group_type_into GT_Broadcast = 1"
| "group_type_into GT_MainBackup = 2"
| "group_type_into GT_Balancing = 3"
| "group_type_into GT_Multicast = 4"
| "group_type_into (GT_Unrecognized u) = u"

definition group_type_from :: "u8 \<Rightarrow> GroupType" where
  "group_type_from from =
     (if from = 0 then GT_Undefined else if from = 1 then GT_Broadcast
      else if from = 2 then GT_MainBackup else if from = 3 then GT_Balancing
      else if from = 4 then GT_Multicast else GT_Unrecognized from)"

definition GroupFlags_MSG_SYNC :: u8 where "GroupFlags_MSG_SYNC = push_bit 6 1"

datatype Auth = Auth_None

definition auth_try_from :: "u8 \<Rightarrow> Auth parse_result" where
  "auth_try_from value = (if value = 0 then Ok Auth_None else Err (BadAuth value))"

datatype StreamEncapsulation = SE_Udp | SE_Srt

definition stream_encapsulation_try_from :: "u8 \<Rightarrow> StreamEncapsulation parse_result" where
  "stream_encapsulation_try_from value =
     (if value = 1 then Ok SE_Udp else if value = 2 then Ok SE_Srt
      else Err (BadStreamEncapsulation value))"

datatype PacketType = PT_MediaStream | PT_KeyingMaterial

fun packet_type_as_u8 :: "PacketType \<Rightarrow> u8" where
  "packet_type_as_u8 PT_MediaStream = 1"
| "packet_type_as_u8 PT_KeyingMaterial = 2"

definition packet_type_try_from :: "u8 \<Rightarrow> PacketType parse_result" where
  "packet_type_try_from value =
     (if value = 1 then Ok PT_MediaStream else if value = 2 then Ok PT_KeyingMaterial
      else Err (BadKeyPacketType value))"

datatype CipherType = CT_None | CT_Ecb | CT_Ctr | CT_Cbc

fun cipher_type_as_u8 :: "CipherType \<Rightarrow> u8" where
  "cipher_type_as_u8 CT_None = 0"
| "cipher_type_as_u8 CT_Ecb = 1"
| "cipher_type_as_u8 CT_Ctr = 2"
| "cipher_type_as_u8 CT_Cbc = 3"

definition cipher_type_try_from :: "u8 \<Rightarrow> CipherType parse_result" where
  "cipher_type_try_from from =
     (if from = 0 then Ok CT_None else if from = 1 then Ok CT_Ecb
      else if from = 2 then Ok CT_Ctr else if from = 3 then Ok CT_Cbc
      else Err (BadCipherKind from))"

type_synonym KeyFlags = u8

definition KeyFlags_EVEN :: KeyFlags where "KeyFlags_EVEN = 1"
definition KeyFlags_ODD :: KeyFlags where "KeyFlags_ODD = 2"

record KeyingMaterialMessage =
  km_pt :: PacketType
  km_key_flags :: KeyFlags
  km_keki :: u32
  km_cipher :: CipherType
  km_auth :: Auth
  km_salt :: "u8 list"
  km_wrapped_keys :: "u8 list"

type_synonym SrtShakeFlags = u32

definition SSF_TSBPDSND :: SrtShakeFlags where "SSF_TSBPDSND = 0x1"
definition SSF_TSBPDRCV :: SrtShakeFlags where "SSF_TSBPDRCV = 0x2"
definition SSF_HAICRYPT :: SrtShakeFlags where "SSF_HAICRYPT = 0x4"
definition SSF_TLPKTDROP :: SrtShakeFlags where "SSF_TLPKTDROP = 0x8"
definition SSF_NAKREPORT :: SrtShakeFlags where "SSF_NAKREPORT = 0x10"
definition SSF_REXMITFLG :: SrtShakeFlags where "SSF_REXMITFLG = 0x20"
definition SSF_STREAM :: SrtShakeFlags where "SSF_STREAM = 0x40"
definition SSF_PACKET_FILTER :: SrtShakeFlags where "SSF_PACKET_FILTER = 0x80"
definition SSF_SUPPORTED :: SrtShakeFlags where
  "SSF_SUPPORTED = SSF_TSBPDSND OR SSF_TSBPDRCV OR SSF_HAICRYPT OR SSF_REXMITFLG"

definition shake_flags_truncate :: "u32 \<Rightarrow> SrtShakeFlags" where
  "shake_flags_truncate bits = bits AND
     (SSF_TSBPDSND OR SSF_TSBPDRCV OR SSF_HAICRYPT OR SSF_TLPKTDROP OR SSF_NAKREPORT
      OR SSF_REXMITFLG OR SSF_STREAM OR SSF_PACKET_FILTER OR SSF_SUPPORTED)"

record SrtHandshake =
  sh_version :: SrtVersion
  sh_flags :: SrtShakeFlags
  sh_send_latency :: duration
  sh_recv_latency :: duration

type_synonym FilterSpec = "(u8 list \<times> u8 list) list" \<comment> \<open>a \<open>BTreeMap\<close>: sorted by key\<close>

datatype SrtControlPacket =
    Srt_Reject
  | Srt_HandshakeRequest SrtHandshake
  | Srt_HandshakeResponse SrtHandshake
  | Srt_KeyRefreshRequest KeyingMaterialMessage
  | Srt_KeyRefreshResponse KeyingMaterialMessage
  | Srt_StreamId "u8 list"
  | Srt_Congestion "u8 list"
  | Srt_Filter FilterSpec
  | Srt_Group GroupType u8 u16

section \<open>Strings in little-endian words\<close>

text \<open>Well-formed UTF-8, the test of \<open>String::from_utf8\<close>.\<close>

definition utf8_cont :: "u8 \<Rightarrow> bool" where
  "utf8_cont b \<longleftrightarrow> 0x80 \<le> b \<and> b \<le> 0xBF"

fun utf8_valid :: "u8 list \<Rightarrow> bool" where
  "utf8_valid [] = True"
| "utf8_valid (a # r) =
     (if a \<le> 0x7F then utf8_valid r
      else if 0xC2 \<le> a \<and> a \<le> 0xDF then
        (case r of b # r \<Rightarrow> utf8_cont b \<and> utf8_valid r | [] \<Rightarrow> False)
      else if 0xE0 \<le> a \<and> a \<le> 0xEF then
        (case r of b # c # r \<Rightarrow>
            utf8_cont b \<and> (a = 0xE0 \<longrightarrow> 0xA0 \<le> b) \<and> (a = 0xED \<longrightarrow> b \<le> 0x9F)
            \<and> utf8_cont c \<and> utf8_valid r
         | _ \<Rightarrow> False)
      else if 0xF0 \<le> a \<and> a \<le> 0xF4 then
        (case r of b # c # d # r \<Rightarrow>
            utf8_cont b \<and> (a = 0xF0 \<longrightarrow> 0x90 \<le> b) \<and> (a = 0xF4 \<longrightarrow> b \<le> 0x8F)
            \<and> utf8_cont c \<and> utf8_cont d \<and> utf8_valid r
         | _ \<Rightarrow> False)
      else False)"

declare utf8_valid.simps(2) [simp del]

text \<open>The final word, with its padding removed.\<close>

definition strip_padding :: "u8 list \<Rightarrow> u8 list" where
  "strip_padding w =
     (case w of
        [a, b, c, d] \<Rightarrow>
          if b = 0 \<and> c = 0 \<and> d = 0 then [a]
          else if c = 0 \<and> d = 0 then [a, b]
          else if d = 0 then [a, b, c]
          else [a, b, c, d]
      | _ \<Rightarrow> w)"

fun le_words :: "u8 list \<Rightarrow> u8 list \<Rightarrow> u8 list parse_result" where
  "le_words (a # b # c # d # e # r) str_bytes =
     le_words (e # r) (str_bytes @ be32 (from_be32 d c b a))"
| "le_words le_bytes str_bytes =
     bind_outcome (get_u32_le le_bytes) (\<lambda>(w, _). Ok (str_bytes @ strip_padding (be32 w)))"

definition le_bytes_to_string :: "u8 list \<Rightarrow> (u8 list \<times> u8 list) parse_result" where
  "le_bytes_to_string le_bytes =
     (if length le_bytes mod 4 \<noteq> 0 then Err NotEnoughData
      else bind_outcome (le_words le_bytes []) (\<lambda>str_bytes.
        if utf8_valid str_bytes then Ok (str_bytes, []) else Err StreamTypeNotUtf8))"

fun string_to_le_bytes :: "u8 list \<Rightarrow> u8 list" where
  "string_to_le_bytes (a # b # c # d # r) = [d, c, b, a] @ string_to_le_bytes r"
| "string_to_le_bytes [a, b, c] = [0, c, b, a]"
| "string_to_le_bytes [a, b] = [0, 0, b, a]"
| "string_to_le_bytes [a] = [0, 0, 0, a]"
| "string_to_le_bytes [] = []"

section \<open>Filters\<close>

fun filter_display :: "FilterSpec \<Rightarrow> u8 list" where
  "filter_display [] = []"
| "filter_display [(k, v)] = k @ 58 # v"
| "filter_display ((k, v) # r) = k @ 58 # v @ 44 # filter_display r"

text \<open>\<open>str::split\<close> by a one-byte character, and insertion into a \<open>BTreeMap\<close>.\<close>

fun split_on :: "u8 \<Rightarrow> u8 list \<Rightarrow> u8 list list" where
  "split_on c [] = [[]]"
| "split_on c (x # xs) =
     (if x = c then [] # split_on c xs
      else case split_on c xs of [] \<Rightarrow> [[x]] | p # ps \<Rightarrow> (x # p) # ps)"

fun btree_insert :: "u8 list \<Rightarrow> u8 list \<Rightarrow> FilterSpec \<Rightarrow> FilterSpec" where
  "btree_insert k v [] = [(k, v)]"
| "btree_insert k v ((k', v') # r) =
     (if k < k' then (k, v) # (k', v') # r
      else if k = k' then (k, v) # r
      else (k', v') # btree_insert k v r)"

definition filter_entry :: "u8 list \<Rightarrow> u8 list \<Rightarrow> (u8 list \<times> u8 list) parse_result" where
  "filter_entry filter_str kv =
     (case split_on 58 kv of [k, v] \<Rightarrow> Ok (k, v) | _ \<Rightarrow> Err (BadFilter filter_str))"

fun filter_collect :: "u8 list \<Rightarrow> u8 list list \<Rightarrow> FilterSpec \<Rightarrow> FilterSpec parse_result" where
  "filter_collect filter_str [] m = Ok m"
| "filter_collect filter_str (kv # kvs) m =
     bind_outcome (filter_entry filter_str kv) (\<lambda>(k, v).
       filter_collect filter_str kvs (btree_insert k v m))"

section \<open>Handshake extension and keying material\<close>

definition srt_handshake_parse :: "u8 list \<Rightarrow> (SrtHandshake \<times> u8 list) parse_result" where
  "srt_handshake_parse buf =
     (if length buf < 12 then Err NotEnoughData
      else bind_outcome (get_u32 buf) (\<lambda>(version, buf).
        bind_outcome (get_u32 buf) (\<lambda>(shake_flags, buf).
        bind_outcome (get_u16 buf) (\<lambda>(peer_latency, buf).
        bind_outcome (get_u16 buf) (\<lambda>(latency, buf).
        Ok (\<lparr>sh_version = version_parse version, sh_flags = shake_flags_truncate shake_flags,
             sh_send_latency = duration_from_millis (unat peer_latency),
             sh_recv_latency = duration_from_millis (unat latency)\<rparr>, buf))))))"

definition srt_handshake_serialize :: "SrtHandshake \<Rightarrow> u8 list" where
  "srt_handshake_serialize self =
     be32 (version_to_u32 (sh_version self)) @ be32 (sh_flags self)
     @ be16 (of_nat (as_millis (sh_send_latency self)))
     @ be16 (of_nat (as_millis (sh_recv_latency self)))"

definition KM_SIGN :: u16 where
  "KM_SIGN = push_bit 10 8 OR push_bit 5 1 OR 9"

fun get_words :: "nat \<Rightarrow> u8 list \<Rightarrow> (u8 list \<times> u8 list) parse_result" where
  "get_words 0 buf = Ok ([], buf)"
| "get_words (Suc n) buf =
     bind_outcome (get_u32 buf) (\<lambda>(w, buf).
     bind_outcome (get_words n buf) (\<lambda>(ws, buf). Ok (be32 w @ ws, buf)))"

definition km_parse_body ::
  "PacketType \<Rightarrow> KeyFlags \<Rightarrow> u8 list \<Rightarrow> (KeyingMaterialMessage \<times> u8 list) parse_result" where
  "km_parse_body pt key_flags buf =
     bind_outcome (get_u32 buf) (\<lambda>(keki, buf).
     bind_outcome (get_u8 buf) (\<lambda>(c, buf).
     bind_outcome (cipher_type_try_from c) (\<lambda>cipher.
     bind_outcome (get_u8 buf) (\<lambda>(a, buf).
     bind_outcome (auth_try_from a) (\<lambda>auth.
     bind_outcome (get_u8 buf) (\<lambda>(s, buf).
     bind_outcome (stream_encapsulation_try_from s) (\<lambda>se.
     if se \<noteq> SE_Srt then Err StreamEncapsulationNotSrt
     else bind_outcome (get_u8 buf) (\<lambda>(_, buf).
     bind_outcome (get_u16 buf) (\<lambda>(_, buf).
     bind_outcome (get_u8 buf) (\<lambda>(sl, buf).
     bind_outcome (get_u8 buf) (\<lambda>(kl, buf).
     let salt_len = unat sl * 4; key_len = unat kl * 4 in
     if \<not> (key_len = 16 \<or> key_len = 24 \<or> key_len = 32) then Err (BadCryptoLength (of_nat key_len))
     else if length buf < salt_len + key_len * count_ones key_flags + 8 then Err NotEnoughData
     else bind_outcome (get_words (salt_len div 4) buf) (\<lambda>(salt, buf).
     bind_outcome (get_words ((key_len * count_ones key_flags + 8) div 4) buf) (\<lambda>(wrapped_keys, buf).
     Ok (\<lparr>km_pt = pt, km_key_flags = key_flags, km_keki = keki, km_cipher = cipher, km_auth = auth,
          km_salt = salt, km_wrapped_keys = wrapped_keys\<rparr>, buf))))))))))))))"

definition km_parse :: "u8 list \<Rightarrow> (KeyingMaterialMessage \<times> u8 list) parse_result" where
  "km_parse buf =
     (if length buf < 4 * 4 then Err NotEnoughData
      else bind_outcome (get_u8 buf) (\<lambda>(vers_pt, buf).
        if vers_pt AND 0x80 \<noteq> 0 then Err BadSrtExtensionMessage
        else if drop_bit 4 vers_pt \<noteq> 1 then Err BadSrtExtensionMessage
        else bind_outcome (packet_type_try_from (vers_pt AND 0x0F)) (\<lambda>pt.
        bind_outcome (get_u16 buf) (\<lambda>(sign, buf).
        if sign \<noteq> KM_SIGN then Err (BadKeySign sign)
        else bind_outcome (get_u8 buf) (\<lambda>(kf, buf).
        km_parse_body pt (kf AND 3) buf)))))"

fun put_chunks :: "u8 list \<Rightarrow> u8 list may_panic" where
  "put_chunks [] = Ok []"
| "put_chunks (a # b # c # d # r) = map_outcome_ok (\<lambda>bs. be32 (from_be32 a b c d) @ bs) (put_chunks r)"
| "put_chunks _ = Panic"

definition km_serialize :: "KeyingMaterialMessage \<Rightarrow> u8 list may_panic" where
  "km_serialize self =
     (if count_ones (km_key_flags self) = 0 then Panic
      else
        let key_len = usize_sub (length (km_wrapped_keys self)) 8 div count_ones (km_key_flags self) in
        map_outcome_ok (\<lambda>keys.
          [push_bit 4 1 OR packet_type_as_u8 (km_pt self)] @ be16 KM_SIGN @ [km_key_flags self]
          @ be32 (km_keki self)
          @ [cipher_type_as_u8 (km_cipher self), 0, 2, 0]
          @ be16 0 @ [of_nat (length (km_salt self) div 4), of_nat (key_len div 4)]
          @ km_salt self @ keys) (put_chunks (km_wrapped_keys self)))"

section \<open>The extension messages\<close>

definition srt_parse :: "u16 \<Rightarrow> u8 list \<Rightarrow> (SrtControlPacket \<times> u8 list) parse_result" where
  "srt_parse packet_type buf =
     (if packet_type = 0 then Ok (Srt_Reject, buf)
      else if packet_type = 1 then
        map_outcome_ok (\<lambda>(h, buf). (Srt_HandshakeRequest h, buf)) (srt_handshake_parse buf)
      else if packet_type = 2 then
        map_outcome_ok (\<lambda>(h, buf). (Srt_HandshakeResponse h, buf)) (srt_handshake_parse buf)
      else if packet_type = 3 then
        map_outcome_ok (\<lambda>(k, buf). (Srt_KeyRefreshRequest k, buf)) (km_parse buf)
      else if packet_type = 4 then
        map_outcome_ok (\<lambda>(k, buf). (Srt_KeyRefreshResponse k, buf)) (km_parse buf)
      else if packet_type = 5 then
        map_outcome_ok (\<lambda>(s, buf). (Srt_StreamId s, buf)) (le_bytes_to_string buf)
      else if packet_type = 6 then
        map_outcome_ok (\<lambda>(s, buf). (Srt_Congestion s, buf)) (le_bytes_to_string buf)
      else if packet_type = 7 then
        bind_outcome (le_bytes_to_string buf) (\<lambda>(filter_str, buf).
        map_outcome_ok (\<lambda>m. (Srt_Filter m, buf))
          (filter_collect filter_str (split_on 44 filter_str) []))
      else if packet_type = 8 then
        bind_outcome (get_u8 buf) (\<lambda>(ty, buf).
        bind_outcome (get_u8 buf) (\<lambda>(flags, buf).
        bind_outcome (get_u16_le buf) (\<lambda>(weight, buf).
        Ok (Srt_Group (group_type_from ty) (flags AND GroupFlags_MSG_SYNC) weight, buf))))
      else Err (UnsupportedSrtExtensionType packet_type))"

fun srt_type_id :: "SrtControlPacket \<Rightarrow> u16" where
  "srt_type_id Srt_Reject = 0"
| "srt_type_id (Srt_HandshakeRequest _) = 1"
| "srt_type_id (Srt_HandshakeResponse _) = 2"
| "srt_type_id (Srt_KeyRefreshRequest _) = 3"
| "srt_type_id (Srt_KeyRefreshResponse _) = 4"
| "srt_type_id (Srt_StreamId _) = 5"
| "srt_type_id (Srt_Congestion _) = 6"
| "srt_type_id (Srt_Filter _) = 7"
| "srt_type_id (Srt_Group _ _ _) = 8"

fun srt_serialize :: "SrtControlPacket \<Rightarrow> u8 list may_panic" where
  "srt_serialize (Srt_HandshakeRequest s) = Ok (srt_handshake_serialize s)"
| "srt_serialize (Srt_HandshakeResponse s) = Ok (srt_handshake_serialize s)"
| "srt_serialize (Srt_KeyRefreshRequest k) = km_serialize k"
| "srt_serialize (Srt_KeyRefreshResponse k) = km_serialize k"
| "srt_serialize (Srt_Filter f) = Ok (string_to_le_bytes (filter_display f))"
| "srt_serialize (Srt_Group ty flags weight) = Ok ([group_type_into ty, flags] @ rev (be16 weight))"
| "srt_serialize Srt_Reject = Ok []"
| "srt_serialize (Srt_StreamId s) = Ok (string_to_le_bytes s)"
| "srt_serialize (Srt_Congestion s) = Ok (string_to_le_bytes s)"

fun srt_size_words :: "SrtControlPacket \<Rightarrow> u16 may_panic" where
  "srt_size_words (Srt_HandshakeRequest _) = Ok 3"
| "srt_size_words (Srt_HandshakeResponse _) = Ok 3"
| "srt_size_words (Srt_KeyRefreshRequest k) =
     Ok (4 + of_nat (length (km_salt k)) div 4 + of_nat (length (km_wrapped_keys k)) div 4)"
| "srt_size_words (Srt_KeyRefreshResponse k) =
     Ok (4 + of_nat (length (km_salt k)) div 4 + of_nat (length (km_wrapped_keys k)) div 4)"
| "srt_size_words (Srt_Congestion s) = Ok (of_nat ((length s + 3) div 4))"
| "srt_size_words (Srt_StreamId s) = Ok (of_nat ((length s + 3) div 4))"
| "srt_size_words (Srt_Group _ _ _) = Ok 1"
| "srt_size_words (Srt_Filter f) = Ok (of_nat ((length (filter_display f) + 3) div 4))"
| "srt_size_words Srt_Reject = Panic"

section \<open>Round trips of the parts\<close>

lemma version_to_u32_from_be32:
  "version_to_u32 v = from_be32 0 (v_major v) (v_minor v) (v_patch v)"
proof -
  let ?M = "push_bit 16 (ucast (v_major v)) :: u32" and ?m = "push_bit 8 (ucast (v_minor v)) :: u32"
  let ?p = "ucast (v_patch v) :: u32"
  have "version_to_u32 v = ?M + ?m + ?p"
    by (simp add: version_to_u32_def push_bit_eq_mult)
  also have "?M + ?m = ?M OR ?m"
    by (rule disjunctive_add) (auto simp: bit_simps bit_u8_beyond)
  also have "(?M OR ?m) + ?p = ?M OR ?m OR ?p"
    unfolding or.assoc [symmetric] by (rule disjunctive_add) (auto simp: bit_simps bit_u8_beyond)
  finally show ?thesis
    by (simp add: from_be32_def or.assoc)
qed

lemma strip_padding_cons:
  "strip_padding [a, b, c, d] = (if b = 0 \<and> c = 0 \<and> d = 0 then [a]
     else if c = 0 \<and> d = 0 then [a, b] else if d = 0 then [a, b, c] else [a, b, c, d])"
  by (simp add: strip_padding_def)

lemma length_string_to_le_bytes: "length (string_to_le_bytes s) = 4 * ((length s + 3) div 4)"
proof (induction s rule: string_to_le_bytes.induct)
  case (1 a b c d r)
  have "(7 + length r) div 4 = 1 + (length r + 3) div 4" by presburger
  with 1 show ?case by simp
qed auto

lemma le_words_single: "le_words [d, c, b, a] acc = Ok (acc @ strip_padding [a, b, c, d])"
  by (simp add: be32_from_be32)

lemma le_words_cons: "le_words (d # c # b # a # e # r) acc = le_words (e # r) (acc @ [a, b, c, d])"
  by (simp add: be32_from_be32)

lemma le_words_string:
  "s \<noteq> [] \<Longrightarrow> last s \<noteq> 0 \<Longrightarrow> le_words (string_to_le_bytes s) acc = Ok (acc @ s)"
proof (induction s arbitrary: acc rule: string_to_le_bytes.induct)
  case (1 a b c d r)
  show ?case
  proof (cases r)
    case Nil
    then show ?thesis using 1 by (simp add: le_words_single strip_padding_cons del: le_words.simps)
  next
    case (Cons x r')
    moreover obtain y ys where "string_to_le_bytes r = y # ys"
      using Cons by (cases "string_to_le_bytes r"; cases r rule: string_to_le_bytes.cases) auto
    ultimately show ?thesis
      using 1 by (simp add: le_words_cons del: le_words.simps)
  qed
qed (simp_all add: le_words_single strip_padding_cons del: le_words.simps)

lemma le_string_roundtrip:
  assumes "s \<noteq> []" "last s \<noteq> 0" "utf8_valid s"
  shows "le_bytes_to_string (string_to_le_bytes s) = Ok (s, [])"
  using assms by (simp add: le_bytes_to_string_def length_string_to_le_bytes le_words_string)

lemma get_words_enough:
  "4 * n \<le> length bs \<Longrightarrow> get_words n bs = Ok (take (4 * n) bs, drop (4 * n) bs)"
proof (induction n arbitrary: bs)
  case (Suc n)
  then obtain w r where w: "bs = be32 w @ r" "get_u32 bs = (Ok (w, r) :: (u32 \<times> u8 list) parse_result)"
    using get_u32_enough [of bs] get_u32_OkD by (metis Suc_leI add_leE mult_Suc_right)
  with Suc show ?case by simp
qed simp

lemma put_chunks_eq: "put_chunks bs = (if length bs mod 4 = 0 then Ok bs else Panic)"
  by (induction bs rule: put_chunks.induct) (auto simp: be32_from_be32)

lemma version_roundtrip: "version_parse (version_to_u32 v) = v"
proof -
  have "be32 (version_to_u32 v) = [0, v_major v, v_minor v, v_patch v]"
    by (simp add: version_to_u32_from_be32 be32_from_be32)
  then show ?thesis
    by (simp add: version_parse_def be32_def)
qed

definition srt_handshake_wf :: "SrtHandshake \<Rightarrow> bool" where
  "srt_handshake_wf h \<longleftrightarrow> shake_flags_truncate (sh_flags h) = sh_flags h
     \<and> sh_send_latency h mod 1000000 = 0 \<and> sh_send_latency h < 65536 * 1000000
     \<and> sh_recv_latency h mod 1000000 = 0 \<and> sh_recv_latency h < 65536 * 1000000"

lemma millis_roundtrip:
  assumes "d mod 1000000 = 0" "d < 65536 * 1000000"
  shows "duration_from_millis (unat (of_nat (as_millis d) :: u16)) = d"
proof -
  have "as_millis d < 65536"
    using assms(2) by (simp add: as_millis_def less_mult_imp_div_less)
  then have "unat (of_nat (as_millis d) :: u16) = as_millis d"
    by (simp add: unat_of_nat_small)
  then show ?thesis
    using assms(1) div_mult_mod_eq [of d 1000000]
    by (simp add: duration_from_millis_def as_millis_def)
qed

lemma srt_handshake_roundtrip:
  assumes "srt_handshake_wf h"
  shows "srt_handshake_parse (srt_handshake_serialize h @ r) = Ok (h, r)"
  using assms
  by (simp add: srt_handshake_parse_def srt_handshake_serialize_def wire_simps version_roundtrip
      srt_handshake_wf_def millis_roundtrip)

lemma length_srt_handshake_serialize [simp]: "length (srt_handshake_serialize h) = 12"
  by (simp add: srt_handshake_serialize_def)

text \<open>A keying material message that fits the wire format: one or two keys of the same valid
  length, and a salt of whole words.\<close>

definition km_wf :: "KeyingMaterialMessage \<Rightarrow> bool" where
  "km_wf k \<longleftrightarrow> km_key_flags k \<in> {1, 2, 3}
     \<and> length (km_salt k) mod 4 = 0 \<and> length (km_salt k) < 1024
     \<and> length (km_wrapped_keys k) \<in> (\<lambda>n. n * count_ones (km_key_flags k) + 8) ` {16, 24, 32}"

lemma count_ones_flags:
  "count_ones (1 :: u8) = 1" "count_ones (2 :: u8) = 1" "count_ones (3 :: u8) = 2"
  "count_ones (0 :: u8) = 0"
proof -
  have "[0..<LENGTH(8)] = [0, Suc 0, 2, 3, 4, 5, 6, 7]" by (simp add: upt_rec)
  then show "count_ones (1 :: u8) = 1" "count_ones (2 :: u8) = 1" "count_ones (3 :: u8) = 2"
    "count_ones (0 :: u8) = 0"
    by (simp_all add: count_ones_def)
qed

lemma get_words_append:
  "length ws = 4 * n \<Longrightarrow> get_words n (ws @ r) = Ok (ws, r)"
  by (simp add: get_words_enough)

lemma km_wfE:
  assumes "km_wf k"
  obtains n where "n \<in> {16, 24, 32}"
    "length (km_wrapped_keys k) = n * count_ones (km_key_flags k) + 8"
    "usize_sub (length (km_wrapped_keys k)) 8 div count_ones (km_key_flags k) = n"
    "km_key_flags k AND 3 = km_key_flags k" "0 < count_ones (km_key_flags k)"
    "unat (of_nat (length (km_salt k) div 4) :: u8) * 4 = length (km_salt k)"
    "unat (of_nat (n div 4) :: u8) * 4 = n"
proof -
  obtain n where n: "n \<in> {16, 24, 32}"
    "length (km_wrapped_keys k) = n * count_ones (km_key_flags k) + 8"
    using assms by (auto simp: km_wf_def)
  have f: "km_key_flags k AND 3 = km_key_flags k" "0 < count_ones (km_key_flags k)"
    using assms by (auto simp: km_wf_def count_ones_flags)
  have "length (km_salt k) div 4 < 256" "length (km_salt k) mod 4 = 0"
    using assms by (auto simp: km_wf_def)
  then have "unat (of_nat (length (km_salt k) div 4) :: u8) * 4 = length (km_salt k)"
    by (simp add: unat_of_nat_small) presburger
  moreover have "unat (of_nat (n div 4) :: u8) * 4 = n"
    using n(1) by auto
  ultimately show ?thesis
    using n f by (intro that [of n]) (auto simp: usize_sub_le)
qed

lemma km_serialize_wf:
  assumes "km_wf k"
  shows "\<exists>bs. km_serialize k = Ok bs \<and> length bs = 16 + length (km_salt k) + length (km_wrapped_keys k)
    \<and> (\<forall>r. km_parse (bs @ r) = Ok (k, r))"
proof -
  obtain n where n: "n \<in> {16, 24, 32}"
    "length (km_wrapped_keys k) = n * count_ones (km_key_flags k) + 8"
    "usize_sub (length (km_wrapped_keys k)) 8 div count_ones (km_key_flags k) = n"
    "km_key_flags k AND 3 = km_key_flags k" "0 < count_ones (km_key_flags k)"
    "unat (of_nat (length (km_salt k) div 4) :: u8) * 4 = length (km_salt k)"
    "unat (of_nat (n div 4) :: u8) * 4 = n"
    using assms by (rule km_wfE)
  let ?bs = "[push_bit 4 1 OR packet_type_as_u8 (km_pt k)] @ be16 KM_SIGN @ [km_key_flags k]
    @ be32 (km_keki k) @ [cipher_type_as_u8 (km_cipher k), 0, 2, 0] @ be16 0
    @ [of_nat (length (km_salt k) div 4), of_nat (n div 4)] @ km_salt k @ km_wrapped_keys k"
  have m: "length (km_wrapped_keys k) mod 4 = 0" "length (km_salt k) mod 4 = 0"
    using n(1,2) assms by (auto simp: km_wf_def mod_simps)
  have s: "km_serialize k = Ok ?bs"
    using n(3,5) m(1) by (simp add: km_serialize_def put_chunks_eq)
  have body: "km_parse_body (km_pt k) (km_key_flags k) (be32 (km_keki k)
      @ [cipher_type_as_u8 (km_cipher k), 0, 2, 0] @ be16 0
      @ [of_nat (length (km_salt k) div 4), of_nat (n div 4)] @ km_salt k @ km_wrapped_keys k @ r)
    = Ok (k, r)" for r
  proof -
    have kl: "n = 16 \<or> n = 24 \<or> n = 32" "4 * ((n * count_ones (km_key_flags k) + 8) div 4) = length (km_wrapped_keys k)"
      "4 * (length (km_salt k) div 4) = length (km_salt k)"
      using n(1,2) m by auto
    have c: "cipher_type_try_from (cipher_type_as_u8 (km_cipher k)) = Ok (km_cipher k)"
      by (cases "km_cipher k") (simp_all add: cipher_type_try_from_def)
    have a: "Auth_None = km_auth k" by (cases "km_auth k") simp
    show ?thesis
      using kl n(2,6,7)
      by (simp add: km_parse_body_def wire_simps c auth_try_from_def a stream_encapsulation_try_from_def
          get_words_append Let_def) auto
  qed
  have "km_parse (?bs @ r) = Ok (k, r)" for r
    using n(4) body [of r]
    by (cases "km_pt k") (simp_all add: km_parse_def wire_simps packet_type_try_from_def)
  with s show ?thesis by auto
qed

section \<open>Filters survive the round trip\<close>

lemma split_on_append:
  "c \<notin> set xs \<Longrightarrow> split_on c (xs @ c # ys) = xs # split_on c ys"
  by (induction xs) auto

lemma split_on_none: "c \<notin> set xs \<Longrightarrow> split_on c xs = [xs]"
  by (induction xs) auto

definition filter_wf :: "FilterSpec \<Rightarrow> bool" where
  "filter_wf f \<longleftrightarrow> f \<noteq> [] \<and> sorted_wrt (<) (map fst f)
     \<and> list_all (\<lambda>(k, v). 58 \<notin> set k \<and> 44 \<notin> set k \<and> 58 \<notin> set v \<and> 44 \<notin> set v) f
     \<and> last (filter_display f) \<noteq> 0 \<and> utf8_valid (filter_display f)"

lemma filter_split:
  "f \<noteq> [] \<Longrightarrow> list_all (\<lambda>(k, v). 44 \<notin> set k \<and> 44 \<notin> set v) f \<Longrightarrow>
   split_on 44 (filter_display f) = map (\<lambda>(k, v). k @ 58 # v) f"
proof (induction f rule: filter_display.induct)
  case (2 k v)
  then show ?case by (simp add: split_on_none)
next
  case (3 k v e r)
  then show ?case using split_on_append [of 44 "k @ 58 # v" "filter_display (e # r)"] by auto
qed simp

lemma btree_insert_last:
  "list_all (\<lambda>k'. k' < k) (map fst m) \<Longrightarrow> btree_insert k v m = m @ [(k, v)]"
  by (induction m) auto

lemma filter_collect_sorted:
  "list_all (\<lambda>(k, v). 58 \<notin> set k \<and> 58 \<notin> set v) f \<Longrightarrow> sorted_wrt (<) (map fst (m @ f)) \<Longrightarrow>
   filter_collect s (map (\<lambda>(k, v). k @ 58 # v) f) m = Ok (m @ f)"
proof (induction f arbitrary: m)
  case (Cons e f)
  obtain k v where e: "e = (k, v)" by (cases e)
  have "filter_entry s (k @ 58 # v) = Ok (k, v)"
    using Cons.prems(1) e by (simp add: filter_entry_def split_on_append split_on_none)
  moreover have "btree_insert k v m = m @ [e]"
    using Cons.prems(2) e by (intro btree_insert_last [of k m v, folded e])
      (auto simp: sorted_wrt_append list_all_iff)
  ultimately show ?case
    using Cons.IH [of "m @ [e]"] Cons.prems e by simp
qed simp

section \<open>Extension messages survive the round trip\<close>

definition string_wf :: "u8 list \<Rightarrow> bool" where
  "string_wf s \<longleftrightarrow> s \<noteq> [] \<and> last s \<noteq> 0 \<and> utf8_valid s"

fun srt_wf :: "SrtControlPacket \<Rightarrow> bool" where
  "srt_wf Srt_Reject = True"
| "srt_wf (Srt_HandshakeRequest h) = srt_handshake_wf h"
| "srt_wf (Srt_HandshakeResponse h) = srt_handshake_wf h"
| "srt_wf (Srt_KeyRefreshRequest k) = km_wf k"
| "srt_wf (Srt_KeyRefreshResponse k) = km_wf k"
| "srt_wf (Srt_StreamId s) = string_wf s"
| "srt_wf (Srt_Congestion s) = string_wf s"
| "srt_wf (Srt_Filter f) = filter_wf f"
| "srt_wf (Srt_Group ty flags _) =
     (flags AND GroupFlags_MSG_SYNC = flags \<and> group_type_from (group_type_into ty) = ty)"

lemma filter_display_nonempty: "f \<noteq> [] \<Longrightarrow> filter_display f \<noteq> []"
  by (cases f rule: filter_display.cases) auto

lemma srt_filter_roundtrip:
  assumes "filter_wf f"
  shows "srt_parse 7 (string_to_le_bytes (filter_display f)) = Ok (Srt_Filter f, [])"
proof -
  have "le_bytes_to_string (string_to_le_bytes (filter_display f)) = Ok (filter_display f, [])"
    using assms by (intro le_string_roundtrip) (auto simp: filter_wf_def filter_display_nonempty)
  moreover have "split_on 44 (filter_display f) = map (\<lambda>(k, v). k @ 58 # v) f"
    using assms by (intro filter_split) (auto simp: filter_wf_def list_all_iff)
  moreover have "filter_collect s (map (\<lambda>(k, v). k @ 58 # v) f) [] = Ok f" for s
    using assms filter_collect_sorted [of f "[]"] by (auto simp: filter_wf_def list_all_iff)
  ultimately show ?thesis
    by (simp add: srt_parse_def)
qed

lemma srt_roundtrip:
  assumes "srt_wf p"
  shows "\<exists>bs. srt_serialize p = Ok bs \<and> srt_parse (srt_type_id p) bs = Ok (p, [])"
proof (cases p)
  case (Srt_HandshakeRequest h)
  then show ?thesis
    using assms srt_handshake_roundtrip [of h "[]"] by (simp add: srt_parse_def)
next
  case (Srt_HandshakeResponse h)
  then show ?thesis
    using assms srt_handshake_roundtrip [of h "[]"] by (simp add: srt_parse_def)
next
  case (Srt_KeyRefreshRequest k)
  then obtain bs where "km_serialize k = Ok bs" "km_parse bs = Ok (k, [])"
    using assms km_serialize_wf [of k] by (metis append_Nil2 srt_wf.simps(4,5))
  then show ?thesis
    using Srt_KeyRefreshRequest by (auto simp: srt_parse_def)
next
  case (Srt_KeyRefreshResponse k)
  then obtain bs where "km_serialize k = Ok bs" "km_parse bs = Ok (k, [])"
    using assms km_serialize_wf [of k] by (metis append_Nil2 srt_wf.simps(4,5))
  then show ?thesis
    using Srt_KeyRefreshResponse by (auto simp: srt_parse_def)
next
  case (Srt_StreamId s)
  then show ?thesis
    using assms le_string_roundtrip [of s] by (simp add: srt_parse_def string_wf_def)
next
  case (Srt_Congestion s)
  then show ?thesis
    using assms le_string_roundtrip [of s] by (simp add: srt_parse_def string_wf_def)
next
  case (Srt_Filter f)
  then show ?thesis
    using assms srt_filter_roundtrip [of f] by simp
next
  case (Srt_Group ty flags weight)
  then show ?thesis
    using assms by (simp add: srt_parse_def get_u16_le_be16 [where r = "[]", simplified])
qed (simp add: srt_parse_def)

lemma srt_size_words:
  assumes "srt_wf p" "p \<noteq> Srt_Reject" "srt_serialize p = Ok bs" "length bs < 4 * 65536"
  shows "\<exists>n. srt_size_words p = Ok n \<and> 4 * unat n = length bs"
proof -
  have str: "4 * unat (of_nat ((length s + 3) div 4) :: u16) = length (string_to_le_bytes s)"
    if "length (string_to_le_bytes s) < 4 * 65536" for s
    using that by (simp add: length_string_to_le_bytes unat_of_nat_small)
  have km: "\<exists>n. srt_size_words p = Ok n \<and> 4 * unat n = length bs"
    if "km_wf k" "km_serialize k = Ok bs" "srt_size_words p =
      Ok (4 + of_nat (length (km_salt k)) div 4 + of_nat (length (km_wrapped_keys k)) div 4)" for k
  proof -
    have l: "length bs = 16 + length (km_salt k) + length (km_wrapped_keys k)"
      using km_serialize_wf [OF that(1)] that(2) by auto
    have m: "length (km_salt k) mod 4 = 0" "length (km_wrapped_keys k) mod 4 = 0"
      "length (km_salt k) < 1024" "length (km_wrapped_keys k) \<le> 72"
      using that(1) by (auto simp: km_wf_def count_ones_flags)
    then have "unat (4 + of_nat (length (km_salt k)) div 4 + of_nat (length (km_wrapped_keys k)) div 4 :: u16)
      = 4 + length (km_salt k) div 4 + length (km_wrapped_keys k) div 4"
      by (simp add: unat_word_ariths unat_of_nat_small unat_div)
    then show ?thesis
      using that(3) l m by auto
  qed
  show ?thesis
    using assms km str by (cases p) (auto simp: be16_def)
qed

end
