(* ===== verification/Control_Packet.thy ===== *)
theory Control_Packet
  imports Srt_Control Loss_Compression
begin

text \<open>
  Control packets (\<open>packet/control/mod.rs\<close>) and the packet type that unites them with data packets
  (\<open>packet/mod.rs\<close>): handshakes, acknowledgements, loss reports, drop requests and the SRT
  extension messages, with the parser and the serializer of each.
\<close>

section \<open>Handshake types\<close>

type_synonym PacketSize = u64
type_synonym PacketCount = u64

datatype SocketType = ST_Stream | ST_Datagram

fun socket_type_as_u32 :: "SocketType \<Rightarrow> u32" where
  "socket_type_as_u32 ST_Stream = 1"
| "socket_type_as_u32 ST_Datagram = 2"

definition socket_type_from_u16 :: "u16 \<Rightarrow> (SocketType, u16) outcome" where
  "socket_type_from_u16 num =
     (if num = 1 then Ok ST_Stream else if num = 2 then Ok ST_Datagram else Err num)"

datatype CoreRejectReason =
    Core_System | Core_Peer | Core_Resource | Core_Rogue | Core_Backlog | Core_Ipe | Core_Close
  | Core_Version | Core_RdvCookie | Core_BadSecret | Core_Unsecure | Core_MessageApi
  | Core_Congestion | Core_Filter | Core_Group | Core_Timeout

datatype ServerRejectReason =
    Server_Fallback | Server_KeyNotSup | Server_Filepath | Server_HostNotFound | Server_BadRequest
  | Server_Unauthorized | Server_Overload | Server_Forbidden | Server_Notfound | Server_BadMode
  | Server_Unacceptable | Server_Conflict | Server_NotSupMedia | Server_Locked
  | Server_FailedDepend | Server_InternalServerError | Server_Unimplemented | Server_Gateway
  | Server_Down | Server_Version | Server_NoRoom

datatype RejectReason =
    RR_Core CoreRejectReason
  | RR_CoreUnrecognized i32
  | RR_Server ServerRejectReason
  | RR_ServerUnrecognized i32
  | RR_User i32

datatype ShakeType = Induction | Waveahand | Conclusion | Agreement | Rejection RejectReason

fun core_reject_into :: "CoreRejectReason \<Rightarrow> i32" where
  "core_reject_into Core_System = 1001"
| "core_reject_into Core_Peer = 1002"
| "core_reject_into Core_Resource = 1003"
| "core_reject_into Core_Rogue = 1004"
| "core_reject_into Core_Backlog = 1005"
| "core_reject_into Core_Ipe = 1006"
| "core_reject_into Core_Close = 1007"
| "core_reject_into Core_Version = 1008"
| "core_reject_into Core_RdvCookie = 1009"
| "core_reject_into Core_BadSecret = 1010"
| "core_reject_into Core_Unsecure = 1011"
| "core_reject_into Core_MessageApi = 1012"
| "core_reject_into Core_Congestion = 1013"
| "core_reject_into Core_Filter = 1014"
| "core_reject_into Core_Group = 1015"
| "core_reject_into Core_Timeout = 1016"

definition core_reject_try_from :: "i32 \<Rightarrow> (CoreRejectReason, i32) outcome" where
  "core_reject_try_from value =
     (if value = 1001 then Ok Core_System
      else if value = 1002 then Ok Core_Peer
      else if value = 1003 then Ok Core_Resource
      else if value = 1004 then Ok Core_Rogue
      else if value = 1005 then Ok Core_Backlog
      else if value = 1006 then Ok Core_Ipe
      else if value = 1007 then Ok Core_Close
      else if value = 1008 then Ok Core_Version
      else if value = 1009 then Ok Core_RdvCookie
      else if value = 1010 then Ok Core_BadSecret
      else if value = 1011 then Ok Core_Unsecure
      else if value = 1012 then Ok Core_MessageApi
      else if value = 1013 then Ok Core_Congestion
      else if value = 1014 then Ok Core_Filter
      else if value = 1015 then Ok Core_Group
      else if value = 1016 then Ok Core_Timeout
      else Err value)"

fun server_reject_into :: "ServerRejectReason \<Rightarrow> i32" where
  "server_reject_into Server_Fallback = 2000"
| "server_reject_into Server_KeyNotSup = 2001"
| "server_reject_into Server_Filepath = 2002"
| "server_reject_into Server_HostNotFound = 2003"
| "server_reject_into Server_BadRequest = 2400"
| "server_reject_into Server_Unauthorized = 2401"
| "server_reject_into Server_Overload = 2402"
| "server_reject_into Server_Forbidden = 2403"
| "server_reject_into Server_Notfound = 2404"
| "server_reject_into Server_BadMode = 2405"
| "server_reject_into Server_Unacceptable = 2406"
| "server_reject_into Server_Conflict = 2409"
| "server_reject_into Server_NotSupMedia = 2415"
| "server_reject_into Server_Locked = 2423"
| "server_reject_into Server_FailedDepend = 2424"
| "server_reject_into Server_InternalServerError = 2500"
| "server_reject_into Server_Unimplemented = 2501"
| "server_reject_into Server_Gateway = 2502"
| "server_reject_into Server_Down = 2503"
| "server_reject_into Server_Version = 2505"
| "server_reject_into Server_NoRoom = 2507"

definition server_reject_try_from :: "i32 \<Rightarrow> (ServerRejectReason, i32) outcome" where
  "server_reject_try_from value =
     (if value = 2000 then Ok Server_Fallback
      else if value = 2001 then Ok Server_KeyNotSup
      else if value = 2002 then Ok Server_Filepath
      else if value = 2003 then Ok Server_HostNotFound
      else if value = 2400 then Ok Server_BadRequest
      else if value = 2401 then Ok Server_Unauthorized
      else if value = 2402 then Ok Server_Overload
      else if value = 2403 then Ok Server_Forbidden
      else if value = 2404 then Ok Server_Notfound
      else if value = 2405 then Ok Server_BadMode
      else if value = 2406 then Ok Server_Unacceptable
      else if value = 2409 then Ok Server_Conflict
      else if value = 2415 then Ok Server_NotSupMedia
      else if value = 2423 then Ok Server_Locked
      else if value = 2424 then Ok Server_FailedDepend
      else if value = 2500 then Ok Server_InternalServerError
      else if value = 2501 then Ok Server_Unimplemented
      else if value = 2502 then Ok Server_Gateway
      else if value = 2503 then Ok Server_Down
      else if value = 2505 then Ok Server_Version
      else if value = 2507 then Ok Server_NoRoom
      else Err value)"

definition reject_reason_try_from :: "i32 \<Rightarrow> (RejectReason, i32) outcome" where
  "reject_reason_try_from v =
     (if sint v < 1000 then Err v
      else if sint v < 2000 then
        Ok (case core_reject_try_from v of Ok rr \<Rightarrow> RR_Core rr | _ \<Rightarrow> RR_CoreUnrecognized v)
      else if sint v < 3000 then
        Ok (case server_reject_try_from v of Ok rr \<Rightarrow> RR_Server rr | _ \<Rightarrow> RR_ServerUnrecognized v)
      else Ok (RR_User v))"

fun reject_reason_into :: "RejectReason \<Rightarrow> i32" where
  "reject_reason_into (RR_Core c) = core_reject_into c"
| "reject_reason_into (RR_CoreUnrecognized c) = c"
| "reject_reason_into (RR_Server s) = server_reject_into s"
| "reject_reason_into (RR_ServerUnrecognized s) = s"
| "reject_reason_into (RR_User u) = u"

definition shake_type_try_from :: "i32 \<Rightarrow> (ShakeType, i32) outcome" where
  "shake_type_try_from value =
     (if value = 1 then Ok Induction
      else if value = 0 then Ok Waveahand
      else if value = - 1 then Ok Conclusion
      else if value = - 2 then Ok Agreement
      else if sint value < 1000 then Err value
      else case reject_reason_try_from value of
             Ok rr \<Rightarrow> Ok (Rejection rr) | _ \<Rightarrow> Panic)"

fun shake_type_into :: "ShakeType \<Rightarrow> i32" where
  "shake_type_into Induction = 1"
| "shake_type_into Waveahand = 0"
| "shake_type_into Conclusion = - 1"
| "shake_type_into Agreement = - 2"
| "shake_type_into (Rejection rej) = reject_reason_into rej"

record HsV5Info =
  v5_key_size :: KeySize
  v5_ext_hs :: "SrtControlPacket option"
  v5_ext_km :: "SrtControlPacket option"
  v5_ext_group :: "SrtControlPacket option"
  v5_sid :: "u8 list option"

definition hs_v5_default :: HsV5Info where
  "hs_v5_default = \<lparr>v5_key_size = KS_Unspecified, v5_ext_hs = None, v5_ext_km = None,
     v5_ext_group = None, v5_sid = None\<rparr>"

datatype HandshakeVsInfo = HVI_V4 SocketType | HVI_V5 HsV5Info

datatype IpAddr = IpV4 u32 | IpV6 "u8 list" \<comment> \<open>the sixteen octets\<close>

record HandshakeControlInfo =
  hc_init_seq_num :: SeqNumber
  hc_max_packet_size :: PacketSize
  hc_max_flow_size :: PacketCount
  hc_shake_type :: ShakeType
  hc_socket_id :: SocketId
  hc_syn_cookie :: i32
  hc_peer_addr :: IpAddr
  hc_info :: HandshakeVsInfo

section \<open>Acknowledgements\<close>

type_synonym FullAckSeqNumber = u32

definition FullAck_INITIAL :: FullAckSeqNumber where "FullAck_INITIAL = 1"

definition full_ack_new :: "u32 \<Rightarrow> FullAckSeqNumber option" where
  "full_ack_new raw = (if raw = 0 then None else Some raw)"

definition full_ack_add :: "FullAckSeqNumber \<Rightarrow> u32 \<Rightarrow> FullAckSeqNumber" where
  "full_ack_add self rhs = self + rhs"

definition full_ack_sub :: "FullAckSeqNumber \<Rightarrow> FullAckSeqNumber \<Rightarrow> usize" where
  "full_ack_sub self rhs = unat (self - rhs)"

record AckStatistics =
  as_rtt :: Rtt
  as_buffer_available :: u32
  as_packet_receive_rate :: "u32 option"
  as_estimated_link_capacity :: "u32 option"
  as_data_receive_rate :: "u32 option"

datatype Acknowledgement =
    Ack_Lite SeqNumber
  | Ack_Small SeqNumber AckStatistics
  | Ack_Full SeqNumber AckStatistics FullAckSeqNumber

fun ack_number :: "Acknowledgement \<Rightarrow> SeqNumber" where
  "ack_number (Ack_Lite s) = s"
| "ack_number (Ack_Small s _) = s"
| "ack_number (Ack_Full s _ _) = s"

fun ack_full_ack_seq_number :: "Acknowledgement \<Rightarrow> FullAckSeqNumber option" where
  "ack_full_ack_seq_number (Ack_Full _ _ f) = Some f"
| "ack_full_ack_seq_number _ = None"

fun ack_statistics :: "Acknowledgement \<Rightarrow> AckStatistics option" where
  "ack_statistics (Ack_Small _ st) = Some st"
| "ack_statistics (Ack_Full _ st _) = Some st"
| "ack_statistics (Ack_Lite _) = None"

definition ack_rtt :: "Acknowledgement \<Rightarrow> Rtt option" where
  "ack_rtt self = map_option as_rtt (ack_statistics self)"

definition ack_serialize :: "Acknowledgement \<Rightarrow> u8 list" where
  "ack_serialize self = be32 (ack_number self)
     @ (case ack_statistics self of
          None \<Rightarrow> []
        | Some st \<Rightarrow>
            be32 (rtt_mean (as_rtt st)) @ be32 (rtt_variance (as_rtt st)) @ be32 (as_buffer_available st)
            @ (case as_packet_receive_rate st of
                 None \<Rightarrow> []
               | Some prr \<Rightarrow> be32 prr
                   @ (case as_estimated_link_capacity st of
                        None \<Rightarrow> []
                      | Some elc \<Rightarrow> be32 elc
                          @ (case as_data_receive_rate st of None \<Rightarrow> [] | Some drr \<Rightarrow> be32 drr))))"

definition ack_statistics_size :: "AckStatistics \<Rightarrow> usize" where
  "ack_statistics_size st =
     4 * (3 + (if as_packet_receive_rate st = None then 0
               else if as_estimated_link_capacity st = None then 1
               else if as_data_receive_rate st = None then 2 else 3))"

definition ack_serialized_size :: "Acknowledgement \<Rightarrow> usize" where
  "ack_serialized_size self =
     4 + (case ack_statistics self of None \<Rightarrow> 0 | Some st \<Rightarrow> ack_statistics_size st)"

fun opt_u32 :: "u8 list \<Rightarrow> u32 option \<times> u8 list" where
  "opt_u32 (a # b # c # d # r) = (Some (from_be32 a b c d), r)"
| "opt_u32 buf = (None, buf)"

definition ack_deserialize :: "u32 \<Rightarrow> u8 list \<Rightarrow> Acknowledgement parse_result" where
  "ack_deserialize extra_info buf =
     (if length buf < 4 then Err NotEnoughData
      else bind_outcome (get_u32 buf) (\<lambda>(w, buf).
        let ack_number = seq_new_truncate w; full_ack_seq_number = full_ack_new extra_info in
        if length buf < 3 * 4 then Ok (Ack_Lite ack_number)
        else bind_outcome (get_u32 buf) (\<lambda>(mean, buf).
        bind_outcome (get_u32 buf) (\<lambda>(variance, buf).
        bind_outcome (get_u32 buf) (\<lambda>(buffer_available, buf).
        let (packet_receive_rate, buf) = opt_u32 buf;
            (estimated_link_capacity, buf) = opt_u32 buf;
            (data_receive_rate, buf) = opt_u32 buf;
            stats = \<lparr>as_rtt = rtt_new mean variance, as_buffer_available = buffer_available,
              as_packet_receive_rate = packet_receive_rate,
              as_estimated_link_capacity = estimated_link_capacity,
              as_data_receive_rate = data_receive_rate\<rparr> in
        Ok (case full_ack_seq_number of
              None \<Rightarrow> Ack_Small ack_number stats
            | Some full_ack \<Rightarrow> Ack_Full ack_number stats full_ack))))))"

section \<open>Control packets\<close>

datatype ControlTypes =
    Ctl_Handshake HandshakeControlInfo
  | Ctl_KeepAlive
  | Ctl_Ack Acknowledgement
  | Ctl_Nak CompressedLossList
  | Ctl_CongestionWarning
  | Ctl_Shutdown
  | Ctl_Ack2 FullAckSeqNumber
  | Ctl_DropRequest MsgNumber SeqNumber SeqNumber
  | Ctl_PeerError u32
  | Ctl_Srt SrtControlPacket

record ControlPacket =
  cp_timestamp :: TimeStamp
  cp_dest_sockid :: SocketId
  cp_control_type :: ControlTypes

definition new_drop_request :: "MsgNumber \<Rightarrow> SeqNumber \<Rightarrow> SeqNumber \<Rightarrow> ControlTypes may_panic" where
  "new_drop_request msg_to_drop start ende =
     (if range_is_empty start ende then Panic
      else Ok (Ctl_DropRequest msg_to_drop start (seq_sub ende 1)))"

definition new_key_refresh_request :: "KeyingMaterialMessage \<Rightarrow> ControlTypes" where
  "new_key_refresh_request km = Ctl_Srt (Srt_KeyRefreshRequest km)"

definition SRT_MAGIC_CODE :: u16 where "SRT_MAGIC_CODE = 0x4A17"

definition ExtFlags_HS :: u16 where "ExtFlags_HS = 1"
definition ExtFlags_KM :: u16 where "ExtFlags_KM = 2"
definition ExtFlags_CONFIG :: u16 where "ExtFlags_CONFIG = 4"

fun type_flags :: "HandshakeVsInfo \<Rightarrow> ShakeType \<Rightarrow> u32 may_panic" where
  "type_flags (HVI_V4 ty) shake_type = Ok (socket_type_as_u32 ty)"
| "type_flags (HVI_V5 hs) shake_type =
     (if shake_type = Induction
         \<and> (v5_ext_hs hs \<noteq> None \<or> v5_ext_km hs \<noteq> None \<or> v5_sid hs \<noteq> None) then Panic
      else
        let flags = (if v5_ext_hs hs \<noteq> None then ExtFlags_HS else 0)
              OR (if v5_ext_km hs \<noteq> None then ExtFlags_KM else 0)
              OR (if v5_sid hs \<noteq> None then ExtFlags_CONFIG else 0) in
        Ok (push_bit 16 (drop_bit 3 (ucast (key_size_as_raw (v5_key_size hs))))
            OR (if shake_type = Induction then ucast SRT_MAGIC_CODE else ucast flags)))"

fun info_version :: "HandshakeVsInfo \<Rightarrow> u32" where
  "info_version (HVI_V4 _) = 4"
| "info_version (HVI_V5 _) = 5"

definition ext_serialize :: "SrtControlPacket \<Rightarrow> u8 list may_panic" where
  "ext_serialize ext =
     bind_outcome (srt_size_words ext) (\<lambda>n.
     map_outcome_ok (\<lambda>bs. be16 (srt_type_id ext) @ be16 n @ bs) (srt_serialize ext))"

fun exts_serialize :: "SrtControlPacket option list \<Rightarrow> u8 list may_panic" where
  "exts_serialize [] = Ok []"
| "exts_serialize (None # r) = exts_serialize r"
| "exts_serialize (Some e # r) =
     bind_outcome (ext_serialize e) (\<lambda>a. map_outcome_ok (\<lambda>b. a @ b) (exts_serialize r))"

fun ip_serialize :: "IpAddr \<Rightarrow> u8 list" where
  "ip_serialize (IpV4 v) = rev (be32 v) @ replicate 12 0"
| "ip_serialize (IpV6 octets) = octets"

definition handshake_serialize :: "HandshakeControlInfo \<Rightarrow> u8 list may_panic" where
  "handshake_serialize self =
     bind_outcome (type_flags (hc_info self) (hc_shake_type self)) (\<lambda>tf.
     map_outcome_ok (\<lambda>exts.
       be32 (info_version (hc_info self)) @ be32 tf @ be32 (hc_init_seq_num self)
       @ be32 (ucast (hc_max_packet_size self)) @ be32 (ucast (hc_max_flow_size self))
       @ be32 (shake_type_into (hc_shake_type self)) @ be32 (hc_socket_id self)
       @ be32 (hc_syn_cookie self) @ ip_serialize (hc_peer_addr self) @ exts)
     (case hc_info self of
        HVI_V4 _ \<Rightarrow> Ok []
      | HVI_V5 hs \<Rightarrow> exts_serialize [v5_ext_hs hs, v5_ext_km hs, map_option Srt_StreamId (v5_sid hs)]))"

lemma get_u8_length: "get_u8 b = Ok (x, r) \<Longrightarrow> length r \<le> length b"
  by (cases b rule: get_u8.cases) auto

lemma get_u16_length: "get_u16 b = Ok (x, r) \<Longrightarrow> length r \<le> length b"
  by (cases b rule: get_u16.cases) auto

lemma get_u16_le_length: "get_u16_le b = Ok (x, r) \<Longrightarrow> length r \<le> length b"
  by (cases b rule: get_u16_le.cases) auto

lemma get_u32_length: "get_u32 b = Ok (x, r) \<Longrightarrow> length r \<le> length b"
  by (cases b rule: get_u32.cases) auto

lemmas get_length = get_u8_length get_u16_length get_u16_le_length get_u32_length

lemma get_words_length: "get_words n b = Ok (x, r) \<Longrightarrow> length r \<le> length b"
proof (induction n arbitrary: b x)
  case (Suc n)
  then obtain w b' ws where "(get_u32 b :: (u32 \<times> u8 list) parse_result) = Ok (w, b')"
      "get_words n b' = Ok (ws, r)"
    by (auto simp: bind_outcome_Ok_iff)
  then show ?case using Suc.IH get_u32_length [of b] by (meson le_trans)
qed simp

lemma srt_parse_length: "srt_parse t b = Ok (p, r) \<Longrightarrow> length r \<le> length b"
proof -
  have h: "srt_handshake_parse b = Ok (x, r) \<Longrightarrow> length r \<le> length b" for x
    by (force simp: srt_handshake_parse_def bind_outcome_Ok_iff split: if_splits dest!: get_length)
  have kb: "km_parse_body pt kf b = Ok (x, r) \<Longrightarrow> length r \<le> length b" for pt kf b x
    by (force simp: km_parse_body_def bind_outcome_Ok_iff Let_def split: if_splits
        dest!: get_length get_words_length)
  have k: "km_parse b = Ok (x, r) \<Longrightarrow> length r \<le> length b" for x
    by (fastforce simp: km_parse_def bind_outcome_Ok_iff split: if_splits dest: get_length kb)
  have s: "le_bytes_to_string b = Ok (x, r') \<Longrightarrow> r' = []" for x r'
    by (auto simp: le_bytes_to_string_def bind_outcome_Ok_iff split: if_splits)
  assume "srt_parse t b = Ok (p, r)"
  then show ?thesis
    by (fastforce simp: srt_parse_def bind_outcome_Ok_iff map_outcome_ok_Ok_iff split: if_splits
        dest: h k s get_length)
qed

text \<open>The extension blocks of a handshake: a block starts with two 16-bit words, its type and its
  size in words, and needs more than four bytes to be there. The bytes that a block's parser leaves
  unread inside the block are read as the next block.\<close>

function hs_extensions ::
  "u8 list \<Rightarrow> u8 list option \<Rightarrow> SrtControlPacket option \<Rightarrow> SrtControlPacket option
   \<Rightarrow> (u8 list option \<times> SrtControlPacket option \<times> SrtControlPacket option) parse_result" where
  "hs_extensions (a # b # c # d # e # rest) sid ext_hs ext_km =
     (let pack_type = from_be16 a b; pack_size = unat (from_be16 c d) * 4; buf = e # rest in
      if length buf < pack_size then Err NotEnoughData
      else case srt_parse pack_type (take pack_size buf) of
        Panic \<Rightarrow> Panic
      | Err err \<Rightarrow> Err err
      | Ok (p, unread) \<Rightarrow>
          if pack_type = 1 \<or> pack_type = 2 then
            hs_extensions (unread @ drop pack_size buf) sid (Some p) ext_km
          else if pack_type = 3 \<or> pack_type = 4 then
            hs_extensions (unread @ drop pack_size buf) sid ext_hs (Some p)
          else case p of
            Srt_StreamId stream_id \<Rightarrow>
              hs_extensions (unread @ drop pack_size buf) (Some stream_id) ext_hs ext_km
          | _ \<Rightarrow> Panic)"
| "hs_extensions [] sid ext_hs ext_km = Ok (sid, ext_hs, ext_km)"
| "hs_extensions [a] sid ext_hs ext_km = Ok (sid, ext_hs, ext_km)"
| "hs_extensions [a, b] sid ext_hs ext_km = Ok (sid, ext_hs, ext_km)"
| "hs_extensions [a, b, c] sid ext_hs ext_km = Ok (sid, ext_hs, ext_km)"
| "hs_extensions [a, b, c, d] sid ext_hs ext_km = Ok (sid, ext_hs, ext_km)"
  by (pat_completeness) auto
termination
proof (relation "measure (\<lambda>(b, _). length b)", goal_cases)
qed (auto dest!: srt_parse_length)

declare hs_extensions.simps(1) [simp del]

definition get_ip :: "bool \<Rightarrow> u8 list \<Rightarrow> (IpAddr \<times> u8 list) parse_result" where
  "get_ip is_ipv6 buf =
     (if \<not> is_ipv6 then
        bind_outcome (get_u32_le buf) (\<lambda>(ip, buf).
        bind_outcome (get_u32 buf) (\<lambda>(_, buf).
        bind_outcome (get_u32 buf) (\<lambda>(_, buf).
        bind_outcome (get_u32 buf) (\<lambda>(_, buf). Ok (IpV4 ip, buf)))))
      else if length buf < 16 then Panic
      else Ok (IpV6 (take 16 buf), drop 16 buf))"

definition handshake_info ::
  "i32 \<Rightarrow> u16 \<Rightarrow> u16 \<Rightarrow> ShakeType \<Rightarrow> u8 list \<Rightarrow> HandshakeVsInfo parse_result" where
  "handshake_info udt_version crypto_size type_ext_socket_type shake_type buf =
     (if udt_version = 4 then
        (case socket_type_from_u16 type_ext_socket_type of
           Ok t \<Rightarrow> Ok (HVI_V4 t)
         | Err e \<Rightarrow> Err (BadSocketType e)
         | Panic \<Rightarrow> Panic)
      else
        let crypto_size = (case key_size_try_from crypto_size of
              Ok sz \<Rightarrow> sz | _ \<Rightarrow> KS_Unspecified) in
        if shake_type = Induction then Ok (HVI_V5 hs_v5_default)
        else map_outcome_ok (\<lambda>(sid, ext_hs, ext_km).
               HVI_V5 \<lparr>v5_key_size = crypto_size, v5_ext_hs = ext_hs, v5_ext_km = ext_km,
                 v5_ext_group = None, v5_sid = sid\<rparr>)
             (hs_extensions buf None None None))"

definition handshake_parse :: "bool \<Rightarrow> u8 list \<Rightarrow> HandshakeControlInfo parse_result" where
  "handshake_parse is_ipv6 buf =
     (if length buf < 8 * 4 + 16 then Err NotEnoughData
      else bind_outcome (get_u32 buf) (\<lambda>(udt_version, buf).
        if udt_version \<noteq> 4 \<and> udt_version \<noteq> 5 then Err (BadUdtVersion udt_version)
        else bind_outcome (get_u16 buf) (\<lambda>(cs, buf).
        let crypto_size = push_bit 3 cs in
        bind_outcome (get_u16 buf) (\<lambda>(type_ext_socket_type, buf).
        bind_outcome (get_u32 buf) (\<lambda>(isn, buf).
        bind_outcome (get_u32 buf) (\<lambda>(mps, buf).
        bind_outcome (get_u32 buf) (\<lambda>(mfs, buf).
        bind_outcome (get_u32 buf) (\<lambda>(st, buf).
        case shake_type_try_from st of
          Panic \<Rightarrow> Panic
        | Err err_ct \<Rightarrow> Err (BadConnectionType err_ct)
        | Ok shake_type \<Rightarrow>
          bind_outcome (get_u32 buf) (\<lambda>(socket_id, buf).
          bind_outcome (get_u32 buf) (\<lambda>(syn_cookie, buf).
          bind_outcome (get_ip is_ipv6 buf) (\<lambda>(peer_addr, buf).
          map_outcome_ok (\<lambda>info.
            \<lparr>hc_init_seq_num = seq_new_truncate isn, hc_max_packet_size = ucast mps,
             hc_max_flow_size = ucast mfs, hc_shake_type = shake_type, hc_socket_id = socket_id,
             hc_syn_cookie = syn_cookie, hc_peer_addr = peer_addr, hc_info = info\<rparr>)
            (handshake_info udt_version crypto_size type_ext_socket_type shake_type buf))))))))))))"

fun nak_words :: "u8 list \<Rightarrow> u32 list" where
  "nak_words (a # b # c # d # r) = from_be32 a b c d # nak_words r"
| "nak_words _ = []"

definition control_deserialize ::
  "u16 \<Rightarrow> u16 \<Rightarrow> u32 \<Rightarrow> u8 list \<Rightarrow> bool \<Rightarrow> ControlTypes parse_result" where
  "control_deserialize packet_type reserved extra_info buf is_ipv6 =
     (if packet_type = 0x0 then map_outcome_ok Ctl_Handshake (handshake_parse is_ipv6 buf)
      else if packet_type = 0x1 then Ok Ctl_KeepAlive
      else if packet_type = 0x2 then map_outcome_ok Ctl_Ack (ack_deserialize extra_info buf)
      else if packet_type = 0x3 then Ok (Ctl_Nak (nak_words buf))
      else if packet_type = 0x4 then Ok Ctl_CongestionWarning
      else if packet_type = 0x5 then Ok Ctl_Shutdown
      else if packet_type = 0x6 then
        (case full_ack_new extra_info of
           Some ack_seq_no \<Rightarrow> Ok (Ctl_Ack2 ack_seq_no)
         | None \<Rightarrow> Err ZeroAckSequenceNumber)
      else if packet_type = 0x7 then
        (if length buf < 2 * 4 then Err NotEnoughData
         else bind_outcome (get_u32 buf) (\<lambda>(start, buf).
           bind_outcome (get_u32 buf) (\<lambda>(ende, buf).
           Ok (Ctl_DropRequest (msg_new_truncate extra_info)
                 (seq_new_truncate start) (seq_new_truncate ende)))))
      else if packet_type = 0x8 then Ok (Ctl_PeerError extra_info)
      else if packet_type = 0x7FFF then
        map_outcome_ok (\<lambda>(p, _). Ctl_Srt p) (srt_parse reserved buf)
      else Err (BadControlType packet_type))"

fun id_byte :: "ControlTypes \<Rightarrow> u16" where
  "id_byte (Ctl_Handshake _) = 0x0"
| "id_byte Ctl_KeepAlive = 0x1"
| "id_byte (Ctl_Ack _) = 0x2"
| "id_byte (Ctl_Nak _) = 0x3"
| "id_byte Ctl_CongestionWarning = 0x4"
| "id_byte Ctl_Shutdown = 0x5"
| "id_byte (Ctl_Ack2 _) = 0x6"
| "id_byte (Ctl_DropRequest _ _ _) = 0x7"
| "id_byte (Ctl_PeerError _) = 0x8"
| "id_byte (Ctl_Srt _) = 0x7FFF"

fun additional_info :: "ControlTypes \<Rightarrow> u32" where
  "additional_info (Ctl_DropRequest msg_to_drop _ _) = msg_to_drop"
| "additional_info (Ctl_Ack2 a) = a"
| "additional_info (Ctl_Ack (Ack_Full _ _ a)) = a"
| "additional_info (Ctl_PeerError err) = err"
| "additional_info _ = 0"

fun control_reserved :: "ControlTypes \<Rightarrow> u16" where
  "control_reserved (Ctl_Srt srt) = srt_type_id srt"
| "control_reserved _ = 0"

fun control_types_serialize :: "ControlTypes \<Rightarrow> u8 list may_panic" where
  "control_types_serialize (Ctl_Handshake c) = handshake_serialize c"
| "control_types_serialize (Ctl_Ack ack) = Ok (ack_serialize ack)"
| "control_types_serialize (Ctl_Nak n) = Ok (concat (map be32 n))"
| "control_types_serialize (Ctl_DropRequest _ start ende) = Ok (be32 start @ be32 ende)"
| "control_types_serialize Ctl_CongestionWarning = Ok (be32 0)"
| "control_types_serialize (Ctl_Ack2 _) = Ok (be32 0)"
| "control_types_serialize Ctl_Shutdown = Ok (be32 0)"
| "control_types_serialize Ctl_KeepAlive = Ok (be32 0)"
| "control_types_serialize (Ctl_PeerError _) = Ok (be32 0)"
| "control_types_serialize (Ctl_Srt srt) = srt_serialize srt"

definition control_parse :: "u8 list \<Rightarrow> bool \<Rightarrow> ControlPacket parse_result" where
  "control_parse buf is_ipv6 =
     bind_outcome (get_u16 buf) (\<lambda>(t, buf).
     let control_type = drop_bit 1 (push_bit 1 t) in
     bind_outcome (get_u16 buf) (\<lambda>(reserved, buf).
     bind_outcome (get_u32 buf) (\<lambda>(add_info, buf).
     bind_outcome (get_u32 buf) (\<lambda>(timestamp, buf).
     bind_outcome (get_u32 buf) (\<lambda>(dest_sockid, buf).
     map_outcome_ok (\<lambda>ct.
       \<lparr>cp_timestamp = timestamp, cp_dest_sockid = dest_sockid, cp_control_type = ct\<rparr>)
       (control_deserialize control_type reserved add_info buf is_ipv6))))))"

definition control_serialize :: "ControlPacket \<Rightarrow> u8 list may_panic" where
  "control_serialize self =
     map_outcome_ok (\<lambda>body.
       be16 (id_byte (cp_control_type self) OR push_bit 15 1)
       @ be16 (control_reserved (cp_control_type self))
       @ be32 (additional_info (cp_control_type self))
       @ be32 (cp_timestamp self) @ be32 (cp_dest_sockid self) @ body)
       (control_types_serialize (cp_control_type self))"

definition ext_size :: "SrtControlPacket option \<Rightarrow> usize may_panic" where
  "ext_size ext = (case ext of None \<Rightarrow> Ok 0
     | Some p \<Rightarrow> map_outcome_ok (\<lambda>n. 2 * 2 + unat n * 4) (srt_size_words p))"

definition handshake_serialized_size :: "HandshakeControlInfo \<Rightarrow> usize may_panic" where
  "handshake_serialized_size self =
     map_outcome_ok (\<lambda>n. 8 * 4 + 16 + n)
     (case hc_info self of
        HVI_V4 _ \<Rightarrow> Ok 0
      | HVI_V5 info \<Rightarrow>
          bind_outcome (ext_size (v5_ext_hs info)) (\<lambda>a.
          bind_outcome (ext_size (v5_ext_km info)) (\<lambda>b.
          Ok (a + b + (case v5_sid info of None \<Rightarrow> 0
                       | Some sid \<Rightarrow> 2 * 2 + (length sid + 3) div 4 * 4)))))"

fun control_body_size :: "ControlTypes \<Rightarrow> usize may_panic" where
  "control_body_size (Ctl_Handshake hs) = handshake_serialized_size hs"
| "control_body_size (Ctl_Ack ack) = Ok (ack_serialized_size ack)"
| "control_body_size (Ctl_Nak nak) = Ok (length nak * 4)"
| "control_body_size (Ctl_DropRequest _ _ _) = Ok (2 * 4)"
| "control_body_size (Ctl_Srt srt) = map_outcome_ok (\<lambda>n. unat n * 4) (srt_size_words srt)"
| "control_body_size _ = Ok 4"

definition control_wire_size :: "ControlPacket \<Rightarrow> usize may_panic" where
  "control_wire_size self =
     map_outcome_ok (\<lambda>n. Packet_HEADER_SIZE + n) (control_body_size (cp_control_type self))"

section \<open>Packets\<close>

datatype Packet = Pkt_Data DataPacket | Pkt_Control ControlPacket

fun packet_timestamp :: "Packet \<Rightarrow> TimeStamp" where
  "packet_timestamp (Pkt_Data d) = dp_timestamp d"
| "packet_timestamp (Pkt_Control c) = cp_timestamp c"

fun packet_dest_sockid :: "Packet \<Rightarrow> SocketId" where
  "packet_dest_sockid (Pkt_Data d) = dp_dest_sockid d"
| "packet_dest_sockid (Pkt_Control c) = cp_dest_sockid c"

fun packet_wire_size :: "Packet \<Rightarrow> usize may_panic" where
  "packet_wire_size (Pkt_Data d) = Ok (data_wire_size d)"
| "packet_wire_size (Pkt_Control c) = control_wire_size c"

definition packet_parse :: "u8 list \<Rightarrow> bool \<Rightarrow> Packet parse_result" where
  "packet_parse buf is_ipv6 =
     (if length buf < 16 then Err NotEnoughData
      else if hd buf AND 0x80 = 0 then map_outcome_ok Pkt_Data (data_parse buf)
      else map_outcome_ok Pkt_Control (control_parse buf is_ipv6))"

fun packet_serialize :: "Packet \<Rightarrow> u8 list may_panic" where
  "packet_serialize (Pkt_Control c) = control_serialize c"
| "packet_serialize (Pkt_Data d) = data_serialize d"

section \<open>Round trips of the parts\<close>

fun reject_wf :: "RejectReason \<Rightarrow> bool" where
  "reject_wf (RR_Core _) = True"
| "reject_wf (RR_CoreUnrecognized v) =
     (1000 \<le> sint v \<and> sint v < 2000 \<and> core_reject_try_from v = Err v)"
| "reject_wf (RR_Server _) = True"
| "reject_wf (RR_ServerUnrecognized v) =
     (2000 \<le> sint v \<and> sint v < 3000 \<and> server_reject_try_from v = Err v)"
| "reject_wf (RR_User v) = (3000 \<le> sint v)"

fun shake_wf :: "ShakeType \<Rightarrow> bool" where
  "shake_wf (Rejection rr) = reject_wf rr"
| "shake_wf _ = True"

lemma core_reject_roundtrip: "core_reject_try_from (core_reject_into c) = Ok c"
  by (cases c) (simp_all add: core_reject_try_from_def)

lemma server_reject_roundtrip: "server_reject_try_from (server_reject_into c) = Ok c"
  by (cases c) (simp_all add: server_reject_try_from_def)

lemma core_reject_range: "1000 \<le> sint (core_reject_into c) \<and> sint (core_reject_into c) < 2000"
  by (cases c) simp_all

lemma server_reject_range: "2000 \<le> sint (server_reject_into c) \<and> sint (server_reject_into c) < 3000"
  by (cases c) simp_all

lemma reject_roundtrip:
  assumes "reject_wf rr"
  shows "reject_reason_try_from (reject_reason_into rr) = Ok rr"
  using assms
proof (cases rr)
  case (RR_Core c)
  then show ?thesis
    using core_reject_range [of c] by (simp add: reject_reason_try_from_def core_reject_roundtrip)
next
  case (RR_Server c)
  then show ?thesis
    using server_reject_range [of c] by (simp add: reject_reason_try_from_def server_reject_roundtrip)
qed (simp_all add: reject_reason_try_from_def)

lemma reject_large: "reject_wf rr \<Longrightarrow> 1000 \<le> sint (reject_reason_into rr)"
  using core_reject_range server_reject_range
  by (cases rr) (auto intro: order_trans [of 1000 2000])

lemma shake_roundtrip:
  assumes "shake_wf st"
  shows "shake_type_try_from (shake_type_into st) = Ok st"
proof (cases st)
  case (Rejection rr)
  then have "1000 \<le> sint (reject_reason_into rr)"
    using assms reject_large by simp
  moreover from this have "reject_reason_into rr \<notin> {1, 0, - 1, - 2}"
    by auto
  ultimately show ?thesis
    using assms Rejection reject_roundtrip by (simp add: shake_type_try_from_def)
qed (simp_all add: shake_type_try_from_def)

lemma ext_block:
  assumes "srt_parse t bs = Ok (p, [])" "4 * unat n = length bs" "bs \<noteq> []"
  shows "hs_extensions (be16 t @ be16 n @ bs @ rest) sid ext_hs ext_km =
    (if t = 1 \<or> t = 2 then hs_extensions rest sid (Some p) ext_km
     else if t = 3 \<or> t = 4 then hs_extensions rest sid ext_hs (Some p)
     else case p of Srt_StreamId s \<Rightarrow> hs_extensions rest (Some s) ext_hs ext_km | _ \<Rightarrow> Panic)"
proof -
  obtain e r where bs: "bs = e # r" using assms(3) by (cases bs) auto
  have n: "unat n * 4 = Suc (length r)" using assms(2) bs by simp
  show ?thesis
    using assms(1) n
    by (simp add: be16_def bs hs_extensions.simps(1) from_be16_bytes Let_def
        split: SrtControlPacket.split)
qed

definition ext_wf :: "SrtControlPacket \<Rightarrow> bool" where
  "ext_wf p \<longleftrightarrow> srt_wf p \<and> (case p of Srt_StreamId s \<Rightarrow> length s \<le> 4 * 65535 | _ \<Rightarrow> True)"

lemma ext_serialize_wf:
  assumes "ext_wf p"
    "(case p of Srt_HandshakeRequest _ \<Rightarrow> True | Srt_HandshakeResponse _ \<Rightarrow> True
      | Srt_KeyRefreshRequest _ \<Rightarrow> True | Srt_KeyRefreshResponse _ \<Rightarrow> True
      | Srt_StreamId _ \<Rightarrow> True | _ \<Rightarrow> False)"
  shows "\<exists>n bs. srt_size_words p = Ok n \<and> srt_parse (srt_type_id p) bs = Ok (p, [])
    \<and> 4 * unat n = length bs \<and> bs \<noteq> []
    \<and> ext_serialize p = Ok (be16 (srt_type_id p) @ be16 n @ bs)"
proof -
  obtain bs where bs: "srt_serialize p = Ok bs" "srt_parse (srt_type_id p) bs = Ok (p, [])"
    using srt_roundtrip [of p] assms(1) by (auto simp: ext_wf_def)
  have len: "length bs < 4 * 65536 \<and> bs \<noteq> []"
  proof (cases p)
    case (Srt_KeyRefreshRequest k)
    then show ?thesis
      using assms(1) bs(1) km_serialize_wf [of k]
      by (auto simp: ext_wf_def km_wf_def count_ones_flags)
  next
    case (Srt_KeyRefreshResponse k)
    then show ?thesis
      using assms(1) bs(1) km_serialize_wf [of k]
      by (auto simp: ext_wf_def km_wf_def count_ones_flags)
  next
    case (Srt_StreamId s)
    then have "bs = string_to_le_bytes s" "s \<noteq> []" "length s \<le> 4 * 65535"
      using assms(1) bs(1) by (auto simp: ext_wf_def string_wf_def)
    moreover from this have "0 < length bs" "length bs \<le> 4 * 65535"
      by (auto simp: length_string_to_le_bytes div_greater_zero_iff Suc_le_eq)
    ultimately show ?thesis by auto
  qed (use assms bs in \<open>auto simp: srt_handshake_serialize_def be32_def\<close>)
  obtain n where "srt_size_words p = Ok n" "4 * unat n = length bs"
    using srt_size_words [of p bs] assms len bs(1) by (cases p) (auto simp: ext_wf_def)
  then show ?thesis
    using bs len by (intro exI conjI) (auto simp: ext_serialize_def)
qed

lemma ext_roundtrip:
  assumes "ext_wf p" "srt_type_id p \<in> {1, 2, 3, 4, 5}"
  shows "\<exists>bs. ext_serialize p = Ok bs \<and> ext_size (Some p) = Ok (length bs)
    \<and> (\<forall>rest sid ext_hs ext_km. hs_extensions (bs @ rest) sid ext_hs ext_km =
      (if srt_type_id p \<in> {1, 2} then hs_extensions rest sid (Some p) ext_km
       else if srt_type_id p \<in> {3, 4} then hs_extensions rest sid ext_hs (Some p)
       else case p of Srt_StreamId s \<Rightarrow> hs_extensions rest (Some s) ext_hs ext_km | _ \<Rightarrow> Panic))"
proof -
  obtain n bs where "srt_size_words p = Ok n" "srt_parse (srt_type_id p) bs = Ok (p, [])"
    "4 * unat n = length bs" "bs \<noteq> []" "ext_serialize p = Ok (be16 (srt_type_id p) @ be16 n @ bs)"
    using ext_serialize_wf [OF assms(1)] assms(2) by (cases p) auto
  then show ?thesis
    by (intro exI conjI) (auto simp: ext_size_def ext_block split: if_splits)
qed

definition v5_wf :: "ShakeType \<Rightarrow> HsV5Info \<Rightarrow> bool" where
  "v5_wf shake_type hs \<longleftrightarrow>
     (if shake_type = Induction then hs = hs_v5_default
      else v5_ext_group hs = None
        \<and> pred_option (\<lambda>p. ext_wf p \<and> srt_type_id p \<in> {1, 2}) (v5_ext_hs hs)
        \<and> pred_option (\<lambda>p. ext_wf p \<and> srt_type_id p \<in> {3, 4}) (v5_ext_km hs)
        \<and> pred_option (\<lambda>s. ext_wf (Srt_StreamId s)) (v5_sid hs))"

definition opt_ext_bytes :: "SrtControlPacket option \<Rightarrow> u8 list may_panic" where
  "opt_ext_bytes e = (case e of None \<Rightarrow> Ok [] | Some p \<Rightarrow> ext_serialize p)"

lemma exts_serialize_three:
  "opt_ext_bytes a = Ok x \<Longrightarrow> opt_ext_bytes b = Ok y \<Longrightarrow> opt_ext_bytes c = Ok z \<Longrightarrow>
   exts_serialize [a, b, c] = Ok (x @ y @ z)"
  by (cases a; cases b; cases c) (auto simp: opt_ext_bytes_def)

lemma v5_extensions_roundtrip:
  assumes "v5_wf shake_type hs" "shake_type \<noteq> Induction"
  shows "\<exists>x y z. exts_serialize [v5_ext_hs hs, v5_ext_km hs, map_option Srt_StreamId (v5_sid hs)]
      = Ok (x @ y @ z)
    \<and> hs_extensions (x @ y @ z) None None None = Ok (v5_sid hs, v5_ext_hs hs, v5_ext_km hs)
    \<and> ext_size (v5_ext_hs hs) = Ok (length x) \<and> ext_size (v5_ext_km hs) = Ok (length y)
    \<and> ext_size (map_option Srt_StreamId (v5_sid hs)) = Ok (length z)"
proof -
  have "\<exists>x. opt_ext_bytes (v5_ext_hs hs) = Ok x \<and> ext_size (v5_ext_hs hs) = Ok (length x)
    \<and> (\<forall>rest. hs_extensions (x @ rest) None None None = hs_extensions rest None (v5_ext_hs hs) None)"
    using assms ext_roundtrip [of "the (v5_ext_hs hs)"]
    by (cases "v5_ext_hs hs") (auto simp: v5_wf_def opt_ext_bytes_def ext_size_def)
  then obtain x where x: "opt_ext_bytes (v5_ext_hs hs) = Ok x" "ext_size (v5_ext_hs hs) = Ok (length x)"
    "\<And>rest. hs_extensions (x @ rest) None None None = hs_extensions rest None (v5_ext_hs hs) None"
    by blast
  have "\<exists>y. opt_ext_bytes (v5_ext_km hs) = Ok y \<and> ext_size (v5_ext_km hs) = Ok (length y)
    \<and> (\<forall>rest. hs_extensions (y @ rest) None (v5_ext_hs hs) None
         = hs_extensions rest None (v5_ext_hs hs) (v5_ext_km hs))"
    using assms ext_roundtrip [of "the (v5_ext_km hs)"]
    by (cases "v5_ext_km hs") (auto simp: v5_wf_def opt_ext_bytes_def ext_size_def)
  then obtain y where y: "opt_ext_bytes (v5_ext_km hs) = Ok y" "ext_size (v5_ext_km hs) = Ok (length y)"
    "\<And>rest. hs_extensions (y @ rest) None (v5_ext_hs hs) None
       = hs_extensions rest None (v5_ext_hs hs) (v5_ext_km hs)"
    by blast
  let ?s = "map_option Srt_StreamId (v5_sid hs)"
  have "\<exists>z. opt_ext_bytes ?s = Ok z \<and> ext_size ?s = Ok (length z)
    \<and> (\<forall>rest. hs_extensions (z @ rest) None (v5_ext_hs hs) (v5_ext_km hs)
         = hs_extensions rest (v5_sid hs) (v5_ext_hs hs) (v5_ext_km hs))"
    using assms ext_roundtrip [of "Srt_StreamId (the (v5_sid hs))"]
    by (cases "v5_sid hs") (auto simp: v5_wf_def opt_ext_bytes_def ext_size_def)
  then obtain z where z: "opt_ext_bytes ?s = Ok z" "ext_size ?s = Ok (length z)"
    "\<And>rest. hs_extensions (z @ rest) None (v5_ext_hs hs) (v5_ext_km hs)
       = hs_extensions rest (v5_sid hs) (v5_ext_hs hs) (v5_ext_km hs)"
    by blast
  show ?thesis
    using exts_serialize_three [OF x(1) y(1) z(1)] x y z(2) z(3) [of "[]"]
    by (intro exI conjI) auto
qed

lemma bit_u16_beyond: "16 \<le> n \<Longrightarrow> \<not> bit (w :: u16) n"
  using bit_imp_le_length [of w n] by auto

lemma be32_halves: "be32 (push_bit 16 (ucast a) OR ucast b) = be16 a @ be16 b" for a b :: u16
  by (auto simp: be32_def be16_def bit_simps bit_u16_beyond intro!: bit_word_eqI)

fun info_wf :: "ShakeType \<Rightarrow> HandshakeVsInfo \<Rightarrow> bool" where
  "info_wf shake_type (HVI_V4 _) = True"
| "info_wf shake_type (HVI_V5 hs) = v5_wf shake_type hs"

lemma key_size_roundtrip:
  "key_size_try_from (push_bit 3 (drop_bit 3 (ucast (key_size_as_raw k)))) = Ok k"
  by (cases k) (simp_all add: key_size_try_from_def)

lemma key_size_word:
  "push_bit 16 (drop_bit 3 (ucast (key_size_as_raw k))) =
   (push_bit 16 (ucast (drop_bit 3 (ucast (key_size_as_raw k) :: u16))) :: u32)"
  by (cases k) simp_all

lemma info_roundtrip:
  assumes "info_wf shake_type info"
  defines "exts \<equiv> (case info of HVI_V4 _ \<Rightarrow> Ok [] | HVI_V5 hs \<Rightarrow>
    exts_serialize [v5_ext_hs hs, v5_ext_km hs, map_option Srt_StreamId (v5_sid hs)])"
  shows "\<exists>tf cs fl bs. type_flags info shake_type = Ok tf \<and> be32 tf = be16 cs @ be16 fl
    \<and> exts = Ok bs
    \<and> handshake_info (info_version info) (push_bit 3 cs) fl shake_type bs = Ok info
    \<and> (case info of HVI_V4 _ \<Rightarrow> Ok 0 | HVI_V5 info \<Rightarrow>
          bind_outcome (ext_size (v5_ext_hs info)) (\<lambda>a.
          bind_outcome (ext_size (v5_ext_km info)) (\<lambda>b.
          Ok (a + b + (case v5_sid info of None \<Rightarrow> 0
                       | Some sid \<Rightarrow> 2 * 2 + (length sid + 3) div 4 * 4)))))
        = Ok (length bs)"
proof (cases info)
  case (HVI_V4 t)
  have "be32 (socket_type_as_u32 t) = be16 0 @ be16 (ucast (socket_type_as_u32 t))"
    by (cases t) (simp_all add: be32_def be16_def)
  moreover have "handshake_info 4 (push_bit 3 0) (ucast (socket_type_as_u32 t)) shake_type [] = Ok info"
    using HVI_V4 by (cases t) (simp_all add: handshake_info_def socket_type_from_u16_def)
  ultimately show ?thesis
    unfolding exts_def using HVI_V4 by (intro exI conjI) auto
next
  case (HVI_V5 hs)
  show ?thesis
  proof (cases "shake_type = Induction")
    case True
    then have "hs = hs_v5_default" using assms(1) HVI_V5 by (simp add: v5_wf_def)
    moreover from this have "handshake_info 5 (push_bit 3 0) SRT_MAGIC_CODE shake_type [] = Ok info"
      using HVI_V5 True by (simp add: handshake_info_def)
    moreover have "be32 (ucast SRT_MAGIC_CODE) = be16 0 @ be16 SRT_MAGIC_CODE"
      using be32_halves [of 0 SRT_MAGIC_CODE] by simp
    ultimately show ?thesis
      unfolding exts_def using HVI_V5 True
      by (intro exI conjI) (auto simp: hs_v5_default_def ext_size_def)
  next
    case False
    let ?k = "drop_bit 3 (ucast (key_size_as_raw (v5_key_size hs)) :: u16)"
    let ?f = "(if v5_ext_hs hs \<noteq> None then ExtFlags_HS else 0)
              OR (if v5_ext_km hs \<noteq> None then ExtFlags_KM else 0)
              OR (if v5_sid hs \<noteq> None then ExtFlags_CONFIG else 0)"
    have tf: "type_flags info shake_type = Ok (push_bit 16 (ucast ?k) OR ucast ?f)"
      using False HVI_V5 by (simp add: key_size_word)
    obtain x y z where r: "exts = Ok (x @ y @ z)"
      "hs_extensions (x @ y @ z) None None None = Ok (v5_sid hs, v5_ext_hs hs, v5_ext_km hs)"
      "ext_size (v5_ext_hs hs) = Ok (length x)" "ext_size (v5_ext_km hs) = Ok (length y)"
      "ext_size (map_option Srt_StreamId (v5_sid hs)) = Ok (length z)"
      using v5_extensions_roundtrip [of shake_type hs] assms HVI_V5 False by auto
    have g: "v5_ext_group hs = None"
      using assms(1) HVI_V5 False by (simp add: v5_wf_def)
    have sid: "(case v5_sid hs of None \<Rightarrow> 0 | Some sid \<Rightarrow> 2 * 2 + (length sid + 3) div 4 * 4) = length z"
    proof (cases "v5_sid hs")
      case (Some s)
      then have "(length s + 3) div 4 < 65536"
        using assms(1) HVI_V5 False by (simp add: v5_wf_def ext_wf_def) linarith
      then show ?thesis
        using r(5) Some by (simp add: ext_size_def unat_of_nat_small)
    qed (use r(5) in \<open>simp add: ext_size_def\<close>)
    have "handshake_info (info_version info) (push_bit 3 ?k) ?f shake_type (x @ y @ z) = Ok info"
      using r(2) g HVI_V5 False by (simp add: handshake_info_def key_size_roundtrip)
    then show ?thesis
      using tf be32_halves [of ?k ?f] r sid HVI_V5 by (intro exI conjI) auto
  qed
qed

definition handshake_wf :: "bool \<Rightarrow> HandshakeControlInfo \<Rightarrow> bool" where
  "handshake_wf is_ipv6 h \<longleftrightarrow>
     seq_valid (hc_init_seq_num h) \<and> unat (hc_max_packet_size h) < 2 ^ 32
     \<and> unat (hc_max_flow_size h) < 2 ^ 32 \<and> shake_wf (hc_shake_type h)
     \<and> (case hc_peer_addr h of IpV4 _ \<Rightarrow> \<not> is_ipv6 | IpV6 octets \<Rightarrow> is_ipv6 \<and> length octets = 16)
     \<and> info_wf (hc_shake_type h) (hc_info h)"

lemma ucast_narrow: "unat x < 2 ^ 32 \<Longrightarrow> ucast (ucast x :: u32) = (x :: u64)"
  by (simp add: word_unat_eq_iff unsigned_ucast_eq unsigned_take_bit_eq take_bit_nat_eq_self)

lemma ip_roundtrip:
  assumes "case ip of IpV4 _ \<Rightarrow> \<not> is_ipv6 | IpV6 octets \<Rightarrow> is_ipv6 \<and> length octets = 16"
  shows "get_ip is_ipv6 (ip_serialize ip @ r) = Ok (ip, r)" "length (ip_serialize ip) = 16"
proof -
  have "replicate 12 (0 :: u8) = be32 0 @ be32 0 @ be32 0"
    by (simp add: be32_def numeral_eq_Suc)
  then show "get_ip is_ipv6 (ip_serialize ip @ r) = Ok (ip, r)" "length (ip_serialize ip) = 16"
    using assms by (auto simp: get_ip_def wire_simps split: IpAddr.splits)
qed

lemma handshake_roundtrip:
  assumes "handshake_wf is_ipv6 h"
  shows "\<exists>bs. handshake_serialize h = Ok bs \<and> handshake_parse is_ipv6 bs = Ok h
    \<and> handshake_serialized_size h = Ok (length bs)"
proof -
  obtain tf cs fl exts where i: "type_flags (hc_info h) (hc_shake_type h) = Ok tf"
    "be32 tf = be16 cs @ be16 fl"
    "(case hc_info h of HVI_V4 _ \<Rightarrow> Ok [] | HVI_V5 hs \<Rightarrow>
      exts_serialize [v5_ext_hs hs, v5_ext_km hs, map_option Srt_StreamId (v5_sid hs)]) = Ok exts"
    "handshake_info (info_version (hc_info h)) (push_bit 3 cs) fl (hc_shake_type h) exts = Ok (hc_info h)"
    "handshake_serialized_size h = Ok (8 * 4 + 16 + length exts)"
    using info_roundtrip [of "hc_shake_type h" "hc_info h"] assms
    unfolding handshake_wf_def handshake_serialized_size_def by (auto simp: handshake_wf_def)
  have v: "info_version (hc_info h) = 4 \<or> info_version (hc_info h) = 5"
    by (cases "hc_info h") simp_all
  have ip: "get_ip is_ipv6 (ip_serialize (hc_peer_addr h) @ exts) = Ok (hc_peer_addr h, exts)"
    "length (ip_serialize (hc_peer_addr h)) = 16"
    using assms by (simp_all add: handshake_wf_def ip_roundtrip(1) ip_roundtrip(2) [of is_ipv6])
  have w: "seq_new_truncate (hc_init_seq_num h) = hc_init_seq_num h"
    "ucast (ucast (hc_max_packet_size h) :: u32) = hc_max_packet_size h"
    "ucast (ucast (hc_max_flow_size h) :: u32) = hc_max_flow_size h"
    "shake_type_try_from (shake_type_into (hc_shake_type h)) = Ok (hc_shake_type h)"
    using assms by (simp_all add: handshake_wf_def seq_new_truncate_id ucast_narrow shake_roundtrip)
  show ?thesis
    using i v ip w assms
    by (intro exI conjI)
      (auto simp: handshake_serialize_def handshake_parse_def wire_simps handshake_wf_def Let_def)
qed

text \<open>The optional rates of an acknowledgement are sent in order: a rate is only there when the ones
  before it are.\<close>

definition ack_statistics_wf :: "AckStatistics \<Rightarrow> bool" where
  "ack_statistics_wf st \<longleftrightarrow>
     (as_packet_receive_rate st = None \<longrightarrow> as_estimated_link_capacity st = None)
     \<and> (as_estimated_link_capacity st = None \<longrightarrow> as_data_receive_rate st = None)"

fun ack_wf :: "Acknowledgement \<Rightarrow> bool" where
  "ack_wf (Ack_Lite s) = seq_valid s"
| "ack_wf (Ack_Small s st) = (seq_valid s \<and> ack_statistics_wf st)"
| "ack_wf (Ack_Full s st f) = (seq_valid s \<and> ack_statistics_wf st \<and> f \<noteq> 0)"

lemma opt_u32_be32: "opt_u32 (be32 w @ r) = (Some w, r)"
  by (simp add: be32_def from_be32_bytes)

lemma rtt_eta: "rtt_new (rtt_mean r) (rtt_variance r) = r"
  by (simp add: rtt_new_def)

lemma ack_rates_roundtrip:
  assumes "ack_statistics_wf st"
  defines "bs \<equiv> (case as_packet_receive_rate st of None \<Rightarrow> [] | Some prr \<Rightarrow> be32 prr
      @ (case as_estimated_link_capacity st of None \<Rightarrow> [] | Some elc \<Rightarrow> be32 elc
          @ (case as_data_receive_rate st of None \<Rightarrow> [] | Some drr \<Rightarrow> be32 drr)))"
  shows "\<exists>r1 r2 r3. opt_u32 bs = (as_packet_receive_rate st, r1)
      \<and> opt_u32 r1 = (as_estimated_link_capacity st, r2)
      \<and> opt_u32 r2 = (as_data_receive_rate st, r3)
    \<and> 12 + length bs = ack_statistics_size st"
  using assms(1) unfolding bs_def
  by (cases "as_packet_receive_rate st"; cases "as_estimated_link_capacity st";
      cases "as_data_receive_rate st")
    (auto simp: ack_statistics_wf_def opt_u32_be32 opt_u32_be32 [where r = "[]", simplified]
      ack_statistics_size_def)

lemma ack_roundtrip:
  assumes "ack_wf a"
  shows "ack_deserialize (additional_info (Ctl_Ack a)) (ack_serialize a) = Ok a"
    and "length (ack_serialize a) = ack_serialized_size a"
proof -
  have "ack_deserialize (additional_info (Ctl_Ack a)) (ack_serialize a) = Ok a
    \<and> length (ack_serialize a) = ack_serialized_size a"
  proof (cases "ack_statistics a")
    case None
    then show ?thesis
      using assms by (cases a) (auto simp: ack_deserialize_def ack_serialize_def ack_serialized_size_def
          wire_simps get_u32_be32 [where r = "[]", simplified] seq_new_truncate_id)
  next
    case (Some st)
    let ?b = "case as_packet_receive_rate st of None \<Rightarrow> [] | Some prr \<Rightarrow> be32 prr
      @ (case as_estimated_link_capacity st of None \<Rightarrow> [] | Some elc \<Rightarrow> be32 elc
          @ (case as_data_receive_rate st of None \<Rightarrow> [] | Some drr \<Rightarrow> be32 drr))"
    have wf: "ack_statistics_wf st" "seq_valid (ack_number a)"
      using assms Some by (cases a; auto)+
    obtain r1 r2 r3 where r: "opt_u32 ?b = (as_packet_receive_rate st, r1)"
      "opt_u32 r1 = (as_estimated_link_capacity st, r2)" "opt_u32 r2 = (as_data_receive_rate st, r3)"
      "12 + length ?b = ack_statistics_size st"
      using ack_rates_roundtrip [OF wf(1)] by blast
    have s: "ack_serialize a = be32 (ack_number a) @ be32 (rtt_mean (as_rtt st))
      @ be32 (rtt_variance (as_rtt st)) @ be32 (as_buffer_available st) @ ?b"
      using Some by (simp add: ack_serialize_def)
    have "ack_deserialize (additional_info (Ctl_Ack a)) (ack_serialize a) = Ok a"
      unfolding s using r(1,2,3) wf(2) Some assms
      by (cases a) (auto simp: ack_deserialize_def wire_simps seq_new_truncate_id rtt_eta full_ack_new_def)
    moreover have "length (ack_serialize a) = ack_serialized_size a"
      unfolding s using r(4) Some by (simp add: ack_serialized_size_def)
    ultimately show ?thesis by simp
  qed
  then show "ack_deserialize (additional_info (Ctl_Ack a)) (ack_serialize a) = Ok a"
    "length (ack_serialize a) = ack_serialized_size a" by auto
qed

lemma nak_words_concat: "nak_words (concat (map be32 ws)) = ws"
  by (induction ws) (auto simp: be32_def from_be32_bytes)

lemma length_concat_be32: "length (concat (map be32 ws)) = length ws * 4"
  by (induction ws) auto

section \<open>Packets survive the round trip\<close>

fun control_wf :: "bool \<Rightarrow> ControlTypes \<Rightarrow> bool" where
  "control_wf is_ipv6 (Ctl_Handshake h) = handshake_wf is_ipv6 h"
| "control_wf is_ipv6 (Ctl_Ack a) = ack_wf a"
| "control_wf is_ipv6 (Ctl_Ack2 f) = (f \<noteq> 0)"
| "control_wf is_ipv6 (Ctl_DropRequest m s e) = (msg_valid m \<and> seq_valid s \<and> seq_valid e)"
| "control_wf is_ipv6 (Ctl_Srt p) =
     (srt_wf p \<and> p \<noteq> Srt_Reject \<and> (case srt_serialize p of Ok bs \<Rightarrow> length bs < 4 * 65536 | _ \<Rightarrow> False))"
| "control_wf is_ipv6 _ = True"

fun packet_wf :: "bool \<Rightarrow> Packet \<Rightarrow> bool" where
  "packet_wf is_ipv6 (Pkt_Data d) = data_wf d"
| "packet_wf is_ipv6 (Pkt_Control c) = control_wf is_ipv6 (cp_control_type c)"

lemma control_body_roundtrip:
  assumes "control_wf is_ipv6 ct"
  shows "\<exists>bs. control_types_serialize ct = Ok bs
    \<and> control_deserialize (id_byte ct) (control_reserved ct) (additional_info ct) bs is_ipv6 = Ok ct
    \<and> control_body_size ct = Ok (length bs)"
proof (cases ct)
  case (Ctl_Handshake h)
  then show ?thesis
    using assms handshake_roundtrip [of is_ipv6 h] by (auto simp: control_deserialize_def)
next
  case (Ctl_Ack a)
  then show ?thesis
    using assms ack_roundtrip [of a] by (auto simp: control_deserialize_def)
next
  case (Ctl_Nak n)
  then show ?thesis
    by (simp add: control_deserialize_def nak_words_concat length_concat_be32)
next
  case (Ctl_DropRequest m s e)
  then show ?thesis
    using assms by (simp add: control_deserialize_def wire_simps seq_new_truncate_id msg_new_truncate_id
        get_u32_be32 [where r = "[]", simplified])
next
  case (Ctl_Srt p)
  then obtain bs where "srt_serialize p = Ok bs" "srt_parse (srt_type_id p) bs = Ok (p, [])"
    "length bs < 4 * 65536" "p \<noteq> Srt_Reject"
    using assms srt_roundtrip [of p] by auto
  then show ?thesis
    using assms Ctl_Srt srt_size_words [of p bs] by (auto simp: control_deserialize_def)
qed (use assms in \<open>simp_all add: control_deserialize_def full_ack_new_def\<close>)

lemma control_type_word:
  "drop_bit (Suc 0) ((id_byte ct OR 32768) * 2) = id_byte ct"
  "hd (be16 (id_byte ct OR push_bit 15 1) @ r) AND 0x80 \<noteq> 0"
  by (cases ct; simp add: be16_def)+

lemma control_roundtrip:
  assumes "control_wf is_ipv6 (cp_control_type c)"
  shows "\<exists>bs. control_serialize c = Ok bs \<and> packet_parse bs is_ipv6 = Ok (Pkt_Control c)
    \<and> control_wire_size c = Ok (length bs + 28)"
proof -
  let ?ct = "cp_control_type c"
  obtain b where b: "control_types_serialize ?ct = Ok b"
    "control_deserialize (id_byte ?ct) (control_reserved ?ct) (additional_info ?ct) b is_ipv6 = Ok ?ct"
    "control_body_size ?ct = Ok (length b)"
    using control_body_roundtrip [OF assms] by blast
  let ?bs = "be16 (id_byte ?ct OR push_bit 15 1) @ be16 (control_reserved ?ct)
    @ be32 (additional_info ?ct) @ be32 (cp_timestamp c) @ be32 (cp_dest_sockid c) @ b"
  have "control_parse ?bs is_ipv6 = Ok c"
    using b(2) control_type_word(1)
    by (simp add: control_parse_def wire_simps)
  moreover have "\<not> length ?bs < 16" by simp
  ultimately have "packet_parse ?bs is_ipv6 = Ok (Pkt_Control c)"
    using control_type_word(2) unfolding packet_parse_def by simp
  moreover have "control_serialize c = Ok ?bs"
    using b(1) by (simp add: control_serialize_def)
  moreover have "control_wire_size c = Ok (length ?bs + 28)"
    using b(3) by (simp add: control_wire_size_def Packet_HEADER_SIZE_def)
  ultimately show ?thesis by blast
qed

lemma data_packet_roundtrip:
  assumes "data_wf d"
  shows "\<exists>bs. data_serialize d = Ok bs \<and> packet_parse bs is_ipv6 = Ok (Pkt_Data d)
    \<and> length bs + 28 = data_wire_size d"
proof -
  obtain bs where bs: "data_serialize d = Ok bs" "data_parse bs = Ok d" "length bs + 28 = data_wire_size d"
    "16 \<le> length bs" "\<not> bit (hd bs) 7"
    using data_bytes_roundtrip [OF assms] by blast
  then have "hd bs AND 0x80 = 0"
    by (intro u8_eqI) (simp_all add: bit_and_iff)
  with bs show ?thesis
    by (auto simp: packet_parse_def)
qed

lemma packet_wf_roundtrip:
  assumes "packet_wf is_ipv6 p"
  shows "\<exists>bs. packet_serialize p = Ok bs \<and> packet_parse bs is_ipv6 = Ok p
    \<and> packet_wire_size p = Ok (length bs + 28)"
  using assms control_roundtrip data_packet_roundtrip by (cases p) fastforce+

section \<open>Properties\<close>

text \<open>C5: Every packet that fits the wire format, data or control, is serialized without a panic, parsed
  back to itself from these bytes, and has the size that \<open>wire_size\<close> announces: the bytes and
  twenty-eight for the IP and UDP headers.\<close>

theorem packet_roundtrip:
  assumes "packet_wf is_ipv6 p"
  shows "\<exists>bs. packet_serialize p = Ok bs \<and> packet_parse bs is_ipv6 = Ok p
    \<and> packet_wire_size p = Ok (length bs + 28)"
  using assms by (rule packet_wf_roundtrip)

definition sample_handshake :: HandshakeControlInfo where
  "sample_handshake = \<lparr>hc_init_seq_num = 1827131, hc_max_packet_size = 1500,
     hc_max_flow_size = 25600, hc_shake_type = Conclusion, hc_socket_id = 1231,
     hc_syn_cookie = 0, hc_peer_addr = IpV4 0x7F000001,
     hc_info = HVI_V5 \<lparr>v5_key_size = KS_AES128,
       v5_ext_hs = Some (Srt_HandshakeResponse \<lparr>sh_version = SrtVersion_CURRENT,
         sh_flags = SSF_NAKREPORT OR SSF_TSBPDSND, sh_send_latency = duration_from_millis 3000,
         sh_recv_latency = duration_from_millis 12345\<rparr>),
       v5_ext_km = None, v5_ext_group = None, v5_sid = Some [72, 105]\<rparr>\<rparr>"

theorem packet_roundtrip_witness:
  "\<exists>bs. packet_serialize (Pkt_Control \<lparr>cp_timestamp = 7, cp_dest_sockid = 9,
      cp_control_type = Ctl_Handshake sample_handshake\<rparr>) = Ok bs
    \<and> packet_parse bs False = Ok (Pkt_Control \<lparr>cp_timestamp = 7, cp_dest_sockid = 9,
        cp_control_type = Ctl_Handshake sample_handshake\<rparr>)"
proof -
  have "handshake_wf False sample_handshake"
    by (simp add: handshake_wf_def sample_handshake_def seq_valid_def v5_wf_def ext_wf_def
        srt_handshake_wf_def shake_flags_truncate_def SSF_NAKREPORT_def SSF_TSBPDSND_def
        SSF_TSBPDRCV_def SSF_HAICRYPT_def SSF_TLPKTDROP_def SSF_REXMITFLG_def SSF_STREAM_def
        SSF_PACKET_FILTER_def SSF_SUPPORTED_def duration_from_millis_def string_wf_def
        utf8_valid.simps)
  then show ?thesis
    using packet_roundtrip [of False "Pkt_Control \<lparr>cp_timestamp = 7, cp_dest_sockid = 9,
      cp_control_type = Ctl_Handshake sample_handshake\<rparr>"] by auto
qed

text \<open>The bytes of a version 5 handshake packet: the header of a control packet, the fixed part of the
  handshake with any values of its fields, and the extension blocks.\<close>

definition v5_handshake_bytes ::
  "u32 \<Rightarrow> TimeStamp \<Rightarrow> SocketId \<Rightarrow> u16 \<Rightarrow> u16 \<Rightarrow> u32 \<Rightarrow> u32 \<Rightarrow> u32 \<Rightarrow> i32 \<Rightarrow> SocketId \<Rightarrow> i32 \<Rightarrow> u32 list \<Rightarrow> u8 list \<Rightarrow> u8 list" where
  "v5_handshake_bytes info ts dest enc fl isn mps mfs st sock cookie ip exts =
     be16 (push_bit 15 1) @ be16 0 @ be32 info @ be32 ts @ be32 dest
     @ be32 5 @ be16 enc @ be16 fl @ be32 isn @ be32 mps @ be32 mfs @ be32 st @ be32 sock @ be32 cookie
     @ concat (map be32 ip) @ exts"

lemma v5_handshake_parse:
  assumes "shake_type_try_from st = Ok shake" "shake \<noteq> Induction" "length ip = 4"
  shows "hs_extensions exts None None None = Panic \<Longrightarrow>
    packet_parse (v5_handshake_bytes info ts dest enc fl isn mps mfs st sock cookie ip exts) is_ipv6 = Panic"
proof -
  obtain a b c d where ip: "ip = [a, b, c, d]" using assms(3) by (auto simp: length_Suc_conv numeral_eq_Suc)
  let ?h = "be32 5 @ be16 enc @ be16 fl @ be32 isn @ be32 mps @ be32 mfs @ be32 st @ be32 sock @ be32 cookie
     @ be32 a @ be32 b @ be32 c @ be32 d @ exts"
  assume e: "hs_extensions exts None None None = Panic"
  obtain x where "get_ip is_ipv6 (be32 a @ be32 b @ be32 c @ be32 d @ exts) = Ok (x, exts)"
    by (cases is_ipv6) (auto simp: get_ip_def be32_def wire_simps)
  then have "handshake_parse is_ipv6 ?h = Panic"
    using assms(1,2) e by (simp add: handshake_parse_def wire_simps Let_def handshake_info_def)
  then have "control_parse (v5_handshake_bytes info ts dest enc fl isn mps mfs st sock cookie ip exts) is_ipv6 = Panic"
    by (simp add: control_parse_def v5_handshake_bytes_def ip wire_simps control_deserialize_def)
  then show ?thesis
    by (simp add: packet_parse_def v5_handshake_bytes_def be16_def be32_def)
qed

text \<open>C39: A received version 5 handshake packet, with any values of its fixed fields (its type being
  another one than induction), makes the packet parser panic when its first extension block is a stream
  identifier of size zero with at least one byte behind it, or when the block is none of the handshake,
  key material and stream identifier blocks and its content can be parsed: a rejection, a congestion control
  name, a packet filter or a group.\<close>

theorem handshake_extension_panics:
  assumes "shake_type_try_from st = Ok shake" "shake \<noteq> Induction" "length ip = 4"
  shows "packet_parse (v5_handshake_bytes info ts dest enc fl isn mps mfs st sock cookie ip
      (be16 5 @ be16 0 @ e # r)) is_ipv6 = Panic
    \<and> (t \<notin> {1, 2, 3, 4, 5} \<and> content \<noteq> [] \<and> length content = 4 * unat n \<and> srt_parse t content = Ok (p, unread)
      \<longrightarrow> packet_parse (v5_handshake_bytes info ts dest enc fl isn mps mfs st sock cookie ip
        (be16 t @ be16 n @ content @ r)) is_ipv6 = Panic)"
proof (intro conjI impI v5_handshake_parse [OF assms])
  show "hs_extensions (be16 5 @ be16 0 @ e # r) None None None = Panic"
    by (simp add: be16_def hs_extensions.simps(1) from_be16_def srt_parse_def le_bytes_to_string_def)
  assume c: "t \<notin> {1, 2, 3, 4, 5} \<and> content \<noteq> [] \<and> length content = 4 * unat n \<and> srt_parse t content = Ok (p, unread)"
  then have "\<forall>s. p \<noteq> Srt_StreamId s"
    by (auto simp: srt_parse_def map_outcome_ok_Ok_iff bind_outcome_Ok_iff split: if_splits)
  moreover obtain x xs where x: "content = x # xs" using c by (cases content) auto
  moreover have "unat n * 4 = Suc (length xs)" using c x by simp
  ultimately show "hs_extensions (be16 t @ be16 n @ content @ r) None None None = Panic"
    using c by (auto simp: be16_def hs_extensions.simps(1) from_be16_bytes Let_def split: SrtControlPacket.split)
qed

text \<open>The congestion control name \<open>live\<close>, in a conclusion.\<close>

theorem handshake_extension_panics_witness:
  "packet_parse (v5_handshake_bytes 0 0 0 0 4 7 1500 8192 (- 1) 1 2 [0, 0, 0, 0]
      (be16 6 @ be16 1 @ [101, 118, 105, 108])) False = Panic"
proof -
  have "srt_parse 6 [101, 118, 105, 108] = Ok (Srt_Congestion [108, 105, 118, 101], [])"
    by code_simp
  then show ?thesis
    using handshake_extension_panics [of "- 1" Conclusion "[0, 0, 0, 0]" 0 0 0 0 4 7 1500 8192 1 2 0 "[]" False
        6 "[101, 118, 105, 108]" 1 "Srt_Congestion [108, 105, 118, 101]" "[]"]
    by (simp add: shake_type_try_from_def)
qed

end
