(* ===== verification/Key_Wrap.thy ===== *)
theory Key_Wrap
  imports Srt_Prelude
begin

text \<open>
  AES key wrapping (\<open>protocol/encryption/wrap.rs\<close>). The block cipher comes from the \<open>aes\<close> crate and
  is a parameter: a function from a block of sixteen bytes to a block of sixteen bytes. What the
  code relies on is that decryption undoes encryption, \<open>block_cipher\<close>.

  The state of both loops is the block \<open>b\<close>, the counter \<open>t\<close> and the bytes being wrapped.
\<close>

definition DEFAULT_IV :: "u8 list" where
  "DEFAULT_IV = replicate 8 0xA6"

definition xor_at :: "nat \<Rightarrow> u8 \<Rightarrow> u8 list \<Rightarrow> u8 list" where
  "xor_at i x b = b[i := b ! i XOR x]"

text \<open>The counter is mixed into the bytes 4 to 7 of the block.\<close>

definition xor_counter :: "nat \<Rightarrow> u8 list \<Rightarrow> u8 list" where
  "xor_counter t b =
     (let b = xor_at 7 (of_nat t) b in
      if t > 0xff then
        xor_at 4 (of_nat (t div 2 ^ 24)) (xor_at 5 (of_nat (t div 2 ^ 16)) (xor_at 6 (of_nat (t div 2 ^ 8)) b))
      else b)"

type_synonym wrap_state = "u8 list \<times> nat \<times> u8 list"

fun wrap_pass :: "(u8 list \<Rightarrow> u8 list) \<Rightarrow> u8 list \<Rightarrow> nat \<Rightarrow> u8 list \<Rightarrow> wrap_state" where
  "wrap_pass enc b t [] = (b, t, [])"
| "wrap_pass enc b t (x # xs) =
     (let r = x # xs;
          b = xor_counter t (enc (take 8 b @ take 8 r));
          (b', t', r') = wrap_pass enc b (t + 1) (drop 8 r) in
      (b', t', drop 8 b @ r'))"

function unwrap_pass :: "(u8 list \<Rightarrow> u8 list) \<Rightarrow> u8 list \<Rightarrow> nat \<Rightarrow> u8 list \<Rightarrow> nat \<Rightarrow> wrap_state" where
  "unwrap_pass dec b t out r_offset =
     (if r_offset = 0 then (b, t, out)
      else
        let r_offset = r_offset - 8;
            b = xor_counter t b;
            b = dec (take 8 b @ take 8 (drop r_offset out)) in
        unwrap_pass dec b (t - 1) (take r_offset out @ drop 8 b @ drop (r_offset + 8) out) r_offset)"
  by pat_completeness auto
termination by (relation "measure (\<lambda>(_, _, _, _, n). n)") auto

declare unwrap_pass.simps [simp del]

fun wrap_step :: "(u8 list \<Rightarrow> u8 list) \<Rightarrow> wrap_state \<Rightarrow> wrap_state" where
  "wrap_step enc (b, t, r) = wrap_pass enc b t r"

fun unwrap_step :: "(u8 list \<Rightarrow> u8 list) \<Rightarrow> wrap_state \<Rightarrow> wrap_state" where
  "unwrap_step dec (b, t, out) = unwrap_pass dec b t out (length out)"

definition aes_wrap :: "(u8 list \<Rightarrow> u8 list) \<Rightarrow> u8 list option \<Rightarrow> usize \<Rightarrow> u8 list \<Rightarrow> u8 list may_panic" where
  "aes_wrap enc iv out_len input =
     (if length input mod 8 \<noteq> 0 \<or> length input < 8 \<or> out_len \<noteq> length input + 8 then Panic
      else
        let iv = (case iv of None \<Rightarrow> DEFAULT_IV | Some iv \<Rightarrow> iv);
            b = take 8 iv @ replicate 8 0;
            (b, t, r) = (wrap_step enc ^^ 6) (b, 1, input) in
        Ok (take 8 b @ r))"

definition aes_unwrap ::
  "(u8 list \<Rightarrow> u8 list) \<Rightarrow> usize \<Rightarrow> u8 list \<Rightarrow> (u8 list \<times> u8 list) may_panic" where
  "aes_unwrap dec out_len input =
     (if length input \<noteq> out_len + 8 \<or> length input mod 8 \<noteq> 0 \<or> length input \<le> 16 then Panic
      else
        let inlen = length input - 8;
            b = take 8 input @ replicate 8 0;
            (b, t, out) = (unwrap_step dec ^^ 6) (b, 6 * (inlen div 8), drop 8 input) in
        Ok (take 8 b, out))"

section \<open>Unwrapping undoes wrapping\<close>

definition block_cipher :: "(u8 list \<Rightarrow> u8 list) \<Rightarrow> (u8 list \<Rightarrow> u8 list) \<Rightarrow> bool" where
  "block_cipher enc dec \<longleftrightarrow> (\<forall>b. length b = 16 \<longrightarrow> length (enc b) = 16 \<and> dec (enc b) = b)"

lemma block_cipherD:
  assumes "block_cipher enc dec" "length b = 16"
  shows "length (enc b) = 16" "dec (enc b) = b"
  using assms by (auto simp: block_cipher_def)

lemma length_xor_counter [simp]: "length (xor_counter t b) = length b"
  by (simp add: xor_counter_def xor_at_def Let_def)

lemma drop_xor_counter: "drop 8 (xor_counter t b) = drop 8 b"
  by (simp add: xor_counter_def xor_at_def Let_def)

lemma xor_counter_append:
  assumes "length a = 8"
  shows "xor_counter t (a @ b) = xor_counter t a @ b"
  using assms by (simp add: xor_counter_def xor_at_def Let_def list_update_append nth_append)

lemma xor_counter_twice:
  assumes "length a = 8"
  shows "xor_counter t (xor_counter t a) = a"
proof (rule nth_equalityI)
  fix i assume "i < length (xor_counter t (xor_counter t a))"
  then have "i \<in> {0, 1, 2, 3, 4, 5, 6, 7}" using assms by auto
  then show "xor_counter t (xor_counter t a) ! i = a ! i"
    using assms by (auto simp: xor_counter_def xor_at_def Let_def nth_list_update xor.assoc)
qed simp

lemma take_xor_counter:
  assumes "length b = 16"
  shows "take 8 (xor_counter t b) = xor_counter t (take 8 b)"
  using xor_counter_append [of "take 8 b" t "drop 8 b"] assms by simp

text \<open>The blocks are peeled off from the front: a non-empty multiple of eight bytes.\<close>

lemma blocks_induct [consumes 1, case_names Nil Block]:
  assumes "length r mod 8 = 0" "P []"
    "\<And>blk r. length blk = 8 \<Longrightarrow> length r mod 8 = 0 \<Longrightarrow> P r \<Longrightarrow> P (blk @ r)"
  shows "P r"
  using assms(1)
proof (induction "length r" arbitrary: r rule: less_induct)
  case less
  show ?case
  proof (cases "r = []")
    case False
    then have "8 \<le> length r" using less.prems by (cases "length r < 8") auto
    then have "length (take 8 r) = 8" "length (drop 8 r) mod 8 = 0" "length (drop 8 r) < length r"
      using less.prems False by (auto simp: le_mod_geq)
    then show ?thesis
      using assms(3) [of "take 8 r" "drop 8 r"] less.hyps by simp
  qed (simp add: assms(2))
qed

lemma wrap_pass_block:
  assumes "length blk = 8"
  shows "wrap_pass enc b t (blk @ r) =
    (let b = xor_counter t (enc (take 8 b @ blk)); (b', t', r') = wrap_pass enc b (t + 1) r in
     (b', t', drop 8 b @ r'))"
proof -
  obtain x xs where "blk @ r = x # xs" using assms by (cases "blk @ r") auto
  moreover from this have "take 8 (x # xs) = blk" "drop 8 (x # xs) = r"
    using assms by (metis append_eq_conv_conj)+
  ultimately show ?thesis by (simp add: Let_def)
qed

lemma unwrap_pass_block:
  assumes "length blk = 8"
  shows "unwrap_pass dec b t (pre @ blk @ r) (length pre + 8) =
    (let b = dec (take 8 (xor_counter t b) @ blk) in
     unwrap_pass dec b (t - 1) (pre @ drop 8 b @ r) (length pre))"
  using assms by (subst unwrap_pass.simps) (simp add: Let_def)

lemma unwrap_wrap_pass:
  assumes bc: "block_cipher enc dec" and "length r mod 8 = 0"
  shows "length b = 16 \<Longrightarrow> \<exists>b' r'. wrap_pass enc b t r = (b', t + length r div 8, r')
    \<and> length b' = 16 \<and> length r' = length r
    \<and> (\<forall>pre bb. length bb = 16 \<longrightarrow> take 8 bb = take 8 b' \<longrightarrow>
        (\<exists>b0. unwrap_pass dec bb (t + length r div 8 - 1) (pre @ r') (length pre + length r)
            = unwrap_pass dec b0 (t - 1) (pre @ r) (length pre)
          \<and> length b0 = 16 \<and> take 8 b0 = take 8 b))"
  using assms(2)
proof (induction r arbitrary: b t rule: blocks_induct)
  case (Block blk r)
  let ?e = "enc (take 8 b @ blk)"
  let ?b = "xor_counter t ?e"
  have e: "length ?e = 16" "dec ?e = take 8 b @ blk"
    using block_cipherD [OF bc, of "take 8 b @ blk"] Block by auto
  obtain b' r' where w: "wrap_pass enc ?b (t + 1) r = (b', t + 1 + length r div 8, r')"
    "length b' = 16" "length r' = length r"
    and u: "\<And>pre bb. length bb = 16 \<Longrightarrow> take 8 bb = take 8 b' \<Longrightarrow>
        \<exists>b0. unwrap_pass dec bb (t + 1 + length r div 8 - 1) (pre @ r') (length pre + length r)
            = unwrap_pass dec b0 (t + 1 - 1) (pre @ r) (length pre)
          \<and> length b0 = 16 \<and> take 8 b0 = take 8 ?b"
    using Block.IH [of ?b "t + 1"] e(1) by auto
  have n: "t + length (blk @ r) div 8 = t + 1 + length r div 8"
    using Block.hyps(1) by simp
  have "wrap_pass enc b t (blk @ r) = (b', t + length (blk @ r) div 8, drop 8 ?b @ r')"
    using Block.hyps(1) w(1) n by (simp add: wrap_pass_block Let_def)
  moreover have "\<exists>b0. unwrap_pass dec bb (t + length (blk @ r) div 8 - 1) (pre @ drop 8 ?b @ r')
        (length pre + length (blk @ r)) = unwrap_pass dec b0 (t - 1) (pre @ blk @ r) (length pre)
      \<and> length b0 = 16 \<and> take 8 b0 = take 8 b"
    if bb: "length bb = 16" "take 8 bb = take 8 b'" for pre bb
  proof -
    have d: "length (drop 8 ?b) = 8" using e(1) by simp
    obtain b0 where b0: "unwrap_pass dec bb (t + 1 + length r div 8 - 1) (pre @ drop 8 ?b @ r')
        (length pre + 8 + length r) = unwrap_pass dec b0 t (pre @ drop 8 ?b @ r) (length pre + 8)"
      "length b0 = 16" "take 8 b0 = take 8 ?b"
      using u [OF bb, of "pre @ drop 8 ?b"] d by auto
    have "take 8 (xor_counter t b0) = take 8 ?e"
      using b0(2,3) e(1) by (simp add: take_xor_counter xor_counter_twice)
    then have "dec (take 8 (xor_counter t b0) @ drop 8 ?b) = take 8 b @ blk"
      using e by (simp add: drop_xor_counter)
    then have "unwrap_pass dec b0 t (pre @ drop 8 ?b @ r) (length pre + 8)
        = unwrap_pass dec (take 8 b @ blk) (t - 1) (pre @ blk @ r) (length pre)"
      using d Block.prems by (simp add: unwrap_pass_block Let_def)
    moreover have "length (take 8 b @ blk) = 16" "take 8 (take 8 b @ blk) = take 8 b"
      using Block.prems Block.hyps(1) by auto
    ultimately show ?thesis
      using b0(1) n Block.hyps(1) by (metis (no_types, lifting) add.assoc length_append)
  qed
  ultimately show ?case
    using w(2,3) e(1) Block.hyps(1)
    by (intro exI [of _ b'] exI [of _ "drop 8 ?b @ r'"]) simp
qed (auto simp: unwrap_pass.simps)

text \<open>States of the two loops that correspond: only the first half of the block counts, and the
  counter of the unwrapping loop is one behind.\<close>

fun wrap_rel :: "wrap_state \<Rightarrow> wrap_state \<Rightarrow> bool" where
  "wrap_rel (b, t, r) (b', t', r') \<longleftrightarrow>
     length b = 16 \<and> length b' = 16 \<and> take 8 b = take 8 b' \<and> t' = t - 1 \<and> r = r' \<and> length r mod 8 = 0"

lemma wrap_step_invert:
  assumes bc: "block_cipher enc dec" and s: "length (fst s) = 16" "length (snd (snd s)) mod 8 = 0"
  shows "length (fst (wrap_step enc s)) = 16
    \<and> fst (snd (wrap_step enc s)) = fst (snd s) + length (snd (snd s)) div 8
    \<and> length (snd (snd (wrap_step enc s))) = length (snd (snd s))
    \<and> (wrap_rel (wrap_step enc s) u \<longrightarrow> wrap_rel s (unwrap_step dec u))"
proof -
  obtain b t r where st: "s = (b, t, r)" by (cases s)
  obtain b' r' where w: "wrap_pass enc b t r = (b', t + length r div 8, r')" "length b' = 16"
    "length r' = length r"
    and uw: "\<And>pre bb. length bb = 16 \<Longrightarrow> take 8 bb = take 8 b' \<Longrightarrow>
        \<exists>b0. unwrap_pass dec bb (t + length r div 8 - 1) (pre @ r') (length pre + length r)
            = unwrap_pass dec b0 (t - 1) (pre @ r) (length pre)
          \<and> length b0 = 16 \<and> take 8 b0 = take 8 b"
    using unwrap_wrap_pass [OF bc, of r b t] s st by auto
  have "wrap_rel s (unwrap_step dec u)" if rel: "wrap_rel (wrap_step enc s) u"
  proof -
    obtain bb where u: "u = (bb, t + length r div 8 - 1, r')" "length bb = 16" "take 8 bb = take 8 b'"
      using rel st w by (cases u) auto
    obtain b0 where "unwrap_pass dec bb (t + length r div 8 - 1) r' (length r)
        = unwrap_pass dec b0 (t - 1) r 0" "length b0 = 16" "take 8 b0 = take 8 b"
      using uw [OF u(2,3), of "[]"] by auto
    then show ?thesis
      using st u w s by (simp add: unwrap_pass.simps)
  qed
  then show ?thesis
    using st w by auto
qed

lemma wrap_steps_shape:
  assumes "block_cipher enc dec" "length (fst s) = 16" "length (snd (snd s)) mod 8 = 0"
  shows "length (fst ((wrap_step enc ^^ n) s)) = 16
    \<and> fst (snd ((wrap_step enc ^^ n) s)) = fst (snd s) + n * (length (snd (snd s)) div 8)
    \<and> length (snd (snd ((wrap_step enc ^^ n) s))) = length (snd (snd s))"
proof (induction n)
  case (Suc n)
  then show ?case
    using wrap_step_invert [OF assms(1), of "(wrap_step enc ^^ n) s"] assms(3) by simp
qed (use assms in simp)

lemma unwrap_steps_invert:
  assumes "block_cipher enc dec" "length (fst s) = 16" "length (snd (snd s)) mod 8 = 0"
  shows "wrap_rel ((wrap_step enc ^^ n) s) u \<Longrightarrow> wrap_rel s ((unwrap_step dec ^^ n) u)"
proof (induction n arbitrary: u)
  case (Suc n)
  have "wrap_rel ((wrap_step enc ^^ n) s) (unwrap_step dec u)"
    using wrap_step_invert [OF assms(1), of "(wrap_step enc ^^ n) s" u]
      wrap_steps_shape [OF assms, of n] Suc.prems assms(3) by simp
  then show ?case
    using Suc.IH by (simp add: funpow_swap1)
qed simp

lemma aes_wrap_unwrap:
  assumes bc: "block_cipher enc dec" and l: "length input mod 8 = 0" "16 \<le> length input"
  shows "\<exists>out. aes_wrap enc None (length input + 8) input = Ok out \<and> length out = length input + 8
    \<and> aes_unwrap dec (length input) out = Ok (DEFAULT_IV, input)"
proof -
  let ?s = "(take 8 DEFAULT_IV @ replicate 8 0, 1 :: nat, input)"
  have s: "length (fst ?s) = 16" "length (snd (snd ?s)) mod 8 = 0"
    using l by (simp_all add: DEFAULT_IV_def)
  obtain b t r where w: "(wrap_step enc ^^ 6) ?s = (b, t, r)"
    by (cases "(wrap_step enc ^^ 6) ?s")
  have sh: "length b = 16" "t = 1 + 6 * (length input div 8)" "length r = length input"
    using wrap_steps_shape [OF bc s, of 6] w by auto
  let ?u = "(take 8 b @ replicate 8 0, 6 * (length input div 8), r)"
  have "wrap_rel ?s ((unwrap_step dec ^^ 6) ?u)"
    using w sh l by (intro unwrap_steps_invert [OF bc s]) auto
  then obtain b' where "(unwrap_step dec ^^ 6) ?u = (b', 0, input)" "take 8 b' = take 8 DEFAULT_IV"
    by (cases "(unwrap_step dec ^^ 6) ?u") (auto simp: DEFAULT_IV_def)
  then have "aes_unwrap dec (length input) (take 8 b @ r) = Ok (DEFAULT_IV, input)"
    using sh l by (simp add: aes_unwrap_def DEFAULT_IV_def Let_def)
  moreover have "aes_wrap enc None (length input + 8) input = Ok (take 8 b @ r)"
    using l w by (simp add: aes_wrap_def)
  ultimately show ?thesis using sh by auto
qed

text \<open>C21: Unwrapping a wrapped key with the same key-encrypting key gives the key back and the default
  initialization value, for every key of at least sixteen bytes in whole blocks of eight and every
  block cipher whose decryption undoes its encryption.\<close>

theorem aes_key_wrap_roundtrip:
  assumes "block_cipher enc dec" "length input mod 8 = 0" "16 \<le> length input"
  shows "\<exists>out. aes_wrap enc None (length input + 8) input = Ok out
    \<and> aes_unwrap dec (length input) out = Ok (DEFAULT_IV, input)"
  using aes_wrap_unwrap [OF assms] by blast

theorem aes_key_wrap_roundtrip_witness:
  "block_cipher (\<lambda>b. map (\<lambda>x. x + 1) (rev b)) (\<lambda>b. rev (map (\<lambda>x. x - 1) b))
   \<and> (\<exists>out. aes_wrap (\<lambda>b. map (\<lambda>x. x + 1) (rev b)) None 24 (replicate 16 5) = Ok out
       \<and> aes_unwrap (\<lambda>b. rev (map (\<lambda>x. x - 1) b)) 16 out = Ok (DEFAULT_IV, replicate 16 5))"
proof -
  have "block_cipher (\<lambda>b. map (\<lambda>x. x + 1) (rev b)) (\<lambda>b. rev (map (\<lambda>x. x - 1) b))"
    by (simp add: block_cipher_def rev_map [symmetric] o_def)
  then show ?thesis
    using aes_key_wrap_roundtrip [of _ _ "replicate 16 5"] by simp
qed

end
