(* ===== verification/Encryption.thy ===== *)
theory Encryption
  imports Key_Wrap Srt_Control
begin

text \<open>
  Encryption (\<open>protocol/encryption/key.rs\<close>, \<open>stream.rs\<close>, \<open>mod.rs\<close> and \<open>settings/encryption.rs\<close>): keys
  and salts, wrapping and unwrapping of the stream keys, encryption and decryption of data packets,
  and the key refresh schedule of the sender.

  The ciphers and the key derivation function are those of the crates \<open>aes\<close>, \<open>ctr\<close> and \<open>pbkdf2\<close>: the
  record \<open>Crypto\<close> is a parameter, and \<open>crypto_laws\<close> states what the code relies on. Random bytes are
  a parameter too: \<open>rnd n\<close> are the \<open>n\<close> bytes that the operating system's generator fills in.
\<close>

section \<open>Keys and salts\<close>

type_synonym Salt = "u8 list"

definition salt_try_from :: "u8 list \<Rightarrow> Salt option" where
  "salt_try_from bytes = (if length bytes = 16 then Some bytes else None)"

definition generate_stream_iv_for :: "Salt \<Rightarrow> SeqNumber \<Rightarrow> u8 list" where
  "generate_stream_iv_for salt seq_number =
     fold (\<lambda>(i, b). xor_at (i + 10) b) (enumerate 0 (be32 seq_number)) (take 14 salt @ [0, 0])"

datatype EncryptionKey = EK_Bytes16 "u8 list" | EK_Bytes24 "u8 list" | EK_Bytes32 "u8 list"

definition encryption_key_new_random :: "(nat \<Rightarrow> u8 list) \<Rightarrow> KeySize \<Rightarrow> EncryptionKey" where
  "encryption_key_new_random rnd sz =
     (case sz of
        KS_AES128 \<Rightarrow> EK_Bytes16 (rnd 16)
      | KS_AES192 \<Rightarrow> EK_Bytes24 (rnd 24)
      | KS_AES256 \<Rightarrow> EK_Bytes32 (rnd 32)
      | KS_Unspecified \<Rightarrow> EK_Bytes16 (rnd 16))"

definition encryption_key_try_from :: "u8 list \<Rightarrow> EncryptionKey option" where
  "encryption_key_try_from bytes =
     (if length bytes = 16 then Some (EK_Bytes16 bytes)
      else if length bytes = 24 then Some (EK_Bytes24 bytes)
      else if length bytes = 32 then Some (EK_Bytes32 bytes)
      else None)"

fun ek_len :: "EncryptionKey \<Rightarrow> usize" where
  "ek_len (EK_Bytes16 _) = 16"
| "ek_len (EK_Bytes24 _) = 24"
| "ek_len (EK_Bytes32 _) = 32"

fun ek_bytes :: "EncryptionKey \<Rightarrow> u8 list" where
  "ek_bytes (EK_Bytes16 key) = key"
| "ek_bytes (EK_Bytes24 key) = key"
| "ek_bytes (EK_Bytes32 key) = key"

record Crypto =
  cr_encrypt_block :: "EncryptionKey \<Rightarrow> u8 list \<Rightarrow> u8 list"
  cr_decrypt_block :: "EncryptionKey \<Rightarrow> u8 list \<Rightarrow> u8 list"
  cr_apply_keystream :: "EncryptionKey \<Rightarrow> u8 list \<Rightarrow> u8 list \<Rightarrow> u8 list"
  cr_pbkdf2 :: "u8 list \<Rightarrow> u8 list \<Rightarrow> nat \<Rightarrow> nat \<Rightarrow> u8 list"

text \<open>A block cipher's decryption undoes its encryption; applying a keystream twice changes nothing
  and keeps the length.\<close>

definition crypto_laws :: "Crypto \<Rightarrow> bool" where
  "crypto_laws cr \<longleftrightarrow>
     (\<forall>k. block_cipher (cr_encrypt_block cr k) (cr_decrypt_block cr k))
     \<and> (\<forall>k iv d. cr_apply_keystream cr k iv (cr_apply_keystream cr k iv d) = d
          \<and> length (cr_apply_keystream cr k iv d) = length d)"

record KeySettings =
  ks_key_size :: KeySize
  ks_passphrase :: "u8 list"

record KeyMaterialRefreshSettings =
  kr_period :: usize
  kr_pre_announcement_period :: usize

definition key_refresh_default :: KeyMaterialRefreshSettings where
  "key_refresh_default = \<lparr>kr_period = 2 ^ 25, kr_pre_announcement_period = 4000\<rparr>"

definition key_refresh_new ::
  "usize \<Rightarrow> usize \<Rightarrow> (KeyMaterialRefreshSettings, usize \<times> usize) outcome" where
  "key_refresh_new period pre_announcement_period =
     (if period > 0 then
        if pre_announcement_period = 0 then Panic
        else if period div pre_announcement_period \<ge> 2
        then Ok \<lparr>kr_period = period, kr_pre_announcement_period = pre_announcement_period\<rparr>
        else Err (period, pre_announcement_period)
      else Err (period, pre_announcement_period))"

definition kek_new :: "Crypto \<Rightarrow> KeySettings \<Rightarrow> Salt \<Rightarrow> EncryptionKey" where
  "kek_new cr key_settings salt =
     (let salt_len = min 8 (length salt);
          new_key = cr_pbkdf2 cr (ks_passphrase key_settings) (drop (length salt - salt_len) salt) 2048 in
      case ks_key_size key_settings of
        KS_AES128 \<Rightarrow> EK_Bytes16 (new_key 16)
      | KS_AES192 \<Rightarrow> EK_Bytes24 (new_key 24)
      | KS_AES256 \<Rightarrow> EK_Bytes32 (new_key 32)
      | KS_Unspecified \<Rightarrow> EK_Bytes16 (new_key 16))"

definition encrypt_wrapped_keys :: "Crypto \<Rightarrow> EncryptionKey \<Rightarrow> u8 list \<Rightarrow> u8 list may_panic" where
  "encrypt_wrapped_keys cr self keys =
     aes_wrap (cr_encrypt_block cr self) None (length keys + 8) keys"

definition decrypt_wrapped_keys :: "Crypto \<Rightarrow> EncryptionKey \<Rightarrow> u8 list \<Rightarrow> (u8 list, u8 list) outcome" where
  "decrypt_wrapped_keys cr self wrapped_keys =
     (if length wrapped_keys < 8 then Panic
      else case aes_unwrap (cr_decrypt_block cr self) (length wrapped_keys - 8) wrapped_keys of
        Ok (iv, keys) \<Rightarrow> if iv \<noteq> DEFAULT_IV then Err iv else Ok keys
      | _ \<Rightarrow> Panic)"

section \<open>Stream keys\<close>

datatype KeyMaterialError =
    NoKeys
  | InvalidSaltLength
  | InvalidKeyFlags KeyFlags KeySize usize
  | InvalidInitializationVector "u8 list"
  | InvalidRefreshResponse KeyingMaterialMessage

record StreamEncryptionKeys =
  sk_salt :: Salt
  sk_even_key :: "EncryptionKey option"
  sk_odd_key :: "EncryptionKey option"

definition stream_keys_new_random ::
  "u8 list \<Rightarrow> (nat \<Rightarrow> u8 list) \<Rightarrow> (nat \<Rightarrow> u8 list) \<Rightarrow> KeySize \<Rightarrow> StreamEncryptionKeys" where
  "stream_keys_new_random salt rnd_even rnd_odd key_size =
     \<lparr>sk_salt = salt, sk_even_key = Some (encryption_key_new_random rnd_even key_size),
      sk_odd_key = Some (encryption_key_new_random rnd_odd key_size)\<rparr>"

definition first_active_sek :: "StreamEncryptionKeys \<Rightarrow> DataEncryption" where
  "first_active_sek self =
     (if sk_even_key self \<noteq> None then DE_Even else if sk_odd_key self \<noteq> None then DE_Odd else DE_None)"

definition key_option_bytes :: "EncryptionKey option \<Rightarrow> u8 list" where
  "key_option_bytes k = (case k of None \<Rightarrow> [] | Some k \<Rightarrow> ek_bytes k)"

definition wrap_with ::
  "Crypto \<Rightarrow> StreamEncryptionKeys \<Rightarrow> KeySettings \<Rightarrow> KeyingMaterialMessage option may_panic" where
  "wrap_with cr self key_settings =
     (let kek = kek_new cr key_settings (sk_salt self);
          keys = key_option_bytes (sk_even_key self) @ key_option_bytes (sk_odd_key self);
          message = (\<lambda>key_flags wrapped_keys.
            \<lparr>km_pt = PT_KeyingMaterial, km_key_flags = key_flags, km_keki = 0, km_cipher = CT_Ctr,
             km_auth = Auth_None, km_salt = sk_salt self, km_wrapped_keys = wrapped_keys\<rparr>) in
      map_outcome_ok (\<lambda>wrapped_keys.
        case (sk_even_key self, sk_odd_key self) of
          (Some _, Some _) \<Rightarrow> Some (message (KeyFlags_EVEN OR KeyFlags_ODD) wrapped_keys)
        | (Some _, None) \<Rightarrow> Some (message KeyFlags_EVEN wrapped_keys)
        | (None, Some _) \<Rightarrow> Some (message KeyFlags_ODD wrapped_keys)
        | (None, None) \<Rightarrow> None)
      (encrypt_wrapped_keys cr kek keys))"

text \<open>\<open>Some(EncryptionKey::try_from(slice).unwrap())\<close> for a key that the flags announce.\<close>

definition unwrap_key :: "bool \<Rightarrow> u8 list \<Rightarrow> (EncryptionKey option, KeyMaterialError) outcome" where
  "unwrap_key announced bytes =
     (if announced then (case encryption_key_try_from bytes of Some k \<Rightarrow> Ok (Some k) | None \<Rightarrow> Panic)
      else Ok None)"

definition unwrap_from ::
  "Crypto \<Rightarrow> KeySettings \<Rightarrow> KeyingMaterialMessage \<Rightarrow> (StreamEncryptionKeys, KeyMaterialError) outcome" where
  "unwrap_from cr key_settings key_material =
     (case salt_try_from (km_salt key_material) of
        None \<Rightarrow> Err InvalidSaltLength
      | Some salt \<Rightarrow>
          let kek = kek_new cr key_settings salt; key_flags = km_key_flags key_material in
          if count_ones key_flags * key_size_as_usize (ks_key_size key_settings) + 8
             \<noteq> length (km_wrapped_keys key_material)
          then Err (InvalidKeyFlags key_flags (ks_key_size key_settings)
                 (length (km_wrapped_keys key_material)))
          else case decrypt_wrapped_keys cr kek (km_wrapped_keys key_material) of
            Panic \<Rightarrow> Panic
          | Err iv \<Rightarrow> Err (InvalidInitializationVector iv)
          | Ok keys \<Rightarrow>
              let key_size = ek_len kek in
              if length keys < key_size \<and> flags_contain key_flags KeyFlags_EVEN then Panic
              else bind_outcome (unwrap_key (flags_contain key_flags KeyFlags_EVEN) (take key_size keys))
                (\<lambda>even_key.
              if length keys < key_size \<and> flags_contain key_flags KeyFlags_ODD then Panic
              else bind_outcome (unwrap_key (flags_contain key_flags KeyFlags_ODD)
                  (drop (length keys - key_size) keys)) (\<lambda>odd_key.
              Ok \<lparr>sk_salt = salt, sk_even_key = even_key, sk_odd_key = odd_key\<rparr>)))"

definition commission_next_key ::
  "Crypto \<Rightarrow> (nat \<Rightarrow> u8 list) \<Rightarrow> StreamEncryptionKeys \<Rightarrow> DataEncryption \<Rightarrow> KeySettings
   \<Rightarrow> (KeyingMaterialMessage option \<times> StreamEncryptionKeys) may_panic" where
  "commission_next_key cr rnd self active_sek key_settings =
     (let new_random_key = encryption_key_new_random rnd (ks_key_size key_settings);
          wrapped = (\<lambda>self. map_outcome_ok (\<lambda>km. (km, self)) (wrap_with cr self key_settings)) in
      case active_sek of
        DE_Even \<Rightarrow> wrapped (self\<lparr>sk_odd_key := Some new_random_key\<rparr>)
      | DE_Odd \<Rightarrow> wrapped (self\<lparr>sk_even_key := Some new_random_key\<rparr>)
      | DE_None \<Rightarrow> Ok (None, self))"

fun get_key :: "StreamEncryptionKeys \<Rightarrow> DataEncryption \<Rightarrow> EncryptionKey option" where
  "get_key self DE_Even = sk_even_key self"
| "get_key self DE_Odd = sk_odd_key self"
| "get_key self DE_None = None"

definition stream_decrypt ::
  "Crypto \<Rightarrow> StreamEncryptionKeys \<Rightarrow> DataEncryption \<Rightarrow> SeqNumber \<Rightarrow> u8 list \<Rightarrow> (usize \<times> u8 list) option" where
  "stream_decrypt cr self sek_selection seq_number data =
     map_option (\<lambda>sek.
       let iv = generate_stream_iv_for (sk_salt self) seq_number;
           data = cr_apply_keystream cr sek iv data in (length data, data)) (get_key self sek_selection)"

definition stream_encrypt ::
  "Crypto \<Rightarrow> StreamEncryptionKeys \<Rightarrow> DataEncryption \<Rightarrow> SeqNumber \<Rightarrow> u8 list \<Rightarrow> (usize \<times> u8 list) option" where
  "stream_encrypt cr self sek_selection seq_number data =
     map_option (\<lambda>sek.
       let iv = generate_stream_iv_for (sk_salt self) seq_number;
           data = cr_apply_keystream cr sek iv data in (length data, data)) (get_key self sek_selection)"

record CipherSettings =
  cs_key_settings :: KeySettings
  cs_key_refresh :: KeyMaterialRefreshSettings
  cs_stream_keys :: StreamEncryptionKeys

definition cipher_settings_new ::
  "Crypto \<Rightarrow> KeySettings \<Rightarrow> KeyMaterialRefreshSettings \<Rightarrow> KeyingMaterialMessage
   \<Rightarrow> (CipherSettings, KeyMaterialError) outcome" where
  "cipher_settings_new cr key_settings km_refresh key_material =
     map_outcome_ok (\<lambda>stream_keys. \<lparr>cs_key_settings = key_settings, cs_key_refresh = km_refresh,
        cs_stream_keys = stream_keys\<rparr>) (unwrap_from cr key_settings key_material)"

definition cipher_settings_new_random ::
  "u8 list \<Rightarrow> (nat \<Rightarrow> u8 list) \<Rightarrow> (nat \<Rightarrow> u8 list) \<Rightarrow> KeySettings \<Rightarrow> KeyMaterialRefreshSettings
   \<Rightarrow> CipherSettings" where
  "cipher_settings_new_random salt rnd_even rnd_odd key_settings km_refresh =
     \<lparr>cs_key_settings = key_settings, cs_key_refresh = km_refresh,
      cs_stream_keys = stream_keys_new_random salt rnd_even rnd_odd (ks_key_size key_settings)\<rparr>"

definition wrap_keying_material :: "Crypto \<Rightarrow> CipherSettings \<Rightarrow> KeyingMaterialMessage option may_panic" where
  "wrap_keying_material cr self = wrap_with cr (cs_stream_keys self) (cs_key_settings self)"

section \<open>Decryption of packets\<close>

datatype DecryptionError =
    UnexpectedUnencryptedPacket DataPacket
  | UnexpectedEncryptedPacket DataPacket
  | EncryptionFailure
  | DecryptionFailure

type_synonym Decryption = "(StreamEncryptionKeys \<times> KeySettings) option"

definition decryption_new :: "CipherSettings option \<Rightarrow> Decryption" where
  "decryption_new settings = map_option (\<lambda>s. (cs_stream_keys s, cs_key_settings s)) settings"

definition decryption_decrypt ::
  "Crypto \<Rightarrow> Decryption \<Rightarrow> DataPacket \<Rightarrow> (usize \<times> DataPacket, DecryptionError) outcome" where
  "decryption_decrypt cr self packet =
     (case (dp_encryption packet, self) of
        (DE_None, None) \<Rightarrow> Ok (0, packet)
      | (DE_None, Some _) \<Rightarrow> Err (UnexpectedUnencryptedPacket packet)
      | (_, None) \<Rightarrow> Err (UnexpectedEncryptedPacket packet)
      | (selected_sek, Some (stream_keys, _)) \<Rightarrow>
          (case stream_decrypt cr stream_keys selected_sek (dp_seq_number packet) (dp_payload packet) of
             None \<Rightarrow> Err DecryptionFailure
           | Some (bytes, data) \<Rightarrow>
               Ok (bytes, packet\<lparr>dp_encryption := DE_None, dp_payload := data\<rparr>)))"

definition refresh_key_material ::
  "Crypto \<Rightarrow> Decryption \<Rightarrow> KeyingMaterialMessage
   \<Rightarrow> (KeyingMaterialMessage option, KeyMaterialError) outcome \<times> Decryption" where
  "refresh_key_material cr self keying_material =
     (case self of
        None \<Rightarrow> (Err NoKeys, self)
      | Some (stream_keys, key_settings) \<Rightarrow>
          (case unwrap_from cr key_settings keying_material of
             Ok stream_keys \<Rightarrow> (Ok (Some keying_material), Some (stream_keys, key_settings))
           | Err e \<Rightarrow> (Err e, self)
           | Panic \<Rightarrow> (Panic, self)))"

section \<open>Encryption of packets and the key refresh schedule\<close>

record EncryptionState =
  es_key_settings :: KeySettings
  es_key_refresh :: KeyMaterialRefreshSettings
  es_stream_keys :: StreamEncryptionKeys
  es_active_sek :: DataEncryption
  es_packets_until_pre_announcement :: usize
  es_packets_until_transmit :: usize
  es_packets_until_key_switch :: usize
  es_last_key_material :: "KeyingMaterialMessage option"

type_synonym Encryption = "EncryptionState option"

definition try_encrypt_packet ::
  "Crypto \<Rightarrow> EncryptionState \<Rightarrow> DataPacket \<Rightarrow> (usize \<times> DataPacket) option" where
  "try_encrypt_packet cr self packet =
     map_option (\<lambda>(bytes, data).
       (bytes, packet\<lparr>dp_encryption := es_active_sek self, dp_payload := data\<rparr>))
     (stream_encrypt cr (es_stream_keys self) (es_active_sek self) (dp_seq_number packet) (dp_payload packet))"

definition try_schedule_pre_announcement ::
  "Crypto \<Rightarrow> (nat \<Rightarrow> u8 list) \<Rightarrow> EncryptionState \<Rightarrow> EncryptionState may_panic" where
  "try_schedule_pre_announcement cr rnd self =
     (if es_packets_until_pre_announcement self = 0 then
        let self = self\<lparr>es_packets_until_pre_announcement := kr_period (es_key_refresh self),
                       es_packets_until_transmit := 0\<rparr> in
        if es_last_key_material self = None then
          map_outcome_ok (\<lambda>(km, keys). self\<lparr>es_stream_keys := keys, es_last_key_material := km\<rparr>)
            (commission_next_key cr rnd (es_stream_keys self) (es_active_sek self) (es_key_settings self))
        else Ok self
      else Ok self)"

definition try_send_key_material ::
  "EncryptionState \<Rightarrow> KeyingMaterialMessage option \<times> EncryptionState" where
  "try_send_key_material self =
     (case es_last_key_material self of
        None \<Rightarrow> (None, self)
      | Some km \<Rightarrow>
          if es_packets_until_transmit self = 0 then
            (Some km, self\<lparr>es_packets_until_transmit :=
               min (kr_pre_announcement_period (es_key_refresh self)) 1000\<rparr>)
          else (None, self\<lparr>es_packets_until_transmit := es_packets_until_transmit self - 1\<rparr>))"

definition try_switch_stream_keys :: "EncryptionState \<Rightarrow> EncryptionState" where
  "try_switch_stream_keys self =
     (if es_packets_until_key_switch self = 0 then
        let self = self\<lparr>es_packets_until_key_switch := kr_period (es_key_refresh self)\<rparr> in
        if es_last_key_material self = None then
          self\<lparr>es_active_sek := (case es_active_sek self of
             DE_Even \<Rightarrow> DE_Odd | DE_Odd \<Rightarrow> DE_Even | DE_None \<Rightarrow> DE_None)\<rparr>
        else self
      else self)"

definition encryption_new :: "CipherSettings option \<Rightarrow> Encryption" where
  "encryption_new settings =
     map_option (\<lambda>s. \<lparr>es_key_settings = cs_key_settings s, es_key_refresh = cs_key_refresh s,
       es_stream_keys = cs_stream_keys s, es_active_sek = DE_Even,
       es_packets_until_pre_announcement =
         usize_sub (kr_period (cs_key_refresh s)) (kr_pre_announcement_period (cs_key_refresh s)),
       es_packets_until_transmit = 0,
       es_packets_until_key_switch = kr_period (cs_key_refresh s),
       es_last_key_material = None\<rparr>) settings"

definition encryption_encrypt ::
  "Crypto \<Rightarrow> (nat \<Rightarrow> u8 list) \<Rightarrow> Encryption \<Rightarrow> DataPacket
   \<Rightarrow> ((usize \<times> DataPacket \<times> KeyingMaterialMessage option) option \<times> Encryption) may_panic" where
  "encryption_encrypt cr rnd self packet =
     (case self of
        None \<Rightarrow> Ok (Some (0, packet, None), None)
      | Some this \<Rightarrow>
          (case try_encrypt_packet cr this packet of
             None \<Rightarrow> Ok (None, Some this)
           | Some (bytes, packet) \<Rightarrow>
               bind_outcome (try_schedule_pre_announcement cr rnd this) (\<lambda>this.
               let this = try_switch_stream_keys this;
                   (km, this) = try_send_key_material this;
                   this = this\<lparr>es_packets_until_pre_announcement :=
                                 usize_sub (es_packets_until_pre_announcement this) 1,
                              es_packets_until_key_switch :=
                                 usize_sub (es_packets_until_key_switch this) 1\<rparr> in
               Ok (Some (bytes, packet, km), Some this))))"

definition handle_key_refresh_response ::
  "Encryption \<Rightarrow> KeyingMaterialMessage \<Rightarrow> (unit, KeyMaterialError) outcome \<times> Encryption" where
  "handle_key_refresh_response self keying_material =
     (case self of
        None \<Rightarrow> (Ok (), None)
      | Some settings \<Rightarrow>
          (case es_last_key_material settings of
             None \<Rightarrow> (Err NoKeys, self)
           | Some expected_key_material \<Rightarrow>
               if keying_material = expected_key_material then
                 (Ok (), Some (settings\<lparr>es_packets_until_transmit := 0, es_last_key_material := None\<rparr>))
               else (Err (InvalidRefreshResponse keying_material), self)))"

section \<open>Wrapped keys survive the round trip\<close>

definition key_fits :: "KeySettings \<Rightarrow> EncryptionKey \<Rightarrow> bool" where
  "key_fits ks k \<longleftrightarrow> length (ek_bytes k) = ek_len k \<and> ek_len k = key_size_as_usize (ks_key_size ks)"

definition stream_keys_wf :: "KeySettings \<Rightarrow> StreamEncryptionKeys \<Rightarrow> bool" where
  "stream_keys_wf ks sk \<longleftrightarrow> length (sk_salt sk) = 16
     \<and> pred_option (key_fits ks) (sk_even_key sk) \<and> pred_option (key_fits ks) (sk_odd_key sk)"

lemma key_size_cases: "key_size_as_usize k \<in> {16, 24, 32}"
  by (cases k) simp_all

lemma ek_len_kek_new: "ek_len (kek_new cr ks salt) = key_size_as_usize (ks_key_size ks)"
  by (simp add: kek_new_def Let_def split: KeySize.split)

lemma encryption_key_try_from_bytes: "key_fits ks k \<Longrightarrow> encryption_key_try_from (ek_bytes k) = Some k"
  by (cases k) (auto simp: key_fits_def encryption_key_try_from_def)

lemma unwrap_key_bytes: "key_fits ks k \<Longrightarrow> unwrap_key True (ek_bytes k) = Ok (Some k)"
  by (simp add: unwrap_key_def encryption_key_try_from_bytes)

lemma key_flags_contain:
  "flags_contain (KeyFlags_EVEN OR KeyFlags_ODD) KeyFlags_EVEN"
  "flags_contain (KeyFlags_EVEN OR KeyFlags_ODD) KeyFlags_ODD"
  "flags_contain KeyFlags_EVEN KeyFlags_EVEN" "\<not> flags_contain KeyFlags_EVEN KeyFlags_ODD"
  "flags_contain KeyFlags_ODD KeyFlags_ODD" "\<not> flags_contain KeyFlags_ODD KeyFlags_EVEN"
  by (simp_all add: flags_contain_def KeyFlags_EVEN_def KeyFlags_ODD_def)

lemma key_flags_count:
  "count_ones (KeyFlags_EVEN OR KeyFlags_ODD) = 2" "count_ones KeyFlags_EVEN = 1"
  "count_ones KeyFlags_ODD = 1"
  by (simp_all add: KeyFlags_EVEN_def KeyFlags_ODD_def count_ones_flags)

lemma wrapped_keys_roundtrip:
  assumes "crypto_laws cr" "length keys mod 8 = 0" "16 \<le> length keys"
  shows "\<exists>out. encrypt_wrapped_keys cr kek keys = Ok out \<and> length out = length keys + 8
    \<and> decrypt_wrapped_keys cr kek out = Ok keys"
proof -
  have "block_cipher (cr_encrypt_block cr kek) (cr_decrypt_block cr kek)"
    using assms(1) by (simp add: crypto_laws_def)
  then obtain out where "encrypt_wrapped_keys cr kek keys = Ok out" "length out = length keys + 8"
    "aes_unwrap (cr_decrypt_block cr kek) (length keys) out = Ok (DEFAULT_IV, keys)"
    using aes_wrap_unwrap [OF _ assms(2,3)] by (auto simp: encrypt_wrapped_keys_def)
  then show ?thesis
    by (auto simp: decrypt_wrapped_keys_def)
qed

lemma stream_keys_roundtrip:
  assumes cr: "crypto_laws cr" and wf: "stream_keys_wf ks sk"
    and some: "sk_even_key sk \<noteq> None \<or> sk_odd_key sk \<noteq> None"
  shows "\<exists>km. wrap_with cr sk ks = Ok (Some km) \<and> unwrap_from cr ks km = Ok sk"
proof -
  let ?kek = "kek_new cr ks (sk_salt sk)" and ?n = "key_size_as_usize (ks_key_size ks)"
  let ?e = "key_option_bytes (sk_even_key sk)" and ?o = "key_option_bytes (sk_odd_key sk)"
  have le: "sk_even_key sk = Some k \<Longrightarrow> length (ek_bytes k) = ?n \<and> key_fits ks k" for k
    using wf by (simp add: stream_keys_wf_def key_fits_def)
  have lo: "sk_odd_key sk = Some k \<Longrightarrow> length (ek_bytes k) = ?n \<and> key_fits ks k" for k
    using wf by (simp add: stream_keys_wf_def key_fits_def)
  have n: "8 dvd ?n" "16 \<le> ?n"
    using key_size_cases [of "ks_key_size ks"] by auto
  have "8 dvd length (?e @ ?o)" "16 \<le> length (?e @ ?o)"
    using some le lo n by (auto simp: key_option_bytes_def split: option.splits)
  then obtain out where out: "encrypt_wrapped_keys cr ?kek (?e @ ?o) = Ok out"
    "length out = length (?e @ ?o) + 8" "decrypt_wrapped_keys cr ?kek out = Ok (?e @ ?o)"
    using wrapped_keys_roundtrip [OF cr] by (metis dvd_imp_mod_0)
  have salt: "salt_try_from (sk_salt sk) = Some (sk_salt sk)"
    using wf by (simp add: salt_try_from_def stream_keys_wf_def)
  note defs = wrap_with_def unwrap_from_def Let_def salt key_option_bytes_def ek_len_kek_new
    key_flags_contain key_flags_count unwrap_key_bytes [of ks] unwrap_key_def [of False]
  show ?thesis
  proof (cases "sk_even_key sk")
    case None
    then obtain k where "sk_odd_key sk = Some k" using some by auto
    then show ?thesis
      using None out lo [of k] by (simp add: defs)
  next
    case (Some k)
    then show ?thesis
      using out le [of k] lo by (cases "sk_odd_key sk") (simp_all add: defs)
  qed
qed

section \<open>The sender's key schedule\<close>

definition rnd_ok :: "(nat \<Rightarrow> u8 list) \<Rightarrow> bool" where
  "rnd_ok rnd \<longleftrightarrow> (\<forall>n. length (rnd n) = n)"

definition refresh_wf :: "KeyMaterialRefreshSettings \<Rightarrow> bool" where
  "refresh_wf kr \<longleftrightarrow> 0 < kr_pre_announcement_period kr
     \<and> kr_pre_announcement_period kr < kr_period kr"

text \<open>The invariant: the active key is there, and a key that is still missing will have been generated
  before the sender switches to it; the counters run so that a new key is announced
  \<open>pre_announcement_period\<close> packets before every switch; key material that awaits confirmation
  unwraps to the sender's keys.\<close>

definition es_inv :: "Crypto \<Rightarrow> EncryptionState \<Rightarrow> bool" where
  "es_inv cr s \<longleftrightarrow>
     refresh_wf (es_key_refresh s) \<and> stream_keys_wf (es_key_settings s) (es_stream_keys s)
     \<and> es_active_sek s \<noteq> DE_None \<and> get_key (es_stream_keys s) (es_active_sek s) \<noteq> None
     \<and> es_packets_until_pre_announcement s \<le> kr_period (es_key_refresh s)
     \<and> es_packets_until_key_switch s \<le> kr_period (es_key_refresh s)
     \<and> (es_packets_until_pre_announcement s + kr_pre_announcement_period (es_key_refresh s))
         mod kr_period (es_key_refresh s)
       = es_packets_until_key_switch s mod kr_period (es_key_refresh s)
     \<and> (sk_even_key (es_stream_keys s) \<noteq> None \<and> sk_odd_key (es_stream_keys s) \<noteq> None
        \<or> es_packets_until_pre_announcement s < es_packets_until_key_switch s
           \<and> es_last_key_material s = None)
     \<and> pred_option (\<lambda>km. unwrap_from cr (es_key_settings s) km = Ok (es_stream_keys s))
         (es_last_key_material s)"

lemma encryption_key_new_random_fits:
  "rnd_ok rnd \<Longrightarrow> key_fits ks (encryption_key_new_random rnd (ks_key_size ks))"
  by (auto simp: rnd_ok_def key_fits_def encryption_key_new_random_def split: KeySize.split)

lemma commission_next_key_ok:
  assumes "crypto_laws cr" "rnd_ok rnd" "stream_keys_wf ks sk" "active \<noteq> DE_None"
    "get_key sk active \<noteq> None"
  shows "\<exists>km sk'. commission_next_key cr rnd sk active ks = Ok (Some km, sk')
    \<and> stream_keys_wf ks sk' \<and> get_key sk' active = get_key sk active \<and> sk_salt sk' = sk_salt sk
    \<and> sk_even_key sk' \<noteq> None \<and> sk_odd_key sk' \<noteq> None \<and> unwrap_from cr ks km = Ok sk'"
proof -
  let ?k = "encryption_key_new_random rnd (ks_key_size ks)"
  have k: "key_fits ks ?k" using assms(2) by (rule encryption_key_new_random_fits)
  have c: "\<exists>km. wrap_with cr sk' ks = Ok (Some km) \<and> unwrap_from cr ks km = Ok sk'"
    if "stream_keys_wf ks sk'" "sk_even_key sk' \<noteq> None" for sk'
    using stream_keys_roundtrip [OF assms(1) that(1)] that(2) by blast
  show ?thesis
  proof (cases active)
    case DE_Even
    then show ?thesis
      using c [of "sk\<lparr>sk_odd_key := Some ?k\<rparr>"] assms(3,5) k
      by (auto simp: commission_next_key_def Let_def stream_keys_wf_def)
  next
    case DE_Odd
    then show ?thesis
      using c [of "sk\<lparr>sk_even_key := Some ?k\<rparr>"] assms(3,5) k
      by (auto simp: commission_next_key_def Let_def stream_keys_wf_def)
  qed (use assms(4) in simp)
qed

lemma key_schedule_next:
  fixes x y pre period :: nat
  assumes "(x + pre) mod period = y mod period" "0 < x" "0 < y"
  shows "(x - 1 + pre) mod period = (y - 1) mod period"
proof -
  have "(int (x + pre) - 1) mod int period = (int y - 1) mod int period"
    using assms(1) by (metis mod_diff_left_eq of_nat_mod)
  moreover have "int (x - 1 + pre) = int (x + pre) - 1" "int (y - 1) = int y - 1"
    using assms(2,3) by auto
  ultimately have "int ((x - 1 + pre) mod period) = int ((y - 1) mod period)"
    by (simp add: of_nat_mod)
  then show ?thesis by simp
qed

text \<open>What one packet does to the sender's keys: nothing; or a switch to the other key, with no key
  material awaiting confirmation; or a new key in the inactive slot, whose key material then awaits
  confirmation.\<close>

definition key_step :: "EncryptionState \<Rightarrow> EncryptionState \<Rightarrow> bool" where
  "key_step s s' \<longleftrightarrow>
     es_stream_keys s' = es_stream_keys s \<and> es_last_key_material s' = es_last_key_material s
       \<and> (es_active_sek s' = es_active_sek s \<or> es_last_key_material s = None)
     \<or> es_last_key_material s = None \<and> es_last_key_material s' \<noteq> None
       \<and> es_active_sek s' = es_active_sek s
       \<and> sk_salt (es_stream_keys s') = sk_salt (es_stream_keys s)
       \<and> get_key (es_stream_keys s') (es_active_sek s) = get_key (es_stream_keys s) (es_active_sek s)"

lemma schedule_ok:
  assumes "crypto_laws cr" "rnd_ok rnd" "es_inv cr s"
  shows "\<exists>s1. try_schedule_pre_announcement cr rnd s = Ok s1
    \<and> es_key_settings s1 = es_key_settings s \<and> es_key_refresh s1 = es_key_refresh s
    \<and> es_active_sek s1 = es_active_sek s
    \<and> es_packets_until_key_switch s1 = es_packets_until_key_switch s
    \<and> es_packets_until_pre_announcement s1 =
        (if es_packets_until_pre_announcement s = 0 then kr_period (es_key_refresh s)
         else es_packets_until_pre_announcement s)
    \<and> stream_keys_wf (es_key_settings s) (es_stream_keys s1)
    \<and> pred_option (\<lambda>km. unwrap_from cr (es_key_settings s) km = Ok (es_stream_keys s1))
        (es_last_key_material s1)
    \<and> (es_packets_until_pre_announcement s = 0
        \<longrightarrow> sk_even_key (es_stream_keys s1) \<noteq> None \<and> sk_odd_key (es_stream_keys s1) \<noteq> None)
    \<and> get_key (es_stream_keys s1) (es_active_sek s) = get_key (es_stream_keys s) (es_active_sek s)
    \<and> sk_salt (es_stream_keys s1) = sk_salt (es_stream_keys s)
    \<and> (es_stream_keys s1 = es_stream_keys s \<and> es_last_key_material s1 = es_last_key_material s
       \<or> es_packets_until_pre_announcement s = 0
         \<and> es_last_key_material s = None \<and> es_last_key_material s1 \<noteq> None)"
proof (cases "es_packets_until_pre_announcement s = 0 \<and> es_last_key_material s = None")
  case True
  obtain km sk' where "commission_next_key cr rnd (es_stream_keys s) (es_active_sek s) (es_key_settings s)
      = Ok (Some km, sk')" "stream_keys_wf (es_key_settings s) sk'"
    "get_key sk' (es_active_sek s) = get_key (es_stream_keys s) (es_active_sek s)"
    "sk_salt sk' = sk_salt (es_stream_keys s)"
    "sk_even_key sk' \<noteq> None" "sk_odd_key sk' \<noteq> None" "unwrap_from cr (es_key_settings s) km = Ok sk'"
    using commission_next_key_ok [OF assms(1,2)] assms(3) unfolding es_inv_def by metis
  then show ?thesis
    using True by (simp add: try_schedule_pre_announcement_def Let_def)
next
  case False
  then show ?thesis
    using assms(3) by (auto simp: try_schedule_pre_announcement_def Let_def es_inv_def)
qed

lemma try_encrypt_packet_Some:
  assumes "get_key (es_stream_keys s) (es_active_sek s) = Some k"
  shows "\<exists>data. try_encrypt_packet cr s p
      = Some (length data, p\<lparr>dp_encryption := es_active_sek s, dp_payload := data\<rparr>)
    \<and> data = cr_apply_keystream cr k
        (generate_stream_iv_for (sk_salt (es_stream_keys s)) (dp_seq_number p)) (dp_payload p)"
  using assms by (simp add: try_encrypt_packet_def stream_encrypt_def Let_def)

fun other_sek :: "DataEncryption \<Rightarrow> DataEncryption" where
  "other_sek DE_Even = DE_Odd"
| "other_sek DE_Odd = DE_Even"
| "other_sek DE_None = DE_None"

lemma encrypt_after_schedule:
  assumes "try_encrypt_packet cr s p = Some (n, q)" "try_schedule_pre_announcement cr rnd s = Ok s1"
  shows "\<exists>km s'. encryption_encrypt cr rnd (Some s) p = Ok (Some (n, q, km), Some s')
    \<and> es_key_settings s' = es_key_settings s1 \<and> es_key_refresh s' = es_key_refresh s1
    \<and> es_stream_keys s' = es_stream_keys s1 \<and> es_last_key_material s' = es_last_key_material s1
    \<and> es_active_sek s' = (if es_packets_until_key_switch s1 = 0 \<and> es_last_key_material s1 = None
         then other_sek (es_active_sek s1) else es_active_sek s1)
    \<and> es_packets_until_pre_announcement s' = usize_sub (es_packets_until_pre_announcement s1) 1
    \<and> es_packets_until_key_switch s' = usize_sub
         (if es_packets_until_key_switch s1 = 0 then kr_period (es_key_refresh s1)
          else es_packets_until_key_switch s1) 1"
proof -
  have o: "(case a of DE_Even \<Rightarrow> DE_Odd | DE_Odd \<Rightarrow> DE_Even | DE_None \<Rightarrow> DE_None) = other_sek a" for a
    by (cases a) simp_all
  show ?thesis
    using assms by (cases "es_last_key_material s1")
      (auto simp: encryption_encrypt_def try_switch_stream_keys_def try_send_key_material_def o Let_def)
qed

lemma encrypt_step:
  assumes cl: "crypto_laws cr" "rnd_ok rnd" and inv: "es_inv cr s"
  shows "\<exists>n q km s'. encryption_encrypt cr rnd (Some s) p = Ok (Some (n, q, km), Some s')
    \<and> try_encrypt_packet cr s p = Some (n, q) \<and> es_inv cr s' \<and> key_step s s'
    \<and> es_key_settings s' = es_key_settings s"
proof -
  let ?per = "kr_period (es_key_refresh s)" and ?pre = "kr_pre_announcement_period (es_key_refresh s)"
  let ?x = "es_packets_until_pre_announcement s" and ?y = "es_packets_until_key_switch s"
  obtain n q where q: "try_encrypt_packet cr s p = Some (n, q)"
    using inv try_encrypt_packet_Some unfolding es_inv_def by blast
  obtain s1 where s1: "try_schedule_pre_announcement cr rnd s = Ok s1"
    and f1: "es_key_settings s1 = es_key_settings s" "es_key_refresh s1 = es_key_refresh s"
      "es_active_sek s1 = es_active_sek s" "es_packets_until_key_switch s1 = ?y"
      "es_packets_until_pre_announcement s1 = (if ?x = 0 then ?per else ?x)"
    and k: "stream_keys_wf (es_key_settings s) (es_stream_keys s1)"
    "pred_option (\<lambda>km. unwrap_from cr (es_key_settings s) km = Ok (es_stream_keys s1))
        (es_last_key_material s1)"
    "?x = 0 \<longrightarrow> sk_even_key (es_stream_keys s1) \<noteq> None \<and> sk_odd_key (es_stream_keys s1) \<noteq> None"
    "get_key (es_stream_keys s1) (es_active_sek s) = get_key (es_stream_keys s) (es_active_sek s)"
    "sk_salt (es_stream_keys s1) = sk_salt (es_stream_keys s)"
    "es_stream_keys s1 = es_stream_keys s \<and> es_last_key_material s1 = es_last_key_material s
       \<or> ?x = 0 \<and> es_last_key_material s = None \<and> es_last_key_material s1 \<noteq> None"
    using schedule_ok [OF assms] by (elim exE conjE) (rule that)
  let ?x' = "if ?x = 0 then ?per else ?x" and ?y' = "if ?y = 0 then ?per else ?y"
  have i: "0 < ?pre" "?pre < ?per" "?x \<le> ?per" "?y \<le> ?per" "(?x + ?pre) mod ?per = ?y mod ?per"
    using inv by (auto simp: es_inv_def refresh_wf_def)
  then have p: "0 < ?x'" "0 < ?y'" "?x' \<le> ?per" "?y' \<le> ?per" by auto
  obtain km s' where e: "encryption_encrypt cr rnd (Some s) p = Ok (Some (n, q, km), Some s')"
    and f: "es_key_settings s' = es_key_settings s" "es_key_refresh s' = es_key_refresh s"
    "es_stream_keys s' = es_stream_keys s1" "es_last_key_material s' = es_last_key_material s1"
    "es_active_sek s' = (if ?y = 0 \<and> es_last_key_material s1 = None
       then other_sek (es_active_sek s) else es_active_sek s)"
    "es_packets_until_pre_announcement s' = ?x' - 1" "es_packets_until_key_switch s' = ?y' - 1"
    using encrypt_after_schedule [OF q s1] p unfolding f1 by (auto simp: usize_sub_le)
  have both: "sk_even_key (es_stream_keys s1) \<noteq> None \<and> sk_odd_key (es_stream_keys s1) \<noteq> None
    \<or> ?x < ?y \<and> es_last_key_material s1 = None \<and> 0 < ?x"
    using inv k(3,6) by (auto simp: es_inv_def)
  have "get_key (es_stream_keys s1) (es_active_sek s') \<noteq> None"
    using both k(4) inv f(5) by (cases "es_active_sek s"; force simp: es_inv_def)
  moreover have "es_active_sek s' \<noteq> DE_None"
    using inv f(5) by (cases "es_active_sek s") (auto simp: es_inv_def)
  moreover have "(?x' - 1 + ?pre) mod ?per = (?y' - 1) mod ?per"
    using i(5) p by (intro key_schedule_next) auto
  moreover have "refresh_wf (es_key_refresh s)" "?x' - 1 \<le> ?per" "?y' - 1 \<le> ?per"
    using inv p by (auto simp: es_inv_def)
  moreover have "sk_even_key (es_stream_keys s1) \<noteq> None \<and> sk_odd_key (es_stream_keys s1) \<noteq> None
    \<or> ?x' - 1 < ?y' - 1 \<and> es_last_key_material s1 = None"
    using both by (auto simp del: not_None_eq)
  ultimately have "es_inv cr s'"
    unfolding es_inv_def f(1,2,3,4,6,7) using k(1,2) by (intro conjI)
  moreover have "key_step s s'"
    unfolding key_step_def f using k(4,5,6) by auto
  ultimately show ?thesis
    using e q f(1) by blast
qed

section \<open>Sender and receiver exchanging keys\<close>

text \<open>
  The states that a sender and a receiver can reach together. The receiver has the keys \<open>rk\<close>; \<open>resp\<close>
  are the confirmations it has sent and that may still arrive. The sender encrypts packets; key
  material that awaits confirmation may reach the receiver, any number of times; a confirmation may
  reach the sender, any number of times. Messages may be lost: nothing has to arrive. Freshly
  generated key material differs from what has been confirmed before.
\<close>

inductive key_exchange ::
  "Crypto \<Rightarrow> EncryptionState \<Rightarrow> StreamEncryptionKeys \<Rightarrow> KeyingMaterialMessage set \<Rightarrow> bool" for cr where
  start: "key_exchange cr s (cs_stream_keys cs) {}"
    if "refresh_wf (cs_key_refresh cs)" "stream_keys_wf (cs_key_settings cs) (cs_stream_keys cs)"
      "sk_even_key (cs_stream_keys cs) \<noteq> None" "encryption_new (Some cs) = Some s"
| packet: "key_exchange cr s' rk resp"
    if "key_exchange cr s rk resp" "rnd_ok rnd" "encryption_encrypt cr rnd (Some s) p = Ok (r, Some s')"
      "es_last_key_material s' = es_last_key_material s
       \<or> the (es_last_key_material s') \<notin> resp"
| request: "key_exchange cr s rk' (insert km' resp)"
    if "key_exchange cr s rk resp" "es_last_key_material s = Some km"
      "refresh_key_material cr (Some (rk, es_key_settings s)) km = (Ok (Some km'), Some (rk', ks))"
| response: "key_exchange cr s' rk resp"
    if "key_exchange cr s rk resp" "km \<in> resp"
      "handle_key_refresh_response (Some s) km = (r, Some s')"

lemma encryption_new_inv:
  assumes "refresh_wf (cs_key_refresh cs)" "stream_keys_wf (cs_key_settings cs) (cs_stream_keys cs)"
    "sk_even_key (cs_stream_keys cs) \<noteq> None" "encryption_new (Some cs) = Some s"
  shows "es_inv cr s" "es_stream_keys s = cs_stream_keys cs" "es_last_key_material s = None"
  using assms by (auto simp: encryption_new_def es_inv_def refresh_wf_def usize_sub_le)

lemma response_inv:
  assumes "es_inv cr s" "handle_key_refresh_response (Some s) km = (r, Some s')"
  shows "es_inv cr s' \<and> es_stream_keys s' = es_stream_keys s \<and> es_active_sek s' = es_active_sek s
    \<and> es_key_settings s' = es_key_settings s
    \<and> (s' = s \<or> es_last_key_material s = Some km \<and> es_last_key_material s' = None)"
  using assms
  by (auto simp: handle_key_refresh_response_def es_inv_def split: option.splits if_splits)

lemma key_exchange_inv:
  assumes "crypto_laws cr" "key_exchange cr s rk resp"
  shows "es_inv cr s \<and> sk_salt rk = sk_salt (es_stream_keys s)
    \<and> get_key rk (es_active_sek s) = get_key (es_stream_keys s) (es_active_sek s)
    \<and> (es_last_key_material s = None \<or> the (es_last_key_material s) \<in> resp \<longrightarrow> rk = es_stream_keys s)"
  using assms(2)
proof induction
  case (start cs s)
  then show ?case using encryption_new_inv by simp
next
  case (packet s rk resp rnd p r s')
  obtain n q km s'' where "encryption_encrypt cr rnd (Some s) p = Ok (Some (n, q, km), Some s'')"
    "es_inv cr s''" "key_step s s''"
    using encrypt_step [OF assms(1) packet.hyps(2)] packet.IH by blast
  then have inv: "es_inv cr s'" and ks: "key_step s s'"
    using packet.hyps(3) by auto
  show ?case
    using ks packet.IH packet.hyps(4) inv unfolding key_step_def by auto
next
  case (request s rk resp km km' rk' ks)
  then have "unwrap_from cr (es_key_settings s) km = Ok (es_stream_keys s)"
    by (simp add: es_inv_def)
  then have "rk' = es_stream_keys s"
    using request.hyps(3) by (simp add: refresh_key_material_def)
  then show ?case using request.IH by simp
next
  case (response s rk resp km r s')
  have "es_inv cr s'" "es_stream_keys s' = es_stream_keys s" "es_active_sek s' = es_active_sek s"
    "s' = s \<or> es_last_key_material s = Some km \<and> es_last_key_material s' = None"
    using response_inv [OF _ response.hyps(3)] response.IH by blast+
  then show ?case using response.IH response.hyps(2) by auto
qed

lemma decrypt_with_same_key:
  assumes "crypto_laws cr" "try_encrypt_packet cr s p = Some (n, q)" "dp_encryption p = DE_None"
    "es_active_sek s \<noteq> DE_None" "sk_salt rk = sk_salt (es_stream_keys s)"
    "get_key rk (es_active_sek s) = get_key (es_stream_keys s) (es_active_sek s)"
  shows "decryption_decrypt cr (Some (rk, ks)) q = Ok (n, p)"
proof -
  obtain k where k: "get_key (es_stream_keys s) (es_active_sek s) = Some k"
    using assms(2) by (cases "get_key (es_stream_keys s) (es_active_sek s)")
      (auto simp: try_encrypt_packet_def stream_encrypt_def)
  let ?iv = "generate_stream_iv_for (sk_salt (es_stream_keys s)) (dp_seq_number p)"
  let ?d = "cr_apply_keystream cr k ?iv (dp_payload p)"
  have q: "n = length ?d" "q = p\<lparr>dp_encryption := es_active_sek s, dp_payload := ?d\<rparr>"
    using try_encrypt_packet_Some [OF k, of cr p] assms(2) by auto
  have "cr_apply_keystream cr k ?iv ?d = dp_payload p" "length ?d = length (dp_payload p)"
    using assms(1) by (auto simp: crypto_laws_def)
  moreover from this have "p\<lparr>dp_encryption := DE_None, dp_payload := cr_apply_keystream cr k ?iv ?d\<rparr> = p"
    using assms(3) by (cases p) simp
  ultimately show ?thesis
    using assms(4,5,6) k q
    by (cases "es_active_sek s") (simp_all add: decryption_decrypt_def stream_decrypt_def Let_def)
qed

section \<open>Properties\<close>

text \<open>C8: In every state that sender and receiver can reach by encrypting packets, refreshing keys and
  confirming them, with any messages lost or repeated, the sender encrypts the next packet without
  fail and the receiver decrypts it to the original.\<close>

theorem key_exchange_decrypts:
  assumes "crypto_laws cr" "key_exchange cr s rk resp" "rnd_ok rnd" "dp_encryption p = DE_None"
  shows "\<exists>n q km s'. encryption_encrypt cr rnd (Some s) p = Ok (Some (n, q, km), Some s')
    \<and> decryption_decrypt cr (Some (rk, es_key_settings s)) q = Ok (n, p)"
proof -
  note i = key_exchange_inv [OF assms(1,2)]
  obtain n q km s' where "encryption_encrypt cr rnd (Some s) p = Ok (Some (n, q, km), Some s')"
    "try_encrypt_packet cr s p = Some (n, q)"
    using encrypt_step [OF assms(1,3)] i by blast
  moreover have "es_active_sek s \<noteq> DE_None" using i by (simp add: es_inv_def)
  ultimately show ?thesis
    using decrypt_with_same_key [OF assms(1) _ assms(4)] i by blast
qed

definition sample_crypto :: Crypto where
  "sample_crypto = \<lparr>cr_encrypt_block = (\<lambda>k b. map (\<lambda>x. x + 1) (rev b)),
     cr_decrypt_block = (\<lambda>k b. rev (map (\<lambda>x. x - 1) b)),
     cr_apply_keystream = (\<lambda>k iv. map (\<lambda>x. x XOR 0x55)),
     cr_pbkdf2 = (\<lambda>_ _ _ n. replicate n 7)\<rparr>"

lemma sample_crypto_laws: "crypto_laws sample_crypto"
  by (simp add: crypto_laws_def sample_crypto_def block_cipher_def rev_map [symmetric] o_def xor.assoc)

definition sample_cipher :: CipherSettings where
  "sample_cipher = cipher_settings_new_random (replicate 16 1) (\<lambda>n. replicate n 2) (\<lambda>n. replicate n 3)
     \<lparr>ks_key_size = KS_AES128, ks_passphrase = replicate 10 65\<rparr> key_refresh_default"

lemma sample_cipher_wf:
  "refresh_wf (cs_key_refresh sample_cipher)"
  "stream_keys_wf (cs_key_settings sample_cipher) (cs_stream_keys sample_cipher)"
  "sk_even_key (cs_stream_keys sample_cipher) \<noteq> None"
  by (simp_all add: sample_cipher_def cipher_settings_new_random_def stream_keys_new_random_def
      encryption_key_new_random_def refresh_wf_def key_refresh_default_def stream_keys_wf_def
      key_fits_def)

theorem key_exchange_decrypts_witness:
  "\<exists>s n q km s'. encryption_new (Some sample_cipher) = Some s
    \<and> encryption_encrypt sample_crypto (\<lambda>n. replicate n 9) (Some s)
        (sample_packet\<lparr>dp_encryption := DE_None\<rparr>) = Ok (Some (n, q, km), Some s')
    \<and> decryption_decrypt sample_crypto (Some (cs_stream_keys sample_cipher, es_key_settings s)) q
        = Ok (n, sample_packet\<lparr>dp_encryption := DE_None\<rparr>)"
proof -
  obtain s where s: "encryption_new (Some sample_cipher) = Some s"
    by (simp add: encryption_new_def)
  have "key_exchange sample_crypto s (cs_stream_keys sample_cipher) {}"
    by (rule key_exchange.start [OF sample_cipher_wf s])
  then show ?thesis
    using key_exchange_decrypts [OF sample_crypto_laws, of s "cs_stream_keys sample_cipher" "{}"
        "\<lambda>n. replicate n 9" "sample_packet\<lparr>dp_encryption := DE_None\<rparr>"] s
    by (auto simp: rnd_ok_def)
qed

text \<open>C22: The keying material message for a set of stream keys unwraps, under the same passphrase and
  key size, to exactly these keys and salt.\<close>

theorem keying_material_roundtrip:
  assumes "crypto_laws cr" "stream_keys_wf ks sk" "sk_even_key sk \<noteq> None \<or> sk_odd_key sk \<noteq> None"
  shows "\<exists>km. wrap_with cr sk ks = Ok (Some km) \<and> unwrap_from cr ks km = Ok sk"
  using stream_keys_roundtrip [OF assms] .

theorem keying_material_roundtrip_witness:
  "\<exists>km. wrap_with sample_crypto (cs_stream_keys sample_cipher) (cs_key_settings sample_cipher) = Ok (Some km)
    \<and> unwrap_from sample_crypto (cs_key_settings sample_cipher) km = Ok (cs_stream_keys sample_cipher)"
  using keying_material_roundtrip [OF sample_crypto_laws sample_cipher_wf(2)] sample_cipher_wf(3) by blast

text \<open>A keying material message that announces no key and carries the eight bytes of an empty wrap
  is accepted by the length check and then makes the unwrapping code panic, for every cipher, key
  size and passphrase.\<close>

theorem keyless_material_panics:
  assumes "km_key_flags km = 0" "length (km_wrapped_keys km) = 8" "length (km_salt km) = 16"
  shows "unwrap_from cr ks km = Panic"
  using assms
  by (simp add: unwrap_from_def salt_try_from_def count_ones_flags decrypt_wrapped_keys_def aes_unwrap_def
      Let_def)

definition keyless_material :: KeyingMaterialMessage where
  "keyless_material = \<lparr>km_pt = PT_KeyingMaterial, km_key_flags = 0, km_keki = 0, km_cipher = CT_Ctr,
     km_auth = Auth_None, km_salt = replicate 16 0, km_wrapped_keys = replicate 8 0\<rparr>"

theorem keyless_material_panics_witness:
  "km_parse (0x12 # be16 0x2029 @ 0 # be32 0 @ [2, 0, 2, 0] @ be16 0 @ [4, 4] @ replicate 24 0)
     = Ok (keyless_material, [])
   \<and> unwrap_from sample_crypto (cs_key_settings sample_cipher) keyless_material = Panic"
proof -
  have "unwrap_from sample_crypto (cs_key_settings sample_cipher) keyless_material = Panic"
    by (rule keyless_material_panics) (simp_all add: keyless_material_def)
  moreover have "km_parse (0x12 # be16 0x2029 @ 0 # be32 0 @ [2, 0, 2, 0] @ be16 0 @ [4, 4]
      @ replicate 24 0) = Ok (keyless_material, [])"
    by (simp add: km_parse_def km_parse_body_def wire_simps KM_SIGN_def packet_type_try_from_def
        cipher_type_try_from_def auth_try_from_def stream_encapsulation_try_from_def count_ones_flags
        get_words_enough keyless_material_def)
  ultimately show ?thesis by simp
qed

text \<open>Keys that a peer announced as odd only leave the sender without an active key: it starts with
  the even key whatever keys it has, and then drops every packet.\<close>

theorem odd_only_keys_never_encrypt:
  assumes "sk_even_key (cs_stream_keys cs) = None" "encryption_new (Some cs) = Some s"
  shows "encryption_encrypt cr rnd (Some s) p = Ok (None, Some s)"
  using assms
  by (auto simp: encryption_new_def encryption_encrypt_def try_encrypt_packet_def stream_encrypt_def)

theorem odd_only_keys_never_encrypt_witness:
  "\<exists>s. encryption_new (Some (sample_cipher\<lparr>cs_stream_keys :=
       (cs_stream_keys sample_cipher)\<lparr>sk_even_key := None\<rparr>\<rparr>)) = Some s
    \<and> encryption_encrypt sample_crypto (\<lambda>n. replicate n 9) (Some s) sample_packet = Ok (None, Some s)"
proof -
  let ?c = "sample_cipher\<lparr>cs_stream_keys := (cs_stream_keys sample_cipher)\<lparr>sk_even_key := None\<rparr>\<rparr>"
  obtain s where s: "encryption_new (Some ?c) = Some s"
    by (simp add: encryption_new_def)
  show ?thesis
    using s odd_only_keys_never_encrypt [of ?c s] by auto
qed

end
