(* ===== verification/Remote_Clock.thy ===== *)
theory Remote_Clock
  imports Srt_Time
begin

text \<open>
  The receiver's estimate of the sender's clock (\<open>protocol/receiver/time.rs\<close>). The running statistics
  of the drift come from the crate \<open>streaming-stats\<close>: \<open>OnlineStatsOps\<close> holds its operations, with the
  conversion of its floating point results to \<open>i32\<close>, and is a parameter.
\<close>

record 's OnlineStatsOps =
  os_new :: 's
  os_add :: "'s \<Rightarrow> i32 \<Rightarrow> 's"
  os_len :: "'s \<Rightarrow> usize"
  os_stddev_i32 :: "'s \<Rightarrow> i32"
  os_mean_i32 :: "'s \<Rightarrow> i32"

record 's SynchronizedRemoteClock =
  src_drift_deviation_tolerance :: TimeSpan
  src_time_base :: TimeBase
  src_last_monotonic_instant :: "instant option"
  src_stats :: "'s option"

record ClockAdjustment =
  ca_mean :: TimeSpan
  ca_stddev :: TimeSpan

definition MAX_SAMPLES :: usize where "MAX_SAMPLES = 1000"

definition DRIFT_DEVIATION_TOLERANCE :: TimeSpan where
  "DRIFT_DEVIATION_TOLERANCE = span_from_millis 5"

definition clock_new :: "instant \<Rightarrow> 's SynchronizedRemoteClock" where
  "clock_new now =
     \<lparr>src_drift_deviation_tolerance = DRIFT_DEVIATION_TOLERANCE, src_time_base = tb_new now,
      src_last_monotonic_instant = None, src_stats = None\<rparr>"

definition clock_synchronize ::
  "'s OnlineStatsOps \<Rightarrow> 's SynchronizedRemoteClock \<Rightarrow> instant \<Rightarrow> TimeStamp
   \<Rightarrow> ClockAdjustment option \<times> 's SynchronizedRemoteClock" where
  "clock_synchronize os self now ts =
     (let drift = ts_diff (tb_timestamp_from (src_time_base self) now) ts in
      case src_stats self of
        None \<Rightarrow> (None, self\<lparr>src_time_base := tb_adjust (src_time_base self) now drift,
                           src_stats := Some (os_new os)\<rparr>)
      | Some stats \<Rightarrow>
          let stats = os_add os stats drift; self = self\<lparr>src_stats := Some stats\<rparr> in
          if os_len os stats < MAX_SAMPLES then (None, self)
          else
            let stddev = os_stddev_i32 os stats; mean = os_mean_i32 os stats;
                self = self\<lparr>src_stats := Some (os_new os)\<rparr> in
            if span_lt (src_drift_deviation_tolerance self) stddev then (None, self)
            else (Some \<lparr>ca_mean = mean, ca_stddev = stddev\<rparr>,
                  self\<lparr>src_time_base := tb_adjust (src_time_base self) now mean\<rparr>))"

definition clock_instant_from :: "'s SynchronizedRemoteClock \<Rightarrow> TimeStamp \<Rightarrow> instant" where
  "clock_instant_from self ts = tb_instant_from (src_time_base self) ts"

definition clock_monotonic_instant_from ::
  "'s SynchronizedRemoteClock \<Rightarrow> TimeStamp \<Rightarrow> instant \<times> 's SynchronizedRemoteClock" where
  "clock_monotonic_instant_from self ts =
     (let instant = tb_instant_from (src_time_base self) ts in
      case src_last_monotonic_instant self of
        Some lst \<Rightarrow> if lst \<ge> instant then (lst, self)
                   else (instant, self\<lparr>src_last_monotonic_instant := Some instant\<rparr>)
      | None \<Rightarrow> (instant, self\<lparr>src_last_monotonic_instant := Some instant\<rparr>))"

section \<open>Setting the clock\<close>

lemma word_of_nat_micros:
  "0 \<le> k \<Longrightarrow> (word_of_nat (as_micros (nat k)) :: 'a::len word) = word_of_int (k div 1000)"
proof (elim nonneg_int_cases)
  fix n assume "k = int n"
  then show "(word_of_nat (as_micros (nat k)) :: 'a word) = word_of_int (k div 1000)"
    using of_int_of_nat_eq [of "n div 1000", where 'a = "'a word"] by (simp add: as_micros_def zdiv_int)
qed

lemma tb_timestamp_from_after:
  "tb_reference_time tb \<le> now \<Longrightarrow>
   tb_timestamp_from tb now = tb_reference_ts tb + word_of_int ((now - tb_reference_time tb) div 1000)"
  by (simp add: tb_timestamp_from_def ts_add_duration_def instant_sub_def word_of_nat_micros)

lemma tb_adjust_instant:
  fixes d :: TimeSpan
  assumes "tb_reference_time tb \<le> now"
    and d: "d = tb_reference_ts tb + word_of_int ((now - tb_reference_time tb) div 1000) - ts"
  shows "tb_instant_from (tb_adjust tb now d) ts \<le> now"
    and "now < tb_instant_from (tb_adjust tb now d) ts + 1000"
proof -
  let ?r = "tb_reference_time tb" and ?m = "(now - tb_reference_time tb) div 1000"
  let ?r' = "?r + 1000 * sint d"
  have m: "1000 * ?m \<le> now - ?r" "now - ?r < 1000 * ?m + 1000" "0 \<le> ?m"
    using assms(1) by (simp_all add: mult.commute [of 1000] pos_imp_zdiv_nonneg_iff)
  have ts: "ts = tb_reference_ts tb + word_of_int (?m - sint d)"
    using d by simp
  have "tb_instant_from (tb_adjust tb now d) ts \<le> now
    \<and> now < tb_instant_from (tb_adjust tb now d) ts + 1000"
  proof (cases "now > ?r'")
    case True
    have "(now - ?r') div 1000 = ?m - sint d"
      using div_mult_self2 [of "1000 :: int" "now - ?r" "- sint d"] by (simp add: algebra_simps)
    then have "word_of_nat (as_micros (nat (now - ?r'))) = (word_of_int (?m - sint d) :: u32)"
      using True by (simp add: word_of_nat_micros)
    then have "tb_reference_ts (tb_adjust tb now d) = ts"
      "tb_reference_time (tb_adjust tb now d) = now"
      using True ts by (simp_all add: tb_adjust_def instant_sub_span_int Let_def ts_add_duration_def
          instant_sub_def)
    then show ?thesis
      by (simp add: tb_instant_from_def instant_add_span_int)
  next
    case False
    then have "- (2 ^ 31) \<le> ?m - sint d" "?m - sint d < 2 ^ 31"
      using m sint_i32_range [of d] by linarith+
    then have "sint (ts - tb_reference_ts tb) = ?m - sint d"
      using ts sint_word_of_int_i32 [of "?m - sint d"] by simp
    then have "tb_instant_from (tb_adjust tb now d) ts = ?r + 1000 * ?m"
      using False by (simp add: tb_adjust_def instant_sub_span_int Let_def tb_instant_from_def
          instant_add_span_int)
    then show ?thesis using m by linarith
  qed
  then show "tb_instant_from (tb_adjust tb now d) ts \<le> now"
    "now < tb_instant_from (tb_adjust tb now d) ts + 1000" by auto
qed

text \<open>The receiver uses the clock in any order: it asks for the release time of a message, or it
  synchronizes the clock with a data packet that has just come. The release times handed out along
  such a sequence of calls.\<close>

datatype ClockCall = Clock_Synchronize instant TimeStamp | Clock_Release TimeStamp

fun release_times :: "'s OnlineStatsOps \<Rightarrow> 's SynchronizedRemoteClock \<Rightarrow> ClockCall list \<Rightarrow> instant list" where
  "release_times os c [] = []"
| "release_times os c (Clock_Synchronize now ts # r) =
     release_times os (snd (clock_synchronize os c now ts)) r"
| "release_times os c (Clock_Release ts # r) =
     (let (t, c) = clock_monotonic_instant_from c ts in t # release_times os c r)"

lemma monotonic_instant_last:
  assumes "clock_monotonic_instant_from c ts = (t, c')"
  shows "src_last_monotonic_instant c' = Some t
    \<and> pred_option (\<lambda>lst. lst \<le> t) (src_last_monotonic_instant c)"
  using assms by (auto simp: clock_monotonic_instant_from_def Let_def split: option.splits if_splits)

lemma synchronize_keeps_last:
  "src_last_monotonic_instant (snd (clock_synchronize os c now ts)) = src_last_monotonic_instant c"
  by (simp add: clock_synchronize_def Let_def split: option.split)

lemma release_times_sorted:
  "sorted (release_times os c calls)
   \<and> (\<forall>lst \<in> set_option (src_last_monotonic_instant c). \<forall>t \<in> set (release_times os c calls). lst \<le> t)"
proof (induction os c calls rule: release_times.induct)
  case (2 os c now ts r)
  then show ?case by (simp add: synchronize_keeps_last)
next
  case (3 os c ts r)
  obtain t c' where c: "clock_monotonic_instant_from c ts = (t, c')"
    by (cases "clock_monotonic_instant_from c ts")
  then have l: "src_last_monotonic_instant c' = Some t"
    "pred_option (\<lambda>lst. lst \<le> t) (src_last_monotonic_instant c)"
    using monotonic_instant_last by blast+
  then have "sorted (t # release_times os c' r)" "\<forall>x \<in> set (release_times os c' r). t \<le> x"
    using "3.IH" [OF c [symmetric] refl] by auto
  then show ?case
    using c l(2) by (force simp: pred_option_def)
qed simp

section \<open>Properties\<close>

text \<open>The first synchronization sets the clock: it makes no adjustment report, and the time stamp
  it was given then stands for the present, to the microsecond.\<close>

theorem clock_set_by_first_sample:
  assumes "src_stats c = None" "tb_reference_time (src_time_base c) \<le> now"
    "clock_synchronize os c now ts = (adj, c')"
  shows "adj = None \<and> clock_instant_from c' ts \<le> now \<and> now < clock_instant_from c' ts + 1000"
  using assms tb_adjust_instant [OF assms(2), of _ ts] tb_timestamp_from_after [OF assms(2)]
  by (auto simp: clock_synchronize_def Let_def clock_instant_from_def)

definition no_stats :: "unit OnlineStatsOps" where
  "no_stats = \<lparr>os_new = (), os_add = (\<lambda>_ _. ()), os_len = (\<lambda>_. 0), os_stddev_i32 = (\<lambda>_. 0),
     os_mean_i32 = (\<lambda>_. 0)\<rparr>"

theorem clock_set_by_first_sample_witness:
  "\<exists>adj c'. clock_synchronize no_stats (clock_new 0) 2000000 (500000 :: u32) = (adj, c') \<and> adj = None
    \<and> clock_instant_from c' 500000 \<le> 2000000 \<and> 2000000 < clock_instant_from c' 500000 + 1000"
proof -
  obtain adj c' where c: "clock_synchronize no_stats (clock_new 0) 2000000 (500000 :: u32) = (adj, c')"
    by (cases "clock_synchronize no_stats (clock_new 0) 2000000 (500000 :: u32)")
  show ?thesis
    using clock_set_by_first_sample [OF _ _ c] c by (simp add: clock_new_def tb_new_def)
qed

text \<open>C26: The release times that the clock hands out for successive messages never go back,
  whatever their time stamps are, and however often the clock is synchronized between them, at any
  times, with any time stamps, and whatever the statistics of the drift answer: an adjustment that
  sets the clock back never makes a later message be released before an earlier one.\<close>

theorem release_times_monotonic: "sorted (release_times os c calls)"
  using release_times_sorted [of os c calls] by blast

end
