(* ===== verification/Reachability.thy ===== *)
theory Reachability
  imports Main
begin

text \<open>
  The two arguments that the stateful components share, as locales: a property that holds at the
  start and is kept by every step holds in every reachable state; and a system whose steps are
  matched by the steps of a specification reaches only states whose abstraction the specification
  reaches. The components interpret them on their own step relations.
\<close>

locale invariant_system =
  fixes init :: "'s \<Rightarrow> bool"
    and step :: "'s \<Rightarrow> 's \<Rightarrow> bool"
    and inv :: "'s \<Rightarrow> bool"
  assumes inv_init: "init s \<Longrightarrow> inv s"
    and inv_step: "inv s \<Longrightarrow> step s t \<Longrightarrow> inv t"
begin

lemma inv_steps: "step\<^sup>*\<^sup>* s t \<Longrightarrow> inv s \<Longrightarrow> inv t"
  by (induction rule: rtranclp_induct) (auto intro: inv_step)

lemma reachable_inv: "init s \<Longrightarrow> step\<^sup>*\<^sup>* s t \<Longrightarrow> inv t"
  by (rule inv_steps) (auto intro: inv_init)

end

locale refinement_system = invariant_system +
  fixes abs_state :: "'s \<Rightarrow> 'a"
    and spec_step :: "'a \<Rightarrow> 'a \<Rightarrow> bool"
  assumes simulation: "inv s \<Longrightarrow> step s t \<Longrightarrow> spec_step (abs_state s) (abs_state t)"
begin

lemma refines: "step\<^sup>*\<^sup>* s t \<Longrightarrow> inv s \<Longrightarrow> spec_step\<^sup>*\<^sup>* (abs_state s) (abs_state t)"
proof (induction rule: rtranclp_induct)
  case (step t u)
  then have "spec_step (abs_state t) (abs_state u)"
    by (intro simulation) (auto intro: inv_steps)
  then show ?case using step by (auto intro: rtranclp.rtrancl_into_rtrancl)
qed simp

text \<open>A relation that the steps of the specification keep holds between every two states passed.\<close>

lemma spec_preserved:
  assumes "step\<^sup>*\<^sup>* s t" "inv s"
    and "\<And>a. R a a" "\<And>a b c. R a b \<Longrightarrow> spec_step b c \<Longrightarrow> R a c"
  shows "R (abs_state s) (abs_state t)"
  using refines [OF assms(1,2)] by (induction rule: rtranclp_induct) (auto intro: assms(3,4))

end

end
