(* ===== verification/Settings.thy ===== *)
theory Settings
  imports Control_Packet Encryption
begin

text \<open>
  Units of data and rate (\<open>options/units.rs\<close>), the bandwidth modes (\<open>options/bandwidth.rs\<close>) and the
  negotiated settings of a connection (\<open>connection/mod.rs\<close>). Division by zero panics; multiplication
  wraps around at 64 bits unless the code saturates. Conversions to floating point, used for display
  only, are left out.
\<close>

section \<open>Units\<close>

type_synonym ByteCount = u64
type_synonym DataRate = u64
type_synonym PacketRate = u64
type_synonym Percent = u64

definition checked_div :: "u64 \<Rightarrow> u64 \<Rightarrow> u64 may_panic" where
  "checked_div a b = (if b = 0 then Panic else Ok (a div b))"

definition saturating_mul :: "u64 \<Rightarrow> u64 \<Rightarrow> u64" where
  "saturating_mul a b = (if unat a * unat b < 2 ^ 64 then a * b else - 1)"

definition as_secs :: "duration \<Rightarrow> nat" where
  "as_secs d = d div 1000000000"

definition subsec_micros :: "duration \<Rightarrow> nat" where
  "subsec_micros d = d mod 1000000000 div 1000"

definition byte_count_div :: "ByteCount \<Rightarrow> PacketSize \<Rightarrow> PacketCount may_panic" where
  "byte_count_div self rhs = checked_div self rhs"

definition packet_size_mul :: "PacketSize \<Rightarrow> PacketCount \<Rightarrow> ByteCount" where
  "packet_size_mul self rhs = self * rhs"

definition for_time_window :: "duration \<Rightarrow> duration \<Rightarrow> PacketCount may_panic" where
  "for_time_window window packet_spacing =
     (if as_micros packet_spacing = 0 then Panic
      else Ok (of_nat (as_micros window div as_micros packet_spacing)))"

definition data_rate_mul_duration :: "DataRate \<Rightarrow> duration \<Rightarrow> ByteCount" where
  "data_rate_mul_duration self rhs =
     (let bytes_nearest_second = self * of_nat (as_secs rhs);
          bytes_scaled_for_micros = saturating_mul self (of_nat (subsec_micros rhs));
          bytes_remaining_micros = bytes_scaled_for_micros div 1000000 in
      bytes_nearest_second + bytes_remaining_micros)"

definition packet_rate_mul_duration :: "PacketRate \<Rightarrow> duration \<Rightarrow> PacketCount" where
  "packet_rate_mul_duration self rhs =
     (let packets_nearest_second = self * of_nat (as_secs rhs);
          packets_scaled_for_micros = saturating_mul self (of_nat (subsec_micros rhs));
          packets_remaining_micros = packets_scaled_for_micros div 1000000 in
      packets_nearest_second + packets_remaining_micros)"

definition data_rate_div :: "DataRate \<Rightarrow> PacketRate \<Rightarrow> PacketSize may_panic" where
  "data_rate_div self rhs = checked_div self rhs"

definition packet_period_mul :: "duration \<Rightarrow> PacketCount \<Rightarrow> duration" where
  "packet_period_mul self rhs = self * unat (ucast rhs :: u32)"

definition packet_period_try_from :: "DataRate \<Rightarrow> PacketSize \<Rightarrow> duration option may_panic" where
  "packet_period_try_from data_rate packet_size =
     (if packet_size > 0
      then map_outcome_ok (\<lambda>period. if period > 0 then Some (duration_from_micros (unat period)) else None)
             (checked_div (packet_size * 1000000) data_rate)
      else Ok None)"

definition percent_add :: "Percent \<Rightarrow> Percent \<Rightarrow> Percent" where
  "percent_add self rhs = self + rhs"

definition percent_mul :: "Percent \<Rightarrow> DataRate \<Rightarrow> DataRate" where
  "percent_mul self rhs = self * rhs div 100"

section \<open>Settings of a connection\<close>

datatype LiveBandwidthMode =
    LB_Max DataRate
  | LB_Input DataRate Percent \<comment> \<open>rate, overhead\<close>
  | LB_Estimated Percent DataRate \<comment> \<open>overhead, expected\<close>
  | LB_Unlimited

type_synonym SocketAddr = "IpAddr \<times> u16"

record ConnectionSettings =
  cs_remote :: SocketAddr
  cs_remote_sockid :: SocketId
  cs_local_sockid :: SocketId
  cs_socket_start_time :: instant
  cs_rtt :: duration
  cs_init_seq_num :: SeqNumber
  cs_max_packet_size :: PacketSize
  cs_max_flow_size :: PacketCount
  cs_send_tsbpd_latency :: duration
  cs_recv_tsbpd_latency :: duration
  cs_too_late_packet_drop :: bool
  cs_peer_idle_timeout :: duration
  cs_recv_buffer_size :: PacketCount
  cs_send_buffer_size :: PacketCount
  cs_cipher :: "CipherSettings option"
  cs_stream_id :: "u8 list option"
  cs_bandwidth :: LiveBandwidthMode
  cs_statistics_interval :: duration

end
