(* ===== verification/Receive_Buffer.thy ===== *)
theory Receive_Buffer
  imports Remote_Clock Loss_Compression Settings
begin

text \<open>
  The receive buffer (\<open>protocol/receiver/buffer.rs\<close>) with the result types of
  \<open>protocol/receiver/mod.rs\<close>: packets are stored by sequence number, gaps are recorded as lost, and
  complete messages are released when their time has come.

  A method of the buffer is a function from the buffer to its result and the buffer it leaves. The
  type parameter \<open>'s\<close> is that of the drift statistics. The buffer is shown to be aligned with its
  first sequence number, to acknowledge exactly the packets before the first gap, and to implement a
  window over unbounded sequence numbers.
\<close>

section \<open>Results\<close>

datatype DataPacketError =
    BufferFull SeqNumber usize
  | PacketTooEarly SeqNumber usize usize
  | PacketTooLate SeqNumber SeqNumber
  | DiscardedDuplicate SeqNumber
  | DPE_DecryptionError DecryptionError

datatype DataPacketAction =
    Received SeqNumber bool
  | ReceivedWithLoss CompressedLossList
  | ReceivedWithLightAck SeqNumber bool

fun is_recovered :: "DataPacketAction \<Rightarrow> bool" where
  "is_recovered (Received _ recovered) = recovered"
| "is_recovered (ReceivedWithLightAck _ recovered) = recovered"
| "is_recovered (ReceivedWithLoss _) = False"

section \<open>Buffer entries\<close>

record LostPacket =
  lost_data_sequence_number :: SeqNumber
  lost_feedback_time :: instant
  lost_k :: i32

definition lost_new :: "SeqNumber \<Rightarrow> instant \<Rightarrow> LostPacket" where
  "lost_new data_sequence_number feedback_time =
     \<lparr>lost_data_sequence_number = data_sequence_number, lost_feedback_time = feedback_time, lost_k = 2\<rparr>"

datatype BufferPacket =
    BP_Lost LostPacket
  | BP_Received DataPacket
  | BP_Dropped SeqNumber

fun data_sequence_number :: "BufferPacket \<Rightarrow> SeqNumber" where
  "data_sequence_number (BP_Lost lost) = lost_data_sequence_number lost"
| "data_sequence_number (BP_Dropped seq_number) = seq_number"
| "data_sequence_number (BP_Received data) = dp_seq_number data"

fun data_packet :: "BufferPacket \<Rightarrow> DataPacket option" where
  "data_packet (BP_Received data) = Some data"
| "data_packet _ = None"

fun into_data_packet :: "BufferPacket \<Rightarrow> DataPacket option" where
  "into_data_packet (BP_Received data) = Some data"
| "into_data_packet _ = None"

definition in_message :: "BufferPacket \<Rightarrow> MsgNumber \<Rightarrow> bool" where
  "in_message self message =
     (case data_packet self of None \<Rightarrow> False | Some d \<Rightarrow> dp_message_number d = message)"

fun bp_is_first :: "BufferPacket \<Rightarrow> bool" where
  "bp_is_first (BP_Received data) = flags_contain (dp_message_loc data) PL_FIRST"
| "bp_is_first _ = False"

fun lost_or_dropped :: "BufferPacket \<Rightarrow> SeqNumber option" where
  "lost_or_dropped (BP_Lost lost) = Some (lost_data_sequence_number lost)"
| "lost_or_dropped (BP_Dropped sn) = Some sn"
| "lost_or_dropped (BP_Received _) = None"

fun lost_ready_for_feedback :: "BufferPacket \<Rightarrow> instant \<Rightarrow> TimeSpan \<Rightarrow> LostPacket option" where
  "lost_ready_for_feedback (BP_Lost lost) now mean =
     (if now > instant_add_span (lost_feedback_time lost) (span_mul mean (lost_k lost))
      then Some lost else None)"
| "lost_ready_for_feedback _ now mean = None"

fun update_data :: "BufferPacket \<Rightarrow> DataPacket \<Rightarrow> (unit, DataPacketError) outcome \<times> BufferPacket" where
  "update_data (BP_Lost lost) data = (Ok (), BP_Received data)"
| "update_data self data = (Err (DiscardedDuplicate (dp_seq_number data)), self)"

fun drop_unreceived :: "BufferPacket \<Rightarrow> SeqNumber option \<times> BufferPacket" where
  "drop_unreceived (BP_Lost lost) =
     (Some (lost_data_sequence_number lost), BP_Dropped (lost_data_sequence_number lost))"
| "drop_unreceived self = (None, self)"

section \<open>Counting the packets of a message\<close>

record MessagePacketCount =
  mpc_count :: usize
  mpc_done :: bool

definition mpc_new :: MessagePacketCount where
  "mpc_new = \<lparr>mpc_count = 0, mpc_done = False\<rparr>"

definition mpc_accumulate :: "MessagePacketCount \<Rightarrow> BufferPacket \<Rightarrow> MessagePacketCount option" where
  "mpc_accumulate self packet =
     (case data_packet packet of
        None \<Rightarrow> None
      | Some d \<Rightarrow>
          let location = dp_message_loc d in
          if \<not> mpc_done self then
            if mpc_count self = 0 \<and> \<not> flags_contain location PL_FIRST then None
            else
              let self = (if flags_contain location PL_LAST then self\<lparr>mpc_done := True\<rparr> else self) in
              Some (self\<lparr>mpc_count := mpc_count self + 1\<rparr>)
          else Some self)"

definition mpc_calculate :: "MessagePacketCount \<Rightarrow> usize option" where
  "mpc_calculate self = (if mpc_done self then Some (mpc_count self) else None)"

text \<open>\<open>Iterator::try_fold\<close> over an option.\<close>

fun try_fold :: "('a \<Rightarrow> 'b \<Rightarrow> 'a option) \<Rightarrow> 'a \<Rightarrow> 'b list \<Rightarrow> 'a option" where
  "try_fold f a [] = Some a"
| "try_fold f a (x # xs) = (case f a x of None \<Rightarrow> None | Some b \<Rightarrow> try_fold f b xs)"

section \<open>The buffer\<close>

record MessageError =
  me_too_late_packets :: "SeqNumber \<times> SeqNumber"
  me_delay :: TimeSpan

record 's ReceiveBuffer =
  rb_tsbpd_latency :: duration
  rb_tsbpd_tolerance :: duration
  rb_lrsn :: SeqNumber
  rb_seqno0 :: SeqNumber
  rb_too_late_packet_drop :: bool
  rb_remote_clock :: "'s SynchronizedRemoteClock"
  rb_buffer :: "BufferPacket list"
  rb_max_buffer_size :: PacketCount

definition rb_new :: "instant \<Rightarrow> duration \<Rightarrow> bool \<Rightarrow> SeqNumber \<Rightarrow> PacketCount \<Rightarrow> 's ReceiveBuffer" where
  "rb_new socket_start_time tsbpd_latency too_late_packet_drop init_seq_num max_buffer_size =
     \<lparr>rb_tsbpd_latency = tsbpd_latency, rb_tsbpd_tolerance = duration_from_millis 5,
      rb_lrsn = init_seq_num, rb_seqno0 = init_seq_num,
      rb_too_late_packet_drop = too_late_packet_drop,
      rb_remote_clock = clock_new socket_start_time, rb_buffer = [],
      rb_max_buffer_size = max_buffer_size\<rparr>"

definition rb_is_empty :: "'s ReceiveBuffer \<Rightarrow> bool" where
  "rb_is_empty self \<longleftrightarrow> rb_buffer self = []"

definition next_ack_dsn :: "'s ReceiveBuffer \<Rightarrow> SeqNumber" where
  "next_ack_dsn self = rb_lrsn self"

definition rb_clear :: "'s ReceiveBuffer \<Rightarrow> 's ReceiveBuffer" where
  "rb_clear self = self\<lparr>rb_buffer := []\<rparr>"

definition rb_synchronize_clock ::
  "'s OnlineStatsOps \<Rightarrow> 's ReceiveBuffer \<Rightarrow> instant \<Rightarrow> TimeStamp
   \<Rightarrow> ClockAdjustment option \<times> 's ReceiveBuffer" where
  "rb_synchronize_clock os self now now_ts =
     (let (adj, clock) = clock_synchronize os (rb_remote_clock self) now now_ts in
      (adj, self\<lparr>rb_remote_clock := clock\<rparr>))"

definition buffer_available :: "'s ReceiveBuffer \<Rightarrow> usize" where
  "buffer_available self = usize_sub (unat (rb_max_buffer_size self)) (length (rb_buffer self))"

definition next_packet_dsn :: "'s ReceiveBuffer \<Rightarrow> (SeqNumber, 'e) outcome" where
  "next_packet_dsn self =
     (if length (rb_buffer self) < 2 ^ 32
      then Ok (seq_add (rb_seqno0 self) (of_nat (length (rb_buffer self)))) else Panic)"

definition index_for_seqno :: "'s ReceiveBuffer \<Rightarrow> SeqNumber \<Rightarrow> usize option" where
  "index_for_seqno self seq_number =
     (if seq_lt seq_number (rb_seqno0 self) then None
      else Some (unat (seq_diff seq_number (rb_seqno0 self))))"

definition clamped_index_for_seqno :: "'s ReceiveBuffer \<Rightarrow> SeqNumber \<Rightarrow> usize" where
  "clamped_index_for_seqno self seq_number =
     min (seq_saturating_sub seq_number (rb_seqno0 self)) (length (rb_buffer self))"

definition recalculate_lrsn :: "'s ReceiveBuffer \<Rightarrow> usize \<Rightarrow> 's ReceiveBuffer may_panic" where
  "recalculate_lrsn self start_idx =
     (if length (rb_buffer self) < start_idx then Panic
      else case List.map_filter lost_or_dropped (drop start_idx (rb_buffer self)) of
        sn # _ \<Rightarrow> Ok (self\<lparr>rb_lrsn := sn\<rparr>)
      | [] \<Rightarrow> map_outcome_ok (\<lambda>dsn. self\<lparr>rb_lrsn := dsn\<rparr>) (next_packet_dsn self))"

section \<open>Receiving a packet\<close>

type_synonym push_result = "(DataPacketAction, DataPacketError) outcome"

definition append_data :: "'s ReceiveBuffer \<Rightarrow> DataPacket \<Rightarrow> 's ReceiveBuffer" where
  "append_data self data =
     (let seq_number = dp_seq_number data;
          self = (if rb_lrsn self = seq_number then self\<lparr>rb_lrsn := seq_add seq_number 1\<rparr> else self) in
      self\<lparr>rb_buffer := rb_buffer self @ [BP_Received data]\<rparr>)"

definition append_lost_packets ::
  "'s ReceiveBuffer \<Rightarrow> instant \<Rightarrow> SeqNumber \<Rightarrow> SeqNumber \<Rightarrow> 's ReceiveBuffer" where
  "append_lost_packets self now start end =
     (let lost_count = seq_diff end start in
      self\<lparr>rb_buffer := rb_buffer self
        @ map (\<lambda>i. BP_Lost (lost_new (seq_add start (of_nat i)) now)) [0..<unat lost_count]\<rparr>)"

definition append_next :: "'s ReceiveBuffer \<Rightarrow> DataPacket \<Rightarrow> push_result \<times> 's ReceiveBuffer" where
  "append_next self data =
     (if buffer_available self = 0
      then (Err (BufferFull (dp_seq_number data) (length (rb_buffer self))), self)
      else let self = append_data self data in (Ok (Received (rb_lrsn self) False), self))"

definition append_with_loss ::
  "'s ReceiveBuffer \<Rightarrow> instant \<Rightarrow> DataPacket \<Rightarrow> push_result \<times> 's ReceiveBuffer" where
  "append_with_loss self now data =
     (case next_packet_dsn self of
        Ok start \<Rightarrow>
          let seq_number = dp_seq_number data;
              lost_count = seq_diff seq_number start;
              buffer_required = unat lost_count + 1;
              available = buffer_available self in
          if available < buffer_required
          then (Err (PacketTooEarly seq_number available buffer_required), self)
          else
            let self = append_data (append_lost_packets self now start seq_number) data in
            (case try_from_range start seq_number of
               Some loss_list \<Rightarrow> (Ok (ReceivedWithLoss loss_list), self)
             | None \<Rightarrow> (Panic, self))
      | Err e \<Rightarrow> (Err e, self)
      | Panic \<Rightarrow> (Panic, self))"

definition recover_data :: "'s ReceiveBuffer \<Rightarrow> DataPacket \<Rightarrow> push_result \<times> 's ReceiveBuffer" where
  "recover_data self data =
     (let seq_number = dp_seq_number data in
      case index_for_seqno self seq_number of
        None \<Rightarrow> (Err (PacketTooLate seq_number (rb_seqno0 self)), self)
      | Some index \<Rightarrow>
          if length (rb_buffer self) \<le> index then (Panic, self)
          else
            (case update_data (rb_buffer self ! index) data of
               (Err e, _) \<Rightarrow> (Err e, self)
             | (Panic, _) \<Rightarrow> (Panic, self)
             | (Ok _, packet) \<Rightarrow>
                 let self = self\<lparr>rb_buffer := (rb_buffer self)[index := packet]\<rparr> in
                 if rb_lrsn self = seq_number
                 then (case recalculate_lrsn self index of
                         Ok self \<Rightarrow> (Ok (Received (rb_lrsn self) True), self)
                       | _ \<Rightarrow> (Panic, self))
                 else (Ok (Received (rb_lrsn self) True), self)))"

definition push_packet ::
  "'s ReceiveBuffer \<Rightarrow> instant \<Rightarrow> DataPacket \<Rightarrow> push_result \<times> 's ReceiveBuffer" where
  "push_packet self now data =
     (case next_packet_dsn self of
        Ok dsn \<Rightarrow>
          (case seq_cmp (dp_seq_number data) dsn of
             Equal \<Rightarrow> append_next self data
           | Greater \<Rightarrow> append_with_loss self now data
           | Less \<Rightarrow> recover_data self data)
      | Err e \<Rightarrow> (Err e, self)
      | Panic \<Rightarrow> (Panic, self))"

section \<open>Releasing messages\<close>

type_synonym pop_result = "((instant \<times> u8 list) option, MessageError) outcome"

definition front_ts :: "'s ReceiveBuffer \<Rightarrow> TimeStamp option" where
  "front_ts self =
     (case rb_buffer self of [] \<Rightarrow> None | p # _ \<Rightarrow> map_option dp_timestamp (data_packet p))"

definition next_message_packet_count :: "'s ReceiveBuffer \<Rightarrow> usize option" where
  "next_message_packet_count self =
     (case rb_buffer self of
        [] \<Rightarrow> None
      | p # _ \<Rightarrow>
          (case data_packet p of
             None \<Rightarrow> None
           | Some first \<Rightarrow>
               (case try_fold mpc_accumulate mpc_new
                       (takeWhile (\<lambda>p. in_message p (dp_message_number first)) (rb_buffer self)) of
                  None \<Rightarrow> None
                | Some a \<Rightarrow> mpc_calculate a)))"

definition release_single_packet_message ::
  "'s ReceiveBuffer \<Rightarrow> instant \<Rightarrow> (instant \<times> u8 list) option \<times> 's ReceiveBuffer" where
  "release_single_packet_message self release_time =
     (case rb_buffer self of
        [] \<Rightarrow> (None, self)
      | p # rest \<Rightarrow>
          (map_option (\<lambda>d. (release_time, dp_payload d)) (into_data_packet p),
           self\<lparr>rb_buffer := rest\<rparr>))"

fun payloads :: "BufferPacket list \<Rightarrow> u8 list may_panic" where
  "payloads [] = Ok []"
| "payloads (p # ps) =
     (case into_data_packet p of
        None \<Rightarrow> Panic
      | Some d \<Rightarrow> map_outcome_ok ((@) (dp_payload d)) (payloads ps))"

definition release_full_message ::
  "'s ReceiveBuffer \<Rightarrow> instant \<Rightarrow> usize \<Rightarrow> (instant \<times> u8 list) option may_panic \<times> 's ReceiveBuffer" where
  "release_full_message self release_time packet_count =
     (if length (rb_buffer self) < packet_count then (Panic, self)
      else (map_outcome_ok (\<lambda>bytes. Some (release_time, bytes))
              (payloads (take packet_count (rb_buffer self))),
            self\<lparr>rb_buffer := drop packet_count (rb_buffer self)\<rparr>))"

text \<open>The leading entries that are lost, dropped, too late, or not the first packet of a message; and
  of these the last received one, with the time of the first received one.\<close>

definition too_late_packets :: "'s ReceiveBuffer \<Rightarrow> instant \<Rightarrow> BufferPacket list" where
  "too_late_packets self now =
     (let tsbpd_threshold = now - int (rb_tsbpd_latency self) - int (rb_tsbpd_tolerance self) in
      takeWhile (\<lambda>packet. case data_packet packet of
          None \<Rightarrow> True
        | Some data \<Rightarrow>
            clock_instant_from (rb_remote_clock self) (dp_timestamp data) \<le> tsbpd_threshold
            \<or> \<not> flags_contain (dp_message_loc data) PL_FIRST)
        (rb_buffer self))"

definition late_step ::
  "'s ReceiveBuffer \<Rightarrow> BufferPacket \<Rightarrow> (SeqNumber \<times> instant) option \<Rightarrow> (SeqNumber \<times> instant) option" where
  "late_step self packet lst =
     (case (lst, data_packet packet) of
        (None, Some data) \<Rightarrow>
          Some (dp_seq_number data, clock_instant_from (rb_remote_clock self) (dp_timestamp data))
      | (Some (_, first_packet_time), Some data) \<Rightarrow> Some (dp_seq_number data, first_packet_time)
      | (lst, None) \<Rightarrow> lst)"

definition drop_too_late_packets :: "'s ReceiveBuffer \<Rightarrow> instant \<Rightarrow> pop_result \<times> 's ReceiveBuffer" where
  "drop_too_late_packets self now =
     (if \<not> rb_too_late_packet_drop self then (Ok None, self)
      else case fold (late_step self) (too_late_packets self now) None of
        None \<Rightarrow> (Ok None, self)
      | Some (last_seq_number, first_packet_time) \<Rightarrow>
          let begin_packet = rb_seqno0 self;
              end_packet = seq_add last_seq_number 1;
              drop_count = seq_saturating_sub end_packet begin_packet;
              self = self\<lparr>rb_seqno0 := end_packet\<rparr> in
          if length (rb_buffer self) < drop_count then (Panic, self)
          else
            (case recalculate_lrsn (self\<lparr>rb_buffer := drop drop_count (rb_buffer self)\<rparr>) 0 of
               Ok self \<Rightarrow>
                 (Err \<lparr>me_too_late_packets = (begin_packet, end_packet),
                       me_delay = span_from_interval
                         (first_packet_time + int (rb_tsbpd_latency self)) now\<rparr>, self)
             | _ \<Rightarrow> (Panic, self)))"

definition pop_next_message :: "'s ReceiveBuffer \<Rightarrow> instant \<Rightarrow> pop_result \<times> 's ReceiveBuffer" where
  "pop_next_message self now =
     (case front_ts self of
        None \<Rightarrow> drop_too_late_packets self now
      | Some timestamp \<Rightarrow>
          let sent_time = clock_instant_from (rb_remote_clock self) timestamp in
          if now < sent_time + int (rb_tsbpd_latency self) then (Ok None, self)
          else
            (case next_message_packet_count self of
               None \<Rightarrow> drop_too_late_packets self now
             | Some packet_count \<Rightarrow>
                 if 2 ^ 32 \<le> packet_count then (Panic, self)
                 else
                   let self = self\<lparr>rb_seqno0 := seq_add (rb_seqno0 self) (of_nat packet_count)\<rparr>;
                       (release_time, clock) = clock_monotonic_instant_from (rb_remote_clock self) timestamp;
                       self = self\<lparr>rb_remote_clock := clock\<rparr> in
                   if packet_count = 1
                   then let (message, self) = release_single_packet_message self release_time in
                        (Ok message, self)
                   else (case release_full_message self release_time packet_count of
                           (Ok message, self) \<Rightarrow> (Ok message, self)
                         | (_, self) \<Rightarrow> (Panic, self))))"

definition next_message_release_time :: "'s ReceiveBuffer \<Rightarrow> instant option" where
  "next_message_release_time self =
     (case rb_buffer self of
        [] \<Rightarrow> None
      | p # _ \<Rightarrow>
          if bp_is_first p
          then map_option (\<lambda>d. clock_instant_from (rb_remote_clock self) (dp_timestamp d)
                 + int (rb_tsbpd_latency self)) (data_packet p)
          else None)"

section \<open>Loss reports and drop requests\<close>

definition lost_list_index :: "'s ReceiveBuffer \<Rightarrow> usize" where
  "lost_list_index self = length (takeWhile (\<lambda>b. data_packet b \<noteq> None) (rb_buffer self))"

definition feed_back :: "instant \<Rightarrow> TimeSpan \<Rightarrow> BufferPacket \<Rightarrow> BufferPacket" where
  "feed_back now mean p =
     (case lost_ready_for_feedback p now mean of
        None \<Rightarrow> p
      | Some lost \<Rightarrow> BP_Lost (lost\<lparr>lost_k := lost_k lost + 1, lost_feedback_time := now\<rparr>))"

definition prepare_loss_list ::
  "'s ReceiveBuffer \<Rightarrow> instant \<Rightarrow> TimeSpan \<Rightarrow> CompressedLossList option may_panic \<times> 's ReceiveBuffer" where
  "prepare_loss_list self now mean =
     (let i = lost_list_index self;
          loss_list = map lost_data_sequence_number
            (List.map_filter (\<lambda>p. lost_ready_for_feedback p now mean) (drop i (rb_buffer self))) in
      (try_from_iter loss_list,
       self\<lparr>rb_buffer := take i (rb_buffer self)
              @ map (feed_back now mean) (drop i (rb_buffer self))\<rparr>))"

definition drop_packets ::
  "'s ReceiveBuffer \<Rightarrow> SeqNumber \<Rightarrow> SeqNumber \<Rightarrow> usize may_panic \<times> 's ReceiveBuffer" where
  "drop_packets self start end =
     (let first_idx = clamped_index_for_seqno self start;
          last_idx = clamped_index_for_seqno self end;
          buffer = rb_buffer self in
      if last_idx < first_idx then (Panic, self)
      else
        let range = drop first_idx (take last_idx buffer) in
        (Ok (length (List.map_filter (fst \<circ> drop_unreceived) range)),
         self\<lparr>rb_buffer := take first_idx buffer @ map (snd \<circ> drop_unreceived) range
                @ drop last_idx buffer\<rparr>))"

definition rb_rx_acknowledged_time :: "'s ReceiveBuffer \<Rightarrow> duration" where
  "rb_rx_acknowledged_time self =
     (let end_idx = clamped_index_for_seqno self (seq_sub (rb_lrsn self) 1);
          buffer = rb_buffer self in
      if 0 < length buffer \<and> end_idx < length buffer
      then (case (buffer ! 0, buffer ! end_idx) of
              (BP_Received s, BP_Received e) \<Rightarrow>
                let span = sint (ts_diff (dp_timestamp e) (dp_timestamp s)) in
                duration_from_micros (if span < 0 then 0 else nat span)
            | _ \<Rightarrow> duration_from_micros 0)
      else duration_from_micros 0)"

section \<open>The invariant\<close>

definition received_prefix :: "BufferPacket list \<Rightarrow> nat" where
  "received_prefix bs = length (takeWhile (\<lambda>b. data_packet b \<noteq> None) bs)"

definition rb_aligned :: "'s ReceiveBuffer \<Rightarrow> bool" where
  "rb_aligned rb \<longleftrightarrow> seq_valid (rb_seqno0 rb)
     \<and> map data_sequence_number (rb_buffer rb) = seqs_from (rb_seqno0 rb) (length (rb_buffer rb))
     \<and> length (rb_buffer rb) \<le> unat (rb_max_buffer_size rb) \<and> unat (rb_max_buffer_size rb) < 2 ^ 30"

text \<open>\<open>lrsn\<close> is the number of the first packet that has not been received.\<close>

definition rb_acked :: "'s ReceiveBuffer \<Rightarrow> bool" where
  "rb_acked rb \<longleftrightarrow> rb_lrsn rb = seq_add (rb_seqno0 rb) (of_nat (received_prefix (rb_buffer rb)))"

definition rb_inv :: "'s ReceiveBuffer \<Rightarrow> bool" where
  "rb_inv rb \<longleftrightarrow> rb_aligned rb \<and> rb_acked rb"

lemma received_prefix_le: "received_prefix bs \<le> length bs"
  by (simp add: received_prefix_def length_takeWhile_le)

lemma received_prefix_append:
  "received_prefix (bs @ cs) =
    (if received_prefix bs = length bs then length bs + received_prefix cs else received_prefix bs)"
  by (induction bs) (auto simp: received_prefix_def length_takeWhile_le)

lemma received_prefix_Received [simp]: "received_prefix (BP_Received d # bs) = Suc (received_prefix bs)"
  by (simp add: received_prefix_def)

lemma received_prefix_Nil [simp]: "received_prefix [] = 0"
  by (simp add: received_prefix_def)

lemma received_prefix_Cons: 
  "received_prefix (b # bs) = (if data_packet b = None then 0 else Suc (received_prefix bs))"
  by (simp add: received_prefix_def)

lemma received_prefix_nth: "i < received_prefix bs \<Longrightarrow> data_packet (bs ! i) \<noteq> None"
proof (induction bs arbitrary: i)
  case (Cons b bs)
  then show ?case by (cases i) (auto simp: received_prefix_Cons split: if_splits)
qed simp

lemma received_prefix_stop:
  "received_prefix bs < length bs \<Longrightarrow> data_packet (bs ! received_prefix bs) = None"
  unfolding received_prefix_def using nth_length_takeWhile by blast

text \<open>The first gap found by scanning from a point before which all is received.\<close>

lemma first_gap:
  "List.map_filter lost_or_dropped bs =
    (if received_prefix bs = length bs then []
     else data_sequence_number (bs ! received_prefix bs)
       # List.map_filter lost_or_dropped (drop (Suc (received_prefix bs)) bs))"
proof (induction bs)
  case (Cons b bs)
  then show ?case
    by (cases b) (auto simp: received_prefix_Cons List.map_filter_simps)
qed (simp add: List.map_filter_simps)

lemma received_prefix_drop:
  "i \<le> received_prefix bs \<Longrightarrow> received_prefix (drop i bs) = received_prefix bs - i"
proof (induction bs arbitrary: i)
  case (Cons b bs)
  then show ?case by (cases i) (auto simp: received_prefix_Cons split: if_splits)
qed simp

lemma rb_aligned_nth:
  "rb_aligned rb \<Longrightarrow> i < length (rb_buffer rb) \<Longrightarrow>
    data_sequence_number (rb_buffer rb ! i) = seq_add (rb_seqno0 rb) (of_nat i)"
  unfolding rb_aligned_def by (metis nth_map seqs_from_nth)

lemma rb_aligned_len: "rb_aligned rb \<Longrightarrow> length (rb_buffer rb) < 2 ^ 30"
  by (simp add: rb_aligned_def)

lemma next_packet_dsn_Ok:
  "rb_aligned rb \<Longrightarrow>
    next_packet_dsn rb = Ok (seq_add (rb_seqno0 rb) (of_nat (length (rb_buffer rb))))"
  using rb_aligned_len [of rb] by (simp add: next_packet_dsn_def)

lemma recalculate_lrsn_Ok:
  assumes "rb_aligned rb" "i \<le> received_prefix (rb_buffer rb)"
  shows "recalculate_lrsn rb i =
    Ok (rb\<lparr>rb_lrsn := seq_add (rb_seqno0 rb) (of_nat (received_prefix (rb_buffer rb)))\<rparr>)"
proof -
  let ?bs = "rb_buffer rb"
  have le: "i \<le> length ?bs" using assms(2) received_prefix_le [of ?bs] by linarith
  show ?thesis
  proof (cases "received_prefix ?bs = length ?bs")
    case True
    then show ?thesis
      using assms le first_gap [of "drop i ?bs"]
      by (simp add: recalculate_lrsn_def received_prefix_drop next_packet_dsn_Ok)
  next
    case False
    then have "received_prefix ?bs < length ?bs" using received_prefix_le [of ?bs] by linarith
    then show ?thesis
      using assms le first_gap [of "drop i ?bs"]
      by (auto simp: recalculate_lrsn_def received_prefix_drop rb_aligned_nth)
  qed
qed

section \<open>What a push does, by the position of the packet\<close>

definition rb_with :: "BufferPacket list \<Rightarrow> 's ReceiveBuffer \<Rightarrow> 's ReceiveBuffer" where
  "rb_with bs rb = rb\<lparr>rb_buffer := bs, rb_lrsn := seq_add (rb_seqno0 rb) (of_nat (received_prefix bs))\<rparr>"

lemma rb_with_simps [simp]:
  "rb_buffer (rb_with bs rb) = bs" "rb_seqno0 (rb_with bs rb) = rb_seqno0 rb"
  "rb_max_buffer_size (rb_with bs rb) = rb_max_buffer_size rb"
  "rb_lrsn (rb_with bs rb) = seq_add (rb_seqno0 rb) (of_nat (received_prefix bs))"
  "rb_remote_clock (rb_with bs rb) = rb_remote_clock rb"
  "rb_tsbpd_latency (rb_with bs rb) = rb_tsbpd_latency rb"
  by (simp_all add: rb_with_def)

lemma rb_with_same: "rb_inv rb \<Longrightarrow> rb_with (rb_buffer rb) rb = rb"
  by (simp add: rb_with_def rb_inv_def rb_acked_def)

lemma rb_inv_with:
  assumes "rb_inv rb" "map data_sequence_number bs = seqs_from (rb_seqno0 rb) (length bs)"
    "length bs \<le> unat (rb_max_buffer_size rb)"
  shows "rb_inv (rb_with bs rb)"
  using assms by (simp add: rb_inv_def rb_aligned_def rb_acked_def)

definition lost_run :: "'s ReceiveBuffer \<Rightarrow> instant \<Rightarrow> nat \<Rightarrow> BufferPacket list" where
  "lost_run rb now i =
     map (\<lambda>k. BP_Lost (lost_new (seq_add (rb_seqno0 rb) (of_nat k)) now)) [length (rb_buffer rb)..<i]"

lemma length_lost_run [simp]: "length (lost_run rb now i) = i - length (rb_buffer rb)"
  by (simp add: lost_run_def)

lemma lost_run_self [simp]: "lost_run rb now (length (rb_buffer rb)) = []"
  by (simp add: lost_run_def)

lemma received_prefix_lost_run:
  "length (rb_buffer rb) < i \<Longrightarrow> received_prefix (lost_run rb now i @ bs) = 0"
  by (auto simp: lost_run_def received_prefix_Cons upt_conv_Cons)

lemma seqs_of_lost_run: "map data_sequence_number (lost_run rb now i) =
  map (\<lambda>k. seq_add (rb_seqno0 rb) (of_nat k)) [length (rb_buffer rb)..<i]"
  by (simp add: lost_run_def lost_new_def)

lemma seqs_of_extension:
  assumes "rb_aligned rb" "dp_seq_number data = seq_add (rb_seqno0 rb) (of_nat i)"
    "length (rb_buffer rb) \<le> i"
  shows "map data_sequence_number (rb_buffer rb @ lost_run rb now i @ [BP_Received data])
    = seqs_from (rb_seqno0 rb) (Suc i)"
proof -
  have "[0..<Suc i] = [0..<length (rb_buffer rb)] @ [length (rb_buffer rb)..<i] @ [i]"
    using assms(3) upt_add_eq_append [of 0 "length (rb_buffer rb)" "i - length (rb_buffer rb)"] by simp
  then show ?thesis
    using assms by (simp add: rb_aligned_def seqs_of_lost_run) (simp add: seqs_from_def)
qed

lemma append_lost_packets_run:
  assumes "seq_valid (rb_seqno0 rb)" "length (rb_buffer rb) \<le> i" "i < 2 ^ 31"
  shows "append_lost_packets rb now (seq_add (rb_seqno0 rb) (of_nat (length (rb_buffer rb))))
      (seq_add (rb_seqno0 rb) (of_nat i)) = rb\<lparr>rb_buffer := rb_buffer rb @ lost_run rb now i\<rparr>"
proof -
  let ?n = "length (rb_buffer rb)"
  have "seq_add (rb_seqno0 rb) (of_nat i) = seq_add (seq_add (rb_seqno0 rb) (of_nat ?n)) (of_nat (i - ?n))"
    using assms(2) by (simp add: seq.add_add)
  then have "unat (seq_diff (seq_add (rb_seqno0 rb) (of_nat i)) (seq_add (rb_seqno0 rb) (of_nat ?n))) = i - ?n"
    using assms seq_diff_offset [of "seq_add (rb_seqno0 rb) (of_nat ?n)" "i - ?n"] by simp
  moreover have "[?n..<i] = map (\<lambda>k. k + ?n) [0..<i - ?n]"
    using assms(2) by (simp add: map_add_upt)
  ultimately show ?thesis
    by (simp add: append_lost_packets_def lost_run_def seq.add_add add.commute [of "of_nat ?n"]
        del: upt_add_eq_append)
qed

lemma append_data_run:
  assumes "rb_inv rb" "dp_seq_number data = seq_add (rb_seqno0 rb) (of_nat i)"
    "length (rb_buffer rb) \<le> i" "i < 2 ^ 31"
  shows "append_data (rb\<lparr>rb_buffer := rb_buffer rb @ lost_run rb now i\<rparr>) data
    = rb_with (rb_buffer rb @ lost_run rb now i @ [BP_Received data]) rb"
proof -
  let ?r = "received_prefix (rb_buffer rb)" and ?n = "length (rb_buffer rb)"
  have l: "rb_lrsn rb = seq_add (rb_seqno0 rb) (of_nat ?r)" and v: "seq_valid (rb_seqno0 rb)"
    using assms(1) by (auto simp: rb_inv_def rb_acked_def rb_aligned_def)
  have r: "?r \<le> ?n" by (rule received_prefix_le)
  have eq: "rb_lrsn rb = dp_seq_number data \<longleftrightarrow> ?r = i"
    using seq_offset_inj [OF v, of ?r i] assms r by (simp add: l)
  show ?thesis
  proof (cases "?r = i")
    case True
    then have n: "?n = i" using r assms(3) by simp
    have "received_prefix (rb_buffer rb @ [BP_Received data]) = Suc i"
      using True n by (simp add: received_prefix_append)
    then show ?thesis using True n eq assms(2)
      by (simp add: append_data_def rb_with_def lost_run_def seq.add_add add.commute)
  next
    case False
    have "received_prefix (rb_buffer rb @ lost_run rb now i @ [BP_Received data]) = ?r"
    proof (cases "?n = i")
      case True
      then show ?thesis using False r by (simp add: received_prefix_append)
    next
      case n: False
      then show ?thesis using assms(3) received_prefix_lost_run [of rb i now "[BP_Received data]"]
        by (simp add: received_prefix_append [of "rb_buffer rb"])
    qed
    then show ?thesis using False eq l by (simp add: append_data_def rb_with_def)
  qed
qed

lemma index_for_seqno_offset:
  "seq_valid (rb_seqno0 rb) \<Longrightarrow> i < 2 ^ 30 \<Longrightarrow>
    index_for_seqno rb (seq_add (rb_seqno0 rb) (of_nat i)) = Some i"
  using seq_cmp_before [of "rb_seqno0 rb" i] seq_diff_offset [of "rb_seqno0 rb" i]
    seq.cmp_Equal [of "rb_seqno0 rb" "rb_seqno0 rb"]
  by (cases "i = 0") (auto simp: index_for_seqno_def mod_lt_def seq_valid_def seq.add_zero)

lemma buffer_available_aligned:
  "rb_aligned rb \<Longrightarrow> buffer_available rb = unat (rb_max_buffer_size rb) - length (rb_buffer rb)"
  by (simp add: buffer_available_def usize_sub_le rb_aligned_def)

lemma recover_data_at:
  assumes "rb_inv rb" "dp_seq_number data = seq_add (rb_seqno0 rb) (of_nat i)"
    "i < length (rb_buffer rb)"
  shows "recover_data rb data =
    (if \<exists>l. rb_buffer rb ! i = BP_Lost l
     then let rb' = rb_with ((rb_buffer rb)[i := BP_Received data]) rb in
          (Ok (Received (rb_lrsn rb') True), rb')
     else (Err (DiscardedDuplicate (dp_seq_number data)), rb))"
proof -
  let ?bs = "rb_buffer rb" and ?s = "rb_seqno0 rb"
  let ?bs' = "?bs[i := BP_Received data]"
  have al: "rb_aligned rb" and v: "seq_valid ?s" and l: "rb_lrsn rb = seq_add ?s (of_nat (received_prefix ?bs))"
    using assms(1) by (auto simp: rb_inv_def rb_acked_def rb_aligned_def)
  have i30: "i < 2 ^ 30" using rb_aligned_len [OF al] assms(3) by simp
  note idx = index_for_seqno_offset [OF v i30]
  show ?thesis
  proof (cases "\<exists>l. ?bs ! i = BP_Lost l")
    case True
    then obtain p where p: "?bs ! i = BP_Lost p" by blast
    have le: "received_prefix ?bs \<le> i"
      using received_prefix_nth [of i ?bs] p by (cases "received_prefix ?bs \<le> i") auto
    have al': "rb_aligned (rb\<lparr>rb_buffer := ?bs'\<rparr>)"
      using al assms(2,3) rb_aligned_nth [OF al assms(3)] p
      by (simp add: rb_aligned_def map_update) (metis assms(3) length_map list_update_id nth_map p data_sequence_number.simps(1))
    have eq: "rb_lrsn rb = dp_seq_number data \<longleftrightarrow> received_prefix ?bs = i"
      using seq_offset_inj [OF v, of "received_prefix ?bs" i] i30 le l assms(2) by simp
    have bs: "?bs = take i ?bs @ ?bs ! i # drop (Suc i) ?bs"
      using assms(3) by (rule id_take_nth_drop)
    have bs': "?bs' = take i ?bs @ BP_Received data # drop (Suc i) ?bs"
      using assms(3) by (rule upd_conv_take_nth_drop)
    have tk: "received_prefix (take i ?bs) = received_prefix ?bs"
      using arg_cong [OF bs, of received_prefix] le p assms(3)
      by (auto simp: received_prefix_append received_prefix_Cons split: if_splits)
    show ?thesis
    proof (cases "received_prefix ?bs = i")
      case True
      then have "i \<le> received_prefix ?bs'"
        using bs' tk assms(3) by (simp add: received_prefix_append)
      then show ?thesis
        using True eq p idx assms(2,3) recalculate_lrsn_Ok [OF al', of i]
        by (simp add: recover_data_def Let_def rb_with_def)
    next
      case False
      then have "received_prefix ?bs' = received_prefix ?bs"
        using bs' tk assms(3) by (simp add: received_prefix_append)
      then show ?thesis
        using False eq p idx assms(2,3) l by (simp add: recover_data_def Let_def rb_with_def)
    qed
  next
    case False
    then have "update_data (?bs ! i) data = (Err (DiscardedDuplicate (dp_seq_number data)), ?bs ! i)"
      by (cases "?bs ! i") auto
    then show ?thesis using False assms idx by (simp add: recover_data_def Let_def)
  qed
qed

lemma try_from_range_offsets:
  assumes "seq_valid s" "0 < k" "k < 2 ^ 30"
  shows "\<exists>ll. try_from_range s (seq_add s (of_nat k)) = Some ll"
  using assms seq_cmp_after [of s k] by (simp add: try_from_range_def range_is_empty_def mod_lt_def)

lemma push_packet_below:
  assumes "rb_inv rb" "dp_seq_number data = seq_add (rb_seqno0 rb) (of_nat i)"
    "i < length (rb_buffer rb)"
  shows "push_packet rb now data =
    (if \<exists>l. rb_buffer rb ! i = BP_Lost l
     then let rb' = rb_with ((rb_buffer rb)[i := BP_Received data]) rb in
          (Ok (Received (rb_lrsn rb') True), rb')
     else (Err (DiscardedDuplicate (dp_seq_number data)), rb))"
proof -
  have al: "rb_aligned rb" "seq_valid (rb_seqno0 rb)"
    using assms(1) by (auto simp: rb_inv_def rb_aligned_def)
  then show ?thesis
    using seq_cmp_offsets [of "rb_seqno0 rb" i "length (rb_buffer rb)"] rb_aligned_len [of rb]
      recover_data_at [OF assms] assms(2,3)
    by (simp add: push_packet_def next_packet_dsn_Ok)
qed

text \<open>A packet at or after the end is stored, behind a run of lost entries, when it fits.\<close>

lemma push_packet_beyond:
  assumes "rb_inv rb" "dp_seq_number data = seq_add (rb_seqno0 rb) (of_nat i)"
    "length (rb_buffer rb) \<le> i" "i < length (rb_buffer rb) + 2 ^ 30"
  shows "\<exists>e a. push_packet rb now data =
    (if i < unat (rb_max_buffer_size rb)
     then (Ok a, rb_with (rb_buffer rb @ lost_run rb now i @ [BP_Received data]) rb)
     else (Err e, rb))"
proof -
  let ?n = "length (rb_buffer rb)" and ?s = "rb_seqno0 rb" and ?c = "unat (rb_max_buffer_size rb)"
  have al: "rb_aligned rb" "seq_valid ?s" "?n \<le> ?c"
    using assms(1) by (auto simp: rb_inv_def rb_aligned_def)
  have n: "?n < 2 ^ 30" by (rule rb_aligned_len [OF al(1)])
  have i: "i < 2 ^ 31" using n assms(4) by simp
  note cmp = seq_cmp_offsets [OF al(2) assms(4)]
  show ?thesis
  proof (cases "i = ?n")
    case True
    then have "push_packet rb now data = append_next rb data"
      using cmp n assms(2) by (simp add: push_packet_def next_packet_dsn_Ok [OF al(1)])
    moreover have "append_data rb data = rb_with (rb_buffer rb @ [BP_Received data]) rb"
      using append_data_run [OF assms(1,2,3) i, of now] True by simp
    ultimately show ?thesis
      using True by (auto simp: append_next_def buffer_available_aligned [OF al(1)] Let_def)
  next
    case False
    then have k: "0 < i - ?n" "i - ?n < 2 ^ 30" using assms by auto
    have d: "seq_add ?s (of_nat i) = seq_add (seq_add ?s (of_nat ?n)) (of_nat (i - ?n))"
      using assms(3) by (simp add: seq.add_add)
    have u: "unat (seq_diff (seq_add ?s (of_nat i)) (seq_add ?s (of_nat ?n))) = i - ?n"
      using seq_diff_offset [of "seq_add ?s (of_nat ?n)" "i - ?n"] k by (simp add: d)
    obtain ll where ll: "try_from_range (seq_add ?s (of_nat ?n)) (seq_add ?s (of_nat i)) = Some ll"
      using try_from_range_offsets [of "seq_add ?s (of_nat ?n)" "i - ?n"] k by (auto simp: d)
    have "push_packet rb now data = append_with_loss rb now data"
      using cmp n assms(2,3) False by (simp add: push_packet_def next_packet_dsn_Ok [OF al(1)])
    then show ?thesis
      using append_data_run [OF assms(1,2,3) i, of now] append_lost_packets_run [OF al(2) assms(3) i, of now]
        ll u k al(3)
      by (auto simp: append_with_loss_def next_packet_dsn_Ok [OF al(1)] Let_def assms(2)
          buffer_available_aligned [OF al(1)])
  qed
qed

lemma push_packet_before:
  assumes "rb_inv rb" "seq_valid (dp_seq_number data)"
    "seq_add (dp_seq_number data) (of_nat j) = rb_seqno0 rb" "0 < j" "j + length (rb_buffer rb) \<le> 2 ^ 30"
  shows "push_packet rb now data = (Err (PacketTooLate (dp_seq_number data) (rb_seqno0 rb)), rb)"
proof -
  let ?d = "dp_seq_number data" and ?n = "length (rb_buffer rb)"
  have al: "rb_aligned rb" using assms(1) by (simp add: rb_inv_def)
  have "seq_add (rb_seqno0 rb) (of_nat ?n) = seq_add ?d (of_nat (j + ?n))"
    using assms(3) seq_add_of_nat_add [of ?d j ?n] by simp
  then have "seq_cmp ?d (seq_add (rb_seqno0 rb) (of_nat ?n)) = Less" "seq_cmp ?d (rb_seqno0 rb) = Less"
    using seq_cmp_after [OF assms(2), of "j + ?n"] seq_cmp_after [OF assms(2), of j] assms by auto
  then show ?thesis
    by (simp add: push_packet_def next_packet_dsn_Ok [OF al] recover_data_def index_for_seqno_def
        mod_lt_def)
qed

lemma push_packet_inv:
  assumes "rb_inv rb" "seq_valid (dp_seq_number data)" "push_packet rb now data = (r, rb')"
  shows "rb_inv rb' \<and> r \<noteq> Panic"
proof -
  let ?n = "length (rb_buffer rb)"
  have al: "rb_aligned rb" "seq_valid (rb_seqno0 rb)"
    using assms(1) by (auto simp: rb_inv_def rb_aligned_def)
  show ?thesis
  proof (rule seq_positions [OF al(2) assms(2) rb_aligned_len [OF al(1)]])
    fix i assume i: "dp_seq_number data = seq_add (rb_seqno0 rb) (of_nat i)" "i < ?n + 2 ^ 30"
    show ?thesis
    proof (cases "i < ?n")
      case True
      have "map data_sequence_number ((rb_buffer rb)[i := BP_Received data]) = seqs_from (rb_seqno0 rb) ?n"
        using al(1) i(1) True rb_aligned_nth [OF al(1) True]
        by (simp add: map_update rb_aligned_def) (metis length_map list_update_id nth_map seqs_from_nth)
      then have "rb_inv (rb_with ((rb_buffer rb)[i := BP_Received data]) rb)"
        using al assms(1) by (intro rb_inv_with) (auto simp: rb_aligned_def)
      then show ?thesis
        using push_packet_below [OF assms(1) i(1) True, of now] assms(1,3)
        by (auto simp: Let_def split: if_splits)
    next
      case False
      have "rb_inv (rb_with (rb_buffer rb @ lost_run rb now i @ [BP_Received data]) rb)"
        if "i < unat (rb_max_buffer_size rb)"
        using seqs_of_extension [OF al(1) i(1), of now] False that assms(1)
        by (intro rb_inv_with) auto
      then show ?thesis
        using push_packet_beyond [OF assms(1) i(1) _ i(2), of now] False assms(1,3)
        by (auto split: if_splits)
    qed
  next
    fix j assume "seq_add (dp_seq_number data) (of_nat j) = rb_seqno0 rb" "0 < j" "j + ?n \<le> 2 ^ 30"
    then show ?thesis using push_packet_before [OF assms(1,2), of j now] assms(1,3) by auto
  qed
qed

section \<open>The abstract window\<close>

text \<open>
  The specification: packets are numbered without bound, the window holds the packets received at the
  positions from \<open>w_start\<close> on, and the positions that were given up. A packet is accepted exactly
  when its position is in the window and not yet taken.
\<close>

record Window =
  w_start :: nat
  w_next :: nat
  w_got :: "nat \<Rightarrow> DataPacket option"
  w_gone :: "nat set"

definition w_push :: "nat \<Rightarrow> nat \<Rightarrow> DataPacket \<Rightarrow> Window \<Rightarrow> Window option" where
  "w_push capacity n data w =
     (if n < w_start w \<or> w_start w + capacity \<le> n \<or> w_got w n \<noteq> None \<or> n \<in> w_gone w then None
      else Some (w\<lparr>w_next := max (w_next w) (Suc n), w_got := (w_got w)(n := Some data)\<rparr>))"

text \<open>The window that a buffer stands for when its first entry has the position \<open>start\<close>.\<close>

definition rb_window :: "nat \<Rightarrow> 's ReceiveBuffer \<Rightarrow> Window" where
  "rb_window start rb =
     \<lparr>w_start = start, w_next = start + length (rb_buffer rb),
      w_got = (\<lambda>n. if start \<le> n \<and> n < start + length (rb_buffer rb)
                   then data_packet (rb_buffer rb ! (n - start)) else None),
      w_gone = {n. start \<le> n \<and> n < start + length (rb_buffer rb)
                   \<and> (\<exists>s. rb_buffer rb ! (n - start) = BP_Dropped s)}\<rparr>"

lemma rb_window_append:
  assumes "length (rb_buffer rb) \<le> i"
  shows "rb_window start (rb_with (rb_buffer rb @ lost_run rb now i @ [BP_Received data]) rb) =
    (rb_window start rb)\<lparr>w_next := Suc (start + i), w_got := (w_got (rb_window start rb))(start + i := Some data)\<rparr>"
proof -
  define bs where "bs = rb_buffer rb @ lost_run rb now i @ [BP_Received data]"
  have nth: "bs ! k = (if k < length (rb_buffer rb) then rb_buffer rb ! k else if k < i then
      BP_Lost (lost_new (seq_add (rb_seqno0 rb) (of_nat k)) now) else BP_Received data)" if "k \<le> i" for k
    using that assms by (auto simp: bs_def nth_append lost_run_def)
  have len: "length bs = Suc i" using assms by (simp add: bs_def)
  show ?thesis
    unfolding bs_def [symmetric] rb_window_def rb_with_simps len
    using assms by (auto simp: nth fun_eq_iff less_Suc_eq_le split: if_splits)
qed

lemma rb_window_update:
  assumes "i < length (rb_buffer rb)" "rb_buffer rb ! i = BP_Lost l"
  shows "rb_window start (rb_with ((rb_buffer rb)[i := BP_Received data]) rb) =
    (rb_window start rb)\<lparr>w_got := (w_got (rb_window start rb))(start + i := Some data)\<rparr>"
  using assms by (auto simp: rb_window_def fun_eq_iff nth_list_update)

lemma w_push_window:
  assumes "length (rb_buffer rb) \<le> unat (rb_max_buffer_size rb)"
  shows "w_push (unat (rb_max_buffer_size rb)) (start + i) data (rb_window start rb) =
    (if i < length (rb_buffer rb)
     then if \<exists>l. rb_buffer rb ! i = BP_Lost l
          then Some ((rb_window start rb)\<lparr>w_got := (w_got (rb_window start rb))(start + i := Some data)\<rparr>)
          else None
     else if i < unat (rb_max_buffer_size rb)
     then Some ((rb_window start rb)\<lparr>w_next := Suc (start + i),
            w_got := (w_got (rb_window start rb))(start + i := Some data)\<rparr>)
     else None)"
proof (cases "i < length (rb_buffer rb)")
  case True
  then show ?thesis using assms
    by (cases "rb_buffer rb ! i") (auto simp: w_push_def rb_window_def)
next
  case False
  then show ?thesis by (auto simp: w_push_def rb_window_def)
qed

lemma push_packet_window:
  assumes "rb_inv rb" "rb_seqno0 rb = seq_of start" "dp_seq_number data = seq_of n"
    "n < start + length (rb_buffer rb) + 2 ^ 30" "start + length (rb_buffer rb) \<le> n + 2 ^ 30"
  shows "case w_push (unat (rb_max_buffer_size rb)) n data (rb_window start rb) of
      None \<Rightarrow> \<exists>e. push_packet rb now data = (Err e, rb)
    | Some w \<Rightarrow> \<exists>a rb'. push_packet rb now data = (Ok a, rb') \<and> rb_window start rb' = w
        \<and> rb_seqno0 rb' = seq_of start \<and> rb_max_buffer_size rb' = rb_max_buffer_size rb"
proof (cases "start \<le> n")
  case True
  then obtain i where i: "n = start + i" by (auto simp: le_iff_add)
  let ?n = "length (rb_buffer rb)"
  have d: "dp_seq_number data = seq_add (rb_seqno0 rb) (of_nat i)"
    using assms(2,3) by (simp add: i seq_of_add)
  have c: "?n \<le> unat (rb_max_buffer_size rb)" using assms(1) by (simp add: rb_inv_def rb_aligned_def)
  show ?thesis
  proof (cases "i < ?n")
    case True
    then show ?thesis
      using push_packet_below [OF assms(1) d True, of now] rb_window_update [OF True, of _ start data] assms(2)
      by (auto simp: i w_push_window [OF c] Let_def)
  next
    case False
    then show ?thesis
      using push_packet_beyond [OF assms(1) d, of now] rb_window_append [of rb i start now data] assms(2,4) i
      by (auto simp: w_push_window [OF c] split: if_splits)
  qed
next
  case False
  then have "seq_of start = seq_add (seq_of n) (of_nat (start - n))"
    using seq_of_add [of n "start - n"] by simp
  then show ?thesis
    using push_packet_before [OF assms(1), of data "start - n" now] assms False
    by (auto simp: w_push_def rb_window_def)
qed

text \<open>The acknowledged position is the first one that has not been received.\<close>

lemma next_ack_window:
  assumes "rb_inv rb" "rb_seqno0 rb = seq_of start"
  shows "next_ack_dsn rb = seq_of (start + received_prefix (rb_buffer rb))"
    and "start \<le> n \<Longrightarrow> n < start + received_prefix (rb_buffer rb) \<Longrightarrow> w_got (rb_window start rb) n \<noteq> None"
    and "w_got (rb_window start rb) (start + received_prefix (rb_buffer rb)) = None"
proof -
  show "next_ack_dsn rb = seq_of (start + received_prefix (rb_buffer rb))"
    using assms by (simp add: next_ack_dsn_def rb_inv_def rb_acked_def seq_of_add)
  show "start \<le> n \<Longrightarrow> n < start + received_prefix (rb_buffer rb) \<Longrightarrow> w_got (rb_window start rb) n \<noteq> None"
    using received_prefix_nth [of "n - start" "rb_buffer rb"] received_prefix_le [of "rb_buffer rb"]
    by (simp add: rb_window_def)
  show "w_got (rb_window start rb) (start + received_prefix (rb_buffer rb)) = None"
    using received_prefix_stop [of "rb_buffer rb"] by (simp add: rb_window_def)
qed

end
