(* ===== verification/Receive_Release.thy ===== *)
theory Receive_Release
  imports Receive_Buffer Reachability
begin

text \<open>
  What the receive buffer (theory \<open>Receive_Buffer\<close>) does when a message is taken out of it, when
  losses are reported and when the sender asks to drop packets: which messages are released and which
  packets are given up, and that each operation keeps the invariant \<open>rb_inv\<close>.
\<close>

section \<open>Complete messages\<close>

definition bp_is_last :: "BufferPacket \<Rightarrow> bool" where
  "bp_is_last p = (case data_packet p of None \<Rightarrow> False | Some d \<Rightarrow> flags_contain (dp_message_loc d) PL_LAST)"

text \<open>The packets of one message: received, of one message number, the first one marked first, and
  the last one the only one marked last.\<close>

definition complete_message :: "BufferPacket list \<Rightarrow> bool" where
  "complete_message ps =
     (case ps of
        [] \<Rightarrow> False
      | p # _ \<Rightarrow>
          (case data_packet p of
             None \<Rightarrow> False
           | Some first \<Rightarrow>
               list_all (\<lambda>q. in_message q (dp_message_number first)) ps
               \<and> bp_is_first p \<and> bp_is_last (last ps) \<and> list_all (\<lambda>q. \<not> bp_is_last q) (butlast ps)))"

lemma data_packet_eq_Some: "data_packet p = Some d \<longleftrightarrow> p = BP_Received d"
  by (cases p) auto

lemma in_message_data: "in_message p m \<Longrightarrow> data_packet p \<noteq> None"
  by (auto simp: in_message_def split: option.splits)

lemma length_takeWhile_eq:
  "k < length xs \<Longrightarrow> length (takeWhile P xs) = k \<longleftrightarrow> (\<forall>i < k. P (xs ! i)) \<and> \<not> P (xs ! k)"
proof (induction xs arbitrary: k)
  case (Cons x xs)
  then show ?case by (cases k) (auto simp: All_less_Suc2)
qed simp

lemma mpc_accumulate_data:
  "data_packet p = Some d \<Longrightarrow> mpc_accumulate a p =
    (if mpc_done a then Some a
     else if mpc_count a = 0 \<and> \<not> flags_contain (dp_message_loc d) PL_FIRST then None
     else Some (a\<lparr>mpc_count := mpc_count a + 1, mpc_done := flags_contain (dp_message_loc d) PL_LAST\<rparr>))"
  by (cases a) (simp add: mpc_accumulate_def Let_def)

lemma try_fold_done:
  "mpc_done a \<Longrightarrow> list_all (\<lambda>p. data_packet p \<noteq> None) ps \<Longrightarrow> try_fold mpc_accumulate a ps = Some a"
  by (induction ps) (auto simp: mpc_accumulate_data)

lemma try_fold_running:
  assumes "list_all (\<lambda>p. data_packet p \<noteq> None) ps" "0 < c"
  shows "try_fold mpc_accumulate \<lparr>mpc_count = c, mpc_done = False\<rparr> ps =
    (let j = length (takeWhile (\<lambda>p. \<not> bp_is_last p) ps) in
     if j < length ps then Some \<lparr>mpc_count = c + Suc j, mpc_done = True\<rparr>
     else Some \<lparr>mpc_count = c + j, mpc_done = False\<rparr>)"
  using assms
proof (induction ps arbitrary: c)
  case (Cons p ps)
  then obtain d where d: "data_packet p = Some d" by auto
  show ?case
  proof (cases "bp_is_last p")
    case True
    then show ?thesis using d Cons.prems
      by (auto simp: mpc_accumulate_data bp_is_last_def Let_def intro: try_fold_done)
  next
    case False
    then show ?thesis using d Cons.prems Cons.IH [of "Suc c"]
      by (auto simp: mpc_accumulate_data bp_is_last_def Let_def)
  qed
qed simp

lemma message_count_fold:
  assumes "list_all (\<lambda>p. data_packet p \<noteq> None) (p # ps)"
  shows "(case try_fold mpc_accumulate mpc_new (p # ps) of None \<Rightarrow> None | Some a \<Rightarrow> mpc_calculate a) =
    (let j = length (takeWhile (\<lambda>p. \<not> bp_is_last p) (p # ps)) in
     if bp_is_first p \<and> j < length (p # ps) then Some (Suc j) else None)"
proof -
  obtain d where d: "p = BP_Received d" using assms by (cases p) auto
  show ?thesis
  proof (cases "bp_is_last p")
    case True
    then show ?thesis using d assms
      by (auto simp: mpc_accumulate_data mpc_new_def bp_is_last_def Let_def mpc_calculate_def
          try_fold_done)
  next
    case False
    then show ?thesis using d assms try_fold_running [of ps 1]
      by (auto simp: mpc_accumulate_data mpc_new_def bp_is_last_def Let_def mpc_calculate_def)
  qed
qed

lemma complete_message_take:
  assumes "bs = BP_Received d # bs'" "k \<le> length bs"
  shows "complete_message (take k bs) \<longleftrightarrow>
    0 < k \<and> (\<forall>i < k. in_message (bs ! i) (dp_message_number d)) \<and> bp_is_first (hd bs)
    \<and> (\<forall>i < k - 1. \<not> bp_is_last (bs ! i)) \<and> bp_is_last (bs ! (k - 1))"
proof (cases k)
  case (Suc n)
  then have "take k bs = take n bs @ [bs ! n]"
    using take_Suc_conv_app_nth [of n bs] assms(2) by simp
  then have "last (take k bs) = bs ! n" "butlast (take k bs) = take n bs" by simp_all
  moreover have "complete_message (take k bs) \<longleftrightarrow>
      list_all (\<lambda>q. in_message q (dp_message_number d)) (take k bs) \<and> bp_is_first (hd bs)
      \<and> bp_is_last (last (take k bs)) \<and> list_all (\<lambda>q. \<not> bp_is_last q) (butlast (take k bs))"
    using assms Suc by (simp add: complete_message_def)
  moreover have "length (take k bs) = k" "length (take n bs) = n" using assms(2) Suc by simp_all
  ultimately show ?thesis
    using Suc by (auto simp: list_all_length)
qed (simp add: complete_message_def)

lemma packet_count_complete:
  "next_message_packet_count rb = Some k \<longleftrightarrow>
    k \<le> length (rb_buffer rb) \<and> complete_message (take k (rb_buffer rb))"
proof (cases "rb_buffer rb")
  case Nil
  then show ?thesis by (simp add: next_message_packet_count_def complete_message_def)
next
  case (Cons p bs')
  show ?thesis
  proof (cases "data_packet p")
    case None
    then show ?thesis using Cons
      by (cases k) (auto simp: next_message_packet_count_def complete_message_def)
  next
    case (Some d)
    then have p: "p = BP_Received d" by (cases p) auto
    let ?bs = "rb_buffer rb" and ?I = "\<lambda>q. in_message q (dp_message_number d)"
    let ?ms = "takeWhile ?I ?bs"
    let ?j = "length (takeWhile (\<lambda>p. \<not> bp_is_last p) ?ms)"
    have ms: "?ms = p # takeWhile ?I bs'" using Cons p by (simp add: in_message_def)
    have "list_all (\<lambda>p. data_packet p \<noteq> None) ?ms"
      by (auto simp: list_all_iff dest!: set_takeWhileD in_message_data)
    then have c: "next_message_packet_count rb =
        (if bp_is_first p \<and> ?j < length ?ms then Some (Suc ?j) else None)"
      using message_count_fold [of p "takeWhile ?I bs'"] ms Cons p
      by (simp add: next_message_packet_count_def Let_def)
    have nth: "?ms ! i = ?bs ! i" if "i < length ?ms" for i
      using that by (rule takeWhile_nth)
    have mem: "i < length ?ms \<longleftrightarrow> i < length ?bs \<and> (\<forall>j \<le> i. ?I (?bs ! j))" for i
    proof
      assume i: "i < length ?ms"
      then have "i < length ?bs" using length_takeWhile_le [of ?I ?bs] by simp
      moreover have "?I (?bs ! j)" if "j \<le> i" for j
        using nth [of j] nth_mem [of j ?ms] set_takeWhileD [of _ ?I ?bs] i that by fastforce
      ultimately show "i < length ?bs \<and> (\<forall>j \<le> i. ?I (?bs ! j))" by simp
    next
      assume i: "i < length ?bs \<and> (\<forall>j \<le> i. ?I (?bs ! j))"
      show "i < length ?ms"
      proof (rule ccontr)
        assume "\<not> i < length ?ms"
        then have "length ?ms \<le> i" "length ?ms < length ?bs" using i by auto
        then show False using i nth_length_takeWhile [of ?I ?bs] by auto
      qed
    qed
    show ?thesis
    proof (cases k)
      case 0
      then show ?thesis using c by (simp add: complete_message_def)
    next
      case (Suc n)
      have "?j < length ?ms \<and> ?j = n \<longleftrightarrow>
          n < length ?ms \<and> (\<forall>i < n. \<not> bp_is_last (?bs ! i)) \<and> bp_is_last (?bs ! n)"
        using length_takeWhile_eq [of n ?ms "\<lambda>p. \<not> bp_is_last p"] nth by auto
      moreover have "n < length ?ms \<longleftrightarrow> k \<le> length ?bs \<and> (\<forall>i < k. ?I (?bs ! i))"
        using mem [of n] Suc by (auto simp: less_Suc_eq_le)
      ultimately show ?thesis
        using c complete_message_take [of ?bs d bs' k] Cons p Suc by auto
    qed
  qed
qed

section \<open>Taking entries off the front\<close>

definition rb_advance :: "nat \<Rightarrow> 's ReceiveBuffer \<Rightarrow> 's ReceiveBuffer" where
  "rb_advance k rb =
     rb_with (drop k (rb_buffer rb)) (rb\<lparr>rb_seqno0 := seq_add (rb_seqno0 rb) (of_nat k)\<rparr>)"

lemma rb_advance_simps [simp]:
  "rb_buffer (rb_advance k rb) = drop k (rb_buffer rb)"
  "rb_seqno0 (rb_advance k rb) = seq_add (rb_seqno0 rb) (of_nat k)"
  "rb_max_buffer_size (rb_advance k rb) = rb_max_buffer_size rb"
  by (simp_all add: rb_advance_def)

lemma aligned_drop:
  "rb_aligned rb \<Longrightarrow> k \<le> length (rb_buffer rb) \<Longrightarrow>
    map data_sequence_number (drop k (rb_buffer rb))
      = seqs_from (seq_add (rb_seqno0 rb) (of_nat k)) (length (rb_buffer rb) - k)"
  by (simp add: rb_aligned_def drop_seqs_from flip: drop_map)

lemma rb_inv_advance: "rb_aligned rb \<Longrightarrow> k \<le> length (rb_buffer rb) \<Longrightarrow> rb_inv (rb_advance k rb)"
  using aligned_drop [of rb k]
  by (auto simp: rb_inv_def rb_aligned_def rb_acked_def rb_advance_def)

lemma advance_received:
  assumes "rb_inv rb" "k \<le> received_prefix (rb_buffer rb)"
  shows "rb_advance k rb =
    rb\<lparr>rb_seqno0 := seq_add (rb_seqno0 rb) (of_nat k), rb_buffer := drop k (rb_buffer rb)\<rparr>"
proof -
  have "seq_add (seq_add (rb_seqno0 rb) (of_nat k)) (of_nat (received_prefix (drop k (rb_buffer rb))))
      = rb_lrsn rb"
    using assms by (simp add: seq.add_add received_prefix_drop rb_inv_def rb_acked_def)
  then show ?thesis by (simp add: rb_advance_def rb_with_def)
qed

lemma complete_message_data:
  "complete_message ps \<Longrightarrow> list_all (\<lambda>p. data_packet p \<noteq> None) ps"
  by (auto simp: complete_message_def list_all_iff split: list.splits option.splits dest: in_message_data)

lemma received_prefix_all:
  "list_all (\<lambda>p. data_packet p \<noteq> None) (take k bs) \<Longrightarrow> k \<le> length bs \<Longrightarrow> k \<le> received_prefix bs"
proof (induction bs arbitrary: k)
  case (Cons b bs)
  then show ?case by (cases k) (auto simp: received_prefix_Cons)
qed simp

section \<open>Releasing a message\<close>

definition message_bytes :: "BufferPacket list \<Rightarrow> u8 list" where
  "message_bytes ps = concat (map dp_payload (List.map_filter data_packet ps))"

lemma into_data_packet_eq: "into_data_packet = data_packet"
proof
  show "into_data_packet p = data_packet p" for p by (cases p) auto
qed

lemma payloads_message:
  "list_all (\<lambda>p. data_packet p \<noteq> None) ps \<Longrightarrow> payloads ps = Ok (message_bytes ps)"
  by (induction ps) (auto simp: message_bytes_def List.map_filter_simps into_data_packet_eq)

lemma pop_complete:
  assumes "rb_inv rb" "k \<le> length (rb_buffer rb)" "complete_message (take k (rb_buffer rb))"
    "front_ts rb = Some ts" "clock_instant_from (rb_remote_clock rb) ts + int (rb_tsbpd_latency rb) \<le> now"
    "clock_monotonic_instant_from (rb_remote_clock rb) ts = (t, clock)"
  shows "pop_next_message rb now =
    (Ok (Some (t, message_bytes (take k (rb_buffer rb)))), rb_advance k (rb\<lparr>rb_remote_clock := clock\<rparr>))"
proof -
  let ?bs = "rb_buffer rb"
  have al: "rb_aligned rb" using assms(1) by (simp add: rb_inv_def)
  have data: "list_all (\<lambda>p. data_packet p \<noteq> None) (take k ?bs)"
    using assms(3) by (rule complete_message_data)
  have k: "k < 2 ^ 32" using rb_aligned_len [OF al] assms(2) by simp
  have rp: "k \<le> received_prefix ?bs" using received_prefix_all [OF data assms(2)] .
  have inv: "rb_inv (rb\<lparr>rb_remote_clock := clock\<rparr>)"
    using assms(1) by (simp add: rb_inv_def rb_aligned_def rb_acked_def)
  have adv: "rb_advance k (rb\<lparr>rb_remote_clock := clock\<rparr>) =
      rb\<lparr>rb_remote_clock := clock, rb_seqno0 := seq_add (rb_seqno0 rb) (of_nat k), rb_buffer := drop k ?bs\<rparr>"
    using advance_received [OF inv, of k] rp by simp
  have cnt: "next_message_packet_count rb = Some k"
    using assms(2,3) by (simp add: packet_count_complete)
  show ?thesis
  proof (cases "k = 1")
    case True
    then obtain d bs' where "?bs = BP_Received d # bs'"
      using assms(2) data by (cases ?bs; cases "hd ?bs") auto
    then show ?thesis using assms(4,5,6) k adv cnt True
      by (simp add: pop_next_message_def Let_def release_single_packet_message_def message_bytes_def
          List.map_filter_simps)
  next
    case False
    then show ?thesis using assms(2,4,5,6) k adv cnt payloads_message [OF data]
      by (simp add: pop_next_message_def Let_def release_full_message_def)
  qed
qed

section \<open>Giving up packets that are too late\<close>

lemma late_step_simps:
  "late_step rb p None = map_option (\<lambda>d. (dp_seq_number d, clock_instant_from (rb_remote_clock rb) (dp_timestamp d)))
    (data_packet p)"
  "late_step rb p (Some (s, t)) = Some (case data_packet p of None \<Rightarrow> s | Some d \<Rightarrow> dp_seq_number d, t)"
  by (auto simp: late_step_def split: option.splits)

lemma fold_late_Some:
  "fold (late_step rb) ps (Some (s, t)) =
    Some (case List.map_filter data_packet ps of [] \<Rightarrow> s | ds \<Rightarrow> dp_seq_number (last ds), t)"
  by (induction ps arbitrary: s) (auto simp: List.map_filter_simps late_step_simps split: option.splits list.splits)

lemma fold_late_None:
  "fold (late_step rb) ps None =
    (case List.map_filter data_packet ps of
       [] \<Rightarrow> None
     | d # ds \<Rightarrow> Some (dp_seq_number (last (d # ds)), clock_instant_from (rb_remote_clock rb) (dp_timestamp d)))"
  by (induction ps) (auto simp: List.map_filter_simps late_step_simps fold_late_Some split: option.splits list.splits)

lemma map_filter_data_mem: "d \<in> set (List.map_filter data_packet ps) \<Longrightarrow> \<exists>j < length ps. ps ! j = BP_Received d"
proof -
  assume "d \<in> set (List.map_filter data_packet ps)"
  then obtain p where p: "p \<in> set ps" "data_packet p = Some d" by (auto simp: List.map_filter_def)
  then have "BP_Received d \<in> set ps" by (simp add: data_packet_eq_Some)
  then show ?thesis by (simp only: in_set_conv_nth)
qed

lemma late_last:
  assumes "fold (late_step rb) ps None = Some (s, t)"
  shows "\<exists>j d. j < length ps \<and> ps ! j = BP_Received d \<and> s = dp_seq_number d"
proof -
  obtain d ds where ds: "List.map_filter data_packet ps = d # ds" "s = dp_seq_number (last (d # ds))"
    using assms by (auto simp: fold_late_None split: list.splits)
  then have "last (d # ds) \<in> set (List.map_filter data_packet ps)" by simp
  then show ?thesis using map_filter_data_mem [of "last (d # ds)" ps] ds(2) by auto
qed

lemma too_late_prefix: "\<exists>n. too_late_packets rb now = take n (rb_buffer rb)"
  unfolding too_late_packets_def Let_def by (rule exI, rule takeWhile_eq_take)

lemma too_late_member:
  "BP_Received d \<in> set (too_late_packets rb now) \<Longrightarrow>
    clock_instant_from (rb_remote_clock rb) (dp_timestamp d)
      \<le> now - int (rb_tsbpd_latency rb) - int (rb_tsbpd_tolerance rb) \<or> \<not> bp_is_first (BP_Received d)"
  unfolding too_late_packets_def Let_def by (drule set_takeWhileD) simp

lemma saturating_sub_no_wrap:
  assumes "seq_valid s" "unat s + Suc j < 2 ^ 31"
  shows "seq_saturating_sub (seq_add s (of_nat (Suc j))) s = Suc j"
  using assms unat_seq_offset [of "Suc j"]
  by (simp add: seq_saturating_sub_def unat_mod_add del: of_nat_Suc)

lemma seq_add_past_wrap:
  assumes "seq_valid s" "j < 2 ^ 30" "\<not> unat (seq_add s (of_nat (Suc j))) \<le> unat s"
  shows "unat s + Suc j < 2 ^ 31"
proof (rule ccontr)
  assume "\<not> unat s + Suc j < 2 ^ 31"
  then have "(unat s + Suc j) mod 2 ^ 31 = unat s + Suc j - 2 ^ 31"
    using assms(1,2) by (simp add: seq_valid_def mod_if)
  then show False
    using assms unat_seq_offset [of "Suc j"] by (simp add: unat_mod_add del: of_nat_Suc)
qed

text \<open>When packets are given up, the first sequence number moves past the last one received among them.
  The entries are removed as far as the distance of these numbers says, which is computed without
  the modular arithmetic: it is zero when the new number has passed the wrap-around point.\<close>

lemma drop_too_late_cases:
  assumes "rb_aligned rb"
  shows "drop_too_late_packets rb now = (Ok None, rb) \<or>
    (\<exists>j d delay rb'. j < length (too_late_packets rb now) \<and> rb_buffer rb ! j = BP_Received d
      \<and> drop_too_late_packets rb now =
        (Err \<lparr>me_too_late_packets = (rb_seqno0 rb, seq_add (rb_seqno0 rb) (of_nat (Suc j))), me_delay = delay\<rparr>, rb')
      \<and> (unat (rb_seqno0 rb) + Suc j < 2 ^ 31 \<longrightarrow> rb' = rb_advance (Suc j) rb))"
proof (cases "rb_too_late_packet_drop rb \<and> fold (late_step rb) (too_late_packets rb now) None \<noteq> None")
  case True
  then obtain s t where st: "fold (late_step rb) (too_late_packets rb now) None = Some (s, t)" by auto
  obtain n where n: "too_late_packets rb now = take n (rb_buffer rb)" using too_late_prefix by blast
  obtain j d where j: "j < length (too_late_packets rb now)" "rb_buffer rb ! j = BP_Received d"
      "s = dp_seq_number d"
    using late_last [OF st] n by auto
  then have jl: "j < length (rb_buffer rb)" using n by simp
  have v: "seq_valid (rb_seqno0 rb)" using assms(1) by (simp add: rb_aligned_def)
  have s: "seq_add s 1 = seq_add (rb_seqno0 rb) (of_nat (Suc j))"
    using rb_aligned_nth [OF assms(1) jl] j by (simp add: seq.add_add add.commute)
  let ?rb = "rb\<lparr>rb_seqno0 := seq_add (rb_seqno0 rb) (of_nat (Suc j)), rb_buffer := drop (Suc j) (rb_buffer rb)\<rparr>"
  show ?thesis
  proof (cases "unat (rb_seqno0 rb) + Suc j < 2 ^ 31")
    case nw: True
    have "rb_aligned ?rb"
      using aligned_drop [OF assms(1), of "Suc j"] jl assms(1) by (auto simp: rb_aligned_def simp del: of_nat_Suc)
    then have "recalculate_lrsn ?rb 0 = Ok (rb_advance (Suc j) rb)"
      using recalculate_lrsn_Ok [of ?rb 0] by (simp add: rb_advance_def rb_with_def del: of_nat_Suc)
    then show ?thesis
      using True st j jl s saturating_sub_no_wrap [OF v nw]
      by (auto simp: drop_too_late_packets_def Let_def simp del: of_nat_Suc)
  next
    case False
    let ?rb = "rb\<lparr>rb_seqno0 := seq_add (rb_seqno0 rb) (of_nat (Suc j))\<rparr>"
    have l: "j < 2 ^ 30" "length (rb_buffer rb) < 2 ^ 32"
      using jl rb_aligned_len [OF assms(1)] by simp_all
    then have "unat (seq_add (rb_seqno0 rb) (of_nat (Suc j))) \<le> unat (rb_seqno0 rb)"
      using seq_add_past_wrap [OF v] False by blast
    then have z: "seq_saturating_sub (seq_add (rb_seqno0 rb) (of_nat (Suc j))) (rb_seqno0 rb) = 0"
      by (simp add: seq_saturating_sub_def)
    have "\<exists>lrsn. recalculate_lrsn ?rb 0 = Ok (?rb\<lparr>rb_lrsn := lrsn\<rparr>)"
      using l(2) by (auto simp: recalculate_lrsn_def next_packet_dsn_def split: list.split)
    then show ?thesis
      using True st j z s False
      by (auto simp: drop_too_late_packets_def Let_def simp del: of_nat_Suc)
  qed
next
  case False
  then have "drop_too_late_packets rb now = (Ok None, rb)"
    by (cases "rb_too_late_packet_drop rb"; cases "fold (late_step rb) (too_late_packets rb now) None")
      (simp_all add: drop_too_late_packets_def)
  then show ?thesis ..
qed

lemma pop_cases:
  assumes "rb_inv rb"
  obtains (none) "pop_next_message rb now = (Ok None, rb)"
  | (released) k ts t clock where "k \<le> length (rb_buffer rb)" "complete_message (take k (rb_buffer rb))"
      "front_ts rb = Some ts" "clock_instant_from (rb_remote_clock rb) ts + int (rb_tsbpd_latency rb) \<le> now"
      "clock_monotonic_instant_from (rb_remote_clock rb) ts = (t, clock)"
      "pop_next_message rb now = (Ok (Some (t, message_bytes (take k (rb_buffer rb)))),
         rb_advance k (rb\<lparr>rb_remote_clock := clock\<rparr>))"
  | (given_up) j d delay rb' where "j < length (too_late_packets rb now)" "rb_buffer rb ! j = BP_Received d"
      "pop_next_message rb now =
        (Err \<lparr>me_too_late_packets = (rb_seqno0 rb, seq_add (rb_seqno0 rb) (of_nat (Suc j))), me_delay = delay\<rparr>, rb')"
      "unat (rb_seqno0 rb) + Suc j < 2 ^ 31 \<longrightarrow> rb' = rb_advance (Suc j) rb"
proof -
  have al: "rb_aligned rb" using assms(1) by (simp add: rb_inv_def)
  have late: thesis if eq: "pop_next_message rb now = drop_too_late_packets rb now"
    using drop_too_late_cases [OF al, of now]
  proof (elim disjE exE conjE)
    assume "drop_too_late_packets rb now = (Ok None, rb)"
    with eq show thesis by (intro none) simp
  next
    fix j d delay rb'
    assume "j < length (too_late_packets rb now)" "rb_buffer rb ! j = BP_Received d"
      "unat (rb_seqno0 rb) + Suc j < 2 ^ 31 \<longrightarrow> rb' = rb_advance (Suc j) rb"
      "drop_too_late_packets rb now =
        (Err \<lparr>me_too_late_packets = (rb_seqno0 rb, seq_add (rb_seqno0 rb) (of_nat (Suc j))), me_delay = delay\<rparr>, rb')"
    with eq show thesis by (intro given_up) (simp_all del: of_nat_Suc)
  qed
  show thesis
  proof (cases "front_ts rb")
    case None
    then show thesis by (intro late) (simp add: pop_next_message_def)
  next
    case (Some ts)
    show thesis
    proof (cases "now < clock_instant_from (rb_remote_clock rb) ts + int (rb_tsbpd_latency rb)")
      case True
      then show thesis using Some none by (simp add: pop_next_message_def)
    next
      case time: False
      obtain t clock where c: "clock_monotonic_instant_from (rb_remote_clock rb) ts = (t, clock)"
        by (cases "clock_monotonic_instant_from (rb_remote_clock rb) ts")
      show thesis
      proof (cases "next_message_packet_count rb")
        case None
        then show thesis using Some time by (intro late) (simp add: pop_next_message_def)
      next
        case (Some k)
        then have k: "k \<le> length (rb_buffer rb)" "complete_message (take k (rb_buffer rb))"
          by (auto simp: packet_count_complete)
        show thesis
          using released [OF k \<open>front_ts rb = Some ts\<close> _ c] pop_complete [OF assms(1) k \<open>front_ts rb = Some ts\<close> _ c]
            time by simp
      qed
    qed
  qed
qed

section \<open>Loss reports and drop requests\<close>

lemma received_prefix_map:
  "map data_packet bs = map data_packet cs \<Longrightarrow> received_prefix bs = received_prefix cs"
proof -
  have "received_prefix bs = length (takeWhile (\<lambda>d. d \<noteq> None) (map data_packet bs))" for bs
    by (simp add: received_prefix_def takeWhile_map comp_def)
  then show "map data_packet bs = map data_packet cs \<Longrightarrow> ?thesis" by simp
qed

lemma rb_inv_relabel:
  assumes "rb_inv rb" "map data_packet bs = map data_packet (rb_buffer rb)"
    "map data_sequence_number bs = map data_sequence_number (rb_buffer rb)"
  shows "rb_inv (rb\<lparr>rb_buffer := bs\<rparr>)"
  using assms received_prefix_map [OF assms(2)] map_eq_imp_length_eq [OF assms(2)]
  by (simp add: rb_inv_def rb_aligned_def rb_acked_def)

lemma feed_back_same:
  "data_packet (feed_back now mean p) = data_packet p"
  "data_sequence_number (feed_back now mean p) = data_sequence_number p"
  by (cases p; simp add: feed_back_def)+

lemma drop_unreceived_same:
  "data_packet (snd (drop_unreceived p)) = data_packet p"
  "data_sequence_number (snd (drop_unreceived p)) = data_sequence_number p"
  by (cases p; simp)+

lemma map_take_drop_middle:
  assumes "map f (map g (drop i (take j xs))) = map f (drop i (take j xs))" "i \<le> j"
  shows "map f (take i xs @ map g (drop i (take j xs)) @ drop j xs) = map f xs"
proof -
  have "take i xs @ drop i (take j xs) = take j xs"
    using assms(2) by (metis append_take_drop_id min_def take_take)
  then have "map f xs = map f (take i xs @ drop i (take j xs) @ drop j xs)"
    by (metis append.assoc append_take_drop_id)
  then show ?thesis using assms(1) by simp
qed

lemma prepare_loss_list_inv:
  assumes "rb_inv rb" "prepare_loss_list rb now mean = (r, rb')"
  shows "rb_inv rb'"
proof -
  let ?i = "lost_list_index rb" and ?bs = "rb_buffer rb"
  have m: "map f (take ?i ?bs @ map (feed_back now mean) (drop ?i ?bs)) = map f ?bs"
    if "\<And>p. f (feed_back now mean p) = f p" for f :: "BufferPacket \<Rightarrow> 'b"
    using that map_append [of f "take ?i ?bs" "drop ?i ?bs"] by (simp add: comp_def)
  have "rb' = rb\<lparr>rb_buffer := take ?i ?bs @ map (feed_back now mean) (drop ?i ?bs)\<rparr>"
    using assms(2) by (auto simp: prepare_loss_list_def Let_def)
  then show ?thesis
    using m [of data_packet] m [of data_sequence_number] feed_back_same assms(1)
    by (auto intro!: rb_inv_relabel)
qed

lemma drop_packets_inv:
  assumes "rb_inv rb" "drop_packets rb start end = (r, rb')"
  shows "rb_inv rb'"
proof (cases "clamped_index_for_seqno rb end < clamped_index_for_seqno rb start")
  case True
  then show ?thesis using assms by (auto simp: drop_packets_def)
next
  case False
  let ?i = "clamped_index_for_seqno rb start" and ?j = "clamped_index_for_seqno rb end"
    and ?bs = "rb_buffer rb"
  have "map f (take ?i ?bs @ map (snd \<circ> drop_unreceived) (drop ?i (take ?j ?bs)) @ drop ?j ?bs) = map f ?bs"
    if "\<And>p. f (snd (drop_unreceived p)) = f p" for f :: "BufferPacket \<Rightarrow> 'b"
    using that False by (intro map_take_drop_middle) auto
  note m = this
  have "rb' = rb\<lparr>rb_buffer := take ?i ?bs @ map (snd \<circ> drop_unreceived) (drop ?i (take ?j ?bs)) @ drop ?j ?bs\<rparr>"
    using assms(2) False by (auto simp: drop_packets_def Let_def)
  then show ?thesis
    using m [of data_packet] m [of data_sequence_number] drop_unreceived_same assms(1)
    by (auto intro!: rb_inv_relabel)
qed

text \<open>The numbers that a loss report names: the lost entries that are due again.\<close>

definition due_losses :: "'s ReceiveBuffer \<Rightarrow> instant \<Rightarrow> TimeSpan \<Rightarrow> SeqNumber list" where
  "due_losses rb now mean =
     map data_sequence_number (filter (\<lambda>p. lost_ready_for_feedback p now mean \<noteq> None) (rb_buffer rb))"

lemma map_filter_ready:
  "map lost_data_sequence_number (List.map_filter (\<lambda>p. lost_ready_for_feedback p now mean) ps)
    = map data_sequence_number (filter (\<lambda>p. lost_ready_for_feedback p now mean \<noteq> None) ps)"
proof (induction ps)
  case (Cons p ps)
  then show ?case by (cases p) (auto simp: List.map_filter_simps)
qed (simp add: List.map_filter_simps)

lemma ready_not_data: "data_packet p \<noteq> None \<Longrightarrow> lost_ready_for_feedback p now mean = None"
  by (cases p) auto

lemma loss_list_due:
  "map lost_data_sequence_number (List.map_filter (\<lambda>p. lost_ready_for_feedback p now mean)
      (drop (lost_list_index rb) (rb_buffer rb))) = due_losses rb now mean"
proof -
  let ?bs = "rb_buffer rb" and ?R = "\<lambda>p. lost_ready_for_feedback p now mean \<noteq> None"
  have "filter ?R (take (lost_list_index rb) ?bs) = []"
    using ready_not_data
    by (auto simp: filter_empty_conv lost_list_index_def dest!: set_takeWhileD simp flip: takeWhile_eq_take)
  then have "filter ?R ?bs = filter ?R (drop (lost_list_index rb) ?bs)"
    using filter_append [of ?R "take (lost_list_index rb) ?bs" "drop (lost_list_index rb) ?bs"] by simp
  then show ?thesis by (simp add: map_filter_ready due_losses_def)
qed

lemma seqs_from_sorted:
  assumes "seq_valid s" "n \<le> 2 ^ 30"
  shows "sorted_wrt seq_lt (seqs_from s n)"
  using assms by (auto simp: sorted_wrt_iff_nth_less seqs_from_nth mod_lt_def seq_cmp_offsets)

lemma sorted_wrt_due:
  assumes "rb_aligned rb" "sorted_wrt P (seqs_from (rb_seqno0 rb) (length (rb_buffer rb)))"
  shows "sorted_wrt P (due_losses rb now mean)"
proof -
  have "sorted_wrt P (map data_sequence_number (rb_buffer rb))"
    using assms by (simp add: rb_aligned_def)
  then show ?thesis
    unfolding due_losses_def sorted_wrt_map by (rule sorted_wrt_filter)
qed

lemma due_losses_valid: "rb_aligned rb \<Longrightarrow> \<forall>s \<in> set (due_losses rb now mean). seq_valid s"
proof -
  assume al: "rb_aligned rb"
  have "set (due_losses rb now mean) \<subseteq> set (seqs_from (rb_seqno0 rb) (length (rb_buffer rb)))"
    using al unfolding due_losses_def rb_aligned_def by (metis filter_is_subset image_mono list.set_map)
  moreover have "\<forall>s \<in> set (seqs_from (rb_seqno0 rb) n). seq_valid s" for n
    by (auto simp: seqs_from_def)
  ultimately show ?thesis by blast
qed

lemma prepare_loss_list_reports:
  assumes "rb_aligned rb"
  shows "due_losses rb now mean = [] \<Longrightarrow> fst (prepare_loss_list rb now mean) = Ok None"
    and "due_losses rb now mean \<noteq> [] \<Longrightarrow>
      \<exists>ll. fst (prepare_loss_list rb now mean) = Ok (Some ll)
        \<and> (wraps (due_losses rb now mean) = 0 \<longrightarrow> iter_decompressed ll = Ok (due_losses rb now mean))"
proof -
  let ?l = "due_losses rb now mean"
  have v: "seq_valid (rb_seqno0 rb)" using assms(1) by (simp add: rb_aligned_def)
  have f: "fst (prepare_loss_list rb now mean) = try_from_iter ?l"
    by (simp add: prepare_loss_list_def Let_def loss_list_due)
  show "?l = [] \<Longrightarrow> fst (prepare_loss_list rb now mean) = Ok None"
    unfolding f using compress_collect_done [of None] by (simp add: try_from_iter_def compress_loss_list_def)
  have s: "successively seq_lt ?l"
    using sorted_wrt_due [OF assms(1) seqs_from_sorted [OF v]] rb_aligned_len [OF assms(1)]
    by (intro successively_if_sorted_wrt) simp
  assume ne: "?l \<noteq> []"
  then have "\<exists>ll. try_from_iter ?l = Ok (Some ll)"
    using s try_from_iter_compress_from by (cases ?l) auto
  then show "\<exists>ll. fst (prepare_loss_list rb now mean) = Ok (Some ll)
      \<and> (wraps ?l = 0 \<longrightarrow> iter_decompressed ll = Ok ?l)"
    unfolding f using try_from_iter_roundtrip [OF due_losses_valid [OF assms(1)] s ne] by fastforce
qed

end
