(* ===== verification/Receive_Window.thy ===== *)
theory Receive_Window
  imports Receive_Release
begin

text \<open>
  The receive buffer as a state machine: its steps are the operations of theories \<open>Receive_Buffer\<close> and
  \<open>Receive_Release\<close>, in any order and with any arguments. It keeps its invariant, and it implements
  the window over unbounded positions, whose steps are stated first.
\<close>

section \<open>The specification\<close>

definition w_advance :: "nat \<Rightarrow> Window \<Rightarrow> Window" where
  "w_advance k w = w\<lparr>w_start := w_start w + k,
     w_got := (\<lambda>n. if n < w_start w + k then None else w_got w n),
     w_gone := {n \<in> w_gone w. w_start w + k \<le> n}\<rparr>"

inductive w_step :: "nat \<Rightarrow> Window \<Rightarrow> Window \<Rightarrow> bool" for capacity where
  w_receive: "w_push capacity n data w = Some w' \<Longrightarrow> w_step capacity w w'"
| w_release: "w_start w + k \<le> w_next w \<Longrightarrow> w_step capacity w (w_advance k w)"
| w_give_up: "(\<And>n. n \<in> S \<Longrightarrow> w_start w \<le> n \<and> n < w_next w \<and> w_got w n = None) \<Longrightarrow>
    w_step capacity w (w\<lparr>w_gone := w_gone w \<union> S\<rparr>)"

inductive_cases w_stepE: "w_step capacity w w'"

lemma w_stay: "w_step capacity w w"
  using w_give_up [of "{}" w capacity] by simp

text \<open>What was received stays, with its data, until it is released.\<close>

definition w_kept :: "Window \<Rightarrow> Window \<Rightarrow> bool" where
  "w_kept w w' \<longleftrightarrow> w_start w \<le> w_start w'
     \<and> (\<forall>n d. w_got w n = Some d \<longrightarrow> w_start w' \<le> n \<longrightarrow> w_got w' n = Some d)"

lemma w_kept_refl: "w_kept w w"
  by (simp add: w_kept_def)

lemma w_kept_step: "w_kept a b \<Longrightarrow> w_step capacity b c \<Longrightarrow> w_kept a c"
  by (erule w_stepE) (auto simp: w_kept_def w_push_def w_advance_def split: if_splits)

section \<open>The steps of the buffer\<close>

text \<open>A message is taken from the buffer, and packets that are too late are given up on the way. The one
  case that breaks the buffer is that the packets given up reach past the wrap-around point, so that
  the number after them is not above the first one of the buffer (claim
  \<open>late_drop_across_wrap_keeps_packets\<close>).\<close>

definition drops_past_wrap :: "'s ReceiveBuffer \<Rightarrow> instant \<Rightarrow> bool" where
  "drops_past_wrap rb now \<longleftrightarrow>
     (case fst (pop_next_message rb now) of
        Err e \<Rightarrow> unat (snd (me_too_late_packets e)) \<le> unat (rb_seqno0 rb)
      | _ \<Rightarrow> False)"

text \<open>The state carries the position of the first entry, which the code does not store. Every call of
  the operations is a step, with any arguments and with the buffer anywhere in the number space, except
  for a call that gives up packets past the wrap-around point.\<close>

inductive rx_step ::
  "'s OnlineStatsOps \<Rightarrow> nat \<times> 's ReceiveBuffer \<Rightarrow> nat \<times> 's ReceiveBuffer \<Rightarrow> bool" for os where
  rx_push: "seq_valid (dp_seq_number data) \<Longrightarrow> push_packet rb now data = (r, rb') \<Longrightarrow>
    rx_step os (start, rb) (start, rb')"
| rx_pop: "\<not> drops_past_wrap rb now \<Longrightarrow> pop_next_message rb now = (m, rb') \<Longrightarrow>
    rx_step os (start, rb) (start + (length (rb_buffer rb) - length (rb_buffer rb')), rb')"
| rx_nak: "prepare_loss_list rb now mean = (l, rb') \<Longrightarrow> rx_step os (start, rb) (start, rb')"
| rx_drop: "drop_packets rb a b = (c, rb') \<Longrightarrow> rx_step os (start, rb) (start, rb')"
| rx_sync: "rb_synchronize_clock os rb now ts = (adj, rb') \<Longrightarrow> rx_step os (start, rb) (start, rb')"

inductive_cases rx_stepE: "rx_step os s t"

definition rx_init :: "nat \<Rightarrow> nat \<times> 's ReceiveBuffer \<Rightarrow> bool" where
  "rx_init capacity s \<longleftrightarrow> (\<exists>t latency drop size.
     snd s = rb_new t latency drop (seq_of (fst s)) size \<and> unat size = capacity \<and> capacity < 2 ^ 30)"

definition rx_inv :: "nat \<Rightarrow> nat \<times> 's ReceiveBuffer \<Rightarrow> bool" where
  "rx_inv capacity s \<longleftrightarrow> rb_inv (snd s) \<and> rb_seqno0 (snd s) = seq_of (fst s)
     \<and> unat (rb_max_buffer_size (snd s)) = capacity"

definition rx_window :: "nat \<times> 's ReceiveBuffer \<Rightarrow> Window" where
  "rx_window s = rb_window (fst s) (snd s)"

lemma rx_init_inv: "rx_init capacity s \<Longrightarrow> rx_inv capacity s"
  by (cases s) (auto simp: rx_init_def rx_inv_def rb_new_def rb_inv_def rb_aligned_def rb_acked_def seq.add_zero
      unat_seq_of)

section \<open>Each step is a step of the specification\<close>

lemma rb_window_advance:
  "k \<le> length (rb_buffer rb) \<Longrightarrow> rb_window (start + k) (rb_advance k rb) = w_advance k (rb_window start rb)"
  by (auto simp: rb_window_def w_advance_def fun_eq_iff)

lemma rb_window_clock: "rb_window start (rb\<lparr>rb_remote_clock := c\<rparr>) = rb_window start rb"
  by (simp add: rb_window_def fun_eq_iff)

lemma sim_push:
  assumes "rx_inv capacity (start, rb)" "seq_valid (dp_seq_number data)" "push_packet rb now data = (r, rb')"
  shows "rx_inv capacity (start, rb') \<and> w_step capacity (rb_window start rb) (rb_window start rb')"
proof -
  have inv: "rb_inv rb" and s: "rb_seqno0 rb = seq_of start" and c: "unat (rb_max_buffer_size rb) = capacity"
    using assms(1) by (auto simp: rx_inv_def)
  have al: "rb_aligned rb" using inv by (simp add: rb_inv_def)
  have inv': "rb_inv rb'" using push_packet_inv [OF inv assms(2,3)] by blast
  show ?thesis
  proof (rule seq_positions [of "rb_seqno0 rb" "dp_seq_number data" "length (rb_buffer rb)"])
    show "seq_valid (rb_seqno0 rb)" "seq_valid (dp_seq_number data)" "length (rb_buffer rb) < 2 ^ 30"
      using s assms(2) rb_aligned_len [OF al] by simp_all
  next
    fix i assume i: "dp_seq_number data = seq_add (rb_seqno0 rb) (of_nat i)" "i < length (rb_buffer rb) + 2 ^ 30"
    have d: "dp_seq_number data = seq_of (start + i)" using i s by (simp add: seq_of_add)
    show ?thesis
      using push_packet_window [OF inv s d, of now] i(2) rb_aligned_len [OF al] assms(1,3) inv' c
      by (auto simp: rx_inv_def intro: w_stay w_receive split: option.splits)
  next
    fix j assume "seq_add (dp_seq_number data) (of_nat j) = rb_seqno0 rb" "0 < j"
      "j + length (rb_buffer rb) \<le> 2 ^ 30"
    then show ?thesis
      using push_packet_before [OF inv assms(2), of j now] assms(1,3) by (auto intro: w_stay)
  qed
qed

lemma sim_advance:
  assumes "rx_inv capacity (start, rb)" "k \<le> length (rb_buffer rb)"
  shows "rx_inv capacity (start + k, rb_advance k rb)
    \<and> w_step capacity (rb_window start rb) (rb_window (start + k) (rb_advance k rb))"
proof -
  have al: "rb_aligned rb" and s: "rb_seqno0 rb = seq_of start" and c: "unat (rb_max_buffer_size rb) = capacity"
    using assms(1) by (auto simp: rx_inv_def rb_inv_def)
  have "w_step capacity (rb_window start rb) (w_advance k (rb_window start rb))"
    using assms(2) by (intro w_release) (simp add: rb_window_def)
  then show ?thesis
    using rb_inv_advance [OF al assms(2)] s c rb_window_advance [OF assms(2), of start]
    by (simp add: rx_inv_def seq_of_add)
qed

lemma sim_pop:
  assumes "rx_inv capacity (start, rb)" "\<not> drops_past_wrap rb now"
    "pop_next_message rb now = (m, rb')"
  shows "rx_inv capacity (start + (length (rb_buffer rb) - length (rb_buffer rb')), rb')
    \<and> w_step capacity (rb_window start rb)
        (rb_window (start + (length (rb_buffer rb) - length (rb_buffer rb'))) rb')"
proof -
  have inv: "rb_inv rb" using assms(1) by (simp add: rx_inv_def)
  show ?thesis
  proof (rule pop_cases [OF inv, of now])
    assume "pop_next_message rb now = (Ok None, rb)"
    then show ?thesis using assms(1,3) by (simp add: w_stay)
  next
    fix k ts t clock
    assume k: "k \<le> length (rb_buffer rb)" and p: "pop_next_message rb now =
      (Ok (Some (t, message_bytes (take k (rb_buffer rb)))), rb_advance k (rb\<lparr>rb_remote_clock := clock\<rparr>))"
    have "rx_inv capacity (start, rb\<lparr>rb_remote_clock := clock\<rparr>)"
      using assms(1) by (simp add: rx_inv_def rb_inv_def rb_aligned_def rb_acked_def)
    from sim_advance [OF this, of k] k p assms(3) show ?thesis
      by (auto simp: rb_window_clock)
  next
    fix j d delay rb''
    assume j: "j < length (too_late_packets rb now)" and p: "pop_next_message rb now =
      (Err \<lparr>me_too_late_packets = (rb_seqno0 rb, seq_add (rb_seqno0 rb) (of_nat (Suc j))), me_delay = delay\<rparr>, rb'')"
      and a: "unat (rb_seqno0 rb) + Suc j < 2 ^ 31 \<longrightarrow> rb'' = rb_advance (Suc j) rb"
    have l: "Suc j \<le> length (rb_buffer rb)"
      using j too_late_prefix [of rb now] by auto
    have al: "rb_aligned rb" using inv by (simp add: rb_inv_def)
    have "unat (rb_seqno0 rb) + Suc j < 2 ^ 31"
      using assms(2) p rb_aligned_len [OF al] l al
      by (intro seq_add_past_wrap) (auto simp: drops_past_wrap_def rb_aligned_def simp del: of_nat_Suc)
    then have "rb' = rb_advance (Suc j) rb" using a p assms(3) by simp
    with sim_advance [OF assms(1) l] l show ?thesis by simp
  qed
qed

lemma window_relabel:
  assumes "map data_packet bs = map data_packet (rb_buffer rb)"
    and "\<And>i s. i < length bs \<Longrightarrow> rb_buffer rb ! i = BP_Dropped s \<Longrightarrow> \<exists>s'. bs ! i = BP_Dropped s'"
  shows "w_step capacity (rb_window start rb) (rb_window start (rb\<lparr>rb_buffer := bs\<rparr>))"
proof -
  let ?w = "rb_window start rb" and ?w' = "rb_window start (rb\<lparr>rb_buffer := bs\<rparr>)"
  have len: "length bs = length (rb_buffer rb)"
    using assms(1) by (rule map_eq_imp_length_eq)
  have d: "data_packet (bs ! i) = data_packet (rb_buffer rb ! i)" if "i < length bs" for i
    using that assms(1) len by (metis nth_map)
  have "w_got ?w' = w_got ?w" using len d by (auto simp: rb_window_def fun_eq_iff)
  moreover have "w_start ?w' = w_start ?w" "w_next ?w' = w_next ?w" using len by (simp_all add: rb_window_def)
  moreover have "w_gone ?w' = w_gone ?w \<union> (w_gone ?w')" using len assms(2) by (auto simp: rb_window_def)
  ultimately have "?w' = ?w\<lparr>w_gone := w_gone ?w \<union> w_gone ?w'\<rparr>" by (cases ?w; cases ?w') simp
  moreover have "w_start ?w \<le> n \<and> n < w_next ?w \<and> w_got ?w n = None" if "n \<in> w_gone ?w'" for n
  proof -
    obtain s where n: "start \<le> n" "n < start + length bs" "bs ! (n - start) = BP_Dropped s"
      using \<open>n \<in> w_gone ?w'\<close> by (auto simp: rb_window_def)
    then have "data_packet (rb_buffer rb ! (n - start)) = None"
      using d [of "n - start"] by simp
    then show ?thesis using n len by (simp add: rb_window_def)
  qed
  ultimately show ?thesis using w_give_up [of "w_gone ?w'" ?w capacity] by simp
qed

lemma prepare_loss_list_data:
  "prepare_loss_list rb now mean = (l, rb') \<Longrightarrow> map data_packet (rb_buffer rb') = map data_packet (rb_buffer rb)"
proof -
  let ?i = "lost_list_index rb" and ?bs = "rb_buffer rb"
  assume "prepare_loss_list rb now mean = (l, rb')"
  then have "rb_buffer rb' = take ?i ?bs @ map (feed_back now mean) (drop ?i ?bs)"
    by (auto simp: prepare_loss_list_def Let_def)
  moreover have "map data_packet (take ?i ?bs @ map (feed_back now mean) (drop ?i ?bs)) =
      map data_packet (take ?i ?bs @ drop ?i ?bs)"
    using feed_back_same(1) by (simp add: comp_def del: append_take_drop_id)
  ultimately show ?thesis by simp
qed

lemma sim_nak:
  assumes "rx_inv capacity (start, rb)" "prepare_loss_list rb now mean = (l, rb')"
  shows "rx_inv capacity (start, rb') \<and> w_step capacity (rb_window start rb) (rb_window start rb')"
proof -
  let ?i = "lost_list_index rb" and ?bs = "rb_buffer rb"
  let ?bs' = "take ?i ?bs @ map (feed_back now mean) (drop ?i ?bs)"
  have rb': "rb' = rb\<lparr>rb_buffer := ?bs'\<rparr>" using assms(2) by (auto simp: prepare_loss_list_def Let_def)
  have "map data_packet ?bs' = map data_packet ?bs" using prepare_loss_list_data [OF assms(2)] rb' by simp
  moreover have "\<exists>s'. ?bs' ! i = BP_Dropped s'" if "i < length ?bs'" "?bs ! i = BP_Dropped s" for i s
    using that by (cases "i < length (take ?i ?bs)") (auto simp: nth_append feed_back_def)
  ultimately have "w_step capacity (rb_window start rb) (rb_window start rb')"
    unfolding rb' by (intro window_relabel) auto
  moreover have "rx_inv capacity (start, rb')"
    using prepare_loss_list_inv [OF _ assms(2)] assms(1) rb' by (auto simp: rx_inv_def)
  ultimately show ?thesis by blast
qed

lemma drop_packets_nth:
  assumes "drop_packets rb a b = (c, rb')" "i < length (rb_buffer rb)"
  shows "length (rb_buffer rb') = length (rb_buffer rb)
    \<and> (rb_buffer rb' ! i = rb_buffer rb ! i \<or> rb_buffer rb' ! i = snd (drop_unreceived (rb_buffer rb ! i)))"
proof (cases "clamped_index_for_seqno rb b < clamped_index_for_seqno rb a")
  case True
  then show ?thesis using assms by (auto simp: drop_packets_def)
next
  case False
  let ?i = "clamped_index_for_seqno rb a" and ?j = "clamped_index_for_seqno rb b" and ?bs = "rb_buffer rb"
  have le: "?i \<le> length ?bs" "?j \<le> length ?bs" by (simp_all add: clamped_index_for_seqno_def)
  have rb': "rb_buffer rb' = take ?i ?bs @ map (snd \<circ> drop_unreceived) (drop ?i (take ?j ?bs)) @ drop ?j ?bs"
    using assms(1) False by (auto simp: drop_packets_def Let_def)
  consider "i < ?i" | "?i \<le> i" "i < ?j" | "?j \<le> i" "?i \<le> i" by linarith
  then show ?thesis
    using False le assms(2) by cases (auto simp: rb' nth_append)
qed

lemma drop_packets_data:
  assumes "drop_packets rb a b = (c, rb')"
  shows "map data_packet (rb_buffer rb') = map data_packet (rb_buffer rb)"
proof (rule nth_equalityI)
  show len: "length (map data_packet (rb_buffer rb')) = length (map data_packet (rb_buffer rb))"
    using assms by (auto simp: drop_packets_def Let_def clamped_index_for_seqno_def split: if_splits)
  fix i assume "i < length (map data_packet (rb_buffer rb'))"
  then show "map data_packet (rb_buffer rb') ! i = map data_packet (rb_buffer rb) ! i"
    using drop_packets_nth [OF assms, of i] len by (auto simp: drop_unreceived_same)
qed

lemma sim_drop:
  assumes "rx_inv capacity (start, rb)" "drop_packets rb a b = (c, rb')"
  shows "rx_inv capacity (start, rb') \<and> w_step capacity (rb_window start rb) (rb_window start rb')"
proof -
  have u: "rb' = rb\<lparr>rb_buffer := rb_buffer rb'\<rparr>"
    using assms(2) by (auto simp: drop_packets_def Let_def split: if_splits)
  have n: "i < length (rb_buffer rb) \<Longrightarrow> length (rb_buffer rb') = length (rb_buffer rb)
    \<and> (rb_buffer rb' ! i = rb_buffer rb ! i \<or> rb_buffer rb' ! i = snd (drop_unreceived (rb_buffer rb ! i)))" for i
    using drop_packets_nth [OF assms(2)] by blast
  have len: "length (rb_buffer rb') = length (rb_buffer rb)"
    using assms(2) by (auto simp: drop_packets_def Let_def clamped_index_for_seqno_def split: if_splits)
  have "map data_packet (rb_buffer rb') = map data_packet (rb_buffer rb)"
    using drop_packets_data [OF assms(2)] .
  moreover have "\<exists>s'. rb_buffer rb' ! i = BP_Dropped s'"
    if "i < length (rb_buffer rb')" "rb_buffer rb ! i = BP_Dropped s" for i s
    using n [of i] that len by auto
  ultimately have "w_step capacity (rb_window start rb) (rb_window start (rb\<lparr>rb_buffer := rb_buffer rb'\<rparr>))"
    by (rule window_relabel)
  moreover have "rb_inv rb'" using drop_packets_inv [OF _ assms(2)] assms(1) by (simp add: rx_inv_def)
  moreover have "rb_seqno0 rb' = rb_seqno0 rb" "rb_max_buffer_size rb' = rb_max_buffer_size rb"
    by (subst u, simp)+
  ultimately show ?thesis using assms(1) u by (simp add: rx_inv_def)
qed

lemma sim_sync:
  assumes "rx_inv capacity (start, rb)" "rb_synchronize_clock os rb now ts = (adj, rb')"
  shows "rx_inv capacity (start, rb') \<and> w_step capacity (rb_window start rb) (rb_window start rb')"
proof -
  obtain c where "rb' = rb\<lparr>rb_remote_clock := c\<rparr>"
    using assms(2) by (auto simp: rb_synchronize_clock_def split: prod.splits)
  then show ?thesis using assms(1)
    by (simp add: rb_window_clock w_stay rx_inv_def rb_inv_def rb_aligned_def rb_acked_def)
qed

lemma rx_step_sim:
  assumes "rx_inv capacity s" "rx_step os s t"
  shows "rx_inv capacity t \<and> w_step capacity (rx_window s) (rx_window t)"
  using assms(2,1)
  by cases (auto simp: rx_window_def dest: sim_push sim_pop sim_nak sim_drop sim_sync)

interpretation rx: refinement_system "rx_init capacity" "rx_step os" "rx_inv capacity" rx_window "w_step capacity"
  for capacity os
  by unfold_locales (auto intro: rx_init_inv dest: rx_step_sim)

section \<open>Properties\<close>

definition sample_buffer :: "unit ReceiveBuffer" where
  "sample_buffer = rb_new 0 1000000 True (seq_of 5) 8"

definition sample_after :: "unit ReceiveBuffer" where
  "sample_after = snd (push_packet sample_buffer 0 sample_packet)"

lemma sample_init: "rx_init 8 (5, sample_buffer)"
  by (auto simp: rx_init_def sample_buffer_def intro!: exI)

lemma sample_step: "(rx_step os)\<^sup>*\<^sup>* (5, sample_buffer) (5, sample_after)"
proof -
  have "push_packet sample_buffer 0 sample_packet = (fst (push_packet sample_buffer 0 sample_packet), sample_after)"
    by (simp add: sample_after_def)
  then have "rx_step os (5, sample_buffer) (5, sample_after)"
    by (rule rx_push [rotated]) (simp add: sample_packet_def seq_valid_def)
  then show ?thesis by blast
qed

lemma sample_inv: "rb_inv sample_buffer" "rb_inv sample_after"
  "rb_seqno0 sample_buffer = seq_of 5" "rb_seqno0 sample_after = seq_of 5"
  using rx.reachable_inv [OF sample_init, of no_stats "(5, sample_buffer)"]
    rx.reachable_inv [OF sample_init sample_step [of no_stats]]
  by (simp_all add: rx_inv_def)

lemma sample_after_eq: "sample_after = rb_with [BP_Received sample_packet] sample_buffer"
  using push_packet_beyond [OF sample_inv(1), of sample_packet 0 0] sample_inv(3)
  by (auto simp: sample_after_def sample_buffer_def rb_new_def sample_packet_def seq_of_def lost_run_def mod_add_def
      mod_MAX_def)







text \<open>C10: A packet is accepted exactly when its position is in the window and no packet was received or
  given up at that position; then it is stored at that position and nothing else changes. Otherwise an
  error is returned and the buffer is unchanged. The sequence number may be up to half of the number
  space away from the next expected one.\<close>

theorem push_packet_spec:
  assumes "rb_inv rb" "rb_seqno0 rb = seq_of start" "dp_seq_number data = seq_of n"
    "n < start + length (rb_buffer rb) + 2 ^ 30" "start + length (rb_buffer rb) \<le> n + 2 ^ 30"
  shows "case w_push (unat (rb_max_buffer_size rb)) n data (rb_window start rb) of
      None \<Rightarrow> \<exists>e. push_packet rb now data = (Err e, rb)
    | Some w \<Rightarrow> \<exists>a rb'. push_packet rb now data = (Ok a, rb') \<and> rb_window start rb' = w"
  using push_packet_window [OF assms, of now] by (auto split: option.splits)

theorem push_packet_spec_witness:
  "\<exists>a rb'. push_packet sample_buffer 0 sample_packet = (Ok a, rb')
    \<and> w_got (rb_window 5 rb') 5 = Some sample_packet"
proof -
  let ?w = "rb_window 5 sample_buffer"
  have b: "rb_buffer sample_buffer = []" "unat (rb_max_buffer_size sample_buffer) = 8"
    "dp_seq_number sample_packet = seq_of 5"
    by (simp_all add: sample_buffer_def rb_new_def sample_packet_def seq_of_def)
  have w: "w_push 8 5 sample_packet ?w =
      Some (?w\<lparr>w_next := 6, w_got := (w_got ?w)(5 := Some sample_packet)\<rparr>)"
    by (simp add: w_push_def rb_window_def b)
  obtain a rb' where p: "push_packet sample_buffer 0 sample_packet = (Ok a, rb')"
      "rb_window 5 rb' = ?w\<lparr>w_next := 6, w_got := (w_got ?w)(5 := Some sample_packet)\<rparr>"
    using push_packet_spec [OF sample_inv(1,3) b(3), of 0] b w by auto
  have "w_got (rb_window 5 rb') 5 = Some sample_packet" unfolding p(2) by simp
  then show ?thesis using p(1) by blast
qed

text \<open>C11: A message is delivered as soon as it is complete and its time has come: the bytes are those of
  its packets in order, and the buffer moves on by exactly these packets.\<close>

theorem complete_message_released:
  assumes "rb_inv rb" "k \<le> length (rb_buffer rb)" "complete_message (take k (rb_buffer rb))"
    "front_ts rb = Some ts" "clock_instant_from (rb_remote_clock rb) ts + int (rb_tsbpd_latency rb) \<le> now"
  shows "\<exists>t rb'. pop_next_message rb now = (Ok (Some (t, message_bytes (take k (rb_buffer rb)))), rb')
    \<and> rb_buffer rb' = drop k (rb_buffer rb) \<and> rb_inv rb'"
proof -
  obtain t clock where c: "clock_monotonic_instant_from (rb_remote_clock rb) ts = (t, clock)"
    by (cases "clock_monotonic_instant_from (rb_remote_clock rb) ts")
  have "rb_aligned (rb\<lparr>rb_remote_clock := clock\<rparr>)"
    using assms(1) by (simp add: rb_inv_def rb_aligned_def)
  then show ?thesis
    using pop_complete [OF assms c] rb_inv_advance [of "rb\<lparr>rb_remote_clock := clock\<rparr>" k] assms(2) by simp
qed

definition sample_full :: "unit ReceiveBuffer" where
  "sample_full = rb_with [BP_Received (sample_packet\<lparr>dp_message_loc := PL_ONLY\<rparr>)] sample_buffer"

lemma sample_full_inv: "rb_inv sample_full"
  unfolding sample_full_def
  by (rule rb_inv_with [OF sample_inv(1)])
    (simp_all add: sample_inv(3) sample_packet_def seqs_from_def seq.add_zero unat_seq_of seq_of_def,
     simp add: sample_buffer_def rb_new_def)

theorem complete_message_released_witness:
  "\<exists>t rb'. pop_next_message sample_full 2000000 =
      (Ok (Some (t, message_bytes (take 1 (rb_buffer sample_full)))), rb')
    \<and> rb_buffer rb' = drop 1 (rb_buffer sample_full) \<and> rb_inv rb'"
  by (rule complete_message_released [OF sample_full_inv, of 1 7])
    (simp_all add: sample_full_def complete_message_def in_message_def bp_is_last_def flags_contain_def
      PL_ONLY_def PL_FIRST_def PL_LAST_def front_ts_def sample_packet_def sample_buffer_def rb_new_def
      clock_instant_from_def clock_new_def tb_instant_from_def tb_new_def instant_add_span_int)

text \<open>C13: Taking a message never panics, never delivers anything but one complete message whose time has
  come, and never gives up the first packet of a message before the latency and the tolerance have
  passed since the packet was sent. What is given up is a run of numbers from the first of the buffer
  on, and exactly their entries leave the buffer, unless the run reaches past the wrap-around point.\<close>

theorem pop_next_message_safe:
  assumes "rb_inv rb" "pop_next_message rb now = (r, rb')"
  shows "case r of
      Ok None \<Rightarrow> rb' = rb
    | Ok (Some (t, bytes)) \<Rightarrow> \<exists>k ts. k \<le> length (rb_buffer rb) \<and> complete_message (take k (rb_buffer rb))
        \<and> bytes = message_bytes (take k (rb_buffer rb)) \<and> rb_buffer rb' = drop k (rb_buffer rb)
        \<and> front_ts rb = Some ts
        \<and> clock_instant_from (rb_remote_clock rb) ts + int (rb_tsbpd_latency rb) \<le> now
    | Err e \<Rightarrow> \<exists>k. me_too_late_packets e = (rb_seqno0 rb, seq_add (rb_seqno0 rb) (of_nat k))
        \<and> (unat (rb_seqno0 rb) + k < 2 ^ 31 \<longrightarrow> rb_buffer rb' = drop k (rb_buffer rb))
        \<and> (\<forall>d. BP_Received d \<in> set (take k (rb_buffer rb)) \<longrightarrow> flags_contain (dp_message_loc d) PL_FIRST \<longrightarrow>
            clock_instant_from (rb_remote_clock rb) (dp_timestamp d)
              + int (rb_tsbpd_latency rb) + int (rb_tsbpd_tolerance rb) \<le> now)
    | Panic \<Rightarrow> False"
proof (rule pop_cases [OF assms(1), of now])
  assume "pop_next_message rb now = (Ok None, rb)"
  then show ?thesis using assms(2) by simp
next
  fix k ts t clock
  assume "k \<le> length (rb_buffer rb)" "complete_message (take k (rb_buffer rb))" "front_ts rb = Some ts"
    "clock_instant_from (rb_remote_clock rb) ts + int (rb_tsbpd_latency rb) \<le> now"
    "pop_next_message rb now = (Ok (Some (t, message_bytes (take k (rb_buffer rb)))),
       rb_advance k (rb\<lparr>rb_remote_clock := clock\<rparr>))"
  then show ?thesis using assms(2) by (auto intro!: exI [of _ k])
next
  fix j d delay rb''
  assume j: "j < length (too_late_packets rb now)" and p: "pop_next_message rb now =
    (Err \<lparr>me_too_late_packets = (rb_seqno0 rb, seq_add (rb_seqno0 rb) (of_nat (Suc j))), me_delay = delay\<rparr>, rb'')"
    and a: "unat (rb_seqno0 rb) + Suc j < 2 ^ 31 \<longrightarrow> rb'' = rb_advance (Suc j) rb"
  obtain n where n: "too_late_packets rb now = take n (rb_buffer rb)" using too_late_prefix by blast
  then have s: "set (take (Suc j) (rb_buffer rb)) \<subseteq> set (too_late_packets rb now)"
    using j by (simp add: set_take_subset_set_take)
  have "unat (rb_seqno0 rb) + Suc j < 2 ^ 31 \<longrightarrow> rb_buffer rb' = drop (Suc j) (rb_buffer rb)"
    using a p assms(2) by auto
  then show ?thesis
    using s p assms(2) too_late_member [of _ rb now] by (fastforce simp del: of_nat_Suc intro!: exI [of _ "Suc j"])
qed

theorem pop_next_message_safe_witness:
  "\<exists>r rb'. pop_next_message sample_full 2000000 = (r, rb') \<and> r \<noteq> Panic"
proof -
  obtain r rb' where p: "pop_next_message sample_full 2000000 = (r, rb')" by fastforce
  show ?thesis
    using pop_next_message_safe [OF sample_full_inv p] p by auto
qed

text \<open>C23: A loss report names exactly the packets that are lost and due to be reported, in order: the
  list it carries decompresses to their numbers, and there is no report when none is due. Making
  the report never panics. The list decompresses as said wherever the buffer is in the number space,
  as long as the numbers \<open>2 ^ 31 - 1\<close> and \<open>0\<close> are not both in it: a range across that
  point cannot be decompressed.\<close>

theorem loss_report_exact:
  assumes "rb_inv rb"
  shows "if due_losses rb now mean = [] then fst (prepare_loss_list rb now mean) = Ok None
    else \<exists>ll. fst (prepare_loss_list rb now mean) = Ok (Some ll)
      \<and> (wraps (due_losses rb now mean) = 0 \<longrightarrow> iter_decompressed ll = Ok (due_losses rb now mean))"
  using prepare_loss_list_reports [of rb now mean] assms by (simp add: rb_inv_def)

definition sample_lossy :: "unit ReceiveBuffer" where
  "sample_lossy = rb_with [BP_Lost (lost_new 5 0), BP_Lost (lost_new 6 0)] sample_buffer"

lemma sample_lossy_inv: "rb_inv sample_lossy"
  unfolding sample_lossy_def
  by (rule rb_inv_with [OF sample_inv(1)])
    (simp_all add: sample_inv(3) lost_new_def seqs_from_def mod_add_def mod_MAX_def seq_of_def,
     simp add: sample_buffer_def rb_new_def)

theorem loss_report_exact_witness:
  "\<exists>ll. fst (prepare_loss_list sample_lossy 9000 1) = Ok (Some ll) \<and> iter_decompressed ll = Ok [5, 6]"
proof -
  have "due_losses sample_lossy 9000 1 = [5, 6]"
    by (simp add: due_losses_def sample_lossy_def lost_new_def instant_add_span_int span_mul_def)
  then show ?thesis using loss_report_exact [OF sample_lossy_inv, of 9000 1] by simp
qed

text \<open>C35: A drop request makes the receiver panic when its buffer is not empty, the range starts above
  the first sequence number of the buffer and its end, as a number, is not above it: the end has passed
  the wrap-around point, or the range is an inverted one. The end is clamped to the first entry of the
  buffer and the start to a later one, and the standard library refuses such a range of entries.\<close>

theorem drop_request_across_wrap_panics:
  assumes "unat (rb_seqno0 rb) < unat start" "unat end \<le> unat (rb_seqno0 rb)" "rb_buffer rb \<noteq> []"
  shows "fst (drop_packets rb start end) = Panic"
proof -
  have "clamped_index_for_seqno rb end = 0" "0 < clamped_index_for_seqno rb start"
    using assms by (auto simp: clamped_index_for_seqno_def seq_saturating_sub_def)
  then show ?thesis by (simp add: drop_packets_def)
qed

definition wrap_buffer :: "unit ReceiveBuffer" where
  "wrap_buffer = (rb_new 0 0 True 2147483646 8)
     \<lparr>rb_buffer := [BP_Received (sample_packet\<lparr>dp_seq_number := 2147483646\<rparr>), BP_Lost (lost_new 2147483647 0),
        BP_Received (sample_packet\<lparr>dp_seq_number := 0, dp_message_loc := PL_LAST\<rparr>)], rb_lrsn := 2147483647\<rparr>"

theorem drop_request_across_wrap_panics_witness: "fst (drop_packets wrap_buffer 2147483647 1) = Panic"
  by (rule drop_request_across_wrap_panics) (simp_all add: wrap_buffer_def rb_new_def)

text \<open>C37: When the packets that are given up reach past the wrap-around point, the buffer reports them
  as given up and moves its first sequence number, but keeps all of them: its entries no longer
  match its sequence numbers.\<close>

theorem late_drop_across_wrap_keeps_packets:
  assumes "drop_too_late_packets rb now = (Err e, rb')"
    "unat (snd (me_too_late_packets e)) \<le> unat (rb_seqno0 rb)"
  shows "rb_buffer rb' = rb_buffer rb \<and> rb_seqno0 rb' = snd (me_too_late_packets e)"
proof -
  obtain s t where st: "fold (late_step rb) (too_late_packets rb now) None = Some (s, t)"
      "rb_too_late_packet_drop rb"
    using assms(1) by (auto simp: drop_too_late_packets_def split: if_splits option.splits)
  have e: "snd (me_too_late_packets e) = seq_add s 1"
    using assms(1) st by (auto simp: drop_too_late_packets_def Let_def split: if_splits outcome.splits)
  then have "seq_saturating_sub (seq_add s 1) (rb_seqno0 rb) = 0"
    using assms(2) by (simp add: seq_saturating_sub_def)
  then show ?thesis
    using assms(1) st e
    by (auto simp: drop_too_late_packets_def Let_def recalculate_lrsn_def map_outcome_ok_Ok_iff
        split: if_splits outcome.splits list.splits)
qed

theorem late_drop_across_wrap_keeps_packets_witness:
  "\<exists>e rb'. drop_too_late_packets wrap_buffer 1000000000 = (Err e, rb')
    \<and> rb_seqno0 rb' = 1 \<and> rb_buffer rb' = rb_buffer wrap_buffer"
proof -
  define e where "e = \<lparr>me_too_late_packets = (2147483646 :: SeqNumber, 1 :: SeqNumber),
    me_delay = span_from_interval 7000 1000000000\<rparr>"
  define rb' where "rb' = wrap_buffer\<lparr>rb_seqno0 := 1, rb_lrsn := 2147483647\<rparr>"
  have "drop_too_late_packets wrap_buffer 1000000000 = (Err e, rb')"
    by (simp add: drop_too_late_packets_def wrap_buffer_def rb_new_def too_late_packets_def late_step_def
        clock_instant_from_def clock_new_def tb_instant_from_def tb_new_def instant_add_span_int
        sample_packet_def duration_from_millis_def mod_add_def mod_MAX_def seq_saturating_sub_def Let_def
        recalculate_lrsn_def List.map_filter_simps lost_new_def e_def rb'_def)
  then show ?thesis
    using late_drop_across_wrap_keeps_packets [of wrap_buffer 1000000000 e rb']
    by (simp add: e_def wrap_buffer_def rb_new_def)
qed

end
