(* ===== verification/Ack_History.thy ===== *)
theory Ack_History
  imports Control_Packet Reachability
begin

text \<open>
  The acknowledgements that were sent (\<open>protocol/receiver/history.rs\<close>): which acknowledgement to send
  next, and the round trip time measured when the peer confirms one. The entries carry consecutive
  acknowledgement numbers, so that a confirmation finds exactly the acknowledgement it answers.
\<close>

record AckHistoryEntry =
  ahe_data_sequence_number :: SeqNumber
  ahe_ack_sequence_number :: FullAckSeqNumber
  ahe_departure_time :: instant

record AckHistoryWindow =
  ahw_tsbpd_latency :: duration
  ahw_last_ack_dsn :: SeqNumber
  ahw_largest_ack2_dsn :: SeqNumber
  ahw_buffer :: "AckHistoryEntry list"

definition LIGHT_ACK_PACKET_INTERVAL :: u32 where
  "LIGHT_ACK_PACKET_INTERVAL = 64"

definition ahw_new :: "duration \<Rightarrow> SeqNumber \<Rightarrow> AckHistoryWindow" where
  "ahw_new tsbpd_latency initial_dsn =
     \<lparr>ahw_tsbpd_latency = tsbpd_latency, ahw_last_ack_dsn = initial_dsn,
      ahw_largest_ack2_dsn = initial_dsn, ahw_buffer = []\<rparr>"

definition unacked_packet_count :: "AckHistoryWindow \<Rightarrow> SeqNumber \<Rightarrow> u32" where
  "unacked_packet_count self lrsn =
     (if seq_lt lrsn (ahw_largest_ack2_dsn self) then 0 else seq_diff lrsn (ahw_largest_ack2_dsn self))"

definition is_finished :: "AckHistoryWindow \<Rightarrow> SeqNumber \<Rightarrow> bool" where
  "is_finished self lrsn \<longleftrightarrow> ahw_buffer self = [] \<or> \<not> seq_lt lrsn (ahw_largest_ack2_dsn self)"

definition ahw_reset :: "AckHistoryWindow \<Rightarrow> SeqNumber \<Rightarrow> AckHistoryWindow" where
  "ahw_reset self lrsn = self\<lparr>ahw_buffer := [], ahw_largest_ack2_dsn := lrsn\<rparr>"

definition calculate_ack2_rtt ::
  "AckHistoryWindow \<Rightarrow> instant \<Rightarrow> FullAckSeqNumber \<Rightarrow> TimeSpan option \<times> AckHistoryWindow" where
  "calculate_ack2_rtt self now ack_seq_num =
     (let buffer = ahw_buffer self in
      if buffer = [] then (None, self)
      else if ack_seq_num > ahe_ack_sequence_number (last buffer) then (None, self)
      else if ack_seq_num < ahe_ack_sequence_number (hd buffer) then (None, self)
      else
        let index = full_ack_sub ack_seq_num (ahe_ack_sequence_number (hd buffer)) in
        if length buffer \<le> index then (None, self)
        else
          let ack = buffer ! index in
          (Some (span_from_interval (ahe_departure_time ack) now),
           self\<lparr>ahw_largest_ack2_dsn := ahe_data_sequence_number ack\<rparr>))"

definition next_fasn :: "AckHistoryWindow \<Rightarrow> FullAckSeqNumber" where
  "next_fasn self =
     (if ahw_buffer self = [] then FullAck_INITIAL
      else full_ack_add (ahe_ack_sequence_number (last (ahw_buffer self))) 1)"

fun drain_expired :: "instant \<Rightarrow> duration \<Rightarrow> AckHistoryEntry list \<Rightarrow> AckHistoryEntry list" where
  "drain_expired now latency_window (a # b # es) =
     (if now > ahe_departure_time a + int latency_window then drain_expired now latency_window (b # es)
      else a # b # es)"
| "drain_expired now latency_window es = es"

definition is_last_ack_too_recent :: "instant \<Rightarrow> TimeSpan \<Rightarrow> SeqNumber \<Rightarrow> AckHistoryEntry \<Rightarrow> bool" where
  "is_last_ack_too_recent now mean next_dsn lst =
     (let interval = span_from_interval (ahe_departure_time lst) now in
      seq_lt next_dsn (ahe_data_sequence_number lst)
      \<or> next_dsn = ahe_data_sequence_number lst \<and> span_lt interval (span_mul mean 2))"

definition next_full_ack ::
  "AckHistoryWindow \<Rightarrow> instant \<Rightarrow> TimeSpan \<Rightarrow> SeqNumber
   \<Rightarrow> (FullAckSeqNumber \<times> SeqNumber) option may_panic \<times> AckHistoryWindow" where
  "next_full_ack self now mean next_dsn =
     (if ahw_largest_ack2_dsn self = next_dsn then (Ok None, self)
      else if ahw_buffer self \<noteq> [] \<and> is_last_ack_too_recent now mean next_dsn (last (ahw_buffer self))
      then (Ok None, self)
      else
        (case duration_add_span (ahw_tsbpd_latency self) (span_mul mean 2) of
           Ok latency_window \<Rightarrow>
             let self = self\<lparr>ahw_buffer := drain_expired now latency_window (ahw_buffer self)\<rparr>;
                 fasn = next_fasn self;
                 self = self\<lparr>ahw_last_ack_dsn := next_dsn,
                   ahw_buffer := ahw_buffer self @ [\<lparr>ahe_data_sequence_number = next_dsn,
                     ahe_ack_sequence_number = fasn, ahe_departure_time = now\<rparr>]\<rparr> in
             (Ok (Some (fasn, next_dsn)), self)
         | Err e \<Rightarrow> (Err e, self)
         | Panic \<Rightarrow> (Panic, self)))"

definition next_light_ack :: "AckHistoryWindow \<Rightarrow> SeqNumber \<Rightarrow> SeqNumber option \<times> AckHistoryWindow" where
  "next_light_ack self next_dsn =
     (if \<not> seq_lt next_dsn (seq_add (ahw_last_ack_dsn self) LIGHT_ACK_PACKET_INTERVAL)
      then (Some next_dsn, self\<lparr>ahw_last_ack_dsn := next_dsn\<rparr>)
      else (None, self))"

section \<open>Consecutive acknowledgement numbers\<close>

definition fasns :: "AckHistoryEntry list \<Rightarrow> nat list" where
  "fasns es = map (unat \<circ> ahe_ack_sequence_number) es"

definition ahw_inv :: "AckHistoryWindow \<Rightarrow> bool" where
  "ahw_inv w \<longleftrightarrow> (\<exists>a. fasns (ahw_buffer w) = [a..<a + length (ahw_buffer w)])"

lemma drain_expired_drop:
  "\<exists>k. drain_expired now w es = drop k es \<and> (es \<noteq> [] \<longrightarrow> k < length es)"
proof (induction now w es rule: drain_expired.induct)
  case (1 now w a b es)
  show ?case
  proof (cases "now > ahe_departure_time a + int w")
    case True
    then obtain k where "drain_expired now w (b # es) = drop k (b # es)" "k < length (b # es)"
      using 1 by auto
    then show ?thesis using True by (intro exI [of _ "Suc k"]) simp
  next
    case False
    then show ?thesis by (intro exI [of _ 0]) simp
  qed
qed (auto intro: exI [of _ 0])

lemma ahw_inv_drop:
  assumes "fasns es = [a..<a + length es]" "k \<le> length es"
  shows "fasns (drop k es) = [a + k..<a + k + length (drop k es)]"
proof -
  have "fasns (drop k es) = drop k (fasns es)" by (simp add: fasns_def drop_map)
  then show ?thesis using assms by (simp add: drop_upt)
qed

lemma fasns_last: "fasns es = [a..<a + length es] \<Longrightarrow> es \<noteq> [] \<Longrightarrow>
  unat (ahe_ack_sequence_number (last es)) = a + length es - 1"
  unfolding fasns_def by (metis comp_apply last_map last_upt length_greater_0_conv less_add_same_cancel1)

lemma fasns_nth: "fasns es = [a..<a + length es] \<Longrightarrow> i < length es \<Longrightarrow>
  unat (ahe_ack_sequence_number (es ! i)) = a + i"
  unfolding fasns_def by (metis add_less_cancel_left comp_apply nth_map nth_upt)

text \<open>The numbers grow by one from 1 on; they are exhausted after \<open>2 ^ 32 - 1\<close> acknowledgements.\<close>

definition fasn_left :: "AckHistoryWindow \<Rightarrow> bool" where
  "fasn_left w \<longleftrightarrow> (ahw_buffer w \<noteq> [] \<longrightarrow> unat (ahe_ack_sequence_number (last (ahw_buffer w))) < 2 ^ 32 - 1)"

lemma next_full_ack_inv:
  assumes "ahw_inv w" "fasn_left w" "next_full_ack w now mean dsn = (r, w')"
  shows "ahw_inv w'"
proof (cases "w' = w")
  case False
  let ?es = "ahw_buffer w"
  from False assms(3) obtain lw where w': "ahw_buffer w' = drain_expired now lw ?es
      @ [\<lparr>ahe_data_sequence_number = dsn,
          ahe_ack_sequence_number = next_fasn (w\<lparr>ahw_buffer := drain_expired now lw ?es\<rparr>),
          ahe_departure_time = now\<rparr>]"
    by (auto simp: next_full_ack_def Let_def split: if_splits outcome.splits)
  obtain a where a: "fasns ?es = [a..<a + length ?es]" using assms(1) by (auto simp: ahw_inv_def)
  obtain k where k: "drain_expired now lw ?es = drop k ?es" "?es \<noteq> [] \<longrightarrow> k < length ?es"
    using drain_expired_drop by blast
  show ?thesis
  proof (cases "?es = []")
    case True
    then show ?thesis
      using k(1) by (simp add: ahw_inv_def w' fasns_def next_fasn_def)
  next
    case False
    then have kl: "k < length ?es" using k(2) by blast
    have d: "fasns (drop k ?es) = [a + k..<a + k + length (drop k ?es)]"
      using ahw_inv_drop [OF a] kl by simp
    have "unat (full_ack_add (ahe_ack_sequence_number (last ?es)) 1) = a + length ?es"
      using fasns_last [OF a False] assms(2) False
      by (simp add: full_ack_add_def fasn_left_def unat_word_ariths)
    then have "unat (next_fasn (w\<lparr>ahw_buffer := drop k ?es\<rparr>)) = a + k + length (drop k ?es)"
      using kl by (simp add: next_fasn_def last_drop)
    then have "fasns (ahw_buffer w') = [a + k..<a + k + length (ahw_buffer w')]"
      using d k(1) by (simp add: w' fasns_def)
    then show ?thesis unfolding ahw_inv_def ..
  qed
qed (use assms in simp)

lemma calculate_ack2_rtt_inv:
  "ahw_inv w \<Longrightarrow> calculate_ack2_rtt w now k = (r, w') \<Longrightarrow> ahw_inv w'"
  by (auto simp: calculate_ack2_rtt_def Let_def ahw_inv_def split: if_splits)

lemma next_light_ack_inv: "ahw_inv w \<Longrightarrow> next_light_ack w dsn = (r, w') \<Longrightarrow> ahw_inv w'"
  by (auto simp: next_light_ack_def ahw_inv_def split: if_splits)

lemma ahw_new_inv: "ahw_inv (ahw_new l s)"
  by (simp add: ahw_inv_def ahw_new_def fasns_def)

lemma ahw_reset_inv: "ahw_inv (ahw_reset w s)"
  by (simp add: ahw_inv_def ahw_reset_def fasns_def)

inductive ack_step :: "AckHistoryWindow \<Rightarrow> AckHistoryWindow \<Rightarrow> bool" where
  ack_full: "fasn_left w \<Longrightarrow> next_full_ack w now mean dsn = (r, w') \<Longrightarrow> ack_step w w'"
| ack_light: "next_light_ack w dsn = (l, w') \<Longrightarrow> ack_step w w'"
| ack_confirm: "calculate_ack2_rtt w now k = (t, w') \<Longrightarrow> ack_step w w'"
| ack_clear: "ack_step w (ahw_reset w s)"

definition ack_init :: "AckHistoryWindow \<Rightarrow> bool" where
  "ack_init w \<longleftrightarrow> (\<exists>latency dsn. w = ahw_new latency dsn)"

interpretation ack: invariant_system ack_init ack_step ahw_inv
  by unfold_locales
    (auto simp: ack_init_def ahw_new_inv elim!: ack_step.cases
      intro: next_full_ack_inv next_light_ack_inv calculate_ack2_rtt_inv ahw_reset_inv)

lemma calculate_ack2_rtt_lookup:
  assumes "ahw_inv w"
  shows "calculate_ack2_rtt w now k =
    (case find (\<lambda>e. ahe_ack_sequence_number e = k) (ahw_buffer w) of
       None \<Rightarrow> (None, w)
     | Some e \<Rightarrow> (Some (span_from_interval (ahe_departure_time e) now),
         w\<lparr>ahw_largest_ack2_dsn := ahe_data_sequence_number e\<rparr>))"
proof -
  let ?es = "ahw_buffer w"
  obtain a where a: "fasns ?es = [a..<a + length ?es]" using assms by (auto simp: ahw_inv_def)
  note nth = fasns_nth [OF a]
  have bounds: "a \<le> unat k \<and> unat k < a + length ?es \<longleftrightarrow>
      ?es \<noteq> [] \<and> \<not> k > ahe_ack_sequence_number (last ?es) \<and> \<not> k < ahe_ack_sequence_number (hd ?es)"
  proof (cases "?es = []")
    case False
    then have "unat (ahe_ack_sequence_number (last ?es)) = a + length ?es - 1" "0 < length ?es"
      "unat (ahe_ack_sequence_number (hd ?es)) = a"
      using fasns_last [OF a] nth [of 0] by (auto simp: hd_conv_nth)
    then show ?thesis unfolding word_less_nat_alt using False by (metis (no_types, lifting) Suc_diff_1 add_gr_0 leD less_Suc_eq_le not_le)
  qed simp
  show ?thesis
  proof (cases "a \<le> unat k \<and> unat k < a + length ?es")
    case True
    then have ne: "?es \<noteq> []" by auto
    have i: "full_ack_sub k (ahe_ack_sequence_number (hd ?es)) = unat k - a"
      using True nth [of 0] ne by (simp add: full_ack_sub_def hd_conv_nth unat_sub word_le_nat_alt)
    have "find (\<lambda>e. ahe_ack_sequence_number e = k) ?es = Some (?es ! (unat k - a))"
      unfolding find_Some_iff using True nth
      by (intro exI [of _ "unat k - a"]) (auto simp: word_unat_eq_iff)
    then show ?thesis using True bounds i by (auto simp: calculate_ack2_rtt_def Let_def)
  next
    case False
    have "find (\<lambda>e. ahe_ack_sequence_number e = k) ?es = None"
      unfolding find_None_iff using False nth by (auto simp: in_set_conv_nth word_unat_eq_iff)
    then show ?thesis using False bounds by (auto simp: calculate_ack2_rtt_def Let_def)
  qed
qed

section \<open>Properties\<close>

text \<open>C24: In every reachable history, the constant-time search for a confirmed acknowledgement finds the
  same entry as a search through all entries: the round trip is measured from the departure of
  exactly the acknowledgement that the peer confirms, and unknown numbers change nothing. A full
  acknowledgement is sent while the number after the last one in the history is not zero: the 32 bit
  numbers have not run out.\<close>

theorem ack2_lookup_exact:
  assumes "ack_init v" "ack_step\<^sup>*\<^sup>* v w"
  shows "calculate_ack2_rtt w now k =
    (case find (\<lambda>e. ahe_ack_sequence_number e = k) (ahw_buffer w) of
       None \<Rightarrow> (None, w)
     | Some e \<Rightarrow> (Some (span_from_interval (ahe_departure_time e) now),
         w\<lparr>ahw_largest_ack2_dsn := ahe_data_sequence_number e\<rparr>))"
  by (rule calculate_ack2_rtt_lookup [OF ack.reachable_inv [OF assms]])

definition sample_history :: AckHistoryWindow where
  "sample_history = snd (next_full_ack (ahw_new 1000 5) 0 0 6)"

theorem ack2_lookup_exact_witness:
  "fst (calculate_ack2_rtt sample_history 9000 1) = Some 9"
proof -
  have i: "ack_init (ahw_new 1000 5)" by (auto simp: ack_init_def)
  have "next_full_ack (ahw_new 1000 5) 0 0 6 = (fst (next_full_ack (ahw_new 1000 5) 0 0 6), sample_history)"
    by (simp add: sample_history_def)
  then have "ack_step\<^sup>*\<^sup>* (ahw_new 1000 5) sample_history"
    by (intro r_into_rtranclp ack_full) (simp_all add: fasn_left_def ahw_new_def)
  from ack2_lookup_exact [OF i this, of 9000 1] show ?thesis
    by (simp add: sample_history_def next_full_ack_def ahw_new_def next_fasn_def FullAck_INITIAL_def
        duration_add_span_def span_mul_def span_from_interval_def span_add_duration_def instant_sub_def
        as_micros_def TimeSpan_ZERO_def Let_def duration_from_micros_def)
qed

end
