(* ===== verification/Arq.thy ===== *)
theory Arq
  imports Receive_Window Ack_History
begin

text \<open>
  The receiver's repeat request algorithm (\<open>protocol/receiver/arq.rs\<close>): arrival speed and link capacity
  estimates, and the operations that join the receive buffer with the acknowledgement history.

  The two windows of 16 samples are queues of the crate \<open>arraydeque\<close>, and the link capacity is computed
  in floating point: \<open>ArqOps\<close> holds the queues' \<open>push_back\<close> and the rate \<open>1 / span\<close> in packets per
  second, and is a parameter. \<open>arq_laws\<close> states that a push onto a full queue replaces the oldest
  sample.
\<close>

record ArqOps =
  ao_push_arrival :: "(TimeSpan \<times> u64) list \<Rightarrow> TimeSpan \<times> u64 \<Rightarrow> (TimeSpan \<times> u64) list"
  ao_push_pair :: "TimeSpan list \<Rightarrow> TimeSpan \<Rightarrow> TimeSpan list"
  ao_packets_per_second :: "TimeSpan \<Rightarrow> u32"

definition wrapping_push :: "nat \<Rightarrow> 'a list \<Rightarrow> 'a \<Rightarrow> 'a list" where
  "wrapping_push capacity xs x = (if length xs < capacity then xs @ [x] else tl xs @ [x])"

definition arq_laws :: "ArqOps \<Rightarrow> bool" where
  "arq_laws ao \<longleftrightarrow> ao_push_arrival ao = wrapping_push 16 \<and> ao_push_pair ao = wrapping_push 16"

section \<open>Arrival speed\<close>

record ArrivalSpeed =
  asp_packet_history_window :: "(TimeSpan \<times> u64) list"
  asp_last_arrival_time :: "instant option"

definition arrival_speed_new :: ArrivalSpeed where
  "arrival_speed_new = \<lparr>asp_packet_history_window = [], asp_last_arrival_time = None\<rparr>"

definition arrival_record_data_packet :: "ArqOps \<Rightarrow> ArrivalSpeed \<Rightarrow> instant \<Rightarrow> usize \<Rightarrow> ArrivalSpeed" where
  "arrival_record_data_packet ao self now sz =
     (let self = (case asp_last_arrival_time self of
                    Some lst \<Rightarrow> self\<lparr>asp_packet_history_window :=
                      ao_push_arrival ao (asp_packet_history_window self)
                        (span_from_interval lst now, of_nat sz)\<rparr>
                  | None \<Rightarrow> self) in
      self\<lparr>asp_last_arrival_time := Some now\<rparr>)"

definition arrival_filtered :: "(TimeSpan \<times> u64) list \<Rightarrow> TimeSpan \<Rightarrow> (TimeSpan \<times> u64) list" where
  "arrival_filtered window ai =
     filter (\<lambda>(interval, _). span_lt (span_div interval 8) ai \<and> span_lt (span_div ai 8) interval) window"

definition arrival_calculate :: "ArrivalSpeed \<Rightarrow> (u32 \<times> u32) option may_panic" where
  "arrival_calculate self =
     (let window = asp_packet_history_window self in
      if length window \<noteq> 16 then Ok None
      else
        let ai = sort_key sint (map fst window) ! (16 div 2);
            filtered = arrival_filtered window ai in
        if length filtered \<le> 8 then Ok None
        else
          let sum_us = (word_of_int (\<Sum>(dt, _)\<leftarrow>filtered. sint dt) :: u64);
              sum_bytes = (\<Sum>(_, sz)\<leftarrow>filtered. sz) in
          if sum_us = 0 then Panic
          else Ok (Some (ucast ((of_nat (1000000 * length filtered) :: u64) div sum_us),
                         ucast (sum_bytes * 1000000 div sum_us))))"

section \<open>Link capacity\<close>

record LinkCapacityEstimate =
  lce_packet_pair_window :: "TimeSpan list"
  lce_probe_time :: "instant option"

definition link_capacity_new :: LinkCapacityEstimate where
  "link_capacity_new = \<lparr>lce_packet_pair_window = [], lce_probe_time = None\<rparr>"

definition link_calculate :: "ArqOps \<Rightarrow> LinkCapacityEstimate \<Rightarrow> u32 option" where
  "link_calculate ao self =
     (let window = lce_packet_pair_window self in
      if length window \<noteq> 16 then None
      else Some (ao_packets_per_second ao (sort_key sint window ! 7)))"

definition link_record_data_packet ::
  "ArqOps \<Rightarrow> LinkCapacityEstimate \<Rightarrow> instant \<Rightarrow> SeqNumber \<Rightarrow> LinkCapacityEstimate" where
  "link_record_data_packet ao self now seq_number =
     (if mod_rem seq_number 16 = 0 then self\<lparr>lce_probe_time := Some now\<rparr>
      else if mod_rem seq_number 16 = 1 then
        let self = (case lce_probe_time self of
                      Some pt \<Rightarrow> self\<lparr>lce_packet_pair_window :=
                        ao_push_pair ao (lce_packet_pair_window self) (span_from_interval pt now)\<rparr>
                    | None \<Rightarrow> self) in
        self\<lparr>lce_probe_time := None\<rparr>
      else self)"

section \<open>The algorithm\<close>

record 's AutomaticRepeatRequestAlgorithm =
  arq_link_capacity_estimate :: LinkCapacityEstimate
  arq_arrival_speed :: ArrivalSpeed
  arq_receive_buffer :: "'s ReceiveBuffer"
  arq_ack_history_window :: AckHistoryWindow
  arq_rtt :: Rtt

definition arq_new ::
  "instant \<Rightarrow> duration \<Rightarrow> bool \<Rightarrow> SeqNumber \<Rightarrow> PacketCount \<Rightarrow> 's AutomaticRepeatRequestAlgorithm" where
  "arq_new socket_start_time tsbpd_latency too_late_packet_drop init_seq_num buffer_size_packets =
     \<lparr>arq_link_capacity_estimate = link_capacity_new, arq_arrival_speed = arrival_speed_new,
      arq_receive_buffer = rb_new socket_start_time tsbpd_latency too_late_packet_drop init_seq_num
        buffer_size_packets,
      arq_ack_history_window = ahw_new tsbpd_latency init_seq_num, arq_rtt = rtt_default\<rparr>"

definition arq_is_flushed :: "'s AutomaticRepeatRequestAlgorithm \<Rightarrow> bool" where
  "arq_is_flushed self \<longleftrightarrow> rb_is_empty (arq_receive_buffer self)
     \<and> is_finished (arq_ack_history_window self) (next_ack_dsn (arq_receive_buffer self))"

definition arq_unacked_packet_count :: "'s AutomaticRepeatRequestAlgorithm \<Rightarrow> u32" where
  "arq_unacked_packet_count self =
     unacked_packet_count (arq_ack_history_window self) (next_ack_dsn (arq_receive_buffer self))"

definition arq_next_message_release_time :: "'s AutomaticRepeatRequestAlgorithm \<Rightarrow> instant option" where
  "arq_next_message_release_time self = next_message_release_time (arq_receive_buffer self)"

definition arq_clear :: "'s AutomaticRepeatRequestAlgorithm \<Rightarrow> 's AutomaticRepeatRequestAlgorithm" where
  "arq_clear self =
     (let self = self\<lparr>arq_receive_buffer := rb_clear (arq_receive_buffer self)\<rparr> in
      self\<lparr>arq_ack_history_window :=
        ahw_reset (arq_ack_history_window self) (next_ack_dsn (arq_receive_buffer self))\<rparr>)"

definition arq_synchronize_clock ::
  "'s OnlineStatsOps \<Rightarrow> 's AutomaticRepeatRequestAlgorithm \<Rightarrow> instant \<Rightarrow> TimeStamp
   \<Rightarrow> ClockAdjustment option \<times> 's AutomaticRepeatRequestAlgorithm" where
  "arq_synchronize_clock os self now now_ts =
     (let (adj, rb) = rb_synchronize_clock os (arq_receive_buffer self) now now_ts in
      (adj, self\<lparr>arq_receive_buffer := rb\<rparr>))"

definition arq_on_full_ack_event ::
  "ArqOps \<Rightarrow> 's AutomaticRepeatRequestAlgorithm \<Rightarrow> instant
   \<Rightarrow> Acknowledgement option may_panic \<times> 's AutomaticRepeatRequestAlgorithm" where
  "arq_on_full_ack_event ao self now =
     (if buffer_available (arq_receive_buffer self) = 0 then (Ok None, self)
      else
        (case next_full_ack (arq_ack_history_window self) now (rtt_mean (arq_rtt self))
                (next_ack_dsn (arq_receive_buffer self)) of
           (Ok (Some (fasn, dsn)), w) \<Rightarrow>
             let self = self\<lparr>arq_ack_history_window := w\<rparr> in
             (map_outcome_ok (\<lambda>arrival_speed.
                let statistics =
                  \<lparr>as_rtt = arq_rtt self,
                   as_buffer_available = of_nat (buffer_available (arq_receive_buffer self)),
                   as_packet_receive_rate = map_option fst arrival_speed,
                   as_estimated_link_capacity = map_option snd arrival_speed,
                   as_data_receive_rate = link_calculate ao (arq_link_capacity_estimate self)\<rparr> in
                Some (Ack_Full dsn statistics fasn)) (arrival_calculate (arq_arrival_speed self)), self)
         | (Ok None, w) \<Rightarrow> (Ok None, self\<lparr>arq_ack_history_window := w\<rparr>)
         | (Err e, w) \<Rightarrow> (Err e, self)
         | (Panic, w) \<Rightarrow> (Panic, self)))"

definition arq_on_nak_event ::
  "'s AutomaticRepeatRequestAlgorithm \<Rightarrow> instant
   \<Rightarrow> CompressedLossList option may_panic \<times> 's AutomaticRepeatRequestAlgorithm" where
  "arq_on_nak_event self now =
     (let (l, rb) = prepare_loss_list (arq_receive_buffer self) now (rtt_mean (arq_rtt self)) in
      (l, self\<lparr>arq_receive_buffer := rb\<rparr>))"

definition update_link_estimates ::
  "ArqOps \<Rightarrow> 's AutomaticRepeatRequestAlgorithm \<Rightarrow> instant \<Rightarrow> SeqNumber \<Rightarrow> usize
   \<Rightarrow> 's AutomaticRepeatRequestAlgorithm" where
  "update_link_estimates ao self now seq_number sz =
     self\<lparr>arq_link_capacity_estimate :=
            link_record_data_packet ao (arq_link_capacity_estimate self) now seq_number,
          arq_arrival_speed := arrival_record_data_packet ao (arq_arrival_speed self) now sz\<rparr>"

definition arq_next_light_ack ::
  "'s AutomaticRepeatRequestAlgorithm \<Rightarrow> SeqNumber \<Rightarrow> bool
   \<Rightarrow> DataPacketAction \<times> 's AutomaticRepeatRequestAlgorithm" where
  "arq_next_light_ack self lrsn recovered =
     (let (ack, w) = next_light_ack (arq_ack_history_window self) lrsn;
          self = self\<lparr>arq_ack_history_window := w\<rparr> in
      case ack of
        Some light_ack \<Rightarrow> (ReceivedWithLightAck light_ack recovered, self)
      | None \<Rightarrow> (Received lrsn recovered, self))"

definition arq_handle_data_packet ::
  "ArqOps \<Rightarrow> 's AutomaticRepeatRequestAlgorithm \<Rightarrow> instant \<Rightarrow> DataPacket
   \<Rightarrow> push_result \<times> 's AutomaticRepeatRequestAlgorithm" where
  "arq_handle_data_packet ao self now packet =
     (let seq_number = dp_seq_number packet; sz = length (dp_payload packet);
          (r, rb) = push_packet (arq_receive_buffer self) now packet;
          self = self\<lparr>arq_receive_buffer := rb\<rparr> in
      case r of
        Ok (Received lrsn recovered) \<Rightarrow>
          let self = (if \<not> recovered then update_link_estimates ao self now seq_number sz else self);
              (action, self) = arq_next_light_ack self lrsn recovered in
          (Ok action, self)
      | r \<Rightarrow> (r, self))"

definition arq_handle_ack2_packet ::
  "'s AutomaticRepeatRequestAlgorithm \<Rightarrow> instant \<Rightarrow> FullAckSeqNumber
   \<Rightarrow> Rtt option \<times> 's AutomaticRepeatRequestAlgorithm" where
  "arq_handle_ack2_packet self now ack_seq_num =
     (let (rtt, w) = calculate_ack2_rtt (arq_ack_history_window self) now ack_seq_num;
          self = self\<lparr>arq_ack_history_window := w\<rparr> in
      case rtt of
        Some rtt \<Rightarrow> let self = self\<lparr>arq_rtt := rtt_update (arq_rtt self) rtt\<rparr> in (Some (arq_rtt self), self)
      | None \<Rightarrow> (None, self))"

definition arq_handle_drop_request ::
  "'s AutomaticRepeatRequestAlgorithm \<Rightarrow> SeqNumber \<Rightarrow> SeqNumber
   \<Rightarrow> usize may_panic \<times> 's AutomaticRepeatRequestAlgorithm" where
  "arq_handle_drop_request self start end =
     (let (n, rb) = drop_packets (arq_receive_buffer self) start end in
      (n, self\<lparr>arq_receive_buffer := rb\<rparr>))"

definition arq_pop_next_message ::
  "'s AutomaticRepeatRequestAlgorithm \<Rightarrow> instant \<Rightarrow> pop_result \<times> 's AutomaticRepeatRequestAlgorithm" where
  "arq_pop_next_message self now =
     (let (m, rb) = pop_next_message (arq_receive_buffer self) now in
      (m, self\<lparr>arq_receive_buffer := rb\<rparr>))"

definition arq_rx_acknowledged_time :: "'s AutomaticRepeatRequestAlgorithm \<Rightarrow> duration" where
  "arq_rx_acknowledged_time self = rb_rx_acknowledged_time (arq_receive_buffer self)"

section \<open>The arrival speed\<close>

lemma abs_sdiv8: "\<bar>x sdiv 8\<bar> * 8 \<le> \<bar>x :: int\<bar>"
proof -
  have "\<bar>x sdiv 8\<bar> = \<bar>x\<bar> div 8" by (auto simp: signed_divide_int_def abs_mult sgn_if)
  then show ?thesis using div_mult_mod_eq [of "\<bar>x\<bar>" 8] pos_mod_sign [of 8 "\<bar>x\<bar>"] by linarith
qed

lemma sdiv8_between:
  fixes x a :: int
  assumes "x sdiv 8 < a" "a sdiv 8 < x"
  shows "0 < x"
proof (rule ccontr)
  assume "\<not> 0 < x"
  then have x: "x \<le> 0" by simp
  have s: "y sdiv 8 = - ((- y) div 8)" if "y \<le> 0" for y :: int
    using that by (cases "y = 0") (auto simp: signed_divide_int_def)
  have "a < 0"
  proof (rule ccontr)
    assume "\<not> a < 0"
    then have "0 \<le> a sdiv 8" by (simp add: signed_divide_int_def sgn_if pos_imp_zdiv_nonneg_iff)
    then show False using assms(2) x by linarith
  qed
  then show False using assms s [of x] s [of a] x by simp
qed

lemma sint_span_div8: "sint (span_div i 8) = sint i sdiv 8"
proof -
  have "- (2 ^ 31) \<le> sint i sdiv 8" "sint i sdiv 8 < 2 ^ 31"
    using abs_sdiv8 [of "sint i"] sint_i32_range [of i] by linarith+
  then show ?thesis using sint_word_of_int_i32 [of "sint i sdiv 8"] by (simp add: span_div_def)
qed

lemma arrival_filtered_positive: "(dt, sz) \<in> set (arrival_filtered window ai) \<Longrightarrow> 0 < sint dt"
  by (rule sdiv8_between [of _ "sint ai"])
    (auto simp: arrival_filtered_def span_lt_def simp flip: sint_span_div8)

lemma sum_positive_i32:
  assumes "\<forall>dt \<in> set dts. 0 < sint (dt :: i32)"
  shows "int (length dts) \<le> (\<Sum>dt\<leftarrow>dts. sint dt)" "(\<Sum>dt\<leftarrow>dts. sint dt) \<le> int (length dts) * 2 ^ 31"
  using assms
proof (induction dts)
  case (Cons d dts)
  case 1
  then show ?case using Cons by simp
next
  case (Cons d dts)
  case 2
  then show ?case using Cons sint_i32_range(2) [of d] by (simp add: algebra_simps)
qed simp_all

lemma word_of_int_nonzero: "0 < k \<Longrightarrow> k < 2 ^ 64 \<Longrightarrow> (word_of_int k :: u64) \<noteq> 0"
  by (simp add: word_of_int_eq_0_iff zdvd_not_zless)

text \<open>The gaps between the packets that have arrived, the last sixteen of them, and the speed computed from
  them over the integers.\<close>

fun gaps :: "(instant \<times> usize) list \<Rightarrow> (TimeSpan \<times> usize) list" where
  "gaps ((t, _) # (now, sz) # r) = (span_from_interval t now, sz) # gaps ((now, sz) # r)"
| "gaps _ = []"

definition recent :: "nat \<Rightarrow> 'a list \<Rightarrow> 'a list" where
  "recent n xs = drop (length xs - n) xs"

definition near_median :: "(TimeSpan \<times> 'a) list \<Rightarrow> (TimeSpan \<times> 'a) list" where
  "near_median w =
     (let median = sint (sort_key sint (map fst w) ! 8) in
      filter (\<lambda>(dt, _). sint dt sdiv 8 < median \<and> median sdiv 8 < sint dt) w)"

definition arrival_speed_spec :: "(TimeSpan \<times> usize) list \<Rightarrow> (int \<times> int) option" where
  "arrival_speed_spec w =
     (if length w < 16 \<or> length (near_median w) \<le> 8 then None
      else let micros = (\<Sum>(dt, _)\<leftarrow>near_median w. sint dt); bytes = (\<Sum>(_, sz)\<leftarrow>near_median w. int sz) in
        Some (1000000 * int (length (near_median w)) div micros, 1000000 * bytes div micros))"

lemma recent_snoc: "0 < n \<Longrightarrow> recent n (xs @ [x]) = wrapping_push n (recent n xs) x"
  by (auto simp: recent_def wrapping_push_def Suc_diff_le tl_drop simp flip: drop_Suc)

lemma gaps_snoc: "xs \<noteq> [] \<Longrightarrow> gaps (xs @ [(now, sz)]) = gaps xs @ [(span_from_interval (fst (last xs)) now, sz)]"
  by (induction xs rule: gaps.induct) auto

lemma recorded_window:
  assumes "arq_laws ao"
  defines "a \<equiv> \<lambda>packets. fold (\<lambda>(now, sz) a. arrival_record_data_packet ao a now sz) packets arrival_speed_new"
  shows "asp_packet_history_window (a packets) = map (apsnd of_nat) (recent 16 (gaps packets))
    \<and> asp_last_arrival_time (a packets) = (if packets = [] then None else Some (fst (last packets)))"
proof (induction packets rule: rev_induct)
  case Nil
  then show ?case by (simp add: a_def arrival_speed_new_def recent_def)
next
  case (snoc p packets)
  obtain now sz where p: "p = (now, sz)" by fastforce
  have "a (packets @ [p]) = arrival_record_data_packet ao (a packets) now sz" by (simp add: a_def p)
  moreover have "map f (wrapping_push n xs x) = wrapping_push n (map f xs) (f x)"
    for f :: "TimeSpan \<times> usize \<Rightarrow> TimeSpan \<times> u64" and n xs x
    by (simp add: wrapping_push_def map_tl)
  ultimately show ?case
    using snoc assms(1) by (auto simp: arrival_record_data_packet_def Let_def p gaps_snoc recent_snoc arq_laws_def)
qed

lemma arrival_filtered_map:
  "arrival_filtered (map (apsnd f) w) (sort_key sint (map fst (map (apsnd f) w)) ! (16 div 2))
     = map (apsnd f) (near_median w)"
  by (simp add: arrival_filtered_def near_median_def filter_map comp_def span_lt_def sint_span_div8
      case_prod_unfold Let_def)

lemma near_median_length: "length (near_median w) \<le> length w"
  by (simp add: near_median_def Let_def)

lemma near_median_sum:
  assumes "length w = 16" "8 < length (near_median w)"
  shows "0 < (\<Sum>(dt, _)\<leftarrow>near_median w. sint dt)" "(\<Sum>(dt, _)\<leftarrow>near_median w. sint dt) < 2 ^ 64"
proof -
  let ?f = "near_median w"
  have len: "length ?f \<le> 16" using assms(1) near_median_length [of w] by simp
  have "\<forall>dt \<in> set (map fst ?f). 0 < sint dt"
    using sdiv8_between [of _ "sint (sort_key sint (map fst w) ! 8)"]
    by (auto simp: near_median_def Let_def)
  note s = sum_positive_i32 [OF this]
  have "(\<Sum>(dt, _)\<leftarrow>?f. sint dt) = (\<Sum>dt\<leftarrow>map fst ?f. sint dt)"
    by (simp add: comp_def case_prod_unfold)
  then show "0 < (\<Sum>(dt, _)\<leftarrow>?f. sint dt)" "(\<Sum>(dt, _)\<leftarrow>?f. sint dt) < 2 ^ 64"
    using s len assms(2) by simp_all
qed

lemma sum_sizes:
  "(\<Sum>(_, sz)\<leftarrow>map (apsnd of_nat) f. sz) = (word_of_int (\<Sum>(_, sz)\<leftarrow>f. int sz) :: u64)"
  by (induction f) auto

lemma sum_sizes_bound:
  "\<forall>(dt, sz) \<in> set f. sz < 2 ^ 16 \<Longrightarrow>
   0 \<le> (\<Sum>(_, sz)\<leftarrow>f. int sz) \<and> (\<Sum>(_, sz)\<leftarrow>f. int sz) \<le> int (length f) * 2 ^ 16"
  by (induction f) (auto simp: algebra_simps)

lemma ucast_div_word_of_int:
  assumes "0 \<le> x" "x < 2 ^ 64" "0 < k" "k < 2 ^ 64"
  shows "(ucast ((word_of_int x :: u64) div word_of_int k) :: u32) = word_of_int (x div k)"
proof -
  have "uint (word_of_int x :: u64) = x" "uint (word_of_int k :: u64) = k"
    using assms by (simp_all add: uint_word_of_int)
  then have "uint ((word_of_int x :: u64) div word_of_int k) = x div k" by (simp add: uint_div)
  then show ?thesis by (metis ucast_eq)
qed

lemma arrival_calculate_exact:
  assumes "length w \<le> 16" "\<forall>(dt, sz) \<in> set w. sz < 2 ^ 16"
    "asp_packet_history_window a = map (apsnd of_nat) w"
  shows "arrival_calculate a = Ok (map_option (map_prod word_of_int word_of_int) (arrival_speed_spec w))"
proof (cases "length w = 16 \<and> 8 < length (near_median w)")
  case True
  let ?f = "near_median w" and ?S = "\<Sum>(dt, _)\<leftarrow>near_median w. sint dt"
  let ?B = "\<Sum>(_, sz)\<leftarrow>near_median w. int sz"
  have S: "0 < ?S" "?S < 2 ^ 64" using near_median_sum True by blast+
  have l: "length ?f \<le> 16" using True near_median_length [of w] by simp
  have "\<forall>(dt, sz) \<in> set ?f. sz < 2 ^ 16" using assms(2) by (auto simp: near_median_def Let_def)
  from sum_sizes_bound [OF this] l have B: "0 \<le> ?B" "?B \<le> 16 * 2 ^ 16" by auto
  have m: "(\<Sum>(dt, _)\<leftarrow>map (apsnd of_nat :: TimeSpan \<times> usize \<Rightarrow> TimeSpan \<times> u64) ?f. sint dt) = ?S"
    by (simp add: comp_def case_prod_unfold)
  have "arrival_calculate a = Ok (Some (ucast ((word_of_int (1000000 * int (length ?f)) :: u64) div word_of_int ?S),
      ucast ((word_of_int (1000000 * ?B) :: u64) div word_of_int ?S)))"
    using True S word_of_int_nonzero [of ?S]
    unfolding arrival_calculate_def assms(3) Let_def arrival_filtered_map m sum_sizes
    by (simp add: mult.commute)
  moreover have "(ucast ((word_of_int (1000000 * int (length ?f)) :: u64) div word_of_int ?S) :: u32)
      = word_of_int (1000000 * int (length ?f) div ?S)"
    using S l by (intro ucast_div_word_of_int) simp_all
  moreover have "(ucast ((word_of_int (1000000 * ?B) :: u64) div word_of_int ?S) :: u32)
      = word_of_int (1000000 * ?B div ?S)"
    using S B by (intro ucast_div_word_of_int) simp_all
  moreover have "arrival_speed_spec w = Some (1000000 * int (length ?f) div ?S, 1000000 * ?B div ?S)"
    using True by (simp add: arrival_speed_spec_def Let_def)
  ultimately show ?thesis by simp
next
  case False
  then show ?thesis
    unfolding arrival_calculate_def assms(3) Let_def arrival_filtered_map arrival_speed_spec_def
    using assms(1) by auto
qed

section \<open>Properties\<close>

text \<open>C28: The arrival speed is computed exactly, whatever the times of arrival are, also when the clock
  goes back: it is the number of packets and of bytes per second over those of the last sixteen gaps
  that are near their median, computed over the integers, and it is only there when sixteen gaps
  were recorded and more than eight are near the median. Nothing is divided by zero and no
  intermediate result overflows its 64 bits, when every packet is smaller than \<open>2 ^ 16\<close> bytes, as
  those of UDP are. The results are then cut to 32 bits.\<close>

theorem arrival_speed_exact:
  assumes "arq_laws ao" "\<forall>(now, sz) \<in> set packets. sz < 2 ^ 16"
  shows "arrival_calculate (fold (\<lambda>(now, sz) a. arrival_record_data_packet ao a now sz) packets arrival_speed_new)
    = Ok (map_option (map_prod word_of_int word_of_int) (arrival_speed_spec (recent 16 (gaps packets))))"
proof (rule arrival_calculate_exact)
  show "length (recent 16 (gaps packets)) \<le> 16" by (simp add: recent_def)
  have "\<forall>(dt, sz) \<in> set (gaps packets). sz < 2 ^ 16"
    using assms(2) by (induction packets rule: gaps.induct) auto
  then show "\<forall>(dt, sz) \<in> set (recent 16 (gaps packets)). sz < 2 ^ 16"
    unfolding recent_def by (meson in_set_dropD)
qed (use recorded_window [OF assms(1), of packets] in simp)

definition sample_arq_ops :: ArqOps where
  "sample_arq_ops = \<lparr>ao_push_arrival = wrapping_push 16, ao_push_pair = wrapping_push 16,
     ao_packets_per_second = (\<lambda>span. 1000000 div span)\<rparr>"

definition sample_arrivals :: "(instant \<times> usize) list" where
  "sample_arrivals = map (\<lambda>i. (1000000 * int i, 100)) [0..<17]"

lemma sample_gaps: "recent 16 (gaps sample_arrivals) = replicate 16 (1000, 100)"
proof -
  have r: "replicate 16 x = [x, x, x, x, x, x, x, x, x, x, x, x, x, x, x, x]" for x :: "TimeSpan \<times> usize"
    by (simp add: numeral_eq_Suc)
  show ?thesis
    unfolding r by (simp add: sample_arrivals_def recent_def upt_rec span_from_interval_def span_add_duration_def
        instant_sub_def as_micros_def TimeSpan_ZERO_def)
qed

lemma median_1000: "sort_key sint (replicate 16 (1000 :: i32)) ! 8 = 1000"
  by (simp add: sort_key_def insort_key_def numeral_eq_Suc)

theorem arrival_speed_exact_witness:
  "arrival_calculate (fold (\<lambda>(now, sz) a. arrival_record_data_packet sample_arq_ops a now sz) sample_arrivals
      arrival_speed_new) = Ok (Some (1000, 100000))"
proof -
  have "near_median (replicate 16 (1000, 100 :: usize)) = replicate 16 (1000, 100)"
    using median_1000 by (simp add: near_median_def signed_divide_int_def)
  then have "arrival_speed_spec (recent 16 (gaps sample_arrivals)) = Some (1000, 100000)"
    by (simp add: sample_gaps arrival_speed_spec_def sum_list_replicate)
  moreover have "\<forall>(now, sz) \<in> set sample_arrivals. sz < 2 ^ 16" by (auto simp: sample_arrivals_def)
  ultimately show ?thesis
    using arrival_speed_exact [of sample_arq_ops sample_arrivals]
    by (simp add: arq_laws_def sample_arq_ops_def)
qed

text \<open>C38: The full acknowledgement carries the number of the first packet not received, but its two
  rate fields are exchanged: the estimated link capacity (packets per second) is the received byte
  rate, and the data receive rate (bytes per second) is the link capacity in packets per second.\<close>

theorem full_ack_rates_exchanged:
  assumes "arq_on_full_ack_event ao self now = (Ok (Some ack), self')"
    "arrival_calculate (arq_arrival_speed self) = Ok (Some (packet_rate, byte_rate))"
  shows "\<exists>statistics. ack_statistics ack = Some statistics
    \<and> ack_number ack = next_ack_dsn (arq_receive_buffer self)
    \<and> as_packet_receive_rate statistics = Some packet_rate
    \<and> as_estimated_link_capacity statistics = Some byte_rate
    \<and> as_data_receive_rate statistics = link_calculate ao (arq_link_capacity_estimate self)"
  using assms
  by (auto simp: arq_on_full_ack_event_def next_full_ack_def Let_def map_outcome_ok_Ok_iff
      split: if_splits outcome.splits option.splits prod.splits)

definition sample_arq :: "unit AutomaticRepeatRequestAlgorithm" where
  "sample_arq = (arq_new 0 1000000 True 5 8)
     \<lparr>arq_arrival_speed := \<lparr>asp_packet_history_window = replicate 16 (1000, 100), asp_last_arrival_time = Some 0\<rparr>,
      arq_receive_buffer := sample_after\<rparr>"

lemma sample_arrival: "arrival_calculate (arq_arrival_speed sample_arq) = Ok (Some (1000, 100000))"
proof -
  have "sint (1000 :: i32) sdiv 8 = 125" by (simp add: signed_divide_int_def)
  then show ?thesis
    using median_1000 by (simp add: sample_arq_def arrival_calculate_def arrival_filtered_def Let_def span_lt_def sint_span_div8
        sum_list_replicate)
qed

theorem full_ack_rates_exchanged_witness:
  "\<exists>ack self'. arq_on_full_ack_event sample_arq_ops sample_arq 0 = (Ok (Some ack), self')
    \<and> ack_number ack = 6 \<and> map_option as_estimated_link_capacity (ack_statistics ack) = Some (Some 100000)"
proof -
  have b: "next_ack_dsn sample_after = 6" "buffer_available sample_after = 7"
    by (simp_all add: sample_after_eq next_ack_dsn_def buffer_available_def sample_buffer_def rb_new_def
        seq_of_def mod_add_def mod_MAX_def usize_sub_def)
  have r: "arq_receive_buffer sample_arq = sample_after" by (simp add: sample_arq_def)
  have "\<exists>w. next_full_ack (arq_ack_history_window sample_arq) 0 (rtt_mean (arq_rtt sample_arq)) 6 = (Ok (Some (1, 6)), w)"
    by (simp add: sample_arq_def arq_new_def ahw_new_def rtt_default_def next_full_ack_def duration_add_span_def
        span_mul_def Let_def next_fasn_def FullAck_INITIAL_def)
  then have "\<exists>ack self'. arq_on_full_ack_event sample_arq_ops sample_arq 0 = (Ok (Some ack), self')"
    using sample_arrival b r by (auto simp: arq_on_full_ack_event_def Let_def)
  then obtain ack self' where a: "arq_on_full_ack_event sample_arq_ops sample_arq 0 = (Ok (Some ack), self')"
    by blast
  show ?thesis using full_ack_rates_exchanged [OF a sample_arrival] a b r by auto
qed

end
