(* ===== verification/Encapsulation.thy ===== *)
theory Encapsulation
  imports Settings
begin

text \<open>
  Splitting a message into data packets (\<open>protocol/sender/encapsulate.rs\<close>). The iterator over the
  packets of a message is a state with its \<open>next\<close>; running it to its end is a partial function, which
  is defined exactly when the loop over the packets ends.
\<close>

record Encapsulation =
  en_remote_socket_id :: SocketId
  en_max_packet_size :: PacketSize
  en_next_message_number :: MsgNumber
  en_next_sequence_number :: SeqNumber

definition encapsulation_new :: "ConnectionSettings \<Rightarrow> Encapsulation" where
  "encapsulation_new settings =
     \<lparr>en_remote_socket_id = cs_remote_sockid settings, en_max_packet_size = cs_max_packet_size settings,
      en_next_message_number = msg_new_truncate 0, en_next_sequence_number = cs_init_seq_num settings\<rparr>"

record MessageEncapsulationIterator =
  mei_next_sequence_number :: SeqNumber
  mei_remote_socket_id :: SocketId
  mei_max_packet_size :: PacketSize
  mei_remaining :: "u8 list"
  mei_packet_location :: PacketLocation
  mei_message_number :: MsgNumber
  mei_timestamp :: TimeStamp

definition encapsulate_iter ::
  "Encapsulation \<Rightarrow> TimeStamp \<Rightarrow> u8 list \<Rightarrow> MessageEncapsulationIterator \<times> Encapsulation" where
  "encapsulate_iter self timestamp data =
     (let (message_number, next_message_number) = msg_increment (en_next_message_number self) in
      (\<lparr>mei_next_sequence_number = en_next_sequence_number self,
        mei_remote_socket_id = en_remote_socket_id self, mei_max_packet_size = en_max_packet_size self,
        mei_remaining = data, mei_packet_location = PL_FIRST, mei_message_number = message_number,
        mei_timestamp = timestamp\<rparr>, self\<lparr>en_next_message_number := next_message_number\<rparr>))"

definition mei_next ::
  "MessageEncapsulationIterator \<Rightarrow> DataPacket option \<times> MessageEncapsulationIterator" where
  "mei_next self =
     (if flags_contain (mei_packet_location self) PL_LAST then (None, self)
      else
        let mx = unat (mei_max_packet_size self);
            (payload, message_loc, self) =
              (if length (mei_remaining self) > mx
               then (take mx (mei_remaining self), mei_packet_location self,
                     self\<lparr>mei_remaining := drop mx (mei_remaining self), mei_packet_location := PL_MIDDLE\<rparr>)
               else (mei_remaining self, mei_packet_location self OR PL_LAST,
                     self\<lparr>mei_remaining := [], mei_packet_location := mei_packet_location self OR PL_LAST\<rparr>));
            (seq_number, next_sequence_number) = seq_increment (mei_next_sequence_number self) in
        (Some \<lparr>dp_seq_number = seq_number, dp_message_loc = message_loc, dp_in_order_delivery = False,
               dp_encryption = DE_None, dp_retransmitted = False,
               dp_message_number = mei_message_number self, dp_timestamp = mei_timestamp self,
               dp_dest_sockid = mei_remote_socket_id self, dp_payload = payload\<rparr>,
         self\<lparr>mei_next_sequence_number := next_sequence_number\<rparr>))"

partial_function (option) mei_collect ::
  "MessageEncapsulationIterator \<Rightarrow> (DataPacket list \<times> MessageEncapsulationIterator) option" where
  "mei_collect it =
     (case fst (mei_next it) of
        None \<Rightarrow> Some ([], snd (mei_next it))
      | Some p \<Rightarrow> Option.bind (mei_collect (snd (mei_next it))) (\<lambda>(ps, it'). Some (p # ps, it')))"

text \<open>The packets of a message and the state left when all of them have been taken.\<close>

definition encapsulate ::
  "Encapsulation \<Rightarrow> TimeStamp \<Rightarrow> u8 list \<Rightarrow> (DataPacket list \<times> Encapsulation) option" where
  "encapsulate self timestamp data =
     (let (it, self) = encapsulate_iter self timestamp data in
      map_option (\<lambda>(ps, it). (ps, self\<lparr>en_next_sequence_number := mei_next_sequence_number it\<rparr>))
        (mei_collect it))"

section \<open>The packets of a message\<close>

definition splits ::
  "nat \<Rightarrow> SeqNumber \<Rightarrow> MsgNumber \<Rightarrow> TimeStamp \<Rightarrow> SocketId \<Rightarrow> bool \<Rightarrow> u8 list \<Rightarrow> DataPacket list \<Rightarrow> bool" where
  "splits mx s msg ts sid first data ps \<longleftrightarrow> ps \<noteq> []
     \<and> concat (map dp_payload ps) = data
     \<and> map dp_seq_number ps = seqs_from s (length ps)
     \<and> list_all (\<lambda>p. dp_message_number p = msg \<and> dp_timestamp p = ts \<and> dp_dest_sockid p = sid
          \<and> dp_encryption p = DE_None \<and> length (dp_payload p) \<le> mx
          \<and> dp_message_loc p \<in> {PL_FIRST, PL_MIDDLE, PL_LAST, PL_ONLY}) ps
     \<and> (flags_contain (dp_message_loc (hd ps)) PL_FIRST \<longleftrightarrow> first)
     \<and> list_all (\<lambda>p. \<not> flags_contain (dp_message_loc p) PL_FIRST) (tl ps)
     \<and> flags_contain (dp_message_loc (last ps)) PL_LAST
     \<and> list_all (\<lambda>p. \<not> flags_contain (dp_message_loc p) PL_LAST \<and> length (dp_payload p) = mx) (butlast ps)
     \<and> (data \<noteq> [] \<longrightarrow> dp_payload (last ps) \<noteq> [])"

lemma location_flags [simp]:
  "flags_contain PL_FIRST PL_LAST = False" "flags_contain PL_MIDDLE PL_LAST = False"
  "flags_contain PL_FIRST PL_FIRST" "flags_contain PL_MIDDLE PL_FIRST = False"
  "flags_contain PL_LAST PL_LAST" "flags_contain PL_LAST PL_FIRST = False"
  "PL_FIRST OR PL_LAST = PL_ONLY" "PL_MIDDLE OR PL_LAST = PL_LAST"
  "flags_contain PL_ONLY PL_LAST" "flags_contain PL_ONLY PL_FIRST"
  by (simp_all add: flags_contain_def PL_FIRST_def PL_LAST_def PL_MIDDLE_def PL_ONLY_def)

lemma splits_one:
  "length data \<le> mx \<Longrightarrow> seq_valid s \<Longrightarrow> loc = (if first then PL_ONLY else PL_LAST) \<Longrightarrow>
    splits mx s msg ts sid first data [\<lparr>dp_seq_number = s, dp_message_loc = loc,
      dp_in_order_delivery = io, dp_encryption = DE_None, dp_retransmitted = r,
      dp_message_number = msg, dp_timestamp = ts, dp_dest_sockid = sid, dp_payload = data\<rparr>]"
  by (auto simp: splits_def seqs_from_def seq.add_zero seq_valid_def)

lemma splits_Cons:
  assumes "splits mx (seq_add s 1) msg ts sid False rest ps" "length d = mx" "seq_valid s" "rest \<noteq> []"
    "loc = (if first then PL_FIRST else PL_MIDDLE)"
  shows "splits mx s msg ts sid first (d @ rest) (\<lparr>dp_seq_number = s, dp_message_loc = loc,
      dp_in_order_delivery = io, dp_encryption = DE_None, dp_retransmitted = r,
      dp_message_number = msg, dp_timestamp = ts, dp_dest_sockid = sid, dp_payload = d\<rparr> # ps)"
proof -
  have "seqs_from s (Suc (length ps)) = s # seqs_from (seq_add s 1) (length ps)"
    using seqs_from_append [of s 1 "length ps"] assms(3)
    by (simp add: seqs_from_def seq.add_zero seq_valid_def)
  moreover have "ps = hd ps # tl ps" using assms(1) by (simp add: splits_def)
  ultimately show ?thesis
    using assms by (auto simp: splits_def list_all_iff) (metis list.set_cases list.sel(1) list.sel(3) set_ConsD)+
qed

lemma mei_collect_splits:
  assumes "0 < unat (mei_max_packet_size it)" "seq_valid (mei_next_sequence_number it)"
    "mei_packet_location it = (if first then PL_FIRST else PL_MIDDLE)"
  shows "\<exists>ps it'. mei_collect it = Some (ps, it')
    \<and> splits (unat (mei_max_packet_size it)) (mei_next_sequence_number it) (mei_message_number it)
        (mei_timestamp it) (mei_remote_socket_id it) first (mei_remaining it) ps
    \<and> mei_next_sequence_number it' = seq_add (mei_next_sequence_number it) (of_nat (length ps))"
  using assms
proof (induction "length (mei_remaining it)" arbitrary: it first rule: less_induct)
  case less
  let ?mx = "unat (mei_max_packet_size it)" and ?s = "mei_next_sequence_number it"
  let ?d = "take ?mx (mei_remaining it)"
  have loc: "\<not> flags_contain (mei_packet_location it) PL_LAST" using less.prems(3) by auto
  show ?case
  proof (cases "length (mei_remaining it) > ?mx")
    case True
    define it1 where "it1 = it\<lparr>mei_remaining := drop ?mx (mei_remaining it), mei_packet_location := PL_MIDDLE,
      mei_next_sequence_number := seq_add ?s 1\<rparr>"
    have n: "mei_next it = (Some \<lparr>dp_seq_number = ?s, dp_message_loc = mei_packet_location it,
        dp_in_order_delivery = False, dp_encryption = DE_None, dp_retransmitted = False,
        dp_message_number = mei_message_number it, dp_timestamp = mei_timestamp it,
        dp_dest_sockid = mei_remote_socket_id it, dp_payload = ?d\<rparr>, it1)"
      using True loc by (simp add: mei_next_def it1_def seq_increment_def Let_def)
    have it1: "length (mei_remaining it1) < length (mei_remaining it)" "mei_max_packet_size it1 = mei_max_packet_size it"
      "mei_next_sequence_number it1 = seq_add ?s 1" "seq_valid (seq_add ?s 1)" "0 < ?mx"
      "mei_packet_location it1 = PL_MIDDLE" "mei_message_number it1 = mei_message_number it"
      "mei_timestamp it1 = mei_timestamp it" "mei_remote_socket_id it1 = mei_remote_socket_id it"
      "mei_remaining it1 = drop ?mx (mei_remaining it)"
      using less.prems True by (simp_all add: it1_def)
    obtain ps it' where ih: "mei_collect it1 = Some (ps, it')"
      "splits ?mx (seq_add ?s 1) (mei_message_number it) (mei_timestamp it) (mei_remote_socket_id it) False
        (drop ?mx (mei_remaining it)) ps"
      "mei_next_sequence_number it' = seq_add (seq_add ?s 1) (of_nat (length ps))"
      using less.hyps [of it1 False] it1 by auto
    have "mei_next_sequence_number it' = seq_add ?s (of_nat (Suc (length ps)))"
      using ih(3) by (simp add: seq.add_add)
    then show ?thesis
      using splits_Cons [OF ih(2), of ?d "mei_packet_location it" first False False] True less.prems ih(1) n
      by (subst mei_collect.simps) simp
  next
    case False
    define it1 where "it1 = it\<lparr>mei_remaining := [], mei_packet_location := mei_packet_location it OR PL_LAST,
      mei_next_sequence_number := seq_add ?s 1\<rparr>"
    define p where "p = \<lparr>dp_seq_number = ?s, dp_message_loc = mei_packet_location it OR PL_LAST,
        dp_in_order_delivery = False, dp_encryption = DE_None, dp_retransmitted = False,
        dp_message_number = mei_message_number it, dp_timestamp = mei_timestamp it,
        dp_dest_sockid = mei_remote_socket_id it, dp_payload = mei_remaining it\<rparr>"
    have n: "mei_next it = (Some p, it1)"
      using False loc by (simp add: mei_next_def it1_def p_def seq_increment_def Let_def)
    have "mei_next it1 = (None, it1)"
      using less.prems(3) by (auto simp: mei_next_def it1_def)
    then have c: "mei_collect it1 = Some ([], it1)" by (subst mei_collect.simps) simp
    have "splits ?mx ?s (mei_message_number it) (mei_timestamp it) (mei_remote_socket_id it) first
        (mei_remaining it) [p]"
      unfolding p_def using False less.prems by (intro splits_one) auto
    then show ?thesis
      using n c by (subst mei_collect.simps) (simp add: it1_def)
  qed
qed

lemma encapsulate_splits:
  assumes "0 < unat (en_max_packet_size e)" "seq_valid (en_next_sequence_number e)"
  shows "\<exists>ps. encapsulate e ts data = Some (ps, e\<lparr>en_next_message_number := msg_add (en_next_message_number e) 1,
      en_next_sequence_number := seq_add (en_next_sequence_number e) (of_nat (length ps))\<rparr>)
    \<and> splits (unat (en_max_packet_size e)) (en_next_sequence_number e) (en_next_message_number e) ts
        (en_remote_socket_id e) True data ps"
  using mei_collect_splits [of "fst (encapsulate_iter e ts data)" True] assms
  by (auto simp: encapsulate_def encapsulate_iter_def msg_increment_def)

text \<open>All packets but the last are full, so that their number is determined.\<close>

lemma splits_count:
  assumes "splits mx s msg ts sid first data ps" "0 < mx"
  shows "length ps = max 1 ((length data + mx - 1) div mx)"
proof -
  obtain qs p where ps: "ps = qs @ [p]" using assms(1) by (cases ps rule: rev_cases) (auto simp: splits_def)
  have full: "\<forall>q \<in> set qs. length (dp_payload q) = mx" and p: "length (dp_payload p) \<le> mx"
    using assms(1) by (auto simp: splits_def ps list_all_iff)
  have "length (concat (map dp_payload qs)) = length qs * mx"
    using full by (induction qs) auto
  then have len: "length data = length qs * mx + length (dp_payload p)"
    using assms(1) by (auto simp: splits_def ps)
  show ?thesis
  proof (cases "data = []")
    case True
    then show ?thesis using len assms(2) ps by simp
  next
    case False
    then have "0 < length (dp_payload p)" using assms(1) by (simp add: splits_def ps)
    then have "mx \<le> length (dp_payload p) + mx - 1" "length (dp_payload p) + mx - 1 < 2 * mx"
      and e: "length data + mx - 1 = length qs * mx + (length (dp_payload p) + mx - 1)"
      using p assms(2) len by linarith+
    then have "(length (dp_payload p) + mx - 1) div mx = 1" by (intro div_nat_eqI) simp_all
    then have "(length data + mx - 1) div mx = length qs + 1"
      using div_mult_self3 [of mx "length qs" "length (dp_payload p) + mx - 1"] assms(2) e by simp
    then show ?thesis by (simp add: ps)
  qed
qed

lemma splits_payload:
  assumes "splits mx s msg ts sid first data ps"
  shows "concat (map dp_payload ps) = data" "list_all (\<lambda>p. length (dp_payload p) \<le> mx) ps"
    "map dp_seq_number ps = seqs_from s (length ps)"
  using assms by (auto simp: splits_def list_all_iff)

lemma map_const_False: "list_all (\<lambda>x. \<not> P x) xs \<Longrightarrow> map P xs = replicate (length xs) False"
  by (induction xs) auto

lemma splits_marks:
  assumes "splits mx s msg ts sid True data ps"
  shows "map (\<lambda>p. flags_contain (dp_message_loc p) PL_FIRST) ps = True # replicate (length ps - 1) False"
    and "map (\<lambda>p. flags_contain (dp_message_loc p) PL_LAST) ps = replicate (length ps - 1) False @ [True]"
proof -
  obtain q qs where q: "ps = q # qs" using assms by (cases ps) (auto simp: splits_def)
  have "flags_contain (dp_message_loc q) PL_FIRST" "list_all (\<lambda>p. \<not> flags_contain (dp_message_loc p) PL_FIRST) qs"
    using assms by (simp_all add: splits_def q)
  then show "map (\<lambda>p. flags_contain (dp_message_loc p) PL_FIRST) ps = True # replicate (length ps - 1) False"
    by (simp add: q map_const_False)
  obtain r rs where r: "ps = rs @ [r]" using assms by (cases ps rule: rev_cases) (auto simp: splits_def)
  have "flags_contain (dp_message_loc r) PL_LAST" "list_all (\<lambda>p. \<not> flags_contain (dp_message_loc p) PL_LAST) rs"
    using assms by (simp_all add: splits_def r list_all_iff)
  then show "map (\<lambda>p. flags_contain (dp_message_loc p) PL_LAST) ps = replicate (length ps - 1) False @ [True]"
    by (simp add: r map_const_False)
qed

section \<open>Properties\<close>

text \<open>C17: Splitting a message ends, for every message, when the maximal packet size is positive. It makes as
  many packets as are needed, one for an empty message; their numbers are consecutive, their payloads
  are the message in order and none is too long, and exactly the first packet is marked first and
  exactly the last one last.\<close>

theorem encapsulation_terminates:
  assumes "0 < en_max_packet_size e" "seq_valid (en_next_sequence_number e)"
  shows "\<exists>ps e'. encapsulate e ts data = Some (ps, e')
    \<and> length ps = max 1 ((length data + unat (en_max_packet_size e) - 1) div unat (en_max_packet_size e))
    \<and> concat (map dp_payload ps) = data \<and> list_all (\<lambda>p. length (dp_payload p) \<le> unat (en_max_packet_size e)) ps
    \<and> map dp_seq_number ps = seqs_from (en_next_sequence_number e) (length ps)
    \<and> en_next_sequence_number e' = seq_add (en_next_sequence_number e) (of_nat (length ps))
    \<and> map (\<lambda>p. flags_contain (dp_message_loc p) PL_FIRST) ps = True # replicate (length ps - 1) False
    \<and> map (\<lambda>p. flags_contain (dp_message_loc p) PL_LAST) ps = replicate (length ps - 1) False @ [True]"
proof -
  have mx: "0 < unat (en_max_packet_size e)" using assms(1) by (simp add: word_less_nat_alt)
  obtain ps where ps: "encapsulate e ts data = Some (ps, e\<lparr>en_next_message_number := msg_add (en_next_message_number e) 1,
      en_next_sequence_number := seq_add (en_next_sequence_number e) (of_nat (length ps))\<rparr>)"
    "splits (unat (en_max_packet_size e)) (en_next_sequence_number e) (en_next_message_number e) ts
        (en_remote_socket_id e) True data ps"
    using encapsulate_splits [OF mx assms(2)] by blast
  show ?thesis
    by (intro exI conjI, rule ps(1))
      (rule splits_count [OF ps(2) mx] splits_payload [OF ps(2)] splits_marks [OF ps(2)] | simp)+
qed

definition sample_encapsulation :: Encapsulation where
  "sample_encapsulation = \<lparr>en_remote_socket_id = 2, en_max_packet_size = 3, en_next_message_number = 1,
     en_next_sequence_number = 2147483647\<rparr>"

theorem encapsulation_terminates_witness:
  "\<exists>ps e'. encapsulate sample_encapsulation 7 [1, 2, 3, 4, 5, 6, 7] = Some (ps, e') \<and> length ps = 3
    \<and> concat (map dp_payload ps) = [1, 2, 3, 4, 5, 6, 7]"
  using encapsulation_terminates [of sample_encapsulation 7 "[1, 2, 3, 4, 5, 6, 7]"]
  by (auto simp: sample_encapsulation_def seq_valid_def)

end
