(* ===== verification/Send_Buffer.thy ===== *)
theory Send_Buffer
  imports Settings Loss_Compression Reachability
begin

text \<open>
  The send buffer (\<open>protocol/sender/buffer.rs\<close>): packets waiting to be sent or acknowledged, the list of
  losses reported by the receiver, and the choice of the next packet to send.

  The retransmission timers are kept in a queue of the crate \<open>keyed_priority_queue\<close>; \<open>RtoOps\<close> holds
  its operations and is a parameter. The ordered set of lost sequence numbers (\<open>BTreeSet\<close>, ordered by
  the modular comparison) is the ascending list of its elements; this is what the standard library
  promises as long as the comparison is a total order on the elements, which the invariant ensures.
\<close>

section \<open>The retransmission queue and the ordered set\<close>

record 'q RtoOps =
  rq_new :: 'q
  rq_push :: "'q \<Rightarrow> SeqNumber \<Rightarrow> TimeStamp \<times> SeqNumber \<Rightarrow> 'q"
  rq_remove :: "'q \<Rightarrow> SeqNumber \<Rightarrow> 'q"
  rq_peek :: "'q \<Rightarrow> (SeqNumber \<times> (TimeStamp \<times> SeqNumber)) option"

fun seq_set_insert :: "SeqNumber \<Rightarrow> SeqNumber list \<Rightarrow> SeqNumber list" where
  "seq_set_insert s [] = [s]"
| "seq_set_insert s (x # xs) =
     (case seq_cmp s x of Less \<Rightarrow> s # x # xs | Equal \<Rightarrow> x # xs | Greater \<Rightarrow> x # seq_set_insert s xs)"

section \<open>The buffer\<close>

record SendBufferEntry =
  sbe_packet :: DataPacket
  sbe_transmit_count :: i32

record 'q SendBuffer =
  sb_latency_window :: duration
  sb_flow_window_size :: usize
  sb_buffer :: "SendBufferEntry list"
  sb_max_buffer_size :: usize
  sb_buffer_len_bytes :: usize
  sb_next_send :: SeqNumber
  sb_next_full_ack :: FullAckSeqNumber
  sb_lost_list :: "SeqNumber list"
  sb_rtt :: Rtt
  sb_rto_queue :: 'q

datatype AckError =
    InvalidFullAck FullAckSeqNumber FullAckSeqNumber
  | InvalidAck SeqNumber SeqNumber SeqNumber
  | SendBufferEmpty

record AckAction =
  aa_received :: u64
  aa_recovered :: u64
  aa_send_ack2 :: "FullAckSeqNumber option"

datatype Loss = Loss_Added | Loss_Dropped | Loss_Ignored

datatype SenderAction =
    SA_Send DataPacket
  | SA_RetransmitRto DataPacket
  | SA_RetransmitNak DataPacket
  | SA_Drop SeqNumber SeqNumber
  | SA_WaitForInput
  | SA_WaitForAck u32 u32

definition sb_new :: "'q RtoOps \<Rightarrow> ConnectionSettings \<Rightarrow> 'q SendBuffer" where
  "sb_new rq settings =
     \<lparr>sb_latency_window = max (cs_send_tsbpd_latency settings + cs_send_tsbpd_latency settings div 4)
        (duration_from_millis 1000),
      sb_flow_window_size = unat (cs_max_flow_size settings), sb_buffer = [],
      sb_max_buffer_size = unat (cs_send_buffer_size settings), sb_buffer_len_bytes = 0,
      sb_next_send = cs_init_seq_num settings, sb_next_full_ack = FullAck_INITIAL, sb_lost_list = [],
      sb_rtt = rtt_default, sb_rto_queue = rq_new rq\<rparr>"

definition front_packet :: "'q SendBuffer \<Rightarrow> SeqNumber option" where
  "front_packet self =
     (case sb_buffer self of [] \<Rightarrow> None | e # _ \<Rightarrow> Some (dp_seq_number (sbe_packet e)))"

definition sb_get :: "'q SendBuffer \<Rightarrow> SeqNumber \<Rightarrow> SendBufferEntry option" where
  "sb_get self seq =
     (case front_packet self of
        None \<Rightarrow> None
      | Some front \<Rightarrow>
          let i = unat (seq_diff seq front) in
          if i < length (sb_buffer self) then Some (sb_buffer self ! i) else None)"

definition sb_pop_front :: "'q RtoOps \<Rightarrow> 'q SendBuffer \<Rightarrow> SendBufferEntry option \<times> 'q SendBuffer" where
  "sb_pop_front rq self =
     (case sb_buffer self of
        [] \<Rightarrow> (None, self)
      | entry # rest \<Rightarrow>
          (Some entry, self\<lparr>sb_buffer := rest,
             sb_rto_queue := rq_remove rq (sb_rto_queue self) (dp_seq_number (sbe_packet entry))\<rparr>))"

definition pop_lost_list :: "'q SendBuffer \<Rightarrow> SeqNumber option \<times> 'q SendBuffer" where
  "pop_lost_list self =
     (case sb_lost_list self of
        [] \<Rightarrow> (None, self)
      | n # rest \<Rightarrow> (Some n, self\<lparr>sb_lost_list := rest\<rparr>))"

definition peek_next_lost :: "'q SendBuffer \<Rightarrow> SeqNumber \<Rightarrow> SeqNumber option" where
  "peek_next_lost self seq_num =
     (case sb_lost_list self of
        [] \<Rightarrow> None
      | n # _ \<Rightarrow> if seq_lt n seq_num then Some n else None)"

definition push_data ::
  "'q SendBuffer \<Rightarrow> DataPacket \<Rightarrow> (unit, PacketCount \<times> ByteCount) outcome \<times> 'q SendBuffer" where
  "push_data self packet =
     (let (result, self) =
        (if length (sb_buffer self) < sb_max_buffer_size self then (Ok (), self)
         else
           (case sb_buffer self of
              [] \<Rightarrow> (Ok (), self)
            | entry # rest \<Rightarrow>
                let self = self\<lparr>sb_buffer := rest, sb_buffer_len_bytes :=
                             usize_sub (sb_buffer_len_bytes self) (data_wire_size (sbe_packet entry))\<rparr>;
                    self = (case sb_lost_list self of
                              n # _ \<Rightarrow> if n = dp_seq_number (sbe_packet entry)
                                       then snd (pop_lost_list self) else self
                            | [] \<Rightarrow> self) in
                (Err (1, of_nat (data_wire_size (sbe_packet entry))), self))) in
      (result, self\<lparr>sb_buffer_len_bytes := sb_buffer_len_bytes self + data_wire_size packet,
         sb_buffer := sb_buffer self @ [\<lparr>sbe_packet = packet, sbe_transmit_count = 0\<rparr>]\<rparr>))"

definition sb_is_flushed :: "'q SendBuffer \<Rightarrow> bool" where
  "sb_is_flushed self \<longleftrightarrow> sb_lost_list self = [] \<and> sb_buffer self = []"

definition sb_has_packets_to_send :: "'q SendBuffer \<Rightarrow> bool" where
  "sb_has_packets_to_send self \<longleftrightarrow> sb_get self (sb_next_send self) \<noteq> None \<or> sb_lost_list self \<noteq> []"

definition sb_duration :: "'q SendBuffer \<Rightarrow> duration" where
  "sb_duration self =
     (if sb_buffer self = [] then 0
      else let span = sint (ts_diff (dp_timestamp (sbe_packet (last (sb_buffer self))))
                             (dp_timestamp (sbe_packet (hd (sb_buffer self))))) in
           duration_from_micros (if span < 0 then 0 else nat span))"

section \<open>Acknowledgements\<close>

text \<open>The two loops of \<open>update_largest_acked_seq_number\<close>.\<close>

fun recover_lost :: "SeqNumber \<Rightarrow> SeqNumber list \<Rightarrow> u64 \<Rightarrow> u64 \<times> SeqNumber list" where
  "recover_lost ack_num [] recovered = (recovered, [])"
| "recover_lost ack_num (n # lost) recovered =
     (if seq_lt n ack_num then recover_lost ack_num lost (recovered + 1) else (recovered, n # lost))"

function pop_acked :: "'q RtoOps \<Rightarrow> SeqNumber \<Rightarrow> 'q SendBuffer \<Rightarrow> u64 \<Rightarrow> u64 \<times> 'q SendBuffer" where
  "pop_acked rq ack_num self received =
     (case sb_buffer self of
        [] \<Rightarrow> (received, self)
      | e # _ \<Rightarrow>
          if seq_lt (dp_seq_number (sbe_packet e)) ack_num
          then let self = snd (sb_pop_front rq self);
                   self = self\<lparr>sb_buffer_len_bytes := sb_buffer_len_bytes self - data_wire_size (sbe_packet e)\<rparr> in
               pop_acked rq ack_num self (received + 1)
          else (received, self))"
  by pat_completeness auto
termination
  by (relation "measure (\<lambda>(_, _, self, _). length (sb_buffer self))") (auto simp: sb_pop_front_def)

declare pop_acked.simps [simp del]

definition update_largest_acked_seq_number ::
  "'q RtoOps \<Rightarrow> 'q SendBuffer \<Rightarrow> SeqNumber \<Rightarrow> FullAckSeqNumber option \<Rightarrow> Rtt option
   \<Rightarrow> (AckAction, AckError) outcome \<times> 'q SendBuffer" where
  "update_largest_acked_seq_number rq self ack_num full_ack rtt =
     (case front_packet self of
        None \<Rightarrow> (Err SendBufferEmpty, self)
      | Some first \<Rightarrow>
          let nxt = sb_next_send self in
          if seq_lt ack_num first \<or> seq_cmp ack_num nxt = Greater
          then (Err (InvalidAck ack_num first nxt), self)
          else
            let self = (case rtt of Some rtt \<Rightarrow> self\<lparr>sb_rtt := rtt\<rparr> | None \<Rightarrow> self) in
            if (case full_ack of Some k \<Rightarrow> k < sb_next_full_ack self | None \<Rightarrow> False)
            then (Err (InvalidFullAck (the full_ack) (sb_next_full_ack self)), self)
            else
              let self = (case full_ack of
                            Some k \<Rightarrow> self\<lparr>sb_next_full_ack := full_ack_add k 1\<rparr> | None \<Rightarrow> self);
                  (recovered, lost) = recover_lost ack_num (sb_lost_list self) 0;
                  (received, self) = pop_acked rq ack_num (self\<lparr>sb_lost_list := lost\<rparr>) 0 in
              (Ok \<lparr>aa_received = received, aa_recovered = recovered, aa_send_ack2 = full_ack\<rparr>, self))"

section \<open>Loss reports\<close>

definition next_loss :: "'q SendBuffer \<Rightarrow> SeqNumber \<Rightarrow> (Loss \<times> SeqNumber) \<times> 'q SendBuffer" where
  "next_loss self nxt =
     (if \<not> seq_lt nxt (sb_next_send self) then ((Loss_Ignored, nxt), self)
      else
        (case front_packet self of
           Some front \<Rightarrow>
             if seq_lt nxt front then ((Loss_Dropped, nxt), self)
             else ((Loss_Added, nxt), self\<lparr>sb_lost_list := seq_set_insert nxt (sb_lost_list self)\<rparr>)
         | None \<Rightarrow> ((Loss_Dropped, nxt), self)))"

text \<open>\<open>LossIterator::next\<close> with the first item taken, extending the range until another kind of loss or a
  gap follows; then the ranges of a whole report.\<close>

fun loss_ranges ::
  "'q SendBuffer \<Rightarrow> SeqNumber list \<Rightarrow> Loss \<Rightarrow> SeqNumber \<Rightarrow> SeqNumber
   \<Rightarrow> (Loss \<times> SeqNumber \<times> SeqNumber) list \<times> 'q SendBuffer" where
  "loss_ranges self [] first_type start end = ([(first_type, start, end)], self)"
| "loss_ranges self (n # ns) first_type start end =
     (let ((next_type, nxt), self) = next_loss self n in
      if next_type = first_type \<and> nxt = end then loss_ranges self ns first_type start (seq_add nxt 1)
      else let (rs, self) = loss_ranges self ns next_type nxt (seq_add nxt 1) in
           ((first_type, start, end) # rs, self))"

definition add_losses ::
  "'q SendBuffer \<Rightarrow> SeqNumber list \<Rightarrow> (Loss \<times> SeqNumber \<times> SeqNumber) list \<times> 'q SendBuffer" where
  "add_losses self losses =
     (case losses of
        [] \<Rightarrow> ([], self)
      | n # ns \<Rightarrow> let ((first_type, start), self) = next_loss self n in
                  loss_ranges self ns first_type start (seq_add start 1))"

definition add_to_loss_list ::
  "'q SendBuffer \<Rightarrow> CompressedLossList
   \<Rightarrow> ((Loss \<times> SeqNumber \<times> SeqNumber) list \<times> 'q SendBuffer) may_panic" where
  "add_to_loss_list self nak = map_outcome_ok (add_losses self) (iter_decompressed nak)"

section \<open>Sending\<close>

definition rto_constant :: "Rtt \<Rightarrow> TimeSpan" where
  "rto_constant rtt = span_add_duration (span_add (rtt_mean rtt) (span_mul (rtt_variance rtt) 4)) (2 * Timers_SYN)"

definition entry_rto :: "Rtt \<Rightarrow> i32 \<Rightarrow> TimeSpan" where
  "entry_rto rtt transmit_count =
     (if transmit_count = 0 then rto_constant rtt
      else span_add_duration (span_mul (rto_constant rtt) transmit_count) Timers_SYN)"

definition send_packet ::
  "'q RtoOps \<Rightarrow> 'q SendBuffer \<Rightarrow> TimeStamp \<Rightarrow> SeqNumber \<Rightarrow> DataPacket option \<times> 'q SendBuffer" where
  "send_packet rq self ts_now seq_number =
     (case front_packet self of
        None \<Rightarrow> (None, self)
      | Some front \<Rightarrow>
          let index = unat (seq_diff seq_number front) in
          if length (sb_buffer self) \<le> index then (None, self)
          else
            let entry = sb_buffer self ! index;
                rto = entry_rto (sb_rtt self) (sbe_transmit_count entry);
                packet = sbe_packet entry;
                entry = \<lparr>sbe_packet = packet\<lparr>dp_retransmitted := True\<rparr>,
                         sbe_transmit_count = sbe_transmit_count entry + 1\<rparr> in
            (Some packet,
             self\<lparr>sb_rto_queue := rq_push rq (sb_rto_queue self) seq_number (ts_add_span ts_now rto, seq_number),
                  sb_buffer := (sb_buffer self)[index := entry]\<rparr>))"

definition send_next_packet ::
  "'q RtoOps \<Rightarrow> 'q SendBuffer \<Rightarrow> TimeStamp \<Rightarrow> DataPacket option \<times> 'q SendBuffer" where
  "send_next_packet rq self ts_now =
     (case send_packet rq self ts_now (sb_next_send self) of
        (None, self) \<Rightarrow> (None, self)
      | (Some p, self) \<Rightarrow> (Some p, self\<lparr>sb_next_send := seq_add (sb_next_send self) 1\<rparr>))"

definition send_next_16n_packet ::
  "'q RtoOps \<Rightarrow> 'q SendBuffer \<Rightarrow> TimeStamp \<Rightarrow> DataPacket option \<times> 'q SendBuffer" where
  "send_next_16n_packet rq self ts_now =
     (if mod_rem (sb_next_send self) 16 = 0 then send_next_packet rq self ts_now else (None, self))"

definition send_next_lost_packet ::
  "'q RtoOps \<Rightarrow> 'q SendBuffer \<Rightarrow> TimeStamp \<Rightarrow> DataPacket option may_panic \<times> 'q SendBuffer" where
  "send_next_lost_packet rq self ts_now =
     (case pop_lost_list self of
        (None, self) \<Rightarrow> (Ok None, self)
      | (Some seq, self) \<Rightarrow>
          (case send_packet rq self ts_now seq of
             (Some packet, self) \<Rightarrow> (Ok (Some packet), self)
           | (None, self) \<Rightarrow> (Panic, self)))"

definition send_next_rto_packet ::
  "'q RtoOps \<Rightarrow> 'q SendBuffer \<Rightarrow> TimeStamp \<Rightarrow> DataPacket option \<times> 'q SendBuffer" where
  "send_next_rto_packet rq self ts_now =
     (case rq_peek rq (sb_rto_queue self) of
        Some (next_rto, (rto, _)) \<Rightarrow>
          if ts_lt rto ts_now then send_packet rq self ts_now next_rto else (None, self)
      | None \<Rightarrow> (None, self))"

section \<open>Dropping what is too late\<close>

fun late_last_packet ::
  "TimeStamp \<Rightarrow> duration \<Rightarrow> SendBufferEntry list \<Rightarrow> MsgNumber \<Rightarrow> SeqNumber \<Rightarrow> SeqNumber" where
  "late_last_packet ts_now latency_window [] message lst = lst"
| "late_last_packet ts_now latency_window (e # es) message lst =
     (let p = sbe_packet e in
      if ts_gt ts_now (ts_add_duration (dp_timestamp p) latency_window)
      then late_last_packet ts_now latency_window es (dp_message_number p) (dp_seq_number p)
      else if dp_message_number p = message
      then late_last_packet ts_now latency_window es message (dp_seq_number p)
      else lst)"

definition range_contains :: "SeqNumber \<Rightarrow> SeqNumber \<Rightarrow> SeqNumber \<Rightarrow> bool" where
  "range_contains start end s \<longleftrightarrow> seq_le start s \<and> seq_lt s end"

definition sb_drop_too_late_packets ::
  "'q SendBuffer \<Rightarrow> TimeStamp \<Rightarrow> (SeqNumber \<times> SeqNumber) option may_panic \<times> 'q SendBuffer" where
  "sb_drop_too_late_packets self ts_now =
     (case sb_buffer self of
        [] \<Rightarrow> (Ok None, self)
      | e # _ \<Rightarrow>
          let front = sbe_packet e in
          if \<not> ts_gt ts_now (ts_add_duration (dp_timestamp front) (sb_latency_window self)) then (Ok None, self)
          else
            let first = dp_seq_number front;
                lst = late_last_packet ts_now (sb_latency_window self) (sb_buffer self)
                  (dp_message_number front) first;
                end = seq_add lst 1;
                count = seq_diff lst first + 1 in
            if length (sb_buffer self) < unat count then (Panic, self)
            else
              let self = self\<lparr>sb_buffer := drop (unat count) (sb_buffer self),
                    sb_lost_list := dropWhile (range_contains first end) (sb_lost_list self)\<rparr> in
              (Ok (Some (first, end)),
               self\<lparr>sb_next_send := (if seq_cmp (sb_next_send self) end = Greater then sb_next_send self else end)\<rparr>))"

definition flush_on_close :: "'q RtoOps \<Rightarrow> 'q SendBuffer \<Rightarrow> bool \<Rightarrow> DataPacket option \<times> 'q SendBuffer" where
  "flush_on_close rq self should_drain =
     (if should_drain \<and> length (sb_buffer self) = 1
      then let p = sbe_packet (hd (sb_buffer self));
               self = snd (sb_pop_front rq self) in
           (Some p, self\<lparr>sb_buffer_len_bytes := sb_buffer_len_bytes self - data_wire_size p\<rparr>)
      else (None, self))"

definition number_of_unacked_packets :: "'q SendBuffer \<Rightarrow> usize" where
  "number_of_unacked_packets self =
     (case front_packet self of None \<Rightarrow> 0 | Some front \<Rightarrow> unat (seq_diff (sb_next_send self) front))"

definition flow_window_exceeded :: "'q SendBuffer \<Rightarrow> bool" where
  "flow_window_exceeded self \<longleftrightarrow> number_of_unacked_packets self > sb_flow_window_size self"

section \<open>The sender algorithm\<close>

record 'q SenderAlgorithmIterator =
  sai_buffer :: "'q SendBuffer"
  sai_ts_now :: TimeStamp
  sai_should_drain :: bool
  sai_packets_to_send :: u32
  sai_attempt_16n_packet :: bool

definition sai_sent :: "'q SenderAlgorithmIterator \<Rightarrow> 'q SenderAlgorithmIterator" where
  "sai_sent self = self\<lparr>sai_packets_to_send :=
     (if sai_packets_to_send self = 0 then 0 else sai_packets_to_send self - 1)\<rparr>"

text \<open>The part of \<open>next\<close> after the attempt to send a packet with a number divisible by 16.\<close>

definition sai_choose ::
  "'q RtoOps \<Rightarrow> 'q SenderAlgorithmIterator \<Rightarrow> SenderAction option may_panic \<times> 'q SenderAlgorithmIterator" where
  "sai_choose rq self =
     (if sai_packets_to_send self = 0 then (Ok None, self)
      else
        (case sb_drop_too_late_packets (sai_buffer self) (sai_ts_now self) of
           (Ok (Some (start, end)), b) \<Rightarrow> (Ok (Some (SA_Drop start end)), self\<lparr>sai_buffer := b\<rparr>)
         | (Ok None, b) \<Rightarrow>
             (case send_next_lost_packet rq b (sai_ts_now self) of
                (Ok (Some p), b) \<Rightarrow> (Ok (Some (SA_RetransmitNak p)), sai_sent (self\<lparr>sai_buffer := b\<rparr>))
              | (Ok None, b) \<Rightarrow>
                  (case send_next_rto_packet rq b (sai_ts_now self) of
                     (Some p, b) \<Rightarrow> (Ok (Some (SA_RetransmitRto p)), sai_sent (self\<lparr>sai_buffer := b\<rparr>))
                   | (None, b) \<Rightarrow>
                       if flow_window_exceeded b
                       then (Ok (Some (SA_WaitForAck 10000 (of_nat (number_of_unacked_packets b)))),
                             self\<lparr>sai_buffer := b, sai_packets_to_send := 0\<rparr>)
                       else
                         (case send_next_packet rq b (sai_ts_now self) of
                            (Some p, b) \<Rightarrow>
                              (Ok (Some (SA_Send p)),
                               sai_sent (self\<lparr>sai_buffer := b, sai_attempt_16n_packet := True\<rparr>))
                          | (None, b) \<Rightarrow>
                              (case flush_on_close rq b (sai_should_drain self) of
                                 (Some p, b) \<Rightarrow> (Ok (Some (SA_Send p)), sai_sent (self\<lparr>sai_buffer := b\<rparr>))
                               | (None, b) \<Rightarrow>
                                   (Ok (Some SA_WaitForInput),
                                    self\<lparr>sai_buffer := b, sai_packets_to_send := 0\<rparr>))))
              | (Err e, b) \<Rightarrow> (Err e, self)
              | (Panic, b) \<Rightarrow> (Panic, self))
         | (Err e, b) \<Rightarrow> (Err e, self)
         | (Panic, b) \<Rightarrow> (Panic, self)))"

definition sai_next ::
  "'q RtoOps \<Rightarrow> 'q SenderAlgorithmIterator \<Rightarrow> SenderAction option may_panic \<times> 'q SenderAlgorithmIterator" where
  "sai_next rq self =
     (if sai_attempt_16n_packet self
      then let self = self\<lparr>sai_attempt_16n_packet := False\<rparr> in
           (case send_next_16n_packet rq (sai_buffer self) (sai_ts_now self) of
              (Some p, b) \<Rightarrow> (Ok (Some (SA_Send p)), sai_sent (self\<lparr>sai_buffer := b\<rparr>))
            | (None, b) \<Rightarrow> sai_choose rq (self\<lparr>sai_buffer := b\<rparr>))
      else sai_choose rq self)"

definition next_snd_actions ::
  "'q SendBuffer \<Rightarrow> TimeStamp \<Rightarrow> u32 \<Rightarrow> bool \<Rightarrow> 'q SenderAlgorithmIterator" where
  "next_snd_actions self ts_now packets_to_send should_drain =
     \<lparr>sai_buffer = self, sai_ts_now = ts_now, sai_should_drain = should_drain,
      sai_packets_to_send = packets_to_send, sai_attempt_16n_packet = False\<rparr>"

end
