(* ===== verification/Send_Algorithm.thy ===== *)
theory Send_Algorithm
  imports Send_Buffer
begin

text \<open>
  Correctness of the send buffer (theory \<open>Send_Buffer\<close>): its packets carry consecutive sequence
  numbers, the next packet to send is one of them or the one after the last, and every number in the
  loss list is that of a packet that was sent and is still held. The loop that takes the actions of
  the sender algorithm (\<open>on_snd_event\<close> in \<open>protocol/sender/mod.rs\<close>) is added here; it always ends.
\<close>

section \<open>The loop over the actions\<close>

partial_function (option) snd_actions ::
  "'q RtoOps \<Rightarrow> 'q SenderAlgorithmIterator
   \<Rightarrow> (SenderAction list may_panic \<times> 'q SenderAlgorithmIterator) option" where
  "snd_actions rq it =
     (case fst (sai_next rq it) of
        Ok None \<Rightarrow> Some (Ok [], snd (sai_next rq it))
      | Ok (Some SA_WaitForInput) \<Rightarrow> Some (Ok [SA_WaitForInput], snd (sai_next rq it))
      | Ok (Some (SA_WaitForAck w u)) \<Rightarrow> Some (Ok [SA_WaitForAck w u], snd (sai_next rq it))
      | Ok (Some action) \<Rightarrow>
          Option.bind (snd_actions rq (snd (sai_next rq it)))
            (\<lambda>(r, it'). Some (map_outcome_ok (Cons action) r, it'))
      | Err e \<Rightarrow> Some (Err e, snd (sai_next rq it))
      | Panic \<Rightarrow> Some (Panic, snd (sai_next rq it)))"

section \<open>The invariant\<close>

definition sb_seqs :: "'q SendBuffer \<Rightarrow> SeqNumber list" where
  "sb_seqs sb = map (\<lambda>e. dp_seq_number (sbe_packet e)) (sb_buffer sb)"

definition sb_inv :: "nat \<Rightarrow> nat \<Rightarrow> 'q SendBuffer \<Rightarrow> bool" where
  "sb_inv start ns sb \<longleftrightarrow> sb_seqs sb = seqs_from (seq_of start) (length (sb_buffer sb))
     \<and> sb_next_send sb = seq_of ns \<and> start \<le> ns \<and> ns \<le> start + length (sb_buffer sb)
     \<and> (\<exists>ls. sb_lost_list sb = map seq_of ls \<and> sorted_wrt (<) ls \<and> set ls \<subseteq> {start..<ns})
     \<and> 0 < sb_max_buffer_size sb \<and> length (sb_buffer sb) \<le> sb_max_buffer_size sb
     \<and> sb_max_buffer_size sb < 2 ^ 30"

lemma sb_invD:
  assumes "sb_inv start ns sb"
  shows "sb_seqs sb = seqs_from (seq_of start) (length (sb_buffer sb))" "sb_next_send sb = seq_of ns"
    "start \<le> ns" "ns \<le> start + length (sb_buffer sb)" "length (sb_buffer sb) < 2 ^ 30"
    "length (sb_buffer sb) \<le> sb_max_buffer_size sb" "0 < sb_max_buffer_size sb" "sb_max_buffer_size sb < 2 ^ 30"
  using assms by (auto simp: sb_inv_def)

lemma sb_inv_lost:
  assumes "sb_inv start ns sb"
  obtains ls where "sb_lost_list sb = map seq_of ls" "sorted_wrt (<) ls" "set ls \<subseteq> {start..<ns}"
  using assms by (auto simp: sb_inv_def)

lemma sb_seq_nth:
  assumes "sb_inv start ns sb" "i < length (sb_buffer sb)"
  shows "dp_seq_number (sbe_packet (sb_buffer sb ! i)) = seq_of (start + i)"
proof -
  have "sb_seqs sb ! i = seqs_from (seq_of start) (length (sb_buffer sb)) ! i"
    using sb_invD(1) [OF assms(1)] by simp
  then show ?thesis using assms(2) by (simp add: sb_seqs_def seqs_from_nth seq_of_add)
qed

lemma front_packet_inv:
  "sb_inv start ns sb \<Longrightarrow> front_packet sb = (if sb_buffer sb = [] then None else Some (seq_of start))"
  using sb_seq_nth [of start ns sb 0] by (cases "sb_buffer sb") (auto simp: front_packet_def)

text \<open>Entries may change as long as their sequence numbers do not.\<close>

lemma sb_inv_same:
  assumes "sb_inv start ns sb" "sb_seqs sb' = sb_seqs sb" "sb_next_send sb' = sb_next_send sb"
    "sb_lost_list sb' = sb_lost_list sb" "sb_max_buffer_size sb' = sb_max_buffer_size sb"
  shows "sb_inv start ns sb'"
proof -
  have "length (sb_buffer sb') = length (sb_buffer sb)"
    using arg_cong [OF assms(2), of length] by (simp add: sb_seqs_def)
  then show ?thesis using assms by (simp add: sb_inv_def)
qed

lemma seqs_from_drop: "k \<le> n \<Longrightarrow> drop k (seqs_from (seq_of s) n) = seqs_from (seq_of (s + k)) (n - k)"
  by (simp add: drop_seqs_from seq_of_add)

lemma sb_seqs_drop:
  "sb_inv start ns sb \<Longrightarrow> k \<le> length (sb_buffer sb) \<Longrightarrow>
    map (\<lambda>e. dp_seq_number (sbe_packet e)) (drop k (sb_buffer sb))
      = seqs_from (seq_of (start + k)) (length (sb_buffer sb) - k)"
  using sb_invD(1) [of start ns sb] seqs_from_drop [of k "length (sb_buffer sb)" start]
  by (simp add: sb_seqs_def flip: drop_map)

lemma sb_inv_lost_update:
  "sb_inv start ns sb \<Longrightarrow> sorted_wrt (<) ls \<Longrightarrow> set ls \<subseteq> {start..<ns} \<Longrightarrow>
    sb_inv start ns (sb\<lparr>sb_lost_list := map seq_of ls\<rparr>)"
  unfolding sb_inv_def sb_seqs_def by auto

section \<open>Sending one packet\<close>

lemma send_packet_in:
  assumes "sb_inv start ns sb" "start \<le> n" "n < start + length (sb_buffer sb)"
  shows "\<exists>sb'. send_packet rq sb ts (seq_of n) = (Some (sbe_packet (sb_buffer sb ! (n - start))), sb')
    \<and> sb_inv start ns sb' \<and> length (sb_buffer sb') = length (sb_buffer sb)
    \<and> sb_lost_list sb' = sb_lost_list sb \<and> sb_next_send sb' = sb_next_send sb"
proof -
  let ?i = "n - start"
  have len: "length (sb_buffer sb) < 2 ^ 30" using sb_invD(5) [OF assms(1)] .
  have f: "front_packet sb = Some (seq_of start)"
    using front_packet_inv [OF assms(1)] assms(2,3) by auto
  have i: "unat (seq_diff (seq_of n) (seq_of start)) = ?i" "?i < length (sb_buffer sb)"
    using assms(2,3) len by (auto intro: seq_diff_seq_of)
  define e where "e = \<lparr>sbe_packet = (sbe_packet (sb_buffer sb ! ?i))\<lparr>dp_retransmitted := True\<rparr>,
    sbe_transmit_count = sbe_transmit_count (sb_buffer sb ! ?i) + 1\<rparr>"
  define sb' where "sb' = sb\<lparr>sb_rto_queue := rq_push rq (sb_rto_queue sb) (seq_of n)
      (ts_add_span ts (entry_rto (sb_rtt sb) (sbe_transmit_count (sb_buffer sb ! ?i))), seq_of n),
    sb_buffer := (sb_buffer sb)[?i := e]\<rparr>"
  have "sb_seqs sb' = sb_seqs sb"
    using i(2) by (auto simp: sb_seqs_def sb'_def e_def map_update intro!: nth_equalityI simp: nth_list_update)
  then have "sb_inv start ns sb'"
    by (intro sb_inv_same [OF assms(1)]) (simp_all add: sb'_def)
  moreover have "send_packet rq sb ts (seq_of n) = (Some (sbe_packet (sb_buffer sb ! ?i)), sb')"
    using f i by (simp add: send_packet_def Let_def sb'_def e_def)
  ultimately show ?thesis by (intro exI [of _ sb']) (simp add: sb'_def)
qed

lemma send_packet_out:
  assumes "sb_inv start ns sb" "start + length (sb_buffer sb) \<le> n" "n < start + 2 ^ 31"
  shows "send_packet rq sb ts (seq_of n) = (None, sb)"
  using front_packet_inv [OF assms(1)] seq_diff_seq_of [of start n] assms(2,3)
  by (auto simp: send_packet_def Let_def)

lemma send_packet_any:
  assumes "sb_inv start ns sb" "send_packet rq sb ts s = (r, sb')"
  shows "sb_inv start ns sb' \<and> length (sb_buffer sb') = length (sb_buffer sb)
    \<and> sb_lost_list sb' = sb_lost_list sb \<and> sb_next_send sb' = sb_next_send sb"
proof -
  have "sb_seqs sb' = sb_seqs sb \<and> sb_next_send sb' = sb_next_send sb \<and> sb_lost_list sb' = sb_lost_list sb
    \<and> sb_max_buffer_size sb' = sb_max_buffer_size sb \<and> length (sb_buffer sb') = length (sb_buffer sb)"
    using assms(2)
    by (auto simp: send_packet_def Let_def sb_seqs_def map_update nth_list_update
        split: option.splits if_splits intro!: nth_equalityI)
  then show ?thesis using sb_inv_same [OF assms(1)] by blast
qed

lemma send_next_packet_step:
  assumes "sb_inv start ns sb"
  shows "ns = start + length (sb_buffer sb) \<Longrightarrow> send_next_packet rq sb ts = (None, sb)"
    and "ns < start + length (sb_buffer sb) \<Longrightarrow> \<exists>sb'. send_next_packet rq sb ts =
        (Some (sbe_packet (sb_buffer sb ! (ns - start))), sb') \<and> sb_inv start (Suc ns) sb'
        \<and> length (sb_buffer sb') = length (sb_buffer sb)"
proof -
  note inv = sb_invD [OF assms]
  show "ns = start + length (sb_buffer sb) \<Longrightarrow> send_next_packet rq sb ts = (None, sb)"
    using send_packet_out [OF assms, of ns rq ts] inv(2,5) by (simp add: send_next_packet_def)
  assume "ns < start + length (sb_buffer sb)"
  then obtain sb' where sb': "send_packet rq sb ts (seq_of ns) = (Some (sbe_packet (sb_buffer sb ! (ns - start))), sb')"
      "sb_inv start ns sb'" "length (sb_buffer sb') = length (sb_buffer sb)" "sb_next_send sb' = sb_next_send sb"
    using send_packet_in [OF assms inv(3)] by blast
  have "sb_inv start (Suc ns) (sb'\<lparr>sb_next_send := seq_add (seq_of ns) 1\<rparr>)"
    using sb'(2,3) \<open>ns < start + length (sb_buffer sb)\<close> seq_of_add [of ns 1]
    by (fastforce simp: sb_inv_def sb_seqs_def)
  then show "\<exists>sb'. send_next_packet rq sb ts =
        (Some (sbe_packet (sb_buffer sb ! (ns - start))), sb') \<and> sb_inv start (Suc ns) sb'
        \<and> length (sb_buffer sb') = length (sb_buffer sb)"
    using sb' inv(2) by (auto simp: send_next_packet_def)
qed

section \<open>Losses\<close>

lemma send_next_lost_step:
  assumes "sb_inv start ns sb"
  shows "sb_lost_list sb = [] \<Longrightarrow> send_next_lost_packet rq sb ts = (Ok None, sb)"
    and "sb_lost_list sb = l # ls \<Longrightarrow> \<exists>n sb'. l = seq_of n \<and> start \<le> n \<and> n < ns
        \<and> send_next_lost_packet rq sb ts = (Ok (Some (sbe_packet (sb_buffer sb ! (n - start)))), sb')
        \<and> sb_inv start ns sb' \<and> length (sb_buffer sb') = length (sb_buffer sb) \<and> sb_lost_list sb' = ls"
proof -
  show "sb_lost_list sb = [] \<Longrightarrow> send_next_lost_packet rq sb ts = (Ok None, sb)"
    by (simp add: send_next_lost_packet_def pop_lost_list_def)
  assume l: "sb_lost_list sb = l # ls"
  obtain ns' where n: "sb_lost_list sb = map seq_of ns'" "sorted_wrt (<) ns'" "set ns' \<subseteq> {start..<ns}"
    by (rule sb_inv_lost [OF assms])
  then obtain n ms where nm: "ns' = n # ms" "l = seq_of n" "ls = map seq_of ms"
    using l by (cases ns') auto
  have inv1: "sb_inv start ns (sb\<lparr>sb_lost_list := ls\<rparr>)"
    unfolding nm(3) using n(2,3) by (intro sb_inv_lost_update [OF assms]) (simp_all add: nm(1))
  obtain sb' where "send_packet rq (sb\<lparr>sb_lost_list := ls\<rparr>) ts (seq_of n) =
      (Some (sbe_packet (sb_buffer sb ! (n - start))), sb')" "sb_inv start ns sb'"
      "length (sb_buffer sb') = length (sb_buffer sb)" "sb_lost_list sb' = ls"
    using send_packet_in [OF inv1, of n rq ts] n(3) nm(1) sb_invD(4) [OF assms] by auto
  then show "\<exists>n sb'. l = seq_of n \<and> start \<le> n \<and> n < ns
        \<and> send_next_lost_packet rq sb ts = (Ok (Some (sbe_packet (sb_buffer sb ! (n - start)))), sb')
        \<and> sb_inv start ns sb' \<and> length (sb_buffer sb') = length (sb_buffer sb) \<and> sb_lost_list sb' = ls"
    using n nm l by (intro exI [of _ n]) (auto simp: send_next_lost_packet_def pop_lost_list_def)
qed

lemma seq_set_insert_positions:
  assumes "sorted_wrt (<) ls" "set ls \<subseteq> {a..<a + 2 ^ 30}" "a \<le> n" "n < a + 2 ^ 30"
  shows "\<exists>ls'. seq_set_insert (seq_of n) (map seq_of ls) = map seq_of ls' \<and> sorted_wrt (<) ls'
    \<and> set ls' = insert n (set ls)"
  using assms
proof (induction ls)
  case Nil
  then show ?case by (intro exI [of _ "[n]"]) simp
next
  case (Cons l ls)
  have cmp: "seq_cmp (seq_of n) (seq_of l) = (if n < l then Less else if n = l then Equal else Greater)"
    using Cons.prems by (intro seq_cmp_seq_of) auto
  consider "n < l" | "n = l" | "l < n" by linarith
  then show ?case
  proof cases
    case 1
    then show ?thesis using Cons.prems cmp by (intro exI [of _ "n # l # ls"]) auto
  next
    case 2
    then show ?thesis using Cons.prems cmp by (intro exI [of _ "l # ls"]) auto
  next
    case 3
    then obtain ls' where "seq_set_insert (seq_of n) (map seq_of ls) = map seq_of ls'" "sorted_wrt (<) ls'"
        "set ls' = insert n (set ls)"
      using Cons by auto
    then show ?thesis using 3 Cons.prems cmp by (intro exI [of _ "l # ls'"]) auto
  qed
qed

text \<open>A number that is neither before the first packet nor at or after the next one to send belongs to a
  packet that was sent.\<close>

lemma sent_position:
  assumes "seq_valid s" "\<not> seq_lt s (seq_of start)" "start \<le> ns" "ns < start + 2 ^ 30"
  obtains n where "s = seq_of n" "start \<le> n" "n < start + 2 ^ 30" "seq_lt s (seq_of ns) \<longleftrightarrow> n < ns"
    "seq_cmp s (seq_of ns) = Greater \<longleftrightarrow> ns < n"
proof (rule seq_positions [of "seq_of start" s 0])
  fix i assume i: "s = seq_add (seq_of start) (of_nat i)" "i < 0 + 2 ^ 30"
  then have s: "s = seq_of (start + i)" by (simp add: seq_of_add)
  have "seq_cmp s (seq_of ns) = (if start + i < ns then Less else if start + i = ns then Equal else Greater)"
    unfolding s using i(2) assms(3,4) by (intro seq_cmp_seq_of) auto
  then show thesis using that [of "start + i"] s i(2) by (simp add: mod_lt_def)
next
  fix j assume "seq_add s (of_nat j) = seq_of start" "0 < j" "j + 0 \<le> 2 ^ 30"
  then show thesis using seq_cmp_after [OF assms(1), of j] assms(2) by (simp add: mod_lt_def)
qed (use assms in simp_all)

lemma next_loss_step:
  assumes "sb_inv start ns sb" "seq_valid s" "next_loss sb s = ((t, s'), sb')"
  shows "sb_inv start ns sb' \<and> s' = s
    \<and> set (sb_lost_list sb') = set (sb_lost_list sb) \<union> (if t = Loss_Added then {s} else {})
    \<and> (t = Loss_Added \<longleftrightarrow> (\<exists>n. s = seq_of n \<and> start \<le> n \<and> n < ns))"
proof -
  note inv = sb_invD [OF assms(1)]
  have ns30: "ns < start + 2 ^ 30" using inv(4,5) by simp
  have lt: "seq_lt (seq_of n) (seq_of ns)" "\<not> seq_lt (seq_of n) (seq_of start)" if "start \<le> n" "n < ns" for n
    using that ns30 by (auto simp: mod_lt_def seq_cmp_seq_of)
  consider "\<not> seq_lt s (sb_next_send sb)" | "seq_lt s (sb_next_send sb)" "sb_buffer sb = []"
    | "seq_lt s (sb_next_send sb)" "sb_buffer sb \<noteq> []" "seq_lt s (seq_of start)"
    | "seq_lt s (sb_next_send sb)" "sb_buffer sb \<noteq> []" "\<not> seq_lt s (seq_of start)" by blast
  then show ?thesis
  proof cases
    case 1
    then show ?thesis using assms inv(2) lt(1) by (auto simp: next_loss_def)
  next
    case 2
    then show ?thesis using assms inv(2,3,4) front_packet_inv [OF assms(1)] by (auto simp: next_loss_def)
  next
    case 3
    then show ?thesis using assms front_packet_inv [OF assms(1)] lt(2) by (auto simp: next_loss_def)
  next
    case 4
    obtain n where n: "s = seq_of n" "start \<le> n" "n < ns"
      using sent_position [OF assms(2) 4(3) inv(3) ns30] 4(1) inv(2) by metis
    have r: "t = Loss_Added" "s' = s" "sb' = sb\<lparr>sb_lost_list := seq_set_insert s (sb_lost_list sb)\<rparr>"
      using 4 assms(3) front_packet_inv [OF assms(1)] by (auto simp: next_loss_def)
    obtain ls where ls: "sb_lost_list sb = map seq_of ls" "sorted_wrt (<) ls" "set ls \<subseteq> {start..<ns}"
      by (rule sb_inv_lost [OF assms(1)])
    have "set ls \<subseteq> {start..<start + 2 ^ 30}" "n < start + 2 ^ 30" using ls(3) ns30 n(3) by auto
    then obtain ls' where ls': "sb_lost_list sb' = map seq_of ls'" "sorted_wrt (<) ls'" "set ls' = insert n (set ls)"
      using seq_set_insert_positions [OF ls(2) _ n(2)] r(3) ls(1) n(1) by auto
    have "sb_inv start ns sb'"
      using sb_inv_lost_update [OF assms(1) ls'(2)] ls' ls(3) n(2,3) r(3) by (simp add: subset_iff)
    then show ?thesis using r(1,2) n ls ls' by auto
  qed
qed

lemma loss_ranges_step:
  assumes "sb_inv start ns sb" "list_all seq_valid ss"
  shows "sb_inv start ns (snd (loss_ranges sb ss t a b))
    \<and> set (sb_lost_list (snd (loss_ranges sb ss t a b)))
      = set (sb_lost_list sb) \<union> {s \<in> set ss. \<exists>n. s = seq_of n \<and> start \<le> n \<and> n < ns}"
  using assms
proof (induction sb ss t a b rule: loss_ranges.induct)
  case (2 sb n ns' first_type a b)
  obtain t s' sb1 where nl: "next_loss sb n = ((t, s'), sb1)" by (metis prod.exhaust)
  have s: "sb_inv start ns sb1" "s' = n"
    "set (sb_lost_list sb1) = set (sb_lost_list sb) \<union> (if t = Loss_Added then {n} else {})"
    "t = Loss_Added \<longleftrightarrow> (\<exists>k. n = seq_of k \<and> start \<le> k \<and> k < ns)"
    using next_loss_step [OF "2.prems"(1) _ nl] "2.prems"(2) by auto
  have v: "list_all seq_valid ns'" using "2.prems"(2) by simp
  show ?case
  proof (cases "t = first_type \<and> s' = b")
    case True
    then show ?thesis using "2.IH"(1) [OF nl [symmetric] refl refl True s(1) v] nl s(3,4) by auto
  next
    case False
    obtain rs sb2 where r: "loss_ranges sb1 ns' t s' (seq_add s' 1) = (rs, sb2)"
      by (metis prod.exhaust)
    show ?thesis using "2.IH"(2) [OF nl [symmetric] refl refl False s(1) v] nl s(3,4) False r by auto
  qed
qed simp

lemma decompress_next_valid: "decompress_next d = Ok (Some s, d') \<Longrightarrow> seq_valid s"
  by (auto simp: decompress_next_def Let_def split: option.splits list.splits if_splits)

lemma decompress_collect_valid: "decompress_collect d = Ok ss \<Longrightarrow> list_all seq_valid ss"
proof (induction d arbitrary: ss rule: decompress_collect.induct)
  case (1 d)
  then show ?case
    by (subst (asm) (2) decompress_collect.simps)
      (auto simp: map_outcome_ok_Ok_iff dest: decompress_next_valid split: outcome.splits option.splits prod.splits)
qed

lemma add_losses_step:
  assumes "sb_inv start ns sb" "list_all seq_valid ss"
  shows "sb_inv start ns (snd (add_losses sb ss))
    \<and> set (sb_lost_list (snd (add_losses sb ss)))
      = set (sb_lost_list sb) \<union> {s \<in> set ss. \<exists>n. s = seq_of n \<and> start \<le> n \<and> n < ns}"
proof (cases ss)
  case Nil
  then show ?thesis using assms by (simp add: add_losses_def)
next
  case (Cons s ss')
  obtain t s' sb1 where nl: "next_loss sb s = ((t, s'), sb1)" by (metis prod.exhaust)
  have "seq_valid s" "list_all seq_valid ss'" using assms(2) Cons by simp_all
  then show ?thesis
    using next_loss_step [OF assms(1) _ nl] loss_ranges_step [of start ns sb1 ss' t s' "seq_add s' 1"] nl Cons
    by (auto simp: add_losses_def)
qed

section \<open>Acknowledgements\<close>

lemma recover_lost_positions:
  assumes "set ls \<subseteq> {start..<start + 2 ^ 30}" "start \<le> a" "a < start + 2 ^ 30"
  shows "\<exists>k. recover_lost (seq_of a) (map seq_of ls) r = (k, map seq_of (dropWhile (\<lambda>n. n < a) ls))"
  using assms(1)
proof (induction ls arbitrary: r)
  case (Cons l ls)
  have "seq_lt (seq_of l) (seq_of a) \<longleftrightarrow> l < a"
    using Cons.prems assms by (auto simp: mod_lt_def seq_cmp_seq_of)
  then show ?case using Cons by simp
qed simp

lemma seqs_from_position:
  "seqs_from (seq_of start) (Suc n) = seq_of start # seqs_from (seq_of (Suc start)) n"
  using seqs_from_append [of "seq_of start" 1 n] seq_of_add [of start 1]
  by (simp add: seqs_from_def seq.add_zero unat_seq_of)

lemma pop_acked_positions:
  assumes "map (\<lambda>e. dp_seq_number (sbe_packet e)) (sb_buffer sb) = seqs_from (seq_of start) (length (sb_buffer sb))"
    "start \<le> a" "a \<le> start + length (sb_buffer sb)" "length (sb_buffer sb) < 2 ^ 30"
  shows "\<exists>k. snd (pop_acked rq (seq_of a) sb r) = k
    \<and> sb_buffer k = drop (a - start) (sb_buffer sb) \<and> sb_next_send k = sb_next_send sb
    \<and> sb_lost_list k = sb_lost_list sb \<and> sb_max_buffer_size k = sb_max_buffer_size sb
    \<and> fst (pop_acked rq (seq_of a) sb r) = r + of_nat (a - start)"
  using assms
proof (induction "a - start" arbitrary: sb start r)
  case 0
  then have a: "a = start" by simp
  have lt: "\<not> seq_lt (seq_of start) (seq_of start)" by (simp add: mod_lt_def seq_cmp_seq_of)
  show ?case
  proof (cases "sb_buffer sb")
    case Nil
    then show ?thesis using a by (simp add: pop_acked.simps)
  next
    case (Cons e es)
    then have "dp_seq_number (sbe_packet e) = seq_of start"
      using "0.prems"(1) by (simp add: seqs_from_position)
    then show ?thesis using lt Cons a by (simp add: pop_acked.simps [of _ _ sb])
  qed
next
  case (Suc d)
  then obtain e es where b: "sb_buffer sb = e # es" by (cases "sb_buffer sb") auto
  have e: "dp_seq_number (sbe_packet e) = seq_of start"
    "map (\<lambda>e. dp_seq_number (sbe_packet e)) es = seqs_from (seq_of (Suc start)) (length es)"
    using Suc.prems(1) b by (simp_all add: seqs_from_position)
  define sb1 where "sb1 = sb\<lparr>sb_buffer := es,
      sb_rto_queue := rq_remove rq (sb_rto_queue sb) (dp_seq_number (sbe_packet e)),
      sb_buffer_len_bytes := sb_buffer_len_bytes sb - data_wire_size (sbe_packet e)\<rparr>"
  have "seq_lt (seq_of start) (seq_of a)"
    using Suc.hyps(2) Suc.prems b by (auto simp: mod_lt_def seq_cmp_seq_of)
  then have p: "pop_acked rq (seq_of a) sb r = pop_acked rq (seq_of a) sb1 (r + 1)"
    using b e(1) by (subst pop_acked.simps) (simp add: sb_pop_front_def sb1_def Let_def)
  obtain k where "snd (pop_acked rq (seq_of a) sb1 (r + 1)) = k" "sb_buffer k = drop (a - Suc start) es"
      "sb_next_send k = sb_next_send sb" "sb_lost_list k = sb_lost_list sb"
      "sb_max_buffer_size k = sb_max_buffer_size sb"
      "fst (pop_acked rq (seq_of a) sb1 (r + 1)) = r + 1 + of_nat (a - Suc start)"
    using Suc.hyps(1) [of "Suc start" sb1 "r + 1"] Suc.hyps(2) Suc.prems b e(2) by (auto simp: sb1_def)
  moreover have "a - start = Suc (a - Suc start)" using Suc.hyps(2) by linarith
  ultimately show ?case using p b by simp
qed

lemma sorted_dropWhile_less:
  "sorted_wrt (<) (ls :: nat list) \<Longrightarrow> set (dropWhile (\<lambda>n. n < a) ls) = {n \<in> set ls. a \<le> n}
    \<and> sorted_wrt (<) (dropWhile (\<lambda>n. n < a) ls)"
  by (induction ls) auto

lemma ack_accepted:
  assumes "sb_inv start ns sb" "seq_valid ack"
    "update_largest_acked_seq_number rq sb ack full rtt = (Ok action, sb')"
  shows "\<exists>a. ack = seq_of a \<and> start \<le> a \<and> a \<le> ns \<and> sb_inv a ns sb'
    \<and> sb_buffer sb' = drop (a - start) (sb_buffer sb) \<and> aa_received action = of_nat (a - start)
    \<and> aa_send_ack2 action = full"
proof -
  note inv = sb_invD [OF assms(1)]
  have ns30: "ns < start + 2 ^ 30" using inv(4,5) by simp
  have ne: "sb_buffer sb \<noteq> []" and ok: "\<not> seq_lt ack (seq_of start)" "seq_cmp ack (seq_of ns) \<noteq> Greater"
    using assms(3) front_packet_inv [OF assms(1)] inv(2)
    by (auto simp: update_largest_acked_seq_number_def Let_def split: if_splits)
  obtain a where a: "ack = seq_of a" "start \<le> a" "a \<le> ns" "a < start + 2 ^ 30"
    using sent_position [OF assms(2) ok(1) inv(3) ns30] ok(2) by (metis not_le)
  obtain ls where ls: "sb_lost_list sb = map seq_of ls" "sorted_wrt (<) ls" "set ls \<subseteq> {start..<ns}"
    by (rule sb_inv_lost [OF assms(1)])
  define sb1 where "sb1 = (case full of Some k \<Rightarrow> (case rtt of Some r \<Rightarrow> sb\<lparr>sb_rtt := r\<rparr> | None \<Rightarrow> sb)
      \<lparr>sb_next_full_ack := full_ack_add k 1\<rparr> | None \<Rightarrow> (case rtt of Some r \<Rightarrow> sb\<lparr>sb_rtt := r\<rparr> | None \<Rightarrow> sb))"
  have sb1: "sb_buffer sb1 = sb_buffer sb" "sb_lost_list sb1 = sb_lost_list sb" "sb_next_send sb1 = sb_next_send sb"
    "sb_max_buffer_size sb1 = sb_max_buffer_size sb"
    by (auto simp: sb1_def split: option.splits)
  define ls' where "ls' = dropWhile (\<lambda>n. n < a) ls"
  obtain k where k: "recover_lost (seq_of a) (sb_lost_list sb1) 0 = (k, map seq_of ls')"
  proof -
    have "set ls \<subseteq> {start..<start + 2 ^ 30}" using ls(3) ns30 by auto
    then show ?thesis
      using that recover_lost_positions [OF _ a(2,4), of ls 0] ls(1) sb1(2) by (auto simp: ls'_def)
  qed
  define sb2 where "sb2 = sb1\<lparr>sb_lost_list := map seq_of ls'\<rparr>"
  have p: "sb' = snd (pop_acked rq (seq_of a) sb2 0)" "aa_received action = fst (pop_acked rq (seq_of a) sb2 0)"
    "aa_send_ack2 action = full"
    using assms(3) front_packet_inv [OF assms(1)] ne k a(1) ok inv(2)
    by (auto simp: update_largest_acked_seq_number_def Let_def sb1_def sb2_def
        split: if_splits option.splits prod.splits)
  have al: "map (\<lambda>e. dp_seq_number (sbe_packet e)) (sb_buffer sb2)
      = seqs_from (seq_of start) (length (sb_buffer sb2))" "length (sb_buffer sb2) < 2 ^ 30"
      "a \<le> start + length (sb_buffer sb2)"
    using inv(1,4,5) sb1 a(3) by (simp_all add: sb2_def sb_seqs_def)
  have sb': "sb_buffer sb' = drop (a - start) (sb_buffer sb)" "sb_next_send sb' = seq_of ns"
      "sb_lost_list sb' = map seq_of ls'" "sb_max_buffer_size sb' = sb_max_buffer_size sb"
      "aa_received action = of_nat (a - start)"
    using pop_acked_positions [OF al(1) a(2) al(3,2), of rq 0] p sb1 inv(2) by (auto simp: sb2_def)
  have "set ls' \<subseteq> {a..<ns}" "sorted_wrt (<) ls'"
    using sorted_dropWhile_less [OF ls(2), of a] ls(3) by (auto simp: ls'_def)
  moreover have "sb_seqs sb' = seqs_from (seq_of a) (length (sb_buffer sb'))"
    using sb_seqs_drop [OF assms(1), of "a - start"] sb'(1) a inv(4) by (simp add: sb_seqs_def)
  ultimately have "sb_inv a ns sb'"
    using sb' a inv by (auto simp: sb_inv_def)
  then show ?thesis using a sb'(1,5) p(3) by blast
qed

lemma ack_rejected:
  assumes "sb_inv start ns sb" "update_largest_acked_seq_number rq sb ack full rtt = (r, sb')" "\<And>a. r \<noteq> Ok a"
  shows "sb_inv start ns sb' \<and> sb_buffer sb' = sb_buffer sb"
  using assms
  by (auto simp: update_largest_acked_seq_number_def Let_def split: if_splits option.splits prod.splits
      intro!: sb_inv_same [OF assms(1)] simp: sb_seqs_def)

section \<open>New packets\<close>

text \<open>A packet follows the last one held, or is the next one to send when none is held; and when the buffer
  is full, the packet that makes room was sent before.\<close>

definition push_ok :: "'q SendBuffer \<Rightarrow> DataPacket \<Rightarrow> bool" where
  "push_ok sb p \<longleftrightarrow>
     dp_seq_number p = (if sb_buffer sb = [] then sb_next_send sb
       else seq_add (dp_seq_number (sbe_packet (last (sb_buffer sb)))) 1)
     \<and> (length (sb_buffer sb) = sb_max_buffer_size sb \<longrightarrow> front_packet sb \<noteq> Some (sb_next_send sb))"

lemma push_number:
  assumes "sb_inv start ns sb" "push_ok sb p"
  shows "dp_seq_number p = seq_of (start + length (sb_buffer sb))"
proof (cases "sb_buffer sb = []")
  case True
  then show ?thesis using assms sb_invD(2,3,4) [OF assms(1)] by (simp add: push_ok_def)
next
  case False
  then obtain m where m: "length (sb_buffer sb) = Suc m" by (cases "length (sb_buffer sb)") auto
  then have "dp_seq_number (sbe_packet (last (sb_buffer sb))) = seq_of (start + m)"
    using sb_seq_nth [OF assms(1), of m] False by (simp add: last_conv_nth)
  then show ?thesis
    using assms(2) False seq_of_add [of "start + m" 1] m by (simp add: push_ok_def)
qed

lemma push_data_room:
  assumes "sb_inv start ns sb" "dp_seq_number p = seq_of (start + length (sb_buffer sb))"
    "length (sb_buffer sb) < sb_max_buffer_size sb"
  shows "fst (push_data sb p) = Ok () \<and> sb_inv start ns (snd (push_data sb p))
    \<and> sb_buffer (snd (push_data sb p)) = sb_buffer sb @ [\<lparr>sbe_packet = p, sbe_transmit_count = 0\<rparr>]"
  using assms sb_invD [OF assms(1)]
  by (auto simp: push_data_def Let_def sb_inv_def sb_seqs_def seqs_from_Suc seq_of_add)

lemma push_data_full:
  assumes "sb_inv start ns sb" "dp_seq_number p = seq_of (start + length (sb_buffer sb))" "start < ns"
    "length (sb_buffer sb) = sb_max_buffer_size sb"
  shows "sb_inv (Suc start) ns (snd (push_data sb p))
    \<and> sb_buffer (snd (push_data sb p)) = tl (sb_buffer sb) @ [\<lparr>sbe_packet = p, sbe_transmit_count = 0\<rparr>]"
proof -
  note inv = sb_invD [OF assms(1)]
  obtain e es where b: "sb_buffer sb = e # es" using inv(7) assms(4) by (cases "sb_buffer sb") auto
  have e: "dp_seq_number (sbe_packet e) = seq_of start"
    "map (\<lambda>e. dp_seq_number (sbe_packet e)) es = seqs_from (seq_of (Suc start)) (length es)"
    using inv(1) b by (simp_all add: sb_seqs_def seqs_from_position)
  obtain ls where ls: "sb_lost_list sb = map seq_of ls" "sorted_wrt (<) ls" "set ls \<subseteq> {start..<ns}"
    by (rule sb_inv_lost [OF assms(1)])
  define ls' where "ls' = dropWhile (\<lambda>n. n < Suc start) ls"
  have ls': "sorted_wrt (<) ls'" "set ls' \<subseteq> {Suc start..<ns}"
    using sorted_dropWhile_less [OF ls(2), of "Suc start"] ls(3) by (auto simp: ls'_def)
  have eq: "seq_of n = seq_of start \<longleftrightarrow> n = start" if "n \<in> set ls" for n
  proof -
    have "n < start + 2 ^ 31" "start \<le> n" using ls(3) that inv(4,5) by auto
    then show ?thesis using seq_diff_seq_of [of start n] seq_diff_seq_of [of start start] by auto
  qed
  have lost: "(case map seq_of ls of n # _ \<Rightarrow> if n = seq_of start then tl (map seq_of ls) else map seq_of ls | [] \<Rightarrow> [])
      = map seq_of ls'"
  proof (cases ls)
    case (Cons l ms)
    have "dropWhile (\<lambda>n. n < Suc start) ms = ms" if "\<forall>x \<in> set ms. start < x"
      using that by (cases ms) auto
    then show ?thesis using Cons ls(2,3) eq [of l] by (auto simp: ls'_def)
  qed (simp add: ls'_def)
  have "snd (push_data sb p) = sb\<lparr>sb_buffer := es @ [\<lparr>sbe_packet = p, sbe_transmit_count = 0\<rparr>],
      sb_lost_list := map seq_of ls',
      sb_buffer_len_bytes := usize_sub (sb_buffer_len_bytes sb) (data_wire_size (sbe_packet e)) + data_wire_size p\<rparr>"
    unfolding lost [symmetric] using b e(1) assms(4) ls(1)
    by (auto simp: push_data_def Let_def pop_lost_list_def split: list.splits)
  moreover have "seqs_from (seq_of (Suc start)) (sb_max_buffer_size sb)
      = seqs_from (seq_of (Suc start)) (length es) @ [dp_seq_number p]"
    using assms(2) b seq_of_add [of "Suc start" "length es"] unfolding assms(4) [symmetric]
    by (simp add: seqs_from_Suc)
  ultimately show ?thesis
    using ls' inv b e(2) assms(3,4) by (auto simp: sb_inv_def sb_seqs_def)
qed

lemma push_data_inv:
  assumes "sb_inv start ns sb" "push_ok sb p"
  shows "\<exists>start'. sb_inv start' ns (snd (push_data sb p))"
proof (cases "length (sb_buffer sb) < sb_max_buffer_size sb")
  case True
  then show ?thesis using push_data_room [OF assms(1) push_number [OF assms]] by blast
next
  case False
  then have full: "length (sb_buffer sb) = sb_max_buffer_size sb" using sb_invD(6) [OF assms(1)] by simp
  then have "start < ns"
    using assms(2) front_packet_inv [OF assms(1)] sb_invD(2,3,7) [OF assms(1)]
    by (cases "sb_buffer sb") (auto simp: push_ok_def le_less)
  then show ?thesis using push_data_full [OF assms(1) push_number [OF assms] _ full] by blast
qed

section \<open>Late packets\<close>

lemma late_last_packet_mem:
  "late_last_packet ts lw es msg lst \<in> insert lst ((\<lambda>e. dp_seq_number (sbe_packet e)) ` set es)"
  by (induction ts lw es msg lst rule: late_last_packet.induct) (auto simp: Let_def)

lemma drop_late_step:
  assumes "sb_inv start ns sb" "sb_drop_too_late_packets sb ts = (r, sb')"
  shows "(r = Ok None \<and> sb' = sb)
    \<or> (\<exists>n. start < n \<and> n \<le> start + length (sb_buffer sb) \<and> r = Ok (Some (seq_of start, seq_of n))
        \<and> sb_buffer sb' = drop (n - start) (sb_buffer sb) \<and> sb_inv n (max ns n) sb')"
proof (cases "sb_buffer sb = [] \<or> \<not> ts_gt ts (ts_add_duration (dp_timestamp (sbe_packet (hd (sb_buffer sb))))
    (sb_latency_window sb))")
  case True
  then show ?thesis using assms(2) by (auto simp: sb_drop_too_late_packets_def Let_def split: list.splits)
next
  case False
  note inv = sb_invD [OF assms(1)]
  obtain e es where b: "sb_buffer sb = e # es" using False by (cases "sb_buffer sb") auto
  have e: "dp_seq_number (sbe_packet e) = seq_of start" using sb_seq_nth [OF assms(1), of 0] b by simp
  define lst where "lst = late_last_packet ts (sb_latency_window sb) (sb_buffer sb)
    (dp_message_number (sbe_packet e)) (seq_of start)"
  have "lst \<in> (\<lambda>e. dp_seq_number (sbe_packet e)) ` set (sb_buffer sb)"
    using late_last_packet_mem [of ts "sb_latency_window sb" "sb_buffer sb" _ "seq_of start"] e b
    unfolding lst_def by (metis image_insert insert_iff list.simps(15))
  then obtain k where k: "k < length (sb_buffer sb)" "lst = seq_of (start + k)"
    using sb_seq_nth [OF assms(1)] by (auto simp: in_set_conv_nth)
  let ?n = "start + k + 1"
  have cnt: "unat (seq_diff lst (seq_of start) + 1) = k + 1"
  proof -
    have "unat (seq_diff lst (seq_of start)) = k" using seq_diff_seq_of [of start "start + k"] k inv(5) by simp
    then show ?thesis using k(1) inv(5) by (simp add: unat_word_ariths)
  qed
  have fin: "seq_add lst 1 = seq_of ?n" using k(2) seq_of_add [of "start + k" 1] by simp
  have cmp: "seq_cmp (seq_of ns) (seq_of ?n) = (if ns < ?n then Less else if ns = ?n then Equal else Greater)"
    using inv(3,4,5) k(1) by (intro seq_cmp_seq_of) auto
  obtain ls where ls: "sb_lost_list sb = map seq_of ls" "sorted_wrt (<) ls" "set ls \<subseteq> {start..<ns}"
    by (rule sb_inv_lost [OF assms(1)])
  have rc: "range_contains (seq_of start) (seq_of ?n) (seq_of n) \<longleftrightarrow> n < ?n" if "n \<in> set ls" for n
  proof -
    have "start \<le> n" "n < start + 2 ^ 30" using that ls(3) inv(4,5) by auto
    then have "seq_cmp (seq_of start) (seq_of n) = (if start < n then Less else Equal)"
      "seq_cmp (seq_of n) (seq_of ?n) = (if n < ?n then Less else if n = ?n then Equal else Greater)"
      using k(1) inv(5) by (auto simp: seq_cmp_seq_of)
    then show ?thesis by (simp add: range_contains_def mod_lt_def mod_le_def)
  qed
  define ls' where "ls' = dropWhile (\<lambda>n. n < ?n) ls"
  have lost: "dropWhile (range_contains (seq_of start) (seq_of ?n)) (sb_lost_list sb) = map seq_of ls'"
    unfolding ls(1) ls'_def dropWhile_map using rc
    by (intro arg_cong [where f = "map seq_of"] dropWhile_cong) auto
  have ls': "sorted_wrt (<) ls'" "set ls' \<subseteq> {?n..<max ns ?n}"
    using sorted_dropWhile_less [OF ls(2), of ?n] ls(3) by (auto simp: ls'_def)
  have res: "r = Ok (Some (seq_of start, seq_of ?n))"
    "sb' = sb\<lparr>sb_buffer := drop (k + 1) (sb_buffer sb), sb_lost_list := map seq_of ls',
       sb_next_send := seq_of (max ns ?n)\<rparr>"
    using assms(2) False b e cnt fin k(1) lost inv(2) cmp
    by (auto simp: sb_drop_too_late_packets_def Let_def lst_def max_def simp del: late_last_packet.simps split: if_splits)
  have "sb_inv ?n (max ns ?n) sb'"
    using ls' inv k(1) sb_seqs_drop [OF assms(1), of "k + 1"] unfolding res(2)
    by (auto simp: sb_inv_def sb_seqs_def)
  then show ?thesis using k(1) res by (intro disjI2 exI [of _ ?n]) auto
qed

lemma flush_step:
  assumes "sb_inv start (start + length (sb_buffer sb)) sb" "sb_lost_list sb = []"
  shows "\<exists>start' ns'. sb_inv start' ns' (snd (flush_on_close rq sb drain))"
    and "length (sb_buffer (snd (flush_on_close rq sb drain))) \<le> length (sb_buffer sb)"
proof -
  show "\<exists>start' ns'. sb_inv start' ns' (snd (flush_on_close rq sb drain))"
  proof (cases "drain \<and> length (sb_buffer sb) = 1")
    case True
    then obtain e where "sb_buffer sb = [e]" by (auto simp: length_Suc_conv)
    then have "sb_inv (Suc start) (Suc start) (snd (flush_on_close rq sb drain))"
      using True assms by (auto simp: flush_on_close_def sb_pop_front_def sb_inv_def sb_seqs_def Let_def)
    then show ?thesis by blast
  qed (use assms in \<open>auto simp: flush_on_close_def\<close>)
qed (auto simp: flush_on_close_def sb_pop_front_def Let_def split: list.splits)

section \<open>The sender algorithm\<close>

definition sb_ok :: "'q SendBuffer \<Rightarrow> bool" where
  "sb_ok sb \<longleftrightarrow> (\<exists>start ns. sb_inv start ns sb)"

lemma sb_okI: "sb_inv start ns sb \<Longrightarrow> sb_ok sb"
  by (auto simp: sb_ok_def)

definition sai_rank :: "'q SenderAlgorithmIterator \<Rightarrow> nat" where
  "sai_rank it = 2 * unat (sai_packets_to_send it) + of_bool (sai_attempt_16n_packet it) + length (sb_buffer (sai_buffer it))"

text \<open>A step of the algorithm: no panic, a well-formed buffer, and unless it says that the loop ends a
  smaller rank.\<close>

definition sai_good :: "'q SenderAlgorithmIterator \<Rightarrow> SenderAction option may_panic \<times> 'q SenderAlgorithmIterator \<Rightarrow> bool" where
  "sai_good it res \<longleftrightarrow> sb_ok (sai_buffer (snd res)) \<and>
     (case fst res of
        Ok None \<Rightarrow> True
      | Ok (Some SA_WaitForInput) \<Rightarrow> True
      | Ok (Some (SA_WaitForAck _ _)) \<Rightarrow> True
      | Ok (Some action) \<Rightarrow> sai_rank (snd res) < sai_rank it
      | Err _ \<Rightarrow> False
      | Panic \<Rightarrow> False)"

lemma sai_sent_rank:
  "sai_packets_to_send it \<noteq> 0 \<Longrightarrow> sai_rank (sai_sent it) + 2 = sai_rank it"
  "sai_rank (sai_sent it) \<le> sai_rank it"
  using unat_gt_0 [of "sai_packets_to_send it"]
  by (auto simp: sai_rank_def sai_sent_def unat_minus_one)

lemma send_next_rto_any:
  assumes "sb_inv start ns sb" "send_next_rto_packet rq sb ts = (r, sb')"
  shows "sb_inv start ns sb' \<and> length (sb_buffer sb') = length (sb_buffer sb)
    \<and> sb_lost_list sb' = sb_lost_list sb \<and> sb_next_send sb' = sb_next_send sb"
  using assms send_packet_any [OF assms(1)]
  by (auto simp: send_next_rto_packet_def split: option.splits if_splits)

lemma sai_choose_tail_good:
  assumes inv: "sb_inv start ns b" and "sb_lost_list b = []" "sai_packets_to_send it \<noteq> 0"
    "length (sb_buffer b) \<le> length (sb_buffer (sai_buffer it))" "\<not> sai_attempt_16n_packet it"
  shows "sai_good it
    (case send_next_packet rq b ts of
       (Some p, b) \<Rightarrow> (Ok (Some (SA_Send p)), sai_sent (it\<lparr>sai_buffer := b, sai_attempt_16n_packet := True\<rparr>))
     | (None, b) \<Rightarrow>
         (case flush_on_close rq b (sai_should_drain it) of
            (Some p, b) \<Rightarrow> (Ok (Some (SA_Send p)), sai_sent (it\<lparr>sai_buffer := b\<rparr>))
          | (None, b) \<Rightarrow> (Ok (Some SA_WaitForInput), it\<lparr>sai_buffer := b, sai_packets_to_send := 0\<rparr>)))"
proof (cases "ns < start + length (sb_buffer b)")
  case True
  obtain p b' where "send_next_packet rq b ts = (Some p, b')" "sb_ok b'" "length (sb_buffer b') = length (sb_buffer b)"
    using send_next_packet_step(2) [OF inv True, of rq ts] sb_okI by blast
  then show ?thesis
    using assms(3,4,5) sai_sent_rank(1) [of "it\<lparr>sai_buffer := b', sai_attempt_16n_packet := True\<rparr>"]
    by (simp add: sai_good_def sai_rank_def sai_sent_def)
next
  case False
  then have ns: "ns = start + length (sb_buffer b)" using sb_invD(4) [OF inv] by simp
  obtain r b' where f: "flush_on_close rq b (sai_should_drain it) = (r, b')" by (metis prod.exhaust)
  have "sb_ok b'" "length (sb_buffer b') \<le> length (sb_buffer b)"
    using flush_step [of start b rq "sai_should_drain it"] inv ns assms(2) f by (auto simp: sb_ok_def)
  then show ?thesis
    using send_next_packet_step(1) [OF inv ns, of rq ts] f assms(3,4)
      sai_sent_rank(1) [of "it\<lparr>sai_buffer := b'\<rparr>"]
    by (cases r) (simp_all add: sai_good_def sai_rank_def sai_sent_def)
qed

lemma sai_choose_good:
  assumes "sb_ok (sai_buffer it)" "\<not> sai_attempt_16n_packet it"
  shows "sai_good it (sai_choose rq it)"
proof (cases "sai_packets_to_send it = 0")
  case True
  then show ?thesis using assms by (simp add: sai_choose_def sai_good_def)
next
  case False
  obtain start ns where inv: "sb_inv start ns (sai_buffer it)" using assms(1) by (auto simp: sb_ok_def)
  obtain r b where d: "sb_drop_too_late_packets (sai_buffer it) (sai_ts_now it) = (r, b)" by (metis prod.exhaust)
  consider (drop) n where "start < n" "n \<le> start + length (sb_buffer (sai_buffer it))"
      "r = Ok (Some (seq_of start, seq_of n))" "sb_buffer b = drop (n - start) (sb_buffer (sai_buffer it))" "sb_ok b"
    | (lost) l ls where "r = Ok None" "b = sai_buffer it" "sb_lost_list b = l # ls"
    | (none) "r = Ok None" "b = sai_buffer it" "sb_lost_list b = []"
    using drop_late_step [OF inv d] sb_okI by (cases "sb_lost_list b") blast+
  then show ?thesis
  proof cases
    case drop
    then show ?thesis using d False by (simp add: sai_choose_def sai_good_def sai_rank_def)
  next
    case lost
    obtain p b' where "send_next_lost_packet rq b (sai_ts_now it) = (Ok (Some p), b')" "sb_ok b'"
        "length (sb_buffer b') = length (sb_buffer b)"
      using send_next_lost_step(2) [OF inv, of l ls rq "sai_ts_now it"] lost(2,3) sb_okI by metis
    then show ?thesis
      using d lost False sai_sent_rank(1) [of "it\<lparr>sai_buffer := b'\<rparr>"]
      by (simp add: sai_choose_def sai_good_def sai_rank_def sai_sent_def)
  next
    case none
    have l: "send_next_lost_packet rq b (sai_ts_now it) = (Ok None, b)"
      using send_next_lost_step(1) [OF inv] none by simp
    obtain q b' where q: "send_next_rto_packet rq b (sai_ts_now it) = (q, b')" by (metis prod.exhaust)
    have b': "sb_inv start ns b'" "length (sb_buffer b') = length (sb_buffer b)" "sb_lost_list b' = []"
      using send_next_rto_any [OF _ q] inv none by auto
    show ?thesis
    proof (cases q)
      case (Some p)
      then show ?thesis
        using d none l q b' False sai_sent_rank(1) [of "it\<lparr>sai_buffer := b'\<rparr>"]
        by (simp add: sai_choose_def sai_good_def sai_rank_def sai_sent_def sb_okI)
    next
      case None
      then show ?thesis
        using d none l q b' False sai_choose_tail_good [OF b'(1,3) False _ assms(2), of rq "sai_ts_now it"]
        by (cases "flow_window_exceeded b'") (simp_all add: sai_choose_def sai_good_def sb_okI)
    qed
  qed
qed

lemma sai_next_good:
  assumes "sb_ok (sai_buffer it)"
  shows "sai_good it (sai_next rq it)"
proof (cases "sai_attempt_16n_packet it")
  case False
  then show ?thesis using sai_choose_good [OF assms] by (simp add: sai_next_def)
next
  case True
  let ?it = "it\<lparr>sai_attempt_16n_packet := False\<rparr>"
  obtain start ns where inv: "sb_inv start ns (sai_buffer it)" using assms by (auto simp: sb_ok_def)
  obtain r b where s: "send_next_16n_packet rq (sai_buffer it) (sai_ts_now it) = (r, b)" by (metis prod.exhaust)
  have b: "sb_ok b" "length (sb_buffer b) = length (sb_buffer (sai_buffer it))"
    using s inv send_next_packet_step [OF inv, of rq "sai_ts_now it"] sb_invD(4) [OF inv] sb_okI
    by (auto simp: send_next_16n_packet_def le_less split: if_splits)
  show ?thesis
  proof (cases r)
    case None
    have "sai_good (?it\<lparr>sai_buffer := b\<rparr>) (sai_choose rq (?it\<lparr>sai_buffer := b\<rparr>))"
      using b(1) by (intro sai_choose_good) simp_all
    then show ?thesis using None True s b(2)
      by (auto simp: sai_next_def sai_good_def sai_rank_def split: outcome.splits option.splits SenderAction.splits)
  next
    case (Some p)
    then show ?thesis using True s b sai_sent_rank(2) [of "?it\<lparr>sai_buffer := b\<rparr>"]
      by (auto simp: sai_next_def sai_good_def sai_rank_def sai_sent_def Let_def)
  qed
qed

lemma snd_actions_end:
  assumes "sb_ok (sai_buffer it)"
  shows "\<exists>actions it'. snd_actions rq it = Some (Ok actions, it') \<and> sb_ok (sai_buffer it')
    \<and> length actions \<le> sai_rank it + 1"
  using assms
proof (induction "sai_rank it" arbitrary: it rule: less_induct)
  case less
  obtain r it1 where n: "sai_next rq it = (r, it1)" by (metis prod.exhaust)
  have g: "sai_good it (r, it1)" using sai_next_good [OF less.prems, of rq] n by simp
  have go: ?case if "r = Ok (Some a)" "sai_rank it1 < sai_rank it" "\<And>w u. a \<noteq> SA_WaitForAck w u" "a \<noteq> SA_WaitForInput" for a
  proof -
    note a = that
    have "sb_ok (sai_buffer it1)" using g by (simp add: sai_good_def)
    then obtain actions it' where "snd_actions rq it1 = Some (Ok actions, it')" "sb_ok (sai_buffer it')"
        "length actions \<le> sai_rank it1 + 1"
      using less.hyps [OF a(2)] by blast
    then show ?thesis using a n
      by (intro exI [of _ "a # actions"] exI [of _ it']) (cases a; auto simp: snd_actions.simps [of rq it])
  qed
  consider "r = Ok None" | w where "r = Ok (Some w)" "w = SA_WaitForInput \<or> (\<exists>x y. w = SA_WaitForAck x y)"
    | a where "r = Ok (Some a)" "sai_rank it1 < sai_rank it" "\<And>w u. a \<noteq> SA_WaitForAck w u" "a \<noteq> SA_WaitForInput"
    using g by (auto simp: sai_good_def split: outcome.splits option.splits SenderAction.splits)
  then show ?case
  proof cases
    case 1
    then show ?thesis using g n by (simp add: snd_actions.simps [of rq it] sai_good_def)
  next
    case 2
    then show ?thesis using g n by (auto simp: snd_actions.simps [of rq it] sai_good_def)
  next
    case 3
    then show ?thesis by (rule go)
  qed
qed

section \<open>The buffer as a system\<close>

text \<open>The calls of the connection on its send buffer, in any order.\<close>

inductive tx_step :: "'q RtoOps \<Rightarrow> 'q SendBuffer \<Rightarrow> 'q SendBuffer \<Rightarrow> bool" for rq where
  tx_push: "push_ok sb p \<Longrightarrow> tx_step rq sb (snd (push_data sb p))"
| tx_ack: "seq_valid ack \<Longrightarrow> tx_step rq sb (snd (update_largest_acked_seq_number rq sb ack full rtt))"
| tx_nak: "add_to_loss_list sb nak = Ok (ranges, sb') \<Longrightarrow> tx_step rq sb sb'"
| tx_send: "snd_actions rq (next_snd_actions sb ts n drain) = Some (r, it) \<Longrightarrow> tx_step rq sb (sai_buffer it)"

definition tx_init :: "'q RtoOps \<Rightarrow> 'q SendBuffer \<Rightarrow> bool" where
  "tx_init rq sb \<longleftrightarrow> (\<exists>settings. sb = sb_new rq settings \<and> seq_valid (cs_init_seq_num settings)
     \<and> 0 < unat (cs_send_buffer_size settings) \<and> unat (cs_send_buffer_size settings) < 2 ^ 30)"

lemma seq_of_unat: "seq_valid s \<Longrightarrow> seq_of (unat s) = s"
  by (simp add: word_unat_eq_iff unat_seq_of seq_valid_def)

lemma sb_new_inv:
  assumes "seq_valid (cs_init_seq_num settings)" "0 < unat (cs_send_buffer_size settings)"
    "unat (cs_send_buffer_size settings) < 2 ^ 30"
  shows "sb_inv (unat (cs_init_seq_num settings)) (unat (cs_init_seq_num settings)) (sb_new rq settings)"
  using assms by (simp add: sb_new_def sb_seqs_def sb_inv_def seq_of_unat)

lemma tx_init_ok: "tx_init rq sb \<Longrightarrow> sb_ok sb"
  using sb_new_inv by (auto simp: tx_init_def intro: sb_okI)

lemma add_to_loss_list_step:
  assumes "sb_inv start ns sb" "add_to_loss_list sb nak = Ok (ranges, sb')"
  shows "sb_inv start ns sb'" "\<exists>ss. iter_decompressed nak = Ok ss \<and> set (sb_lost_list sb')
      = set (sb_lost_list sb) \<union> {s \<in> set ss. \<exists>n. s = seq_of n \<and> start \<le> n \<and> n < ns}"
proof -
  obtain ss where ss: "iter_decompressed nak = Ok ss" "add_losses sb ss = (ranges, sb')"
    using assms(2) by (auto simp: add_to_loss_list_def map_outcome_ok_Ok_iff)
  have "list_all seq_valid ss"
    using decompress_collect_valid ss(1) by (auto simp: iter_decompressed_def)
  then show "sb_inv start ns sb'" "\<exists>ss. iter_decompressed nak = Ok ss \<and> set (sb_lost_list sb')
      = set (sb_lost_list sb) \<union> {s \<in> set ss. \<exists>n. s = seq_of n \<and> start \<le> n \<and> n < ns}"
    using add_losses_step [OF assms(1), of ss] ss by auto
qed

lemma tx_step_ok:
  assumes "sb_ok sb" "tx_step rq sb sb'"
  shows "sb_ok sb'"
proof -
  obtain start ns where inv: "sb_inv start ns sb" using assms(1) by (auto simp: sb_ok_def)
  from assms(2) show ?thesis
  proof (cases rule: tx_step.cases)
    case (tx_push p)
    then show ?thesis using push_data_inv [OF inv tx_push(2)] by (auto simp: sb_ok_def)
  next
    case (tx_ack ack full rtt)
    obtain r sb1 where u: "update_largest_acked_seq_number rq sb ack full rtt = (r, sb1)" by (metis prod.exhaust)
    then show ?thesis
      using ack_accepted [OF inv tx_ack(2), of rq full rtt] ack_rejected [OF inv u] tx_ack(1)
      by (cases r) (auto intro: sb_okI)
  next
    case (tx_nak nak ranges)
    then show ?thesis using add_to_loss_list_step(1) [OF inv] by (auto intro: sb_okI)
  next
    case (tx_send ts n drain r it)
    then show ?thesis
      using snd_actions_end [of "next_snd_actions sb ts n drain" rq] assms(1) by (auto simp: next_snd_actions_def)
  qed
qed

interpretation tx: invariant_system "tx_init rq" "tx_step rq" sb_ok for rq
  by unfold_locales (auto intro: tx_init_ok tx_step_ok)

end
