(* ===== verification/Send_Delivery.thy ===== *)
theory Send_Delivery
  imports Send_Algorithm
begin

text \<open>
  What the sender algorithm does with losses and acknowledgements, on top of the invariant of theory
  \<open>Send_Algorithm\<close>: packets reported lost go out before anything else, acknowledgements remove exactly
  what they acknowledge, the send loop ends; and what happens when packets that were never sent
  overflow the buffer.
\<close>

section \<open>Retransmission comes first\<close>

lemma send_packet_entries:
  assumes "sb_inv start ns sb" "start \<le> n" "n < start + length (sb_buffer sb)"
    "send_packet rq sb ts (seq_of n) = (r, sb')"
  shows "\<And>m. m \<noteq> n \<Longrightarrow> start \<le> m \<Longrightarrow> sb_buffer sb' ! (m - start) = sb_buffer sb ! (m - start)"
    and "map (\<lambda>e. dp_timestamp (sbe_packet e)) (sb_buffer sb') = map (\<lambda>e. dp_timestamp (sbe_packet e)) (sb_buffer sb)"
    and "sb_latency_window sb' = sb_latency_window sb"
proof -
  have i: "unat (seq_diff (seq_of n) (seq_of start)) = n - start" "n - start < length (sb_buffer sb)"
    using assms(2,3) sb_invD(5) [OF assms(1)] by (auto intro: seq_diff_seq_of)
  have f: "front_packet sb = Some (seq_of start)" using front_packet_inv [OF assms(1)] assms(2,3) by auto
  obtain e q where sb': "sb' = sb\<lparr>sb_rto_queue := q, sb_buffer := (sb_buffer sb)[n - start := e]\<rparr>"
      "dp_timestamp (sbe_packet e) = dp_timestamp (sbe_packet (sb_buffer sb ! (n - start)))"
    using assms(4) f i by (auto simp: send_packet_def Let_def)
  show "\<And>m. m \<noteq> n \<Longrightarrow> start \<le> m \<Longrightarrow> sb_buffer sb' ! (m - start) = sb_buffer sb ! (m - start)"
    using assms(2) sb'(1) by (auto intro!: nth_list_update_neq)
  show "map (\<lambda>e. dp_timestamp (sbe_packet e)) (sb_buffer sb') = map (\<lambda>e. dp_timestamp (sbe_packet e)) (sb_buffer sb)"
    using sb' i(2) by (auto simp: map_update nth_list_update intro!: nth_equalityI)
  show "sb_latency_window sb' = sb_latency_window sb" using sb'(1) by simp
qed

text \<open>The first packet held is not yet too late.\<close>

definition in_time :: "TimeStamp \<Rightarrow> 'q SendBuffer \<Rightarrow> bool" where
  "in_time ts sb \<longleftrightarrow> (case map (\<lambda>e. dp_timestamp (sbe_packet e)) (sb_buffer sb) of
     [] \<Rightarrow> True | t # _ \<Rightarrow> \<not> ts_gt ts (ts_add_duration t (sb_latency_window sb)))"

lemma in_time_cong:
  "map (\<lambda>e. dp_timestamp (sbe_packet e)) (sb_buffer sb') = map (\<lambda>e. dp_timestamp (sbe_packet e)) (sb_buffer sb) \<Longrightarrow>
    sb_latency_window sb' = sb_latency_window sb \<Longrightarrow> in_time ts sb' = in_time ts sb"
  by (simp add: in_time_def cong: list.case_cong)

lemma in_time_drop: "in_time ts sb \<Longrightarrow> sb_drop_too_late_packets sb ts = (Ok None, sb)"
  by (auto simp: in_time_def sb_drop_too_late_packets_def Let_def split: list.splits)

definition held_packet :: "'q SendBuffer \<Rightarrow> SeqNumber \<Rightarrow> DataPacket" where
  "held_packet sb s = sbe_packet (the (sb_get sb s))"

lemma held_packet_position:
  assumes "sb_inv start ns sb" "start \<le> n" "n < ns"
  shows "held_packet sb (seq_of n) = sbe_packet (sb_buffer sb ! (n - start))"
proof -
  have "unat (seq_diff (seq_of n) (seq_of start)) = n - start" "n - start < length (sb_buffer sb)"
    using assms(2,3) sb_invD(4,5) [OF assms(1)] by (auto intro: seq_diff_seq_of)
  then show ?thesis using front_packet_inv [OF assms(1)] by (auto simp: held_packet_def sb_get_def Let_def)
qed

lemma lost_packets_first:
  assumes "sb_inv start ns (sai_buffer it)" "sb_lost_list (sai_buffer it) = map seq_of ls"
    "sorted_wrt (<) ls" "set ls \<subseteq> {start..<ns}" "length ls \<le> unat (sai_packets_to_send it)"
    "\<not> sai_attempt_16n_packet it" "in_time (sai_ts_now it) (sai_buffer it)"
  shows "\<exists>rest it'. snd_actions rq it =
    Some (Ok (map (\<lambda>n. SA_RetransmitNak (held_packet (sai_buffer it) (seq_of n))) ls @ rest), it')"
  using assms
proof (induction ls arbitrary: it)
  case Nil
  then show ?case using snd_actions_end [OF sb_okI, of start ns it rq] by auto
next
  case (Cons n ls)
  let ?b = "sai_buffer it" and ?ts = "sai_ts_now it"
  have n: "start \<le> n" "n < ns" "n < start + length (sb_buffer ?b)"
    using Cons.prems(4) sb_invD(4) [OF Cons.prems(1)] by auto
  have inv1: "sb_inv start ns (?b\<lparr>sb_lost_list := map seq_of ls\<rparr>)"
    using Cons.prems(3,4) by (intro sb_inv_lost_update [OF Cons.prems(1)]) auto
  obtain b where b: "send_packet rq (?b\<lparr>sb_lost_list := map seq_of ls\<rparr>) ?ts (seq_of n)
      = (Some (sbe_packet (sb_buffer ?b ! (n - start))), b)" "sb_inv start ns b" "sb_lost_list b = map seq_of ls"
    using send_packet_in [OF inv1 n(1), of rq ?ts] n(3) by auto
  have ent: "\<And>m. m \<noteq> n \<Longrightarrow> start \<le> m \<Longrightarrow> sb_buffer b ! (m - start) = sb_buffer ?b ! (m - start)"
    "in_time ?ts b"
    using send_packet_entries [OF inv1 n(1) _ b(1)] n(3) Cons.prems(7) in_time_cong [of b ?b ?ts] by simp_all
  define it1 where "it1 = sai_sent (it\<lparr>sai_buffer := b\<rparr>)"
  have "sai_packets_to_send it \<noteq> 0" using Cons.prems(5) by auto
  then have nx: "sai_next rq it = (Ok (Some (SA_RetransmitNak (held_packet ?b (seq_of n)))), it1)"
    using Cons.prems(2,6) in_time_drop [OF Cons.prems(7)] b(1) held_packet_position [OF Cons.prems(1) n(1,2)]
    by (simp add: sai_next_def sai_choose_def send_next_lost_packet_def pop_lost_list_def it1_def)
  have it1: "sai_buffer it1 = b" "sai_ts_now it1 = ?ts" "\<not> sai_attempt_16n_packet it1"
    "unat (sai_packets_to_send it1) = unat (sai_packets_to_send it) - 1"
    using Cons.prems(6) \<open>sai_packets_to_send it \<noteq> 0\<close> by (simp_all add: it1_def sai_sent_def unat_minus_one)
  have "\<exists>rest it'. snd_actions rq it1 =
      Some (Ok (map (\<lambda>m. SA_RetransmitNak (held_packet (sai_buffer it1) (seq_of m))) ls @ rest), it')"
    using it1 b ent(2) Cons.prems(3,4,5) by (intro Cons.IH) auto
  moreover have "held_packet b (seq_of m) = held_packet ?b (seq_of m)" if "m \<in> set ls" for m
  proof -
    have "start \<le> m" "m < ns" "m \<noteq> n" using that Cons.prems(3,4) by auto
    then show ?thesis
      using held_packet_position [OF b(2)] held_packet_position [OF Cons.prems(1)] ent(1) by simp
  qed
  ultimately obtain rest it' where "snd_actions rq it1 =
      Some (Ok (map (\<lambda>m. SA_RetransmitNak (held_packet ?b (seq_of m))) ls @ rest), it')"
    using it1(1) by (auto cong: map_cong)
  then show ?case using nx by (simp add: snd_actions.simps [of rq it])
qed

lemma next_loss_buffer [simp]: "sb_buffer (snd (next_loss sb s)) = sb_buffer sb"
  by (auto simp: next_loss_def split: option.splits)

lemma loss_ranges_buffer [simp]: "sb_buffer (snd (loss_ranges sb ss t a b)) = sb_buffer sb"
  by (induction ss arbitrary: sb t a b) (simp_all add: split_beta Let_def)

lemma add_losses_buffer [simp]: "sb_buffer (snd (add_losses sb ss)) = sb_buffer sb"
  by (cases ss) (simp_all add: add_losses_def split_beta Let_def)

lemma add_to_loss_list_buffer: "add_to_loss_list sb nak = Ok (ranges, sb') \<Longrightarrow> sb_buffer sb' = sb_buffer sb"
  by (auto simp: add_to_loss_list_def map_outcome_ok_Ok_iff dest!: arg_cong [where f = "\<lambda>x. sb_buffer (snd x)"])

section \<open>What an acknowledgement removes\<close>

lemma recover_lost_dropWhile: "snd (recover_lost ack ls r) = dropWhile (\<lambda>s. seq_lt s ack) ls"
  by (induction ack ls r rule: recover_lost.induct) auto

lemma pop_acked_lost [simp]: "sb_lost_list (snd (pop_acked rq ack sb r)) = sb_lost_list sb"
proof (induction rq ack sb r rule: pop_acked.induct)
  case (1 rq ack sb r)
  then show ?case by (subst pop_acked.simps) (auto simp: sb_pop_front_def Let_def split: list.splits)
qed

lemma accepted_ack_lost:
  assumes "update_largest_acked_seq_number rq sb ack full rtt = (Ok action, sb')"
  shows "sb_lost_list sb' = dropWhile (\<lambda>s. seq_lt s ack) (sb_lost_list sb)"
proof -
  have "sb_lost_list sb' = snd (recover_lost ack (sb_lost_list sb) 0)"
    using assms pop_acked_lost
    by (auto simp: update_largest_acked_seq_number_def Let_def split_beta split: option.splits if_splits)
  then show ?thesis by (simp add: recover_lost_dropWhile)
qed

lemma dropWhile_sorted: "sorted_wrt (<) (ls :: nat list) \<Longrightarrow> dropWhile (\<lambda>n. n < a) ls = filter (\<lambda>n. a \<le> n) ls"
  by (induction ls) (auto intro!: filter_True [symmetric])

lemma drop_eq_filter:
  assumes "\<And>i. i < length xs \<Longrightarrow> P (xs ! i) \<longleftrightarrow> k \<le> i"
  shows "drop k xs = filter P xs"
proof -
  have "filter P (take k xs) = []" "filter P (drop k xs) = drop k xs"
    using assms by (auto simp: filter_empty_conv filter_id_conv in_set_conv_nth)
  then show ?thesis using filter_append [of P "take k xs" "drop k xs"] by simp
qed

section \<open>Packets that were never sent\<close>

lemma overflow_unsent:
  assumes "sb_inv start start sb" "length (sb_buffer sb) = sb_max_buffer_size sb"
    "dp_seq_number p = seq_of (start + length (sb_buffer sb))"
  shows "front_packet (snd (push_data sb p)) = Some (seq_of (Suc start))"
    and "sb_next_send (snd (push_data sb p)) = seq_of start"
    and "sb_lost_list (snd (push_data sb p)) = []"
    and "length (sb_buffer (snd (push_data sb p))) = length (sb_buffer sb)"
proof -
  note inv = sb_invD [OF assms(1)]
  obtain e es where b: "sb_buffer sb = e # es" using inv(7) assms(2) by (cases "sb_buffer sb") auto
  have l: "sb_lost_list sb = []" using assms(1) by (auto simp: sb_inv_def)
  have push: "sb_buffer (snd (push_data sb p)) = es @ [\<lparr>sbe_packet = p, sbe_transmit_count = 0\<rparr>]"
    "sb_next_send (snd (push_data sb p)) = sb_next_send sb" "sb_lost_list (snd (push_data sb p)) = []"
    using b l assms(2) by (simp_all add: push_data_def Let_def)
  have "es = e' # es' \<Longrightarrow> dp_seq_number (sbe_packet e') = seq_of (Suc start)" for e' es'
    using sb_seq_nth [OF assms(1), of 1] b by simp
  then show "front_packet (snd (push_data sb p)) = Some (seq_of (Suc start))"
    using push(1) assms(3) b by (cases es) (simp_all add: front_packet_def)
  show "sb_next_send (snd (push_data sb p)) = seq_of start" "sb_lost_list (snd (push_data sb p)) = []"
    "length (sb_buffer (snd (push_data sb p))) = length (sb_buffer sb)"
    using push inv(2) b by simp_all
qed

lemma seq_diff_before: "unat (seq_diff (seq_of start) (seq_of (Suc start))) = 2 ^ 31 - 1"
proof -
  have "seq_of start = seq_of (start + 2 ^ 31)" by (simp add: seq_of_def)
  then show ?thesis using seq_diff_seq_of [of "Suc start" "start + 2 ^ 31"] by simp
qed

section \<open>The send loop ends\<close>

text \<open>Whatever a send buffer holds, each action of the send loop that does not end it lowers its rank.
  This only needs that the packets held have sequence numbers below \<open>2 ^ 31\<close>, which is what the
  type \<open>SeqNumber\<close> stands for.\<close>

definition held_numbers :: "'q SendBuffer \<Rightarrow> SeqNumber list" where
  "held_numbers sb = map (\<lambda>e. dp_seq_number (sbe_packet e)) (sb_buffer sb)"

lemma held_numbers_length: "held_numbers b' = held_numbers b \<Longrightarrow> length (sb_buffer b') = length (sb_buffer b)"
  by (metis held_numbers_def length_map)

lemma send_packet_holds: "send_packet rq b ts s = (r, b') \<Longrightarrow> held_numbers b' = held_numbers b"
  by (auto simp: send_packet_def held_numbers_def Let_def map_update list_update_same_conv split: option.splits if_splits)

lemma send_next_packet_holds: "send_next_packet rq b ts = (r, b') \<Longrightarrow> held_numbers b' = held_numbers b"
  using send_packet_holds [of rq b ts "sb_next_send b"]
  by (auto simp: send_next_packet_def held_numbers_def split: prod.splits option.splits)

lemma send_next_16n_holds: "send_next_16n_packet rq b ts = (r, b') \<Longrightarrow> held_numbers b' = held_numbers b"
  using send_next_packet_holds [of rq b ts r b'] by (auto simp: send_next_16n_packet_def split: if_splits)

lemma send_next_lost_holds:
  assumes "send_next_lost_packet rq b ts = (r, b')"
  shows "held_numbers b' = held_numbers b \<and> r \<noteq> Err e"
proof (cases "sb_lost_list b")
  case Nil
  then show ?thesis using assms by (auto simp: send_next_lost_packet_def pop_lost_list_def)
next
  case (Cons n rest)
  then show ?thesis
    using assms send_packet_holds [of rq "b\<lparr>sb_lost_list := rest\<rparr>" ts n]
    by (auto simp: send_next_lost_packet_def pop_lost_list_def held_numbers_def split: prod.splits option.splits)
qed

lemma send_next_rto_holds: "send_next_rto_packet rq b ts = (r, b') \<Longrightarrow> held_numbers b' = held_numbers b"
  using send_packet_holds [of rq b ts _ r b']
  by (auto simp: send_next_rto_packet_def split: option.splits if_splits)

definition numbers_valid :: "'q SendBuffer \<Rightarrow> bool" where
  "numbers_valid sb \<longleftrightarrow> (\<forall>s \<in> set (held_numbers sb). seq_valid s)"

lemma flush_on_close_shrinks:
  assumes "flush_on_close rq b drain = (r, b')" "numbers_valid b"
  shows "numbers_valid b' \<and> length (sb_buffer b') \<le> length (sb_buffer b)"
  using assms
  by (auto simp: flush_on_close_def sb_pop_front_def numbers_valid_def held_numbers_def Let_def
      split: if_splits list.splits)

lemma drop_too_late_shrinks:
  assumes "sb_drop_too_late_packets b ts = (r, b')" "numbers_valid b"
  shows "numbers_valid b' \<and> r \<noteq> Err e
    \<and> (if r = Ok None then b' = b else r \<noteq> Panic \<longrightarrow> length (sb_buffer b') < length (sb_buffer b))"
proof (cases "sb_buffer b")
  case Nil
  then show ?thesis using assms by (auto simp: sb_drop_too_late_packets_def)
next
  case (Cons e rest)
  let ?first = "dp_seq_number (sbe_packet e)"
  let ?last = "late_last_packet ts (sb_latency_window b) (sb_buffer b) (dp_message_number (sbe_packet e)) ?first"
  have "seq_valid ?first" using assms(2) Cons by (simp add: numbers_valid_def held_numbers_def)
  moreover have "?last \<in> insert ?first (set (held_numbers b))"
    using late_last_packet_mem by (simp only: held_numbers_def set_map)
  then have "seq_valid ?last" using assms(2) \<open>seq_valid ?first\<close> by (auto simp: numbers_valid_def)
  ultimately have "unat (seq_diff ?last ?first) < 2 ^ 31"
    by (simp add: seq_valid_def unat_mod_diff)
  then have "0 < unat (seq_diff ?last ?first + 1)"
    by (simp add: unat_word_ariths)
  then obtain k where "0 < k" and k: "r = Ok None \<and> b' = b \<or> r = Panic \<and> b' = b
      \<or> (\<exists>d. r = Ok (Some d)) \<and> sb_buffer b' = drop k (sb_buffer b)"
    using assms(1) Cons unfolding sb_drop_too_late_packets_def Let_def by (auto split: if_splits)
  have "numbers_valid b'" if "sb_buffer b' = drop k (sb_buffer b)"
    using that assms(2) by (auto simp: numbers_valid_def held_numbers_def dest!: in_set_dropD)
  then show ?thesis
    using k \<open>0 < k\<close> assms(2) Cons by auto
qed

text \<open>What a call of the iterator answers: never an error, and an action that does not end the loop only
  with a smaller rank.\<close>

definition sai_shrinks ::
  "'q SenderAlgorithmIterator \<Rightarrow> SenderAction option may_panic \<times> 'q SenderAlgorithmIterator \<Rightarrow> bool" where
  "sai_shrinks it res \<longleftrightarrow> numbers_valid (sai_buffer (snd res)) \<and>
     (case fst res of
        Ok None \<Rightarrow> True
      | Ok (Some SA_WaitForInput) \<Rightarrow> True
      | Ok (Some (SA_WaitForAck _ _)) \<Rightarrow> True
      | Ok (Some action) \<Rightarrow> sai_rank (snd res) < sai_rank it
      | Err _ \<Rightarrow> False
      | Panic \<Rightarrow> True)"

lemma sai_sent_shrinks:
  assumes "numbers_valid b" "length (sb_buffer b) \<le> length (sb_buffer (sai_buffer it))"
    "sai_packets_to_send it \<noteq> 0" "\<not> sai_attempt_16n_packet it"
  shows "numbers_valid (sai_buffer (sai_sent (it\<lparr>sai_buffer := b, sai_attempt_16n_packet := x\<rparr>)))
    \<and> sai_rank (sai_sent (it\<lparr>sai_buffer := b, sai_attempt_16n_packet := x\<rparr>)) < sai_rank it"
    "numbers_valid (sai_buffer (sai_sent (it\<lparr>sai_buffer := b\<rparr>)))
    \<and> sai_rank (sai_sent (it\<lparr>sai_buffer := b\<rparr>)) < sai_rank it"
  using assms sai_sent_rank(1) [of "it\<lparr>sai_buffer := b, sai_attempt_16n_packet := x\<rparr>"]
    sai_sent_rank(1) [of "it\<lparr>sai_buffer := b\<rparr>"]
  by (auto simp: sai_rank_def sai_sent_def)

lemma sai_choose_tail_shrinks:
  assumes "numbers_valid b" "length (sb_buffer b) \<le> length (sb_buffer (sai_buffer it))"
    "sai_packets_to_send it \<noteq> 0" "\<not> sai_attempt_16n_packet it"
  shows "sai_shrinks it
    (case send_next_packet rq b ts of
       (Some p, b) \<Rightarrow> (Ok (Some (SA_Send p)), sai_sent (it\<lparr>sai_buffer := b, sai_attempt_16n_packet := True\<rparr>))
     | (None, b) \<Rightarrow>
         (case flush_on_close rq b (sai_should_drain it) of
            (Some p, b) \<Rightarrow> (Ok (Some (SA_Send p)), sai_sent (it\<lparr>sai_buffer := b\<rparr>))
          | (None, b) \<Rightarrow> (Ok (Some SA_WaitForInput), it\<lparr>sai_buffer := b, sai_packets_to_send := 0\<rparr>)))"
proof -
  obtain r b1 where s: "send_next_packet rq b ts = (r, b1)" by (metis prod.exhaust)
  have h: "held_numbers b1 = held_numbers b" using send_next_packet_holds [OF s] .
  then have b1: "numbers_valid b1" "length (sb_buffer b1) \<le> length (sb_buffer (sai_buffer it))"
    using assms(1,2) held_numbers_length [OF h] by (simp_all add: numbers_valid_def)
  obtain q b2 where f: "flush_on_close rq b1 (sai_should_drain it) = (q, b2)" by (metis prod.exhaust)
  have b2: "numbers_valid b2" "length (sb_buffer b2) \<le> length (sb_buffer (sai_buffer it))"
    using flush_on_close_shrinks [OF f b1(1)] b1(2) by auto
  show ?thesis
    using s f b1 b2 sai_sent_shrinks [OF b1 assms(3,4)] sai_sent_shrinks [OF b2 assms(3,4)]
    by (cases r; cases q) (auto simp: sai_shrinks_def)
qed

lemma sai_choose_shrinks:
  assumes "numbers_valid (sai_buffer it)" "\<not> sai_attempt_16n_packet it"
  shows "sai_shrinks it (sai_choose rq it)"
proof (cases "sai_packets_to_send it = 0")
  case True
  then show ?thesis using assms by (simp add: sai_choose_def sai_shrinks_def)
next
  case False
  let ?b = "sai_buffer it" and ?ts = "sai_ts_now it"
  obtain d b1 where d: "sb_drop_too_late_packets ?b ?ts = (d, b1)" by (metis prod.exhaust)
  note D = drop_too_late_shrinks [OF d assms(1)]
  show ?thesis
  proof (cases "d = Ok None")
    case none: True
    obtain l b2 where l: "send_next_lost_packet rq ?b ?ts = (l, b2)" by (metis prod.exhaust)
    obtain q b3 where q: "send_next_rto_packet rq b2 ?ts = (q, b3)" by (metis prod.exhaust)
    have "held_numbers b2 = held_numbers ?b" "held_numbers b3 = held_numbers ?b"
      using send_next_lost_holds [OF l] send_next_rto_holds [OF q] by auto
    then have b2: "numbers_valid b2" "length (sb_buffer b2) \<le> length (sb_buffer ?b)"
      and b3: "numbers_valid b3" "length (sb_buffer b3) \<le> length (sb_buffer ?b)"
      using assms(1) held_numbers_length by (auto simp: numbers_valid_def intro!: eq_imp_le)
    note c = d none D l q False
    consider (lost) p where "l = Ok (Some p)" | (panic) "l = Panic" | (rto) p where "l = Ok None" "q = Some p"
      | (wait) "l = Ok None" "q = None" "flow_window_exceeded b3"
      | (tail) "l = Ok None" "q = None" "\<not> flow_window_exceeded b3"
      using send_next_lost_holds [OF l] by (cases l; cases q) auto
    then show ?thesis
    proof cases
      case tail
      then show ?thesis
        using c sai_choose_tail_shrinks [OF b3 False assms(2), of rq ?ts] by (simp add: sai_choose_def)
    qed (use c assms(1) b3 sai_sent_shrinks(2) [OF b2 False assms(2)] sai_sent_shrinks(2) [OF b3 False assms(2)] in
        \<open>simp_all add: sai_choose_def sai_shrinks_def\<close>)
  next
    case some: False
    then show ?thesis
      using d D False assms by (cases d) (auto simp: sai_choose_def sai_shrinks_def sai_rank_def)
  qed
qed

lemma sai_next_shrinks:
  assumes "numbers_valid (sai_buffer it)"
  shows "sai_shrinks it (sai_next rq it)"
proof (cases "sai_attempt_16n_packet it")
  case False
  then show ?thesis using sai_choose_shrinks [OF assms] by (simp add: sai_next_def)
next
  case True
  let ?it = "it\<lparr>sai_attempt_16n_packet := False\<rparr>"
  obtain r b where s: "send_next_16n_packet rq (sai_buffer it) (sai_ts_now it) = (r, b)" by (metis prod.exhaust)
  have h: "held_numbers b = held_numbers (sai_buffer it)" using send_next_16n_holds [OF s] .
  have b: "numbers_valid b" "length (sb_buffer b) = length (sb_buffer (sai_buffer it))"
    using assms h held_numbers_length [OF h] by (simp_all add: numbers_valid_def)
  show ?thesis
  proof (cases r)
    case None
    have "sai_shrinks (?it\<lparr>sai_buffer := b\<rparr>) (sai_choose rq (?it\<lparr>sai_buffer := b\<rparr>))"
      using b(1) by (intro sai_choose_shrinks) simp_all
    then show ?thesis using None True s b(2)
      by (auto simp: sai_next_def sai_shrinks_def sai_rank_def split: outcome.splits option.splits SenderAction.splits)
  next
    case (Some p)
    then show ?thesis using True s b sai_sent_rank(2) [of "?it\<lparr>sai_buffer := b\<rparr>"]
      by (auto simp: sai_next_def sai_shrinks_def sai_rank_def sai_sent_def Let_def)
  qed
qed

lemma snd_actions_terminate:
  assumes "numbers_valid (sai_buffer it)"
  shows "\<exists>r it'. snd_actions rq it = Some (r, it')
    \<and> (r = Panic \<or> (\<exists>actions. r = Ok actions \<and> length actions \<le> sai_rank it + 1))"
  using assms
proof (induction "sai_rank it" arbitrary: it rule: less_induct)
  case less
  obtain r it1 where n: "sai_next rq it = (r, it1)" by (metis prod.exhaust)
  have g: "sai_shrinks it (r, it1)" using sai_next_shrinks [OF less.prems, of rq] n by simp
  have go: ?case if "r = Ok (Some a)" "sai_rank it1 < sai_rank it" "\<And>w u. a \<noteq> SA_WaitForAck w u" "a \<noteq> SA_WaitForInput" for a
  proof -
    note a = that
    have "numbers_valid (sai_buffer it1)" using g by (simp add: sai_shrinks_def)
    then obtain r' it' where r': "snd_actions rq it1 = Some (r', it')"
        "r' = Panic \<or> (\<exists>actions. r' = Ok actions \<and> length actions \<le> sai_rank it1 + 1)"
      using less.hyps [OF a(2)] by blast
    have "snd_actions rq it = Some (map_outcome_ok (Cons a) r', it')"
      using a n r'(1) by (cases a) (auto simp: snd_actions.simps [of rq it])
    then show ?thesis using r'(2) a(2) by auto
  qed
  consider "r = Ok None" | "r = Panic" | w where "r = Ok (Some w)" "w = SA_WaitForInput \<or> (\<exists>x y. w = SA_WaitForAck x y)"
    | a where "r = Ok (Some a)" "sai_rank it1 < sai_rank it" "\<And>w u. a \<noteq> SA_WaitForAck w u" "a \<noteq> SA_WaitForInput"
    using g by (auto simp: sai_shrinks_def split: outcome.splits option.splits SenderAction.splits)
  then show ?case
  proof cases
    case 4
    then show ?thesis by (rule go)
  qed (use n in \<open>auto simp: snd_actions.simps [of rq it]\<close>)
qed

section \<open>Properties\<close>

text \<open>C9: Sending always ends. For every send buffer whatsoever, with any packets, loss list and position
  (the numbers of the packets held being sequence numbers, below \<open>2 ^ 31\<close>), the loop of
  \<open>on_snd_event\<close> over the actions of the sender algorithm ends, after at most two actions for each
  packet it may send and one for each packet held. When the buffer was reached by pushing, acknowledging,
  reporting lost and sending, in any order, and never was pushed to while full of packets of which
  none had been sent (the case of claim \<open>overflow_stalls_sender\<close>), it ends without a panic.\<close>

theorem send_loop_terminates:
  assumes "numbers_valid sb"
  shows "\<exists>r it. snd_actions rq (next_snd_actions sb ts n drain) = Some (r, it)
    \<and> (r = Panic \<or> (\<exists>actions. r = Ok actions \<and> length actions \<le> 2 * unat n + length (sb_buffer sb) + 1))
    \<and> (\<forall>sb0. tx_init rq sb0 \<and> (tx_step rq)\<^sup>*\<^sup>* sb0 sb \<longrightarrow> r \<noteq> Panic)"
proof -
  obtain r it where r: "snd_actions rq (next_snd_actions sb ts n drain) = Some (r, it)"
    "r = Panic \<or> (\<exists>actions. r = Ok actions \<and> length actions \<le> 2 * unat n + length (sb_buffer sb) + 1)"
    using snd_actions_terminate [of "next_snd_actions sb ts n drain" rq] assms
    by (auto simp: next_snd_actions_def sai_rank_def)
  moreover have "r \<noteq> Panic" if "tx_init rq sb0" "(tx_step rq)\<^sup>*\<^sup>* sb0 sb" for sb0
    using snd_actions_end [of "next_snd_actions sb ts n drain" rq] tx.reachable_inv [OF that] r(1)
    by (auto simp: next_snd_actions_def)
  ultimately show ?thesis by blast
qed

definition sample_rq :: "SeqNumber list RtoOps" where
  "sample_rq = \<lparr>rq_new = [], rq_push = (\<lambda>q s _. s # q), rq_remove = (\<lambda>q s. removeAll s q), rq_peek = (\<lambda>_. None)\<rparr>"

definition sample_settings :: ConnectionSettings where
  "sample_settings = \<lparr>cs_remote = (IpV4 0, 9000), cs_remote_sockid = 1, cs_local_sockid = 2, cs_socket_start_time = 0,
     cs_rtt = 0, cs_init_seq_num = 5, cs_max_packet_size = 1500, cs_max_flow_size = 8192,
     cs_send_tsbpd_latency = 120000000, cs_recv_tsbpd_latency = 120000000, cs_too_late_packet_drop = True,
     cs_peer_idle_timeout = 5000000000, cs_recv_buffer_size = 8192, cs_send_buffer_size = 2, cs_cipher = None,
     cs_stream_id = None, cs_bandwidth = LB_Unlimited, cs_statistics_interval = 0\<rparr>"

definition sample_data :: "u32 \<Rightarrow> DataPacket" where
  "sample_data s = \<lparr>dp_seq_number = s, dp_message_loc = PL_ONLY, dp_in_order_delivery = False,
     dp_encryption = DE_None, dp_retransmitted = False, dp_message_number = 1, dp_timestamp = 0,
     dp_dest_sockid = 1, dp_payload = [1, 2, 3]\<rparr>"

theorem send_loop_terminates_witness:
  "\<exists>actions it. snd_actions sample_rq
      (next_snd_actions (snd (push_data (sb_new sample_rq sample_settings) (sample_data 5))) 0 4 False)
        = Some (Ok actions, it) \<and> length actions \<le> 10"
proof -
  let ?new = "sb_new sample_rq sample_settings"
  let ?sb = "snd (push_data ?new (sample_data 5))"
  have i: "tx_init sample_rq ?new"
    unfolding tx_init_def by (intro exI [of _ sample_settings]) (simp add: sample_settings_def seq_valid_def)
  have "push_ok ?new (sample_data 5)"
    by (simp add: push_ok_def sb_new_def sample_settings_def sample_data_def front_packet_def)
  then have s: "(tx_step sample_rq)\<^sup>*\<^sup>* ?new ?sb"
    by (intro r_into_rtranclp tx_push)
  have "numbers_valid ?sb" "length (sb_buffer ?sb) = 1"
    by (simp_all add: numbers_valid_def held_numbers_def push_data_def sb_new_def sample_settings_def sample_data_def
        seq_valid_def)
  then show ?thesis
    using send_loop_terminates [of ?sb sample_rq 0 4 False] i s by auto
qed

text \<open>C16: An accepted acknowledgement. In a well-formed buffer it removes exactly the packets before the
  acknowledged number, all of which had been sent, reports their number, and takes their numbers out
  of the loss list; the rest of the buffer and of the loss list stays as it was.\<close>

theorem accepted_ack_exact:
  assumes "sb_ok sb" "seq_valid ack" "update_largest_acked_seq_number rq sb ack full rtt = (Ok action, sb')"
  shows "sb_buffer sb' = filter (\<lambda>e. \<not> seq_lt (dp_seq_number (sbe_packet e)) ack) (sb_buffer sb)
    \<and> sb_lost_list sb' = filter (\<lambda>s. \<not> seq_lt s ack) (sb_lost_list sb)
    \<and> aa_received action = of_nat (length (sb_buffer sb) - length (sb_buffer sb'))
    \<and> seq_le ack (sb_next_send sb)"
proof -
  obtain start ns where inv: "sb_inv start ns sb" using assms(1) by (auto simp: sb_ok_def)
  note I = sb_invD [OF inv]
  obtain a where a: "ack = seq_of a" "start \<le> a" "a \<le> ns" "sb_buffer sb' = drop (a - start) (sb_buffer sb)"
      "aa_received action = of_nat (a - start)"
    using ack_accepted [OF inv assms(2,3)] by blast
  have lt: "seq_lt (seq_of n) ack \<longleftrightarrow> n < a" if "start \<le> n" "n < start + 2 ^ 30" for n
    using that a(1,2,3) I(4,5) by (auto simp: mod_lt_def seq_cmp_seq_of)
  have "sb_buffer sb' = filter (\<lambda>e. \<not> seq_lt (dp_seq_number (sbe_packet e)) ack) (sb_buffer sb)"
    unfolding a(4) using I(5) lt a(2) by (intro drop_eq_filter) (auto simp: sb_seq_nth [OF inv])
  moreover have "sb_lost_list sb' = filter (\<lambda>s. \<not> seq_lt s ack) (sb_lost_list sb)"
  proof -
    obtain ls where ls: "sb_lost_list sb = map seq_of ls" "sorted_wrt (<) ls" "set ls \<subseteq> {start..<ns}"
      by (rule sb_inv_lost [OF inv])
    have l: "seq_lt (seq_of n) ack \<longleftrightarrow> n < a" if "n \<in> set ls" for n using that ls(3) I(4,5) by (intro lt) auto
    have "dropWhile (\<lambda>s. seq_lt s ack) (map seq_of ls) = map seq_of (dropWhile (\<lambda>n. n < a) ls)"
      unfolding dropWhile_map using l by (intro arg_cong [where f = "map seq_of"] dropWhile_cong) simp_all
    moreover have "filter (\<lambda>s. \<not> seq_lt s ack) (map seq_of ls) = map seq_of (filter (\<lambda>n. a \<le> n) ls)"
      unfolding filter_map using l by (intro arg_cong [where f = "map seq_of"] filter_cong) (simp_all add: not_less)
    ultimately show ?thesis using accepted_ack_lost [OF assms(3)] ls(1) dropWhile_sorted [OF ls(2), of a] by simp
  qed
  moreover have "seq_le ack (sb_next_send sb)"
    using a(1,2,3) I(2,4,5) by (auto simp: mod_le_def seq_cmp_seq_of)
  moreover have "length (sb_buffer sb) - length (sb_buffer sb') = a - start" using a(2,3,4) I(4) by simp
  ultimately show ?thesis using a(5) by simp
qed

text \<open>C14: Lost packets are retransmitted first. When a loss report names a packet that was sent and is
  still held, and nothing is too late, the next run of the send loop that may send as many packets as
  the loss list has retransmits that packet, as it is held, before any other kind of packet.\<close>

theorem nak_is_retransmitted:
  assumes "sb_ok sb" "add_to_loss_list sb nak = Ok (ranges, sb')" "iter_decompressed nak = Ok losses"
    and "e \<in> set (sb_buffer sb)" "dp_seq_number (sbe_packet e) \<in> set losses"
      "seq_lt (dp_seq_number (sbe_packet e)) (sb_next_send sb)"
    and "in_time ts sb'" "length (sb_lost_list sb') \<le> unat n"
  shows "\<exists>retransmitted rest it. snd_actions rq (next_snd_actions sb' ts n drain)
      = Some (Ok (map SA_RetransmitNak retransmitted @ rest), it)
    \<and> length retransmitted = length (sb_lost_list sb') \<and> sbe_packet e \<in> set retransmitted"
proof -
  obtain start ns where inv: "sb_inv start ns sb" using assms(1) by (auto simp: sb_ok_def)
  obtain i where i: "i < length (sb_buffer sb)" "e = sb_buffer sb ! i" using assms(4) by (auto simp: in_set_conv_nth)
  then have e: "dp_seq_number (sbe_packet e) = seq_of (start + i)" using sb_seq_nth [OF inv] by simp
  have sent: "start + i < ns"
    using assms(6) e sb_invD [OF inv] i(1) by (auto simp: mod_lt_def seq_cmp_seq_of split: if_splits)
  note inv' = add_to_loss_list_step [OF inv assms(2)]
  obtain ls where ls: "sb_lost_list sb' = map seq_of ls" "sorted_wrt (<) ls" "set ls \<subseteq> {start..<ns}"
    by (rule sb_inv_lost [OF inv'(1)])
  have "dp_seq_number (sbe_packet e) \<in> set (sb_lost_list sb')"
    using inv'(2) assms(3,5) e sent by auto
  moreover have "held_packet sb' (seq_of (start + i)) = sbe_packet e"
    using held_packet_position [OF inv'(1), of "start + i"] sent add_to_loss_list_buffer [OF assms(2)] i(2) by simp
  ultimately have "sbe_packet e \<in> set (map (\<lambda>n. held_packet sb' (seq_of n)) ls)"
    using e ls(1) by (auto intro: rev_image_eqI)
  moreover have "\<exists>rest it'. snd_actions rq (next_snd_actions sb' ts n drain) =
      Some (Ok (map (\<lambda>m. SA_RetransmitNak (held_packet sb' (seq_of m))) ls @ rest), it')"
    using lost_packets_first [of start ns "next_snd_actions sb' ts n drain" ls rq] inv'(1) ls assms(7,8)
    by (simp add: next_snd_actions_def)
  ultimately show ?thesis
    using ls(1) by (auto simp: comp_def intro!: exI [of _ "map (\<lambda>n. held_packet sb' (seq_of n)) ls"])
qed

text \<open>C32: A full buffer of packets that were never sent. When one more packet is pushed, the first packet
  is dropped but \<open>next_send\<close> still names it; from then on, until packets become too late, the sender
  only waits for an acknowledgement (the flow window seems exceeded), and every acknowledgement is
  rejected, but for the one number half the range away.\<close>

theorem overflow_stalls_sender:
  assumes "sb_ok sb" "length (sb_buffer sb) = sb_max_buffer_size sb" "front_packet sb = Some (sb_next_send sb)"
    and "dp_seq_number p = seq_add (dp_seq_number (sbe_packet (last (sb_buffer sb)))) 1"
    and "sb' = snd (push_data sb p)" "sb_flow_window_size sb' < 2 ^ 31 - 1"
    and "in_time ts sb'" "send_next_rto_packet rq sb' ts = (None, sb')" "0 < n" "seq_valid ack"
    and "ack \<noteq> seq_add (sb_next_send sb') (2 ^ 30)"
  shows "fst (sai_next rq (next_snd_actions sb' ts n drain)) = Ok (Some (SA_WaitForAck 10000 (2 ^ 31 - 1)))
    \<and> (\<exists>err. update_largest_acked_seq_number rq sb' ack full rtt = (Err err, sb'))"
proof -
  obtain start ns where inv: "sb_inv start ns sb" using assms(1) by (auto simp: sb_ok_def)
  note I = sb_invD [OF inv]
  have ns: "ns = start"
    using assms(3) front_packet_inv [OF inv] I seq_diff_seq_of [of start ns] seq_diff_seq_of [of start start]
    by (auto split: if_splits)
  have ne: "sb_buffer sb \<noteq> []" using assms(3) by (auto simp: front_packet_def)
  then obtain m where m: "length (sb_buffer sb) = Suc m" by (cases "length (sb_buffer sb)") auto
  have "dp_seq_number p = seq_of (start + length (sb_buffer sb))"
    using sb_seq_nth [OF inv, of m] m ne assms(4) seq_of_add [of "start + m" 1] by (simp add: last_conv_nth)
  note o = overflow_unsent [OF inv [unfolded ns] assms(2) this, folded assms(5)]
  have u: "number_of_unacked_packets sb' = 2 ^ 31 - 1"
    using o(1,2) seq_diff_before [of start] by (simp add: number_of_unacked_packets_def)
  have "sai_choose rq (next_snd_actions sb' ts n drain) = (Ok (Some (SA_WaitForAck 10000 (2 ^ 31 - 1))),
      (next_snd_actions sb' ts n drain)\<lparr>sai_packets_to_send := 0\<rparr>)"
    using assms(6,8,9) in_time_drop [OF assms(7)] o(3) u
    by (simp add: sai_choose_def next_snd_actions_def send_next_lost_packet_def pop_lost_list_def flow_window_exceeded_def)
  moreover have "seq_lt ack (seq_of (Suc start)) \<or> seq_cmp ack (seq_of start) = Greater"
  proof (rule disjCI)
    assume le: "seq_cmp ack (seq_of start) \<noteq> Greater"
    show "seq_lt ack (seq_of (Suc start))"
    proof (rule ccontr)
      assume "\<not> seq_lt ack (seq_of (Suc start))"
      then obtain n where n: "ack = seq_of n" "Suc start \<le> n" "n < Suc start + 2 ^ 30"
        using sent_position [OF assms(10), of "Suc start" "Suc start"] by auto
      have "n \<noteq> start + 2 ^ 30" using assms(11) o(2) n(1) seq_of_add [of start "2 ^ 30"] by auto
      then show False using le n seq_cmp_seq_of [of n start] by auto
    qed
  qed
  ultimately show ?thesis
    using o(1,2) by (auto simp: sai_next_def next_snd_actions_def update_largest_acked_seq_number_def)
qed

text \<open>A buffer with packets 5 and 6, both of them sent.\<close>

definition sample_tx :: "SeqNumber list SendBuffer" where
  "sample_tx = (sb_new sample_rq sample_settings)\<lparr>sb_next_send := 7, sb_buffer :=
     [\<lparr>sbe_packet = sample_data 5, sbe_transmit_count = 1\<rparr>, \<lparr>sbe_packet = sample_data 6, sbe_transmit_count = 1\<rparr>]\<rparr>"

lemma sample_positions: "seq_of 5 = 5" "seq_of 6 = 6" "seq_of 7 = 7"
  by (simp_all add: seq_of_def)

lemma sample_tx_inv: "sb_inv 5 7 sample_tx" "sb_inv 5 5 (sample_tx\<lparr>sb_next_send := 5\<rparr>)"
proof -
  have "seqs_from (seq_of 5) (Suc (Suc 0)) = [5, 6]"
    unfolding seqs_from_position using sample_positions by (simp del: numeral_eq_Suc)
  then show "sb_inv 5 7 sample_tx" "sb_inv 5 5 (sample_tx\<lparr>sb_next_send := 5\<rparr>)"
    using sample_positions
    by (simp_all add: sb_inv_def sample_tx_def sb_new_def sample_settings_def sb_seqs_def sample_data_def)
qed

lemmas sample_tx_ok = sample_tx_inv [THEN sb_okI]

theorem accepted_ack_exact_witness:
  "\<exists>action sb'. update_largest_acked_seq_number sample_rq sample_tx 6 None None = (Ok action, sb')
    \<and> sb_buffer sb' = filter (\<lambda>e. \<not> seq_lt (dp_seq_number (sbe_packet e)) 6) (sb_buffer sample_tx)
    \<and> sb_lost_list sb' = filter (\<lambda>s. \<not> seq_lt s 6) (sb_lost_list sample_tx)
    \<and> aa_received action = of_nat (length (sb_buffer sample_tx) - length (sb_buffer sb'))
    \<and> seq_le 6 (sb_next_send sample_tx)"
proof -
  have "\<not> seq_lt 6 5" "seq_cmp 6 7 \<noteq> Greater"
    using seq_cmp_seq_of [of 6 5] seq_cmp_seq_of [of 6 7] sample_positions by (simp_all add: mod_lt_def)
  then have "\<exists>action sb'. update_largest_acked_seq_number sample_rq sample_tx 6 None None = (Ok action, sb')"
    by (simp add: update_largest_acked_seq_number_def front_packet_def sample_tx_def sample_data_def Let_def split_beta)
  then obtain action sb' where u: "update_largest_acked_seq_number sample_rq sample_tx 6 None None = (Ok action, sb')"
    by blast
  show ?thesis using accepted_ack_exact [OF sample_tx_ok(1) _ u] u by (simp add: seq_valid_def)
qed

lemma sample_window: "\<not> ts_gt 0 (ts_add_duration 0 (max 150000000 (duration_from_millis 1000)))"
  by (simp add: ts_gt_def ts_add_duration_def ts_cmp_def ts_diff_def as_micros_def duration_from_millis_def max_def cmp_int_def)

theorem nak_is_retransmitted_witness:
  "\<exists>ranges sb'. add_to_loss_list sample_tx [5] = Ok (ranges, sb') \<and>
    (\<exists>retransmitted rest it. snd_actions sample_rq (next_snd_actions sb' 0 4 False)
        = Some (Ok (map SA_RetransmitNak retransmitted @ rest), it)
      \<and> length retransmitted = length (sb_lost_list sb') \<and> sample_data 5 \<in> set retransmitted)"
proof -
  have i: "iter_decompressed [5] = Ok [5]"
    by (simp add: iter_decompressed_def decompress_loss_list_def decompress_from_plain decompress_from_Nil loop_flag_def
        seq_new_truncate_id seq_valid_def)
  have c: "seq_lt 5 7" "\<not> seq_lt 5 5"
    using seq_cmp_seq_of [of 5 5] seq_cmp_seq_of [of 5 7] sample_positions by (simp_all add: mod_lt_def)
  obtain ranges where a: "add_to_loss_list sample_tx [5] = Ok (ranges, sample_tx\<lparr>sb_lost_list := [5]\<rparr>)"
    using i c by (simp add: add_to_loss_list_def add_losses_def next_loss_def front_packet_def sample_tx_def
        sample_data_def sb_new_def)
  have "\<exists>retransmitted rest it. snd_actions sample_rq (next_snd_actions (sample_tx\<lparr>sb_lost_list := [5]\<rparr>) 0 4 False)
        = Some (Ok (map SA_RetransmitNak retransmitted @ rest), it)
      \<and> length retransmitted = length (sb_lost_list (sample_tx\<lparr>sb_lost_list := [5]\<rparr>))
      \<and> sbe_packet \<lparr>sbe_packet = sample_data 5, sbe_transmit_count = 1\<rparr> \<in> set retransmitted"
    by (rule nak_is_retransmitted [OF sample_tx_ok(1) a i])
      (use c in \<open>simp_all add: sample_tx_def sample_data_def sb_new_def in_time_def sample_settings_def
        sample_window\<close>)
  then show ?thesis using a by auto
qed

theorem overflow_stalls_sender_witness:
  "fst (sai_next sample_rq (next_snd_actions (snd (push_data (sample_tx\<lparr>sb_next_send := 5\<rparr>) (sample_data 7))) 0 4 False))
      = Ok (Some (SA_WaitForAck 10000 (2 ^ 31 - 1)))
    \<and> (\<exists>err. update_largest_acked_seq_number sample_rq
          (snd (push_data (sample_tx\<lparr>sb_next_send := 5\<rparr>) (sample_data 7))) 7 None None
        = (Err err, snd (push_data (sample_tx\<lparr>sb_next_send := 5\<rparr>) (sample_data 7))))"
proof (rule overflow_stalls_sender [OF sample_tx_ok(2) _ _ _ refl])
  show "dp_seq_number (sample_data 7) =
      seq_add (dp_seq_number (sbe_packet (last (sb_buffer (sample_tx\<lparr>sb_next_send := 5\<rparr>))))) 1"
    using seq_of_add [of 6 1] sample_positions by (simp add: sample_tx_def sample_data_def)
qed (simp_all add: sample_tx_def sample_data_def sb_new_def in_time_def sample_settings_def push_data_def
      front_packet_def send_next_rto_packet_def sample_rq_def seq_valid_def Let_def sample_window
      mod_add_def mod_MAX_def)

end
