(* ===== verification/Congestion_Control.thy ===== *)
theory Congestion_Control
  imports Settings "HOL-Library.Signed_Division"
begin

text \<open>
  Congestion control of the sender (\<open>protocol/sender/congestion_control.rs\<close>): the estimation of the
  input rate and the period between two packets that the bandwidth mode allows. The \<open>i128\<close> counters
  are integers: they are sums of fewer than \<open>2 ^ 60\<close> unsigned 64-bit numbers and do not overflow.
\<close>

section \<open>Estimation of the input rate\<close>

record RateEstimate =
  re_mean :: u64
  re_variance :: u64

record RateEstimation =
  rs_total :: int
  rs_last :: int
  rs_mean :: int
  rs_variance :: int

definition rate_estimation_default :: RateEstimation where
  "rate_estimation_default = \<lparr>rs_total = 0, rs_last = 0, rs_mean = 0, rs_variance = 0\<rparr>"

definition rate_increment :: "RateEstimation \<Rightarrow> u64 \<Rightarrow> RateEstimation" where
  "rate_increment self count = self\<lparr>rs_total := rs_total self + uint count\<rparr>"

definition rate_calculate :: "RateEstimation \<Rightarrow> duration \<Rightarrow> RateEstimate \<times> RateEstimation" where
  "rate_calculate self time =
     (let count = rs_total self - rs_last self;
          micros = int (as_micros time);
          self =
            (if micros > 0
             then let rate = count * 1000000 sdiv micros;
                      self =
                        (if rs_mean self = 0 \<and> rs_variance self = 0 then self\<lparr>rs_mean := rate\<rparr>
                         else
                           let mean = (if rate > rs_mean self then (rs_mean self + rate) sdiv 2
                                       else (rs_mean self * 7 + rate) sdiv 8);
                               diff = \<bar>mean - rate\<bar> in
                           self\<lparr>rs_mean := mean, rs_variance := (rs_variance self * 3 + diff) sdiv 4\<rparr>) in
                  self\<lparr>rs_last := rs_total self\<rparr>
             else self) in
      (\<lparr>re_mean = word_of_int (rs_mean self), re_variance = word_of_int (rs_variance self)\<rparr>, self))"

record InputRateEstimate =
  ie_messages :: RateEstimate
  ie_packets :: RateEstimate
  ie_bytes :: RateEstimate

record InputRateEstimation =
  ir_messages :: RateEstimation
  ir_packets :: RateEstimation
  ir_bytes :: RateEstimation

definition input_rate_default :: InputRateEstimation where
  "input_rate_default = \<lparr>ir_messages = rate_estimation_default, ir_packets = rate_estimation_default,
     ir_bytes = rate_estimation_default\<rparr>"

definition input_rate_add :: "InputRateEstimation \<Rightarrow> PacketCount \<Rightarrow> ByteCount \<Rightarrow> InputRateEstimation" where
  "input_rate_add self packets bytes =
     self\<lparr>ir_messages := rate_increment (ir_messages self) 1,
          ir_packets := rate_increment (ir_packets self) packets,
          ir_bytes := rate_increment (ir_bytes self) bytes\<rparr>"

definition input_rate_calculate ::
  "InputRateEstimation \<Rightarrow> duration \<Rightarrow> InputRateEstimate \<times> InputRateEstimation" where
  "input_rate_calculate self elapsed =
     (let (m, messages) = rate_calculate (ir_messages self) elapsed;
          (p, packets) = rate_calculate (ir_packets self) elapsed;
          (b, bytes) = rate_calculate (ir_bytes self) elapsed in
      (\<lparr>ie_messages = m, ie_packets = p, ie_bytes = b\<rparr>,
       \<lparr>ir_messages = messages, ir_packets = packets, ir_bytes = bytes\<rparr>))"

section \<open>The send period\<close>

record SenderCongestionControl =
  scc_next :: "instant option"
  scc_estimation :: InputRateEstimation
  scc_bandwidth_mode :: LiveBandwidthMode

definition GIGABIT :: DataRate where
  "GIGABIT = 1000000000 div 8"

definition scc_new :: "LiveBandwidthMode \<Rightarrow> SenderCongestionControl" where
  "scc_new bandwidth_mode =
     \<lparr>scc_next = None, scc_estimation = input_rate_default, scc_bandwidth_mode = bandwidth_mode\<rparr>"

definition calculate_max_data_rate :: "SenderCongestionControl \<Rightarrow> DataRate \<Rightarrow> DataRate" where
  "calculate_max_data_rate self actual_data_rate =
     (case scc_bandwidth_mode self of
        LB_Input rate overhead \<Rightarrow> percent_mul (percent_add overhead 100) rate
      | LB_Max m \<Rightarrow> m
      | LB_Unlimited \<Rightarrow> GIGABIT
      | LB_Estimated overhead expected \<Rightarrow>
          percent_mul (percent_add overhead 100) (max expected actual_data_rate))"

definition calculate_snd_period ::
  "SenderCongestionControl \<Rightarrow> PacketRate \<Rightarrow> DataRate \<Rightarrow> duration may_panic" where
  "calculate_snd_period self packet_rate data_rate =
     (let max_data_rate = calculate_max_data_rate self data_rate in
      if packet_rate > 0 \<and> max_data_rate > 0
      then bind_outcome (data_rate_div data_rate packet_rate) (\<lambda>size.
           bind_outcome (packet_period_try_from max_data_rate size) (\<lambda>r.
           Ok (case r of Some period \<Rightarrow> period | None \<Rightarrow> duration_from_micros 1)))
      else Ok (duration_from_micros 1))"

definition INPUT_PERIOD :: duration where
  "INPUT_PERIOD = duration_from_millis 100"

definition on_input ::
  "SenderCongestionControl \<Rightarrow> instant \<Rightarrow> PacketCount \<Rightarrow> ByteCount
   \<Rightarrow> duration option may_panic \<times> SenderCongestionControl" where
  "on_input self now packets bytes =
     (let (result, self) =
        (case scc_next self of
           None \<Rightarrow> (Ok None, self\<lparr>scc_next := Some (now + int INPUT_PERIOD)\<rparr>)
         | Some nxt \<Rightarrow>
             if now < nxt then (Ok None, self)
             else
               let overflow = instant_sub now nxt;
                   overflow_periods = as_millis overflow div as_millis INPUT_PERIOD;
                   elapsed_periods = 1 + (of_nat overflow_periods :: u32);
                   elapsed = unat elapsed_periods * INPUT_PERIOD;
                   (estimate, estimation) = input_rate_calculate (scc_estimation self) elapsed;
                   self = self\<lparr>scc_next := Some (nxt + int elapsed), scc_estimation := estimation\<rparr> in
               (map_outcome_ok Some
                  (calculate_snd_period self (re_mean (ie_packets estimate)) (re_mean (ie_bytes estimate))),
                self)) in
      (result, self\<lparr>scc_estimation := input_rate_add (scc_estimation self) packets bytes\<rparr>))"

section \<open>The estimates\<close>

definition rate_ok :: "RateEstimation \<Rightarrow> bool" where
  "rate_ok e \<longleftrightarrow> 0 \<le> rs_last e \<and> rs_last e \<le> rs_total e \<and> 0 \<le> rs_mean e \<and> 0 \<le> rs_variance e"

lemma sdiv_nonneg: "0 \<le> a \<Longrightarrow> 0 < b \<Longrightarrow> (a :: int) sdiv b = a div b"
  by (simp add: signed_divide_int_def sgn_if)

lemma rate_increment_ok: "rate_ok e \<Longrightarrow> rate_ok (rate_increment e n)"
  by (simp add: rate_ok_def rate_increment_def add_increasing2)

text \<open>The new mean lies between the old mean and the rate of the period.\<close>

lemma rate_calculate_mean:
  assumes "rate_ok e" "0 < as_micros d"
  shows "\<exists>rate \<ge> 0. rate_ok (snd (rate_calculate e d))
    \<and> rs_mean (snd (rate_calculate e d)) \<le> max (rs_mean e) rate
    \<and> min (rs_mean e) rate \<le> rs_mean (snd (rate_calculate e d))"
proof -
  obtain rate where c: "(rs_total e - rs_last e) * 1000000 sdiv int (as_micros d) = rate" by blast
  have r: "0 \<le> rate"
    using assms unfolding c [symmetric]
    by (subst sdiv_nonneg) (simp_all add: rate_ok_def pos_imp_zdiv_nonneg_iff)
  show ?thesis
    using assms r by (intro exI [of _ rate])
      (auto simp: rate_calculate_def Let_def c sdiv_nonneg rate_ok_def simp del: left_diff_distrib_numeral)
qed

lemma rate_calculate_ok: "rate_ok e \<Longrightarrow> rate_ok (snd (rate_calculate e d))"
proof (cases "0 < as_micros d")
  case True
  then show "rate_ok e \<Longrightarrow> ?thesis" using rate_calculate_mean [of e d] by blast
qed (simp add: rate_calculate_def)

definition scc_ok :: "SenderCongestionControl \<Rightarrow> bool" where
  "scc_ok cc \<longleftrightarrow> rate_ok (ir_messages (scc_estimation cc)) \<and> rate_ok (ir_packets (scc_estimation cc))
     \<and> rate_ok (ir_bytes (scc_estimation cc))"

lemma scc_new_ok: "scc_ok (scc_new mode)"
  by (simp add: scc_ok_def scc_new_def input_rate_default_def rate_ok_def rate_estimation_default_def)

lemma on_input_ok: "scc_ok cc \<Longrightarrow> scc_ok (snd (on_input cc now packets bytes))"
  by (auto simp: scc_ok_def on_input_def Let_def input_rate_calculate_def input_rate_add_def split_beta
      intro!: rate_increment_ok rate_calculate_ok split: option.splits if_splits)

section \<open>The period\<close>

lemma checked_div_pos: "0 < b \<Longrightarrow> checked_div a b = Ok (a div b)"
  by (auto simp: checked_div_def)

lemma calculate_snd_period_cases:
  "\<exists>d. calculate_snd_period cc packet_rate data_rate = Ok d \<and> duration_from_micros 1 \<le> d"
  by (auto simp: calculate_snd_period_def Let_def data_rate_div_def packet_period_try_from_def checked_div_pos
      duration_from_micros_def Suc_le_eq unat_gt_0 word_gt_0)

lemma on_input_period:
  "\<exists>r. fst (on_input cc now packets bytes) = Ok r \<and> (\<forall>d. r = Some d \<longrightarrow> duration_from_micros 1 \<le> d)"
proof -
  have "\<exists>r. map_outcome_ok Some (calculate_snd_period cc' p b) = Ok r
      \<and> (\<forall>d. r = Some d \<longrightarrow> duration_from_micros 1 \<le> d)" for cc' p b
    using calculate_snd_period_cases [of cc' p b] by auto
  then show ?thesis
    by (simp add: on_input_def Let_def split_beta split: option.split)
qed

section \<open>Properties\<close>

text \<open>C29: The send period keeps to the bandwidth. When packets have been counted and the bandwidth mode
  gives a rate, sending one packet of the mean size per period uses the whole rate, to the precision of
  one microsecond: the period is not longer than the time that the packet takes at the rate, unless
  that is less than a microsecond, and one microsecond more would be longer.\<close>

theorem send_period_bandwidth:
  assumes "0 < packet_rate" "0 < calculate_max_data_rate cc data_rate"
    and "unat (data_rate div packet_rate) * 1000000 < 2 ^ 64"
  shows "\<exists>d. calculate_snd_period cc packet_rate data_rate = Ok d \<and> 1 \<le> as_micros d
    \<and> (as_micros d = 1
        \<or> as_micros d * unat (calculate_max_data_rate cc data_rate) \<le> unat (data_rate div packet_rate) * 1000000)
    \<and> unat (data_rate div packet_rate) * 1000000 < (as_micros d + 1) * unat (calculate_max_data_rate cc data_rate)"
proof -
  let ?size = "data_rate div packet_rate" and ?max = "calculate_max_data_rate cc data_rate"
  define period where "period = ?size * 1000000 div ?max"
  have s: "unat (?size * 1000000) = unat ?size * 1000000"
    using assms(3) by (simp add: unat_word_ariths)
  have m: "0 < unat ?max" using assms(2) by (simp add: word_gt_0 unat_gt_0)
  have p: "unat period = unat ?size * 1000000 div unat ?max"
    unfolding period_def by (simp only: unat_div_distrib s)
  have bounds: "unat period * unat ?max \<le> unat ?size * 1000000"
    "unat ?size * 1000000 < (unat period + 1) * unat ?max"
    unfolding p using dividend_less_div_times [OF m] by simp_all
  have d: "calculate_snd_period cc packet_rate data_rate =
      Ok (if 0 < ?size \<and> 0 < period then duration_from_micros (unat period) else duration_from_micros 1)"
    using assms(1,2) by (auto simp: calculate_snd_period_def Let_def data_rate_div_def packet_period_try_from_def
        checked_div_pos period_def)
  show ?thesis
  proof (cases "0 < ?size \<and> 0 < period")
    case True
    then show ?thesis using d bounds by (simp add: unat_gt_0 word_gt_0 Suc_le_eq)
  next
    case False
    then have "unat ?size * 1000000 < unat ?max"
      using bounds(2) m by (auto simp: word_gt_0)
    then show ?thesis using d False by simp
  qed
qed

text \<open>One gigabit per second and packets of 1316 bytes: ten microseconds.\<close>

theorem send_period_bandwidth_witness:
  "\<exists>d. calculate_snd_period (scc_new LB_Unlimited) 100 131600 = Ok d \<and> 1 \<le> as_micros d
    \<and> (as_micros d = 1 \<or> as_micros d * 125000000 \<le> 1316 * 1000000)
    \<and> 1316 * 1000000 < (as_micros d + 1) * 125000000"
  using send_period_bandwidth [of 100 "scc_new LB_Unlimited" 131600]
  by (simp add: calculate_max_data_rate_def scc_new_def GIGABIT_def)

end
