(* ===== verification/Connection_Status.thy ===== *)
theory Connection_Status
  imports Settings Reachability
begin

text \<open>
  The life cycle of a connection (\<open>connection/status.rs\<close>): one status each for the connection, its
  sender and its receiver. Logging is not modelled.
\<close>

section \<open>The status\<close>

datatype Status =
    St_Open duration \<comment> \<open>flush timeout\<close>
  | St_Shutdown instant \<comment> \<open>flush deadline\<close>
  | St_Drain instant \<comment> \<open>drain deadline\<close>
  | St_Closed

record ConnectionStatus =
  st_connection :: Status
  st_sender :: Status
  st_receiver :: Status

definition status_new :: "duration \<Rightarrow> ConnectionStatus" where
  "status_new flush_timeout =
     \<lparr>st_connection = St_Open flush_timeout, st_sender = St_Open flush_timeout, st_receiver = St_Open flush_timeout\<rparr>"

definition status_is_closed :: "ConnectionStatus \<Rightarrow> bool" where
  "status_is_closed self \<longleftrightarrow> st_connection self = St_Closed"

definition status_is_open :: "ConnectionStatus \<Rightarrow> bool" where
  "status_is_open self \<longleftrightarrow> \<not> status_is_closed self"

definition should_drain_send_buffer :: "ConnectionStatus \<Rightarrow> bool" where
  "should_drain_send_buffer self =
     (case st_sender self of St_Shutdown _ \<Rightarrow> True | St_Drain _ \<Rightarrow> True | _ \<Rightarrow> False)"

definition on_data_stream_closed :: "ConnectionStatus \<Rightarrow> instant \<Rightarrow> ConnectionStatus" where
  "on_data_stream_closed self now =
     (case st_sender self of
        St_Open timeout \<Rightarrow> self\<lparr>st_sender := St_Shutdown (now + int timeout)\<rparr> | _ \<Rightarrow> self)"

definition on_socket_closed :: "ConnectionStatus \<Rightarrow> instant \<Rightarrow> ConnectionStatus" where
  "on_socket_closed self now =
     (case st_receiver self of
        St_Open timeout \<Rightarrow> self\<lparr>st_receiver := St_Drain (now + int timeout)\<rparr> | _ \<Rightarrow> self)"

definition status_on_peer_idle_timeout :: "ConnectionStatus \<Rightarrow> instant \<Rightarrow> ConnectionStatus" where
  "status_on_peer_idle_timeout self now =
     (case st_receiver self of
        St_Open timeout \<Rightarrow> self\<lparr>st_receiver := St_Drain (now + int timeout)\<rparr> | _ \<Rightarrow> self)"

definition handle_shutdown_packet :: "ConnectionStatus \<Rightarrow> instant \<Rightarrow> ConnectionStatus" where
  "handle_shutdown_packet self now =
     (case st_receiver self of
        St_Open timeout \<Rightarrow> self\<lparr>st_receiver := St_Drain (now + int timeout)\<rparr> | _ \<Rightarrow> self)"

definition check_sender_shutdown ::
  "ConnectionStatus \<Rightarrow> instant \<Rightarrow> bool \<Rightarrow> bool \<Rightarrow> bool \<Rightarrow> bool \<times> ConnectionStatus" where
  "check_sender_shutdown self now send_buffer_flushed receive_buffer_flushed output_empty =
     (let (result, self) =
        (case st_sender self of
           St_Shutdown timeout \<Rightarrow>
             if send_buffer_flushed \<and> output_empty \<or> now > timeout
             then (True, self\<lparr>st_sender := St_Drain timeout\<rparr>) else (False, self)
         | St_Drain timeout \<Rightarrow>
             if send_buffer_flushed \<and> output_empty \<or> now > timeout
             then (False, self\<lparr>st_sender := St_Closed\<rparr>) else (False, self)
         | _ \<Rightarrow> (False, self)) in
      (result,
       if st_sender self = St_Closed \<and> receive_buffer_flushed \<and> output_empty
       then self\<lparr>st_connection := St_Closed\<rparr> else self))"

definition check_receive_close_timeout ::
  "ConnectionStatus \<Rightarrow> instant \<Rightarrow> bool \<Rightarrow> bool \<times> ConnectionStatus" where
  "check_receive_close_timeout self now receive_buffer_flushed =
     (case st_receiver self of
        St_Shutdown timeout \<Rightarrow>
          if receive_buffer_flushed then (False, self\<lparr>st_receiver := St_Closed, st_connection := St_Closed\<rparr>)
          else if now > timeout then (True, self\<lparr>st_receiver := St_Closed, st_connection := St_Closed\<rparr>)
          else (False, self)
      | St_Drain timeout \<Rightarrow>
          if receive_buffer_flushed then (False, self\<lparr>st_receiver := St_Closed, st_connection := St_Closed\<rparr>)
          else if now > timeout then (True, self\<lparr>st_receiver := St_Closed, st_connection := St_Closed\<rparr>)
          else (False, self)
      | _ \<Rightarrow> (False, self))"

section \<open>The life cycle\<close>

text \<open>A status only moves forward; the rank of a status is its place in the life cycle.\<close>

fun status_rank :: "Status \<Rightarrow> nat" where
  "status_rank (St_Open _) = 0"
| "status_rank (St_Shutdown _) = 1"
| "status_rank (St_Drain _) = 2"
| "status_rank St_Closed = 3"

definition status_le :: "ConnectionStatus \<Rightarrow> ConnectionStatus \<Rightarrow> bool" where
  "status_le s t \<longleftrightarrow> status_rank (st_connection s) \<le> status_rank (st_connection t)
     \<and> status_rank (st_sender s) \<le> status_rank (st_sender t)
     \<and> status_rank (st_receiver s) \<le> status_rank (st_receiver t)"

inductive status_step :: "ConnectionStatus \<Rightarrow> ConnectionStatus \<Rightarrow> bool" where
  ss_data_closed: "status_step s (on_data_stream_closed s now)"
| ss_socket_closed: "status_step s (on_socket_closed s now)"
| ss_peer_idle: "status_step s (status_on_peer_idle_timeout s now)"
| ss_shutdown: "status_step s (handle_shutdown_packet s now)"
| ss_sender: "status_step s (snd (check_sender_shutdown s now f g e))"
| ss_receiver: "status_step s (snd (check_receive_close_timeout s now f))"

lemmas status_defs = on_data_stream_closed_def on_socket_closed_def status_on_peer_idle_timeout_def
  handle_shutdown_packet_def check_sender_shutdown_def check_receive_close_timeout_def

lemma status_rank_le: "status_rank s \<le> 3"
  by (cases s) simp_all

lemma status_step_forward: "status_step s t \<Longrightarrow> status_le s t"
  by (induction rule: status_step.induct)
    (auto simp: status_defs status_le_def status_rank_le Let_def split: Status.splits)

text \<open>The connection is closed only when its sender or its receiver is.\<close>

definition status_inv :: "ConnectionStatus \<Rightarrow> bool" where
  "status_inv s \<longleftrightarrow> (st_connection s = St_Closed \<longrightarrow> st_sender s = St_Closed \<or> st_receiver s = St_Closed)
     \<and> (st_receiver s = St_Closed \<longrightarrow> st_connection s = St_Closed)
     \<and> (\<forall>t. st_connection s \<noteq> St_Shutdown t \<and> st_connection s \<noteq> St_Drain t)"

lemma status_step_inv: "status_step s t \<Longrightarrow> status_inv s \<Longrightarrow> status_inv t"
  by (induction rule: status_step.induct) (auto simp: status_defs status_inv_def Let_def split: Status.splits)

definition status_init :: "ConnectionStatus \<Rightarrow> bool" where
  "status_init s \<longleftrightarrow> (\<exists>timeout. s = status_new timeout)"

interpretation status: invariant_system status_init status_step status_inv
proof unfold_locales
  show "status_init s \<Longrightarrow> status_inv s" for s by (auto simp: status_init_def status_new_def status_inv_def)
qed (rule status_step_inv)

section \<open>Properties\<close>

text \<open>C27: The life cycle of a connection. Whatever events occur, every status only moves forward from open
  over shutdown and drain to closed; the connection is closed as soon as its receiver is, and never
  without its sender or its receiver being closed.\<close>

theorem connection_life_cycle:
  assumes "status_init s0" "status_step\<^sup>*\<^sup>* s0 s" "status_step s t"
  shows "status_le s t \<and> (status_is_closed s \<longrightarrow> status_is_closed t)
    \<and> (st_receiver t = St_Closed \<longrightarrow> status_is_closed t)
    \<and> (status_is_closed t \<longrightarrow> st_sender t = St_Closed \<or> st_receiver t = St_Closed)"
proof -
  have le: "status_le s t" using assms(3) by (rule status_step_forward)
  have inv: "status_inv t"
    using status.reachable_inv [OF assms(1,2)] assms(3) by (rule status_step_inv [rotated])
  have "st_connection t = St_Closed" if "st_connection s = St_Closed"
    using le that by (cases "st_connection t") (auto simp: status_le_def)
  then show ?thesis using le inv by (auto simp: status_inv_def status_is_closed_def)
qed

theorem connection_life_cycle_witness:
  "status_le (status_new 5) (on_data_stream_closed (status_new 5) 7)
    \<and> \<not> status_is_closed (on_data_stream_closed (status_new 5) 7)"
proof -
  have "status_le (status_new 5) (on_data_stream_closed (status_new 5) 7)
    \<and> (status_is_closed (on_data_stream_closed (status_new 5) 7) \<longrightarrow>
       st_sender (on_data_stream_closed (status_new 5) 7) = St_Closed
       \<or> st_receiver (on_data_stream_closed (status_new 5) 7) = St_Closed)"
    using connection_life_cycle [of "status_new 5" "status_new 5" "on_data_stream_closed (status_new 5) 7"]
    by (auto simp: status_init_def ss_data_closed)
  then show ?thesis by (auto simp: on_data_stream_closed_def status_new_def)
qed

end
