(* ===== verification/Socket_Output.thy ===== *)
theory Socket_Output
  imports Settings
begin

text \<open>
  What a connection produces besides the messages it releases: the queue of outgoing packets
  (\<open>protocol/output/mod.rs\<close>) and its counters (\<open>statistics/mod.rs\<close>).

  Also the type of a computation of the connection: it can panic, and it can contain a loop, so that
  its value is \<open>None\<close> when a loop does not end.
\<close>

section \<open>Computations\<close>

type_synonym 'a run = "'a may_panic option"

abbreviation ret :: "'a \<Rightarrow> 'a run" where
  "ret a \<equiv> Some (Ok a)"

definition run_bind :: "'a run \<Rightarrow> ('a \<Rightarrow> 'b run) \<Rightarrow> 'b run" where
  "run_bind r f =
     (case r of None \<Rightarrow> None | Some (Ok a) \<Rightarrow> f a | Some (Err e) \<Rightarrow> Some (Err e) | Some Panic \<Rightarrow> Some Panic)"

lemma run_bind_simps [simp]:
  "run_bind (ret a) f = f a" "run_bind None f = None" "run_bind (Some Panic) f = Some Panic"
  by (simp_all add: run_bind_def)

lemma run_bind_ret_iff: "run_bind r f = ret b \<longleftrightarrow> (\<exists>a. r = ret a \<and> f a = ret b)"
  by (auto simp: run_bind_def split: option.splits outcome.splits)

fun run_fold :: "('a \<Rightarrow> 's \<Rightarrow> 's run) \<Rightarrow> 'a list \<Rightarrow> 's \<Rightarrow> 's run" where
  "run_fold f [] s = ret s"
| "run_fold f (x # xs) s = run_bind (f x s) (run_fold f xs)"

lemma run_fold_inv:
  assumes "\<And>x s. x \<in> set xs \<Longrightarrow> P s \<Longrightarrow> \<exists>s'. f x s = ret s' \<and> P s'" "P s"
  shows "\<exists>s'. run_fold f xs s = ret s' \<and> P s'"
  using assms
proof (induction xs arbitrary: s)
  case (Cons x xs)
  obtain s1 where "f x s = ret s1" "P s1" using Cons.prems by force
  then show ?case using Cons.IH [of s1] Cons.prems(1) by auto
qed simp

section \<open>Counters\<close>

record SocketStatistics =
  stat_elapsed_time :: duration
  stat_tx_all_packets :: u64
  stat_rx_all_packets :: u64
  stat_tx_all_bytes :: u64
  stat_rx_all_bytes :: u64
  stat_tx_encrypted_data :: u64
  stat_rx_decrypted_data :: u64
  stat_rx_clock_adjustments :: u64
  stat_rx_clock_drift_mean :: "64 word"
  stat_rx_clock_drift_stddev :: "64 word"
  stat_rx_ack2_errors :: "64 word"
  stat_tx_data :: u64
  stat_rx_data :: u64
  stat_tx_unique_data :: u64
  stat_rx_unique_data :: u64
  stat_tx_loss_data :: u64
  stat_rx_loss_data :: u64
  stat_tx_retransmit_data :: u64
  stat_rx_retransmit_data :: u64
  stat_tx_ack :: u64
  stat_rx_ack :: u64
  stat_tx_light_ack :: u64
  stat_rx_light_ack :: u64
  stat_tx_nak :: u64
  stat_rx_nak :: u64
  stat_tx_ack2 :: u64
  stat_rx_ack2 :: u64
  stat_tx_buffer_time :: duration
  stat_tx_dropped_data :: u64
  stat_rx_dropped_data :: u64
  stat_rx_decrypt_errors :: u64
  stat_tx_bytes :: u64
  stat_rx_bytes :: u64
  stat_tx_unique_bytes :: u64
  stat_rx_unique_bytes :: u64
  stat_rx_loss_bytes :: u64
  stat_tx_retransmit_bytes :: u64
  stat_tx_dropped_bytes :: u64
  stat_rx_dropped_bytes :: u64
  stat_rx_decrypt_error_bytes :: u64
  stat_tx_snd_period :: duration
  stat_tx_flow_window :: u64
  stat_tx_unacknowledged_data :: u64
  stat_tx_average_rtt :: duration
  stat_rx_average_rtt :: duration
  stat_tx_bandwidth :: u64
  stat_rx_bandwidth :: u64
  stat_tx_buffer_available_bytes :: u64
  stat_rx_buffer_available_bytes :: u64
  stat_tx_buffered_data :: u64
  stat_tx_buffered_bytes :: u64
  stat_tx_buffered_time :: duration
  stat_rx_acknowledged_data :: u64
  stat_rx_acknowledged_bytes :: u64
  stat_rx_acknowledged_time :: duration
  stat_rx_belated_data :: u64
  stat_rx_belated_time :: duration

definition statistics_new :: SocketStatistics where
  "statistics_new = \<lparr>stat_elapsed_time = 0, stat_tx_all_packets = 0, stat_rx_all_packets = 0,
     stat_tx_all_bytes = 0, stat_rx_all_bytes = 0, stat_tx_encrypted_data = 0, stat_rx_decrypted_data = 0,
     stat_rx_clock_adjustments = 0, stat_rx_clock_drift_mean = 0, stat_rx_clock_drift_stddev = 0,
     stat_rx_ack2_errors = 0, stat_tx_data = 0, stat_rx_data = 0, stat_tx_unique_data = 0,
     stat_rx_unique_data = 0, stat_tx_loss_data = 0, stat_rx_loss_data = 0, stat_tx_retransmit_data = 0,
     stat_rx_retransmit_data = 0, stat_tx_ack = 0, stat_rx_ack = 0, stat_tx_light_ack = 0,
     stat_rx_light_ack = 0, stat_tx_nak = 0, stat_rx_nak = 0, stat_tx_ack2 = 0, stat_rx_ack2 = 0,
     stat_tx_buffer_time = 0, stat_tx_dropped_data = 0, stat_rx_dropped_data = 0, stat_rx_decrypt_errors = 0,
     stat_tx_bytes = 0, stat_rx_bytes = 0, stat_tx_unique_bytes = 0, stat_rx_unique_bytes = 0,
     stat_rx_loss_bytes = 0, stat_tx_retransmit_bytes = 0, stat_tx_dropped_bytes = 0,
     stat_rx_dropped_bytes = 0, stat_rx_decrypt_error_bytes = 0, stat_tx_snd_period = 0,
     stat_tx_flow_window = 0, stat_tx_unacknowledged_data = 0, stat_tx_average_rtt = 0,
     stat_rx_average_rtt = 0, stat_tx_bandwidth = 0, stat_rx_bandwidth = 0, stat_tx_buffer_available_bytes = 0,
     stat_rx_buffer_available_bytes = 0, stat_tx_buffered_data = 0, stat_tx_buffered_bytes = 0,
     stat_tx_buffered_time = 0, stat_rx_acknowledged_data = 0, stat_rx_acknowledged_bytes = 0,
     stat_rx_acknowledged_time = 0, stat_rx_belated_data = 0, stat_rx_belated_time = 0\<rparr>"

section \<open>Outgoing packets\<close>

record Output =
  out_remote_sockid :: SocketId
  out_time_base :: TimeBase
  out_packets :: "Packet list"
  out_keepalive :: Timer

definition output_new :: "ConnectionSettings \<Rightarrow> Output" where
  "output_new settings =
     \<lparr>out_remote_sockid = cs_remote_sockid settings, out_time_base = tb_new (cs_socket_start_time settings),
      out_packets = [], out_keepalive = timer_new (cs_socket_start_time settings) (duration_from_millis 1000)\<rparr>"

definition output_is_empty :: "Output \<Rightarrow> bool" where
  "output_is_empty self \<longleftrightarrow> out_packets self = []"

definition send_control :: "Output \<Rightarrow> instant \<Rightarrow> ControlTypes \<Rightarrow> Output" where
  "send_control self now control =
     self\<lparr>out_keepalive := timer_reset (out_keepalive self) now,
          out_packets := out_packets self @ [Pkt_Control
            \<lparr>cp_timestamp = tb_timestamp_from (out_time_base self) now,
             cp_dest_sockid = out_remote_sockid self, cp_control_type = control\<rparr>]\<rparr>"

definition send_data :: "Output \<Rightarrow> instant \<Rightarrow> DataPacket \<Rightarrow> Output" where
  "send_data self now data =
     self\<lparr>out_keepalive := timer_reset (out_keepalive self) now,
          out_packets := out_packets self @ [Pkt_Data data]\<rparr>"

definition ensure_alive :: "Output \<Rightarrow> instant \<Rightarrow> Output" where
  "ensure_alive self now =
     (let (expired, keepalive) = timer_check_expired (out_keepalive self) now;
          self = self\<lparr>out_keepalive := keepalive\<rparr> in
      if expired \<noteq> None then send_control self now Ctl_KeepAlive else self)"

definition pop_packet :: "Output \<Rightarrow> Packet option \<times> Output" where
  "pop_packet self =
     (case out_packets self of
        [] \<Rightarrow> (None, self) | p # ps \<Rightarrow> (Some p, self\<lparr>out_packets := ps\<rparr>))"

end
