(* ===== verification/Receiver.thy ===== *)
theory Receiver
  imports Arq Socket_Output
begin

text \<open>
  The receiving half of a connection (\<open>protocol/receiver/mod.rs\<close>): decryption followed by the repeat
  request algorithm, and the packets it sends back. \<open>ReceiverContext\<close> is the bundle of mutable
  references that the code passes to the handlers; a handler returns the bundle as it leaves it.

  The ciphers, the online statistics and the bounded deque of third-party crates are
  the operations of \<open>RxOps\<close>.
\<close>

record 's RxOps =
  rxo_crypto :: Crypto
  rxo_stats :: "'s OnlineStatsOps"
  rxo_arq :: ArqOps

record 's Receiver =
  rv_arq :: "'s AutomaticRepeatRequestAlgorithm"
  rv_decryption :: Decryption

definition receiver_new :: "ConnectionSettings \<Rightarrow> 's Receiver" where
  "receiver_new settings =
     \<lparr>rv_arq = arq_new (cs_socket_start_time settings) (cs_recv_tsbpd_latency settings)
        (cs_too_late_packet_drop settings) (cs_init_seq_num settings) (cs_recv_buffer_size settings),
      rv_decryption = decryption_new (cs_cipher settings)\<rparr>"

definition receiver_is_flushed :: "'s Receiver \<Rightarrow> bool" where
  "receiver_is_flushed self \<longleftrightarrow> arq_is_flushed (rv_arq self)"

definition receiver_rx_acknowledged_time :: "'s Receiver \<Rightarrow> duration" where
  "receiver_rx_acknowledged_time self = arq_rx_acknowledged_time (rv_arq self)"

record 's ReceiverContext =
  rc_timers :: Timers
  rc_output :: Output
  rc_stats :: SocketStatistics
  rc_receiver :: "'s Receiver"

definition rc_with_arq :: "'s AutomaticRepeatRequestAlgorithm \<Rightarrow> 's ReceiverContext \<Rightarrow> 's ReceiverContext" where
  "rc_with_arq arq self = self\<lparr>rc_receiver := (rc_receiver self)\<lparr>rv_arq := arq\<rparr>\<rparr>"

definition rc_send_control :: "'s ReceiverContext \<Rightarrow> instant \<Rightarrow> ControlTypes \<Rightarrow> 's ReceiverContext" where
  "rc_send_control self now control = self\<lparr>rc_output := send_control (rc_output self) now control\<rparr>"

definition rx_synchronize_clock ::
  "'s RxOps \<Rightarrow> 's ReceiverContext \<Rightarrow> instant \<Rightarrow> TimeStamp \<Rightarrow> 's ReceiverContext" where
  "rx_synchronize_clock ops self now ts =
     (let (adjustment, arq) = arq_synchronize_clock (rxo_stats ops) (rv_arq (rc_receiver self)) now ts;
          self = rc_with_arq arq self in
      if adjustment \<noteq> None
      then self\<lparr>rc_stats := (rc_stats self)\<lparr>stat_rx_clock_adjustments := stat_rx_clock_adjustments (rc_stats self) + 1\<rparr>\<rparr>
      else self)"

text \<open>The first half of \<open>handle_data_packet\<close>: the packet is decrypted and handed to the algorithm.\<close>

definition rx_accept_data ::
  "'s RxOps \<Rightarrow> 's ReceiverContext \<Rightarrow> instant \<Rightarrow> DataPacket
   \<Rightarrow> (DataPacketAction, DataPacketError) outcome \<times> 's ReceiverContext" where
  "rx_accept_data ops self now data =
     (case decryption_decrypt (rxo_crypto ops) (rv_decryption (rc_receiver self)) data of
        Ok (decrypted_bytes, data) \<Rightarrow>
          let self = (if decrypted_bytes > 0
                      then self\<lparr>rc_stats := (rc_stats self)\<lparr>stat_rx_decrypted_data :=
                             stat_rx_decrypted_data (rc_stats self) + 1\<rparr>\<rparr>
                      else self);
              (r, arq) = arq_handle_data_packet (rxo_arq ops) (rv_arq (rc_receiver self)) now data in
          (r, rc_with_arq arq self)
      | Err e \<Rightarrow> (Err (DPE_DecryptionError e), self)
      | Panic \<Rightarrow> (Panic, self))"

definition rx_count_action :: "SocketStatistics \<Rightarrow> u64 \<Rightarrow> DataPacketAction \<Rightarrow> SocketStatistics" where
  "rx_count_action st bytes action =
     (if is_recovered action then st\<lparr>stat_rx_retransmit_data := stat_rx_retransmit_data st + 1\<rparr>
      else st\<lparr>stat_rx_unique_data := stat_rx_unique_data st + 1,
              stat_rx_unique_bytes := stat_rx_unique_bytes st + bytes\<rparr>)"

definition rx_count_error :: "SocketStatistics \<Rightarrow> u64 \<Rightarrow> DataPacketError \<Rightarrow> SocketStatistics" where
  "rx_count_error st bytes e =
     (case e of
        DPE_DecryptionError _ \<Rightarrow>
          st\<lparr>stat_rx_decrypt_errors := stat_rx_decrypt_errors st + 1,
             stat_rx_decrypt_error_bytes := stat_rx_decrypt_error_bytes st + bytes\<rparr>
      | DiscardedDuplicate _ \<Rightarrow> st
      | _ \<Rightarrow> st\<lparr>stat_rx_dropped_data := stat_rx_dropped_data st + 1,
                stat_rx_dropped_bytes := stat_rx_dropped_bytes st + bytes\<rparr>)"

definition rx_handle_data_packet ::
  "'s RxOps \<Rightarrow> 's ReceiverContext \<Rightarrow> instant \<Rightarrow> DataPacket \<Rightarrow> 's ReceiverContext run" where
  "rx_handle_data_packet ops self now data =
     (let bytes = of_nat (data_wire_size data);
          self = self\<lparr>rc_stats := (rc_stats self)\<lparr>stat_rx_data := stat_rx_data (rc_stats self) + 1,
                   stat_rx_bytes := stat_rx_bytes (rc_stats self) + bytes\<rparr>\<rparr> in
      case rx_accept_data ops self now data of
        (Ok action, self) \<Rightarrow>
          let self = self\<lparr>rc_stats := rx_count_action (rc_stats self) bytes action\<rparr> in
          ret (case action of
                 ReceivedWithLoss loss_list \<Rightarrow> rc_send_control self now (Ctl_Nak loss_list)
               | ReceivedWithLightAck light_ack _ \<Rightarrow> rc_send_control self now (Ctl_Ack (Ack_Lite light_ack))
               | _ \<Rightarrow> self)
      | (Err e, self) \<Rightarrow> ret (self\<lparr>rc_stats := rx_count_error (rc_stats self) bytes e\<rparr>)
      | (Panic, self) \<Rightarrow> Some Panic)"

definition rx_handle_ack2_packet ::
  "'s ReceiverContext \<Rightarrow> instant \<Rightarrow> FullAckSeqNumber \<Rightarrow> 's ReceiverContext run" where
  "rx_handle_ack2_packet self now seq_num =
     (let self = self\<lparr>rc_stats := (rc_stats self)\<lparr>stat_rx_ack2 := stat_rx_ack2 (rc_stats self) + 1\<rparr>\<rparr>;
          (rtt, arq) = arq_handle_ack2_packet (rv_arq (rc_receiver self)) now seq_num;
          self = rc_with_arq arq self in
      case rtt of
        Some rtt \<Rightarrow>
          run_bind (Some (update_rtt (rc_timers self) rtt)) (\<lambda>timers.
          ret (self\<lparr>rc_timers := timers, rc_stats := (rc_stats self)\<lparr>stat_rx_ack2_errors :=
                 stat_rx_ack2_errors (rc_stats self) + 1\<rparr>\<rparr>))
      | None \<Rightarrow> ret self)"

definition rx_handle_drop_request ::
  "'s ReceiverContext \<Rightarrow> instant \<Rightarrow> SeqNumber \<Rightarrow> SeqNumber \<Rightarrow> 's ReceiverContext run" where
  "rx_handle_drop_request self now start end =
     (let (dropped, arq) = arq_handle_drop_request (rv_arq (rc_receiver self)) start (seq_add end 1);
          self = rc_with_arq arq self in
      run_bind (Some dropped) (\<lambda>dropped.
      ret (if dropped > 0
           then self\<lparr>rc_stats := (rc_stats self)\<lparr>stat_rx_dropped_data :=
                  stat_rx_dropped_data (rc_stats self) + of_nat dropped\<rparr>\<rparr>
           else self)))"

definition rx_handle_key_refresh_request ::
  "'s RxOps \<Rightarrow> 's ReceiverContext \<Rightarrow> instant \<Rightarrow> KeyingMaterialMessage \<Rightarrow> 's ReceiverContext run" where
  "rx_handle_key_refresh_request ops self now keying_material =
     (let (r, decryption) = refresh_key_material (rxo_crypto ops) (rv_decryption (rc_receiver self)) keying_material;
          self = self\<lparr>rc_receiver := (rc_receiver self)\<lparr>rv_decryption := decryption\<rparr>\<rparr> in
      case r of
        Ok (Some response) \<Rightarrow> ret (rc_send_control self now (Ctl_Srt (Srt_KeyRefreshResponse response)))
      | Ok None \<Rightarrow> ret self
      | Err _ \<Rightarrow> ret self
      | Panic \<Rightarrow> Some Panic)"

definition rx_on_full_ack_event :: "'s RxOps \<Rightarrow> 's ReceiverContext \<Rightarrow> instant \<Rightarrow> 's ReceiverContext run" where
  "rx_on_full_ack_event ops self now =
     (let (r, arq) = arq_on_full_ack_event (rxo_arq ops) (rv_arq (rc_receiver self)) now;
          self = rc_with_arq arq self in
      run_bind (Some r) (\<lambda>ack.
      ret (case ack of Some ack \<Rightarrow> rc_send_control self now (Ctl_Ack ack) | None \<Rightarrow> self)))"

definition rx_on_nak_event :: "'s ReceiverContext \<Rightarrow> instant \<Rightarrow> 's ReceiverContext run" where
  "rx_on_nak_event self now =
     (let (r, arq) = arq_on_nak_event (rv_arq (rc_receiver self)) now;
          self = rc_with_arq arq self in
      run_bind (Some r) (\<lambda>losses.
      ret (case losses of Some loss_list \<Rightarrow> rc_send_control self now (Ctl_Nak loss_list) | None \<Rightarrow> self)))"

definition rx_on_close_timeout :: "'s ReceiverContext \<Rightarrow> instant \<Rightarrow> 's ReceiverContext" where
  "rx_on_close_timeout self now = rc_with_arq (arq_clear (rv_arq (rc_receiver self))) self"

end
