(* ===== verification/Sender.thy ===== *)
theory Sender
  imports Send_Delivery Encapsulation Congestion_Control Connection_Status Socket_Output
begin

text \<open>
  The sending half of a connection (\<open>protocol/sender/mod.rs\<close>): messages are split into packets, encrypted
  and put into the send buffer; acknowledgements, loss reports and the send timer work on the buffer.
  \<open>SenderContext\<close> is the bundle of mutable references that the code passes to the handlers.
\<close>

record 'q TxOps =
  txo_crypto :: Crypto
  txo_rto :: "'q RtoOps"

record 'q Sender =
  sn_time_base :: TimeBase
  sn_encapsulation :: Encapsulation
  sn_encryption :: Encryption
  sn_send_buffer :: "'q SendBuffer"
  sn_congestion_control :: SenderCongestionControl

definition sender_new :: "'q TxOps \<Rightarrow> ConnectionSettings \<Rightarrow> 'q Sender" where
  "sender_new ops settings =
     \<lparr>sn_time_base = tb_new (cs_socket_start_time settings), sn_encapsulation = encapsulation_new settings,
      sn_encryption = encryption_new (cs_cipher settings), sn_send_buffer = sb_new (txo_rto ops) settings,
      sn_congestion_control = scc_new (cs_bandwidth settings)\<rparr>"

definition sender_is_flushed :: "'q Sender \<Rightarrow> bool" where
  "sender_is_flushed self \<longleftrightarrow> sb_is_flushed (sn_send_buffer self)"

definition sender_has_packets_to_send :: "'q Sender \<Rightarrow> bool" where
  "sender_has_packets_to_send self \<longleftrightarrow> sb_has_packets_to_send (sn_send_buffer self)"

definition tx_buffered_time :: "'q Sender \<Rightarrow> duration" where
  "tx_buffered_time self = sb_duration (sn_send_buffer self)"

definition tx_buffered_packets :: "'q Sender \<Rightarrow> u64" where
  "tx_buffered_packets self = of_nat (length (sb_buffer (sn_send_buffer self)))"

definition tx_buffered_bytes :: "'q Sender \<Rightarrow> u64" where
  "tx_buffered_bytes self = of_nat (sb_buffer_len_bytes (sn_send_buffer self))"

record 'q SenderContext =
  sc_status :: ConnectionStatus
  sc_timers :: Timers
  sc_output :: Output
  sc_stats :: SocketStatistics
  sc_sender :: "'q Sender"

definition sc_with_buffer :: "'q SendBuffer \<Rightarrow> 'q SenderContext \<Rightarrow> 'q SenderContext" where
  "sc_with_buffer b self = self\<lparr>sc_sender := (sc_sender self)\<lparr>sn_send_buffer := b\<rparr>\<rparr>"

definition sc_send_control :: "'q SenderContext \<Rightarrow> instant \<Rightarrow> ControlTypes \<Rightarrow> 'q SenderContext" where
  "sc_send_control self now control = self\<lparr>sc_output := send_control (sc_output self) now control\<rparr>"

text \<open>The body of the loop of \<open>handle_data\<close> for one packet; \<open>rnd\<close> are the random bytes that a new key would
  be made of. The counts are those of the packets and bytes of the message.\<close>

definition tx_handle_data_packet ::
  "'q TxOps \<Rightarrow> (nat \<Rightarrow> u8 list) \<Rightarrow> instant \<Rightarrow> DataPacket \<Rightarrow> 'q SenderContext \<times> u64 \<times> u64
   \<Rightarrow> ('q SenderContext \<times> u64 \<times> u64) run" where
  "tx_handle_data_packet ops rnd now packet acc =
     (let (self, packets, bytes) = acc in
      run_bind (Some (encryption_encrypt (txo_crypto ops) rnd (sn_encryption (sc_sender self)) packet)) (\<lambda>(r, encryption).
      let self = self\<lparr>sc_sender := (sc_sender self)\<lparr>sn_encryption := encryption\<rparr>\<rparr> in
      case r of
        None \<Rightarrow> ret (self, packets, bytes)
      | Some (bytes_enc, packet, km) \<Rightarrow>
          let packets = packets + 1;
              bytes = bytes + of_nat (length (dp_payload packet));
              self = (if bytes_enc > 0
                      then self\<lparr>sc_stats := (sc_stats self)\<lparr>stat_tx_encrypted_data :=
                             stat_tx_encrypted_data (sc_stats self) + 1\<rparr>\<rparr>
                      else self);
              (pushed, b) = push_data (sn_send_buffer (sc_sender self)) packet;
              self = sc_with_buffer b self;
              self = (case pushed of
                        Err (p_count, b_count) \<Rightarrow>
                          self\<lparr>sc_stats := (sc_stats self)\<lparr>
                            stat_tx_dropped_data := stat_tx_dropped_data (sc_stats self) + p_count,
                            stat_tx_dropped_bytes := stat_tx_dropped_bytes (sc_stats self) + b_count\<rparr>\<rparr>
                      | _ \<Rightarrow> self);
              self = (case km of
                        Some km \<Rightarrow> sc_send_control self now (new_key_refresh_request km)
                      | None \<Rightarrow> self) in
          ret (self, packets, bytes)))"

definition tx_handle_data ::
  "'q TxOps \<Rightarrow> (SeqNumber \<Rightarrow> nat \<Rightarrow> u8 list) \<Rightarrow> 'q SenderContext \<Rightarrow> instant \<Rightarrow> instant \<times> u8 list
   \<Rightarrow> 'q SenderContext run" where
  "tx_handle_data ops rnd self now item =
     (let (time, data) = item;
          ts = tb_timestamp_from (sn_time_base (sc_sender self)) time in
      case encapsulate (sn_encapsulation (sc_sender self)) ts data of
        None \<Rightarrow> None
      | Some (ps, encapsulation) \<Rightarrow>
          let self = self\<lparr>sc_sender := (sc_sender self)\<lparr>sn_encapsulation := encapsulation\<rparr>\<rparr> in
          run_bind (run_fold (\<lambda>p. tx_handle_data_packet ops (rnd (dp_seq_number p)) now p) ps (self, 0, 0))
            (\<lambda>(self, packets, bytes).
             let (snd_period, cc) = on_input (sn_congestion_control (sc_sender self)) now packets bytes;
                 self = self\<lparr>sc_sender := (sc_sender self)\<lparr>sn_congestion_control := cc\<rparr>\<rparr> in
             run_bind (Some snd_period) (\<lambda>snd_period.
             ret (case snd_period of
                    Some p \<Rightarrow> self\<lparr>sc_timers := update_snd_period (sc_timers self) p\<rparr>
                  | None \<Rightarrow> self))))"

definition tx_handle_ack_packet ::
  "'q TxOps \<Rightarrow> 'q SenderContext \<Rightarrow> instant \<Rightarrow> Acknowledgement \<Rightarrow> 'q SenderContext" where
  "tx_handle_ack_packet ops self now ack =
     (let self = self\<lparr>sc_stats := (sc_stats self)\<lparr>stat_rx_ack := stat_rx_ack (sc_stats self) + 1\<rparr>\<rparr>;
          self = (case ack of
                    Ack_Lite _ \<Rightarrow> self\<lparr>sc_stats := (sc_stats self)\<lparr>stat_rx_light_ack :=
                        stat_rx_light_ack (sc_stats self) + 1\<rparr>\<rparr>
                  | _ \<Rightarrow> self);
          (r, b) = update_largest_acked_seq_number (txo_rto ops) (sn_send_buffer (sc_sender self))
            (ack_number ack) (ack_full_ack_seq_number ack) (ack_rtt ack);
          self = sc_with_buffer b self in
      case r of
        Ok action \<Rightarrow>
          (case aa_send_ack2 action of
             Some full_ack \<Rightarrow> sc_send_control self now (Ctl_Ack2 full_ack)
           | None \<Rightarrow> self)
      | _ \<Rightarrow> self)"

definition tx_handle_loss ::
  "instant \<Rightarrow> Loss \<times> SeqNumber \<times> SeqNumber \<Rightarrow> 'q SenderContext \<Rightarrow> 'q SenderContext run" where
  "tx_handle_loss now item self =
     (let (loss, start, end) = item in
      case loss of
        Loss_Dropped \<Rightarrow>
          let self = self\<lparr>sc_stats := (sc_stats self)\<lparr>stat_tx_dropped_data := stat_tx_dropped_data (sc_stats self) + 1\<rparr>\<rparr> in
          run_bind (Some (new_drop_request (msg_new_truncate 0) start end)) (\<lambda>control.
          ret (sc_send_control self now control))
      | _ \<Rightarrow> ret (self\<lparr>sc_stats := (sc_stats self)\<lparr>stat_tx_loss_data := stat_tx_loss_data (sc_stats self) + 1\<rparr>\<rparr>))"

definition tx_handle_nak_packet ::
  "'q SenderContext \<Rightarrow> instant \<Rightarrow> CompressedLossList \<Rightarrow> 'q SenderContext run" where
  "tx_handle_nak_packet self now nak =
     (let self = self\<lparr>sc_stats := (sc_stats self)\<lparr>stat_rx_nak := stat_rx_nak (sc_stats self) + 1\<rparr>\<rparr> in
      run_bind (Some (add_to_loss_list (sn_send_buffer (sc_sender self)) nak)) (\<lambda>(losses, b).
      run_fold (tx_handle_loss now) losses (sc_with_buffer b self)))"

definition tx_handle_key_refresh_response ::
  "'q SenderContext \<Rightarrow> KeyingMaterialMessage \<Rightarrow> 'q SenderContext" where
  "tx_handle_key_refresh_response self keying_material =
     self\<lparr>sc_sender := (sc_sender self)\<lparr>sn_encryption :=
       snd (handle_key_refresh_response (sn_encryption (sc_sender self)) keying_material)\<rparr>\<rparr>"

fun tx_action :: "instant \<Rightarrow> SenderAction \<Rightarrow> 'q SenderContext \<Rightarrow> 'q SenderContext" where
  "tx_action now (SA_Send d) self =
     self\<lparr>sc_stats := (sc_stats self)\<lparr>stat_tx_unique_data := stat_tx_unique_data (sc_stats self) + 1\<rparr>,
          sc_output := send_data (sc_output self) now d\<rparr>"
| "tx_action now (SA_RetransmitNak d) self =
     self\<lparr>sc_stats := (sc_stats self)\<lparr>stat_tx_retransmit_data := stat_tx_retransmit_data (sc_stats self) + 1\<rparr>,
          sc_output := send_data (sc_output self) now d\<rparr>"
| "tx_action now (SA_RetransmitRto d) self =
     self\<lparr>sc_stats := (sc_stats self)\<lparr>stat_tx_retransmit_data := stat_tx_retransmit_data (sc_stats self) + 1\<rparr>,
          sc_output := send_data (sc_output self) now d\<rparr>"
| "tx_action now (SA_Drop _ _) self = self"
| "tx_action now SA_WaitForInput self = self"
| "tx_action now (SA_WaitForAck _ _) self = self"

text \<open>The actions do not touch the send buffer, so that they can be applied after all of them have been
  chosen; the list ends with the action at which the loop breaks.\<close>

definition tx_on_snd_event ::
  "'q TxOps \<Rightarrow> 'q SenderContext \<Rightarrow> instant \<Rightarrow> u32 \<Rightarrow> 'q SenderContext run" where
  "tx_on_snd_event ops self now elapsed_periods =
     (let ts_now = tb_timestamp_from (sn_time_base (sc_sender self)) now;
          actions = next_snd_actions (sn_send_buffer (sc_sender self)) ts_now elapsed_periods
            (should_drain_send_buffer (sc_status self)) in
      case snd_actions (txo_rto ops) actions of
        None \<Rightarrow> None
      | Some (r, it) \<Rightarrow>
          run_bind (Some r) (\<lambda>actions.
          ret (fold (tx_action now) actions (sc_with_buffer (sai_buffer it) self))))"

end
