(* ===== verification/Connection.thy ===== *)
theory Connection
  imports Sender Receiver
begin

text \<open>
  A connection (\<open>connection/mod.rs\<close>): the state machine that takes an input (data of the application, a
  packet from the network, a timer) and answers with one action, together with the answer to repeated
  handshakes (\<open>protocol/handshake/mod.rs\<close>). Logging is not modelled.
\<close>

section \<open>The state\<close>

datatype Handshake =
    HS_Connector
  | HS_Listener ControlTypes
  | HS_Rendezvous "ControlTypes option"

definition handle_handshake :: "Handshake \<Rightarrow> HandshakeControlInfo \<Rightarrow> ControlTypes option" where
  "handle_handshake self handshake =
     (case self of
        HS_Rendezvous control \<Rightarrow> if hc_shake_type handshake = Conclusion then control else None
      | HS_Listener control \<Rightarrow> Some control
      | HS_Connector \<Rightarrow> None)"

record Connection =
  cn_settings :: ConnectionSettings
  cn_handshake :: Handshake

record ('s, 'q) DuplexConnection =
  dc_settings :: ConnectionSettings
  dc_timers :: Timers
  dc_handshake :: Handshake
  dc_output :: Output
  dc_sender :: "'q Sender"
  dc_receiver :: "'s Receiver"
  dc_stats :: SocketStatistics
  dc_status :: ConnectionStatus

datatype Action =
    ReleaseData instant "u8 list"
  | SendPacket Packet SocketAddr
  | UpdateStatistics SocketStatistics
  | WaitForData duration
  | Close

text \<open>An \<open>io::Error\<close> has a kind and, where the code creates it, the error it wraps.\<close>

datatype ErrorKind = ConnectionReset | OtherKind

datatype IoError = IoError (io_kind: ErrorKind) (io_source: "PacketParseError option")

datatype ReceivePacketError = RPE_Parse PacketParseError | RPE_Io IoError

datatype Input =
    In_Data "(instant \<times> u8 list) option"
  | In_Packet "ReceivePacketError + Packet \<times> SocketAddr"
  | In_DataReleased
  | In_PacketSent
  | In_StatisticsUpdated
  | In_Timer

record ('s, 'q) ConnOps =
  co_rx :: "'s RxOps"
  co_tx :: "'q TxOps"

definition duplex_new :: "('s, 'q) ConnOps \<Rightarrow> Connection \<Rightarrow> ('s, 'q) DuplexConnection may_panic" where
  "duplex_new ops connection =
     (let settings = cn_settings connection in
      bind_outcome (timers_new (cs_socket_start_time settings) (cs_statistics_interval settings)
          (cs_peer_idle_timeout settings)) (\<lambda>timers.
      Ok \<lparr>dc_settings = settings, dc_timers = timers, dc_handshake = cn_handshake connection,
          dc_output = output_new settings, dc_sender = sender_new (co_tx ops) settings,
          dc_receiver = receiver_new settings, dc_stats = statistics_new,
          dc_status = status_new (cs_send_tsbpd_latency settings * 2)\<rparr>))"

section \<open>The contexts of sender and receiver\<close>

definition sender_context :: "('s, 'q) DuplexConnection \<Rightarrow> 'q SenderContext" where
  "sender_context self = \<lparr>sc_status = dc_status self, sc_timers = dc_timers self, sc_output = dc_output self,
     sc_stats = dc_stats self, sc_sender = dc_sender self\<rparr>"

definition with_sender :: "('s, 'q) DuplexConnection \<Rightarrow> 'q SenderContext \<Rightarrow> ('s, 'q) DuplexConnection" where
  "with_sender self c = self\<lparr>dc_status := sc_status c, dc_timers := sc_timers c, dc_output := sc_output c,
     dc_stats := sc_stats c, dc_sender := sc_sender c\<rparr>"

definition receiver_context :: "('s, 'q) DuplexConnection \<Rightarrow> 's ReceiverContext" where
  "receiver_context self = \<lparr>rc_timers = dc_timers self, rc_output = dc_output self, rc_stats = dc_stats self,
     rc_receiver = dc_receiver self\<rparr>"

definition with_receiver :: "('s, 'q) DuplexConnection \<Rightarrow> 's ReceiverContext \<Rightarrow> ('s, 'q) DuplexConnection" where
  "with_receiver self c = self\<lparr>dc_timers := rc_timers c, dc_output := rc_output c, dc_stats := rc_stats c,
     dc_receiver := rc_receiver c\<rparr>"

definition run_sender ::
  "('s, 'q) DuplexConnection \<Rightarrow> ('q SenderContext \<Rightarrow> 'q SenderContext run) \<Rightarrow> ('s, 'q) DuplexConnection run" where
  "run_sender self f = run_bind (f (sender_context self)) (\<lambda>c. ret (with_sender self c))"

definition run_receiver ::
  "('s, 'q) DuplexConnection \<Rightarrow> ('s ReceiverContext \<Rightarrow> 's ReceiverContext run) \<Rightarrow> ('s, 'q) DuplexConnection run" where
  "run_receiver self f = run_bind (f (receiver_context self)) (\<lambda>c. ret (with_receiver self c))"

definition dc_send_control :: "('s, 'q) DuplexConnection \<Rightarrow> instant \<Rightarrow> ControlTypes \<Rightarrow> ('s, 'q) DuplexConnection" where
  "dc_send_control self now control = self\<lparr>dc_output := send_control (dc_output self) now control\<rparr>"

definition dc_is_open :: "('s, 'q) DuplexConnection \<Rightarrow> bool" where
  "dc_is_open self \<longleftrightarrow> status_is_open (dc_status self)"

section \<open>Packets and data from outside\<close>

definition handle_data_stream_close :: "('s, 'q) DuplexConnection \<Rightarrow> instant \<Rightarrow> ('s, 'q) DuplexConnection" where
  "handle_data_stream_close self now = self\<lparr>dc_status := on_data_stream_closed (dc_status self) now\<rparr>"

definition handle_socket_close :: "('s, 'q) DuplexConnection \<Rightarrow> instant \<Rightarrow> ('s, 'q) DuplexConnection" where
  "handle_socket_close self now = self\<lparr>dc_status := on_socket_closed (dc_status self) now\<rparr>"

definition handle_data_input ::
  "('s, 'q) ConnOps \<Rightarrow> (SeqNumber \<Rightarrow> nat \<Rightarrow> u8 list) \<Rightarrow> ('s, 'q) DuplexConnection \<Rightarrow> instant
   \<Rightarrow> (instant \<times> u8 list) option \<Rightarrow> ('s, 'q) DuplexConnection run" where
  "handle_data_input ops rnd self now data =
     (case data of
        Some item \<Rightarrow> run_sender self (\<lambda>c. tx_handle_data (co_tx ops) rnd c now item)
      | None \<Rightarrow> ret (handle_data_stream_close self now))"

definition handle_handshake_packet ::
  "('s, 'q) DuplexConnection \<Rightarrow> instant \<Rightarrow> HandshakeControlInfo \<Rightarrow> ('s, 'q) DuplexConnection" where
  "handle_handshake_packet self now handshake =
     (case handle_handshake (dc_handshake self) handshake of
        Some control \<Rightarrow> dc_send_control self now control
      | None \<Rightarrow> self)"

definition handle_srt_control_packet ::
  "('s, 'q) ConnOps \<Rightarrow> ('s, 'q) DuplexConnection \<Rightarrow> instant \<Rightarrow> SrtControlPacket \<Rightarrow> ('s, 'q) DuplexConnection run" where
  "handle_srt_control_packet ops self now pack =
     (case pack of
        Srt_HandshakeRequest _ \<Rightarrow> ret self
      | Srt_HandshakeResponse _ \<Rightarrow> ret self
      | Srt_KeyRefreshRequest keying_material \<Rightarrow>
          run_receiver self (\<lambda>c. rx_handle_key_refresh_request (co_rx ops) c now keying_material)
      | Srt_KeyRefreshResponse keying_material \<Rightarrow>
          run_sender self (\<lambda>c. ret (tx_handle_key_refresh_response c keying_material))
      | _ \<Rightarrow> Some Panic)"

definition handle_control_packet ::
  "('s, 'q) ConnOps \<Rightarrow> ('s, 'q) DuplexConnection \<Rightarrow> instant \<Rightarrow> ControlPacket \<Rightarrow> ('s, 'q) DuplexConnection run" where
  "handle_control_packet ops self now control =
     run_bind (run_receiver self (\<lambda>c. ret (rx_synchronize_clock (co_rx ops) c now (cp_timestamp control)))) (\<lambda>self.
     case cp_control_type control of
       Ctl_Ack ack \<Rightarrow> run_sender self (\<lambda>c. ret (tx_handle_ack_packet (co_tx ops) c now ack))
     | Ctl_DropRequest _ start end \<Rightarrow> run_receiver self (\<lambda>c. rx_handle_drop_request c now start end)
     | Ctl_Handshake shake \<Rightarrow> ret (handle_handshake_packet self now shake)
     | Ctl_Nak nak \<Rightarrow> run_sender self (\<lambda>c. tx_handle_nak_packet c now nak)
     | Ctl_Ack2 seq_num \<Rightarrow> run_receiver self (\<lambda>c. rx_handle_ack2_packet c now seq_num)
     | Ctl_Shutdown \<Rightarrow> ret (self\<lparr>dc_status := handle_shutdown_packet (dc_status self) now\<rparr>)
     | Ctl_KeepAlive \<Rightarrow> ret self
     | Ctl_CongestionWarning \<Rightarrow> Some Panic
     | Ctl_PeerError _ \<Rightarrow> Some Panic
     | Ctl_Srt s \<Rightarrow> handle_srt_control_packet ops self now s)"

definition handle_packet ::
  "('s, 'q) ConnOps \<Rightarrow> ('s, 'q) DuplexConnection \<Rightarrow> instant \<Rightarrow> Packet \<Rightarrow> SocketAddr \<Rightarrow> ('s, 'q) DuplexConnection run" where
  "handle_packet ops self now packet from =
     (if from \<noteq> cs_remote (dc_settings self) then ret self
      else if cs_local_sockid (dc_settings self) \<noteq> packet_dest_sockid packet then ret self
      else
        let self = self\<lparr>dc_timers := reset_exp (dc_timers self) now\<rparr> in
        run_bind (Some (packet_wire_size packet)) (\<lambda>sz.
        let self = self\<lparr>dc_stats := (dc_stats self)\<lparr>
              stat_rx_all_packets := stat_rx_all_packets (dc_stats self) + 1,
              stat_rx_all_bytes := stat_rx_all_bytes (dc_stats self) + of_nat sz\<rparr>\<rparr> in
        case packet of
          Pkt_Data data \<Rightarrow> run_receiver self (\<lambda>c. rx_handle_data_packet (co_rx ops) c now data)
        | Pkt_Control control \<Rightarrow> handle_control_packet ops self now control))"

definition handle_packet_input ::
  "('s, 'q) ConnOps \<Rightarrow> ('s, 'q) DuplexConnection \<Rightarrow> instant \<Rightarrow> ReceivePacketError + Packet \<times> SocketAddr
   \<Rightarrow> ('s, 'q) DuplexConnection run" where
  "handle_packet_input ops self now packet =
     (case packet of
        Inr (packet, from) \<Rightarrow> handle_packet ops self now packet from
      | Inl (RPE_Io _) \<Rightarrow> ret (handle_socket_close self now)
      | Inl (RPE_Parse _) \<Rightarrow> ret self)"

section \<open>Timers\<close>

definition dc_on_peer_idle_timeout :: "('s, 'q) DuplexConnection \<Rightarrow> instant \<Rightarrow> ('s, 'q) DuplexConnection" where
  "dc_on_peer_idle_timeout self now =
     (let self = dc_send_control self now Ctl_Shutdown in
      self\<lparr>dc_status := status_on_peer_idle_timeout (dc_status self) now\<rparr>)"

definition dc_next_timer :: "('s, 'q) DuplexConnection \<Rightarrow> instant \<Rightarrow> instant" where
  "dc_next_timer self now =
     next_timer (dc_timers self) now (sender_has_packets_to_send (dc_sender self))
       (arq_next_message_release_time (rv_arq (dc_receiver self)))
       (arq_unacked_packet_count (rv_arq (dc_receiver self)))"

text \<open>\<open>check_timers\<close>, in the order of the code: the four timers, then the ends of receiver and sender.\<close>

definition check_ack_timer ::
  "('s, 'q) ConnOps \<Rightarrow> instant \<Rightarrow> ('s, 'q) DuplexConnection \<Rightarrow> ('s, 'q) DuplexConnection run" where
  "check_ack_timer ops now self =
     (let (expired, timers) = check_full_ack (dc_timers self) now; self = self\<lparr>dc_timers := timers\<rparr> in
      if expired \<noteq> None then run_receiver self (\<lambda>c. rx_on_full_ack_event (co_rx ops) c now) else ret self)"

definition check_nak_timer ::
  "instant \<Rightarrow> ('s, 'q) DuplexConnection \<Rightarrow> ('s, 'q) DuplexConnection run" where
  "check_nak_timer now self =
     (let (expired, timers) = check_nak (dc_timers self) now; self = self\<lparr>dc_timers := timers\<rparr> in
      if expired \<noteq> None then run_receiver self (\<lambda>c. rx_on_nak_event c now) else ret self)"

definition check_peer_idle_timer :: "instant \<Rightarrow> ('s, 'q) DuplexConnection \<Rightarrow> ('s, 'q) DuplexConnection" where
  "check_peer_idle_timer now self =
     (let (expired, timers) = check_peer_idle_timeout (dc_timers self) now; self = self\<lparr>dc_timers := timers\<rparr> in
      if expired \<noteq> None then dc_on_peer_idle_timeout self now else self)"

definition check_snd_timer ::
  "('s, 'q) ConnOps \<Rightarrow> instant \<Rightarrow> ('s, 'q) DuplexConnection \<Rightarrow> ('s, 'q) DuplexConnection run" where
  "check_snd_timer ops now self =
     (let (expired, timers) = check_snd (dc_timers self) now; self = self\<lparr>dc_timers := timers\<rparr> in
      case expired of
        Some elapsed_periods \<Rightarrow> run_sender self (\<lambda>c. tx_on_snd_event (co_tx ops) c now elapsed_periods)
      | None \<Rightarrow> ret self)"

definition check_close :: "instant \<Rightarrow> ('s, 'q) DuplexConnection \<Rightarrow> ('s, 'q) DuplexConnection" where
  "check_close now self =
     (let (timed_out, status) = check_receive_close_timeout (dc_status self) now (receiver_is_flushed (dc_receiver self));
          self = self\<lparr>dc_status := status\<rparr>;
          self = (if timed_out then with_receiver self (rx_on_close_timeout (receiver_context self) now) else self);
          (shutdown, status) = check_sender_shutdown (dc_status self) now (sender_is_flushed (dc_sender self))
            (receiver_is_flushed (dc_receiver self)) (output_is_empty (dc_output self));
          self = self\<lparr>dc_status := status\<rparr>;
          self = (if shutdown then dc_send_control self now Ctl_Shutdown else self) in
      self\<lparr>dc_output := ensure_alive (dc_output self) now\<rparr>)"

definition check_timers ::
  "('s, 'q) ConnOps \<Rightarrow> ('s, 'q) DuplexConnection \<Rightarrow> instant \<Rightarrow> ('s, 'q) DuplexConnection run" where
  "check_timers ops self now =
     run_bind (check_ack_timer ops now self) (\<lambda>self.
     run_bind (check_nak_timer now self) (\<lambda>self.
     run_bind (check_snd_timer ops now (check_peer_idle_timer now self)) (\<lambda>self.
     ret (check_close now self))))"

section \<open>The answer\<close>

definition dc_update_statistics :: "('s, 'q) DuplexConnection \<Rightarrow> instant \<Rightarrow> ('s, 'q) DuplexConnection" where
  "dc_update_statistics self now =
     self\<lparr>dc_stats := (dc_stats self)\<lparr>
       stat_elapsed_time := instant_sub now (cs_socket_start_time (dc_settings self)),
       stat_tx_buffered_time := tx_buffered_time (dc_sender self),
       stat_tx_buffered_data := tx_buffered_packets (dc_sender self),
       stat_tx_buffered_bytes := tx_buffered_bytes (dc_sender self),
       stat_rx_acknowledged_time := receiver_rx_acknowledged_time (dc_receiver self)\<rparr>\<rparr>"

fun count_sent :: "SocketStatistics \<Rightarrow> Packet \<Rightarrow> SocketStatistics" where
  "count_sent st (Pkt_Data d) =
     st\<lparr>stat_tx_data := stat_tx_data st + 1, stat_tx_bytes := stat_tx_bytes st + of_nat (data_wire_size d)\<rparr>"
| "count_sent st (Pkt_Control c) =
     (case cp_control_type c of
        Ctl_Ack a \<Rightarrow>
          let st = st\<lparr>stat_tx_ack := stat_tx_ack st + 1\<rparr> in
          (case a of Ack_Lite _ \<Rightarrow> st\<lparr>stat_tx_light_ack := stat_tx_light_ack st + 1\<rparr> | _ \<Rightarrow> st)
      | Ctl_Nak _ \<Rightarrow> st\<lparr>stat_tx_nak := stat_tx_nak st + 1\<rparr>
      | Ctl_Ack2 _ \<Rightarrow> st\<lparr>stat_tx_ack2 := stat_tx_ack2 st + 1\<rparr>
      | _ \<Rightarrow> st)"

definition next_packet ::
  "('s, 'q) DuplexConnection \<Rightarrow> ((Packet \<times> SocketAddr) option \<times> ('s, 'q) DuplexConnection) run" where
  "next_packet self =
     (case pop_packet (dc_output self) of
        (None, output) \<Rightarrow> ret (None, self\<lparr>dc_output := output\<rparr>)
      | (Some p, output) \<Rightarrow>
          let self = self\<lparr>dc_output := output\<rparr> in
          run_bind (Some (packet_wire_size p)) (\<lambda>sz.
          let st = (dc_stats self)\<lparr>stat_tx_all_packets := stat_tx_all_packets (dc_stats self) + 1,
                     stat_tx_all_bytes := stat_tx_all_bytes (dc_stats self) + of_nat sz\<rparr> in
          ret (Some (p, cs_remote (dc_settings self)), self\<lparr>dc_stats := count_sent st p\<rparr>)))"

definition next_data ::
  "('s, 'q) DuplexConnection \<Rightarrow> instant \<Rightarrow> ((instant \<times> u8 list) option \<times> ('s, 'q) DuplexConnection) run" where
  "next_data self now =
     (let (r, arq) = arq_pop_next_message (rv_arq (dc_receiver self)) now;
          self = self\<lparr>dc_receiver := (dc_receiver self)\<lparr>rv_arq := arq\<rparr>\<rparr> in
      case r of
        Ok data \<Rightarrow> ret (data, self)
      | Err error \<Rightarrow>
          let dropped = seq_diff (snd (me_too_late_packets error)) (fst (me_too_late_packets error)) in
          ret (None, self\<lparr>dc_stats := (dc_stats self)\<lparr>stat_rx_dropped_data :=
                 stat_rx_dropped_data (dc_stats self) + ucast dropped\<rparr>\<rparr>)
      | Panic \<Rightarrow> Some Panic)"

definition next_action ::
  "('s, 'q) ConnOps \<Rightarrow> ('s, 'q) DuplexConnection \<Rightarrow> instant \<Rightarrow> (Action \<times> ('s, 'q) DuplexConnection) run" where
  "next_action ops self now =
     (if \<not> dc_is_open self then ret (Close, self)
      else
        run_bind (check_timers ops self now) (\<lambda>self.
        let (expired, timers) = check_statistics (dc_timers self) now; self = self\<lparr>dc_timers := timers\<rparr> in
        if expired \<noteq> None
        then let self = dc_update_statistics self now in ret (UpdateStatistics (dc_stats self), self)
        else
          run_bind (next_packet self) (\<lambda>(packet, self).
          case packet of
            Some (p, addr) \<Rightarrow> ret (SendPacket p addr, self)
          | None \<Rightarrow>
              run_bind (next_data self now) (\<lambda>(data, self).
              case data of
                Some (t, bytes) \<Rightarrow> ret (ReleaseData t bytes, self)
              | None \<Rightarrow> ret (WaitForData (instant_sub (dc_next_timer self now) now), self)))))"

definition handle_input ::
  "('s, 'q) ConnOps \<Rightarrow> (SeqNumber \<Rightarrow> nat \<Rightarrow> u8 list) \<Rightarrow> ('s, 'q) DuplexConnection \<Rightarrow> instant \<Rightarrow> Input
   \<Rightarrow> (Action \<times> ('s, 'q) DuplexConnection) run" where
  "handle_input ops rnd self now input =
     run_bind (case input of
                 In_Data data \<Rightarrow> handle_data_input ops rnd self now data
               | In_Packet packet \<Rightarrow> handle_packet_input ops self now packet
               | _ \<Rightarrow> ret self)
       (\<lambda>self. next_action ops self now)"

end
