(* ===== verification/Packet_Log.thy ===== *)
theory Packet_Log
  imports Connection
begin

text \<open>
  Which data packets a connection can send. Every data packet in its send buffer and in its output queue
  is a copy, up to the flag of a retransmission, of one that was made from a message of the application;
  no handler invents data packets.
\<close>

section \<open>Packets in the send buffer\<close>

definition plain :: "DataPacket \<Rightarrow> DataPacket" where
  "plain p = p\<lparr>dp_retransmitted := False\<rparr>"

lemma plain_fields [simp]:
  "plain (p\<lparr>dp_retransmitted := r\<rparr>) = plain p" "dp_seq_number (plain p) = dp_seq_number p"
  "dp_payload (plain p) = dp_payload p" "dp_message_loc (plain p) = dp_message_loc p"
  "plain (plain p) = plain p" "dp_message_number (plain p) = dp_message_number p"
  by (simp_all add: plain_def)

definition sb_packets :: "'q SendBuffer \<Rightarrow> DataPacket set" where
  "sb_packets sb = (\<lambda>e. plain (sbe_packet e)) ` set (sb_buffer sb)"

lemma sb_packets_update [simp]:
  "sb_packets (sb\<lparr>sb_rtt := a\<rparr>) = sb_packets sb" "sb_packets (sb\<lparr>sb_next_full_ack := b\<rparr>) = sb_packets sb"
  "sb_packets (sb\<lparr>sb_lost_list := c\<rparr>) = sb_packets sb" "sb_packets (sb\<lparr>sb_next_send := d\<rparr>) = sb_packets sb"
  "sb_packets (sb\<lparr>sb_rto_queue := e\<rparr>) = sb_packets sb"
  by (simp_all add: sb_packets_def)

text \<open>An operation that keeps to the packets of the buffer, and so does the packet it returns.\<close>

definition keeps :: "'q SendBuffer \<Rightarrow> DataPacket option \<times> 'q SendBuffer \<Rightarrow> bool" where
  "keeps sb res \<longleftrightarrow> sb_packets (snd res) \<subseteq> sb_packets sb \<and> (\<forall>p. fst res = Some p \<longrightarrow> plain p \<in> sb_packets sb)"

lemma push_data_packets: "sb_packets (snd (push_data sb p)) \<subseteq> insert (plain p) (sb_packets sb)"
  by (auto simp: sb_packets_def push_data_def Let_def pop_lost_list_def split: list.splits)

lemma pop_acked_packets: "sb_packets (snd (pop_acked rq ack sb r)) \<subseteq> sb_packets sb"
proof (induction rq ack sb r rule: pop_acked.induct)
  case (1 rq ack sb r)
  show ?case
  proof (cases "sb_buffer sb")
    case Nil
    then show ?thesis by (simp add: pop_acked.simps [of _ _ sb])
  next
    case (Cons e es)
    show ?thesis
      using "1.IH" [OF Cons _ refl refl] Cons
      by (subst pop_acked.simps) (auto simp: sb_pop_front_def sb_packets_def Let_def)
  qed
qed

lemma update_acked_packets:
  "sb_packets (snd (update_largest_acked_seq_number rq sb ack full rtt)) \<subseteq> sb_packets sb"
  by (simp add: update_largest_acked_seq_number_def Let_def split_beta pop_acked_packets [THEN order_trans]
      split: option.split)

lemma send_packet_keeps: "keeps sb (send_packet rq sb ts s)"
proof -
  have "(\<lambda>e. plain (sbe_packet e)) ` set (es[i := e]) \<subseteq> (\<lambda>e. plain (sbe_packet e)) ` set es"
    if "i < length es" "plain (sbe_packet e) = plain (sbe_packet (es ! i))" for es :: "SendBufferEntry list" and i e
  proof -
    have "(\<lambda>e. plain (sbe_packet e)) ` set (es[i := e]) \<subseteq> (\<lambda>e. plain (sbe_packet e)) ` insert e (set es)"
      by (intro image_mono set_update_subset_insert)
    then show ?thesis using that by (auto intro: rev_image_eqI)
  qed
  then show ?thesis
    by (auto simp: keeps_def send_packet_def Let_def sb_packets_def not_le split: option.splits)
qed

lemma keeps_same: "sb_buffer sb' = sb_buffer sb \<Longrightarrow> keeps sb' res \<Longrightarrow> keeps sb res"
  by (simp add: keeps_def sb_packets_def)

lemma send_next_packet_keeps: "keeps sb (send_next_packet rq sb ts)"
  using send_packet_keeps [of sb rq ts "sb_next_send sb"]
  by (auto simp: send_next_packet_def keeps_def sb_packets_def split: prod.splits option.splits)

lemma send_next_16n_keeps: "keeps sb (send_next_16n_packet rq sb ts)"
  using send_next_packet_keeps [of sb rq ts] by (auto simp: send_next_16n_packet_def keeps_def)

lemma send_next_rto_keeps: "keeps sb (send_next_rto_packet rq sb ts)"
  using send_packet_keeps [of sb rq ts]
  by (auto simp: send_next_rto_packet_def split: option.splits) (auto simp: keeps_def)

lemma send_next_lost_keeps:
  assumes "send_next_lost_packet rq sb ts = (Ok r, sb')"
  shows "keeps sb (r, sb')"
proof (cases "sb_lost_list sb")
  case Nil
  then show ?thesis using assms by (simp add: send_next_lost_packet_def pop_lost_list_def keeps_def)
next
  case (Cons s l)
  then have "send_packet rq (sb\<lparr>sb_lost_list := l\<rparr>) ts s = (r, sb')"
    using assms by (auto simp: send_next_lost_packet_def pop_lost_list_def split: prod.splits option.splits)
  then show ?thesis using send_packet_keeps [of "sb\<lparr>sb_lost_list := l\<rparr>" rq ts s] by (simp add: keeps_def)
qed

lemma drop_late_packets: "sb_packets (snd (sb_drop_too_late_packets sb ts)) \<subseteq> sb_packets sb"
proof -
  have "sb_packets (sb\<lparr>sb_buffer := drop k (sb_buffer sb)\<rparr>) \<subseteq> sb_packets sb" for k
    by (simp add: sb_packets_def image_mono set_drop_subset)
  then show ?thesis
    by (simp add: sb_drop_too_late_packets_def Let_def split: list.split del: late_last_packet.simps)
qed

lemma flush_keeps: "keeps sb (flush_on_close rq sb drain)"
  by (auto simp: flush_on_close_def keeps_def sb_packets_def sb_pop_front_def Let_def length_Suc_conv)

section \<open>Packets of the actions\<close>

fun action_packets :: "SenderAction \<Rightarrow> DataPacket set" where
  "action_packets (SA_Send p) = {plain p}"
| "action_packets (SA_RetransmitRto p) = {plain p}"
| "action_packets (SA_RetransmitNak p) = {plain p}"
| "action_packets _ = {}"

definition act_keeps ::
  "'q SendBuffer \<Rightarrow> SenderAction option may_panic \<times> 'q SenderAlgorithmIterator \<Rightarrow> bool" where
  "act_keeps sb res \<longleftrightarrow> (\<forall>a. fst res = Ok a \<longrightarrow> sb_packets (sai_buffer (snd res)) \<subseteq> sb_packets sb
     \<and> (\<forall>x. a = Some x \<longrightarrow> action_packets x \<subseteq> sb_packets sb))"

lemma sai_sent_buffer [simp]: "sai_buffer (sai_sent it) = sai_buffer it"
  by (simp add: sai_sent_def)

lemma act_keeps_some:
  "keeps b (Some p, b') \<Longrightarrow> sb_packets b \<subseteq> sb_packets sb \<Longrightarrow> sai_buffer it = b' \<Longrightarrow> action_packets a = {plain p} \<Longrightarrow>
    act_keeps sb (Ok (Some a), it)"
  by (auto simp: act_keeps_def keeps_def)

lemma act_keeps_none:
  "keeps b (None, b') \<Longrightarrow> sb_packets b \<subseteq> sb_packets sb \<Longrightarrow> sai_buffer it = b' \<Longrightarrow> action_packets a = {} \<Longrightarrow>
    act_keeps sb (Ok (Some a), it)"
  by (auto simp: act_keeps_def keeps_def)

lemma act_keeps_tail:
  assumes "sb_packets b \<subseteq> sb_packets sb"
  shows "act_keeps sb
    (case send_next_packet rq b ts of
       (Some p, b) \<Rightarrow> (Ok (Some (SA_Send p)), sai_sent (it\<lparr>sai_buffer := b, sai_attempt_16n_packet := True\<rparr>))
     | (None, b) \<Rightarrow>
         (case flush_on_close rq b drain of
            (Some p, b) \<Rightarrow> (Ok (Some (SA_Send p)), sai_sent (it\<lparr>sai_buffer := b\<rparr>))
          | (None, b) \<Rightarrow> (Ok (Some SA_WaitForInput), it\<lparr>sai_buffer := b, sai_packets_to_send := 0\<rparr>)))"
proof -
  obtain r b1 where 1: "send_next_packet rq b ts = (r, b1)" "keeps b (r, b1)"
    using send_next_packet_keeps [of b rq ts] by (metis prod.exhaust)
  obtain q b2 where 2: "flush_on_close rq b1 drain = (q, b2)" "keeps b1 (q, b2)"
    using flush_keeps [of b1 rq drain] by (metis prod.exhaust)
  have "sb_packets b1 \<subseteq> sb_packets sb" using 1(2) assms by (auto simp: keeps_def)
  then show ?thesis using 1 2 assms by (cases r; cases q) (auto intro: act_keeps_some act_keeps_none)
qed

lemma sai_choose_keeps: "act_keeps (sai_buffer it) (sai_choose rq it)"
proof (cases "sai_packets_to_send it = 0")
  case True
  then show ?thesis by (simp add: sai_choose_def act_keeps_def)
next
  case False
  let ?sb = "sai_buffer it" and ?ts = "sai_ts_now it"
  obtain d b where d: "sb_drop_too_late_packets ?sb ?ts = (d, b)" "sb_packets b \<subseteq> sb_packets ?sb"
    using drop_late_packets [of ?sb ?ts] by (metis prod.exhaust snd_conv)
  obtain l b1 where l: "send_next_lost_packet rq b ?ts = (l, b1)" by (metis prod.exhaust)
  obtain q b2 where q: "send_next_rto_packet rq b1 ?ts = (q, b2)" "keeps b1 (q, b2)"
    using send_next_rto_keeps [of b1 rq ?ts] by (metis prod.exhaust)
  show ?thesis
  proof (cases "d = Ok None \<and> l = Ok None")
    case True
    then have b2: "sb_packets b1 \<subseteq> sb_packets ?sb" "sb_packets b2 \<subseteq> sb_packets ?sb"
      using send_next_lost_keeps [of rq b ?ts None b1] l d(2) q(2) by (auto simp: keeps_def)
    show ?thesis
    proof (cases "q = None \<and> \<not> flow_window_exceeded b2")
      case True
      then show ?thesis
        using \<open>d = Ok None \<and> l = Ok None\<close> False d(1) l q(1) act_keeps_tail [OF b2(2), where rq = rq and ts = ?ts and it = it and drain = "sai_should_drain it"]
        by (simp add: sai_choose_def)
    next
      case False2: False
      then show ?thesis
        using \<open>d = Ok None \<and> l = Ok None\<close> False d(1) l q b2
        by (cases q) (auto simp: sai_choose_def intro: act_keeps_some act_keeps_none)
    qed
  next
    case ne: False
    then show ?thesis
      using False d l send_next_lost_keeps [of rq b ?ts _ b1]
      by (cases d; cases l) (auto simp: sai_choose_def act_keeps_def keeps_def split: option.splits)
  qed
qed

lemma sai_next_keeps: "act_keeps (sai_buffer it) (sai_next rq it)"
proof (cases "sai_attempt_16n_packet it")
  case False
  then show ?thesis using sai_choose_keeps [of it rq] by (simp add: sai_next_def)
next
  case True
  obtain r b where r: "send_next_16n_packet rq (sai_buffer it) (sai_ts_now it) = (r, b)" "keeps (sai_buffer it) (r, b)"
    using send_next_16n_keeps [of "sai_buffer it" rq "sai_ts_now it"] by (metis prod.exhaust)
  show ?thesis
  proof (cases r)
    case None
    let ?it = "it\<lparr>sai_attempt_16n_packet := False, sai_buffer := b\<rparr>"
    have "act_keeps b (sai_choose rq ?it)" using sai_choose_keeps [of ?it rq] by simp
    then have "act_keeps (sai_buffer it) (sai_choose rq ?it)"
      using r(2) by (fastforce simp: act_keeps_def keeps_def)
    then show ?thesis using True None r(1) by (simp add: sai_next_def)
  next
    case (Some p)
    then show ?thesis using True r by (auto simp: sai_next_def intro: act_keeps_some)
  qed
qed

lemma snd_actions_keeps:
  assumes "snd_actions rq it = Some res"
  shows "\<forall>actions. fst res = Ok actions \<longrightarrow>
    sb_packets (sai_buffer (snd res)) \<subseteq> sb_packets (sai_buffer it)
    \<and> (\<Union> (action_packets ` set actions)) \<subseteq> sb_packets (sai_buffer it)"
  using assms
proof (induction rule: snd_actions.raw_induct [rotated, consumes 1, case_names 1])
  case (1 snd_actions rq it res)
  obtain r it1 where n: "sai_next rq it = (r, it1)" by (metis prod.exhaust)
  have k: "act_keeps (sai_buffer it) (r, it1)" using sai_next_keeps [of it rq] n by simp
  have go: ?case if "r = Ok (Some a)" "\<And>w u. a \<noteq> SA_WaitForAck w u" "a \<noteq> SA_WaitForInput" for a
  proof -
    note a = that
    obtain res1 where r1: "snd_actions rq it1 = Some res1" "res = (map_outcome_ok (Cons a) (fst res1), snd res1)"
      using "1.hyps" n a by (cases a) (auto simp: split_beta split: bind_splits)
    show ?thesis using "1.IH" [OF r1(1)] k a(1) r1(2)
      by (cases "fst res1") (auto simp: act_keeps_def)
  qed
  consider "r = Ok None" | w where "r = Ok (Some w)" "w = SA_WaitForInput \<or> (\<exists>x y. w = SA_WaitForAck x y)"
    | a where "r = Ok (Some a)" "\<And>w u. a \<noteq> SA_WaitForAck w u" "a \<noteq> SA_WaitForInput" | "\<And>a. r \<noteq> Ok a"
    by (cases r) (metis option.exhaust, auto)
  then show ?case
  proof cases
    case (2 w)
    then have "res = (Ok [w], it1)" using "1.hyps" n by auto
    then show ?thesis using 2 k by (simp add: act_keeps_def)
  next
    case 3
    then show ?thesis by (rule go)
  qed (use "1.hyps" n k in \<open>auto simp: act_keeps_def split: outcome.splits\<close>)
qed

section \<open>Packets of the output\<close>

definition out_data :: "Output \<Rightarrow> DataPacket set" where
  "out_data out = {plain d | d. Pkt_Data d \<in> set (out_packets out)}"

lemma out_data_simps [simp]:
  "out_data (send_control out now control) = out_data out"
  "out_data (send_data out now d) = insert (plain d) (out_data out)"
  "out_data (ensure_alive out now) = out_data out"
  by (auto simp: out_data_def send_control_def send_data_def ensure_alive_def Let_def split_beta)

lemma out_data_pop: "pop_packet out = (p, out') \<Longrightarrow> out_data out' \<subseteq> out_data out"
  "pop_packet out = (Some (Pkt_Data d), out') \<Longrightarrow> plain d \<in> out_data out"
  by (auto simp: out_data_def pop_packet_def split: list.splits)

section \<open>The handlers of the sender\<close>

text \<open>A sender without encryption, whose data packets are copies of those in \<open>S\<close>.\<close>

definition sc_log :: "DataPacket set \<Rightarrow> Encapsulation \<Rightarrow> ConnectionStatus \<Rightarrow> 'q SenderContext \<Rightarrow> bool" where
  "sc_log S e st c \<longleftrightarrow> sn_encryption (sc_sender c) = None \<and> sn_encapsulation (sc_sender c) = e \<and> sc_status c = st
     \<and> sb_packets (sn_send_buffer (sc_sender c)) \<subseteq> S \<and> out_data (sc_output c) \<subseteq> S"

lemma run_fold_keeps:
  assumes "\<And>x s s'. x \<in> set xs \<Longrightarrow> P s \<Longrightarrow> f x s = ret s' \<Longrightarrow> P s'" "P s" "run_fold f xs s = ret s'"
  shows "P s'"
  using assms
proof (induction xs arbitrary: s)
  case (Cons x xs)
  then obtain s1 where "f x s = ret s1" "run_fold f xs s1 = ret s'" by (auto simp: run_bind_ret_iff)
  then show ?case using Cons by (metis list.set_intros)
qed simp

lemma tx_data_packet_log:
  assumes "tx_handle_data_packet ops rnd now p acc = ret acc'" "sc_log S e st (fst acc)" "plain p \<in> S"
  shows "sc_log S e st (fst acc')"
proof -
  have "sb_packets (snd (push_data (sn_send_buffer (sc_sender (fst acc))) p)) \<subseteq> S"
    using push_data_packets [of "sn_send_buffer (sc_sender (fst acc))" p] assms(2,3) by (auto simp: sc_log_def)
  then show ?thesis
    using assms(1,2)
    by (auto simp: tx_handle_data_packet_def encryption_encrypt_def sc_log_def sc_with_buffer_def Let_def split_beta
        split: outcome.splits)
qed

lemma tx_handle_data_log:
  assumes "tx_handle_data ops rnd c now (t, data) = ret c'" "sc_log S e st c"
    "encapsulate e (tb_timestamp_from (sn_time_base (sc_sender c)) t) data = Some (ps, e')" "plain ` set ps \<subseteq> S"
  shows "sc_log S e' st c'"
proof -
  let ?c = "c\<lparr>sc_sender := (sc_sender c)\<lparr>sn_encapsulation := e'\<rparr>\<rparr>"
  have enc: "encapsulate (sn_encapsulation (sc_sender c)) (tb_timestamp_from (sn_time_base (sc_sender c)) t) data = Some (ps, e')"
    using assms(2,3) by (simp add: sc_log_def)
  obtain acc where f: "run_fold (\<lambda>p. tx_handle_data_packet ops (rnd (dp_seq_number p)) now p) ps (?c, 0, 0) = ret acc"
    and r: "(\<lambda>(self, packets, bytes).
        let (snd_period, cc) = on_input (sn_congestion_control (sc_sender self)) now packets bytes;
            self = self\<lparr>sc_sender := (sc_sender self)\<lparr>sn_congestion_control := cc\<rparr>\<rparr> in
        run_bind (Some snd_period) (\<lambda>snd_period.
        ret (case snd_period of
               Some p \<Rightarrow> self\<lparr>sc_timers := update_snd_period (sc_timers self) p\<rparr> | None \<Rightarrow> self))) acc = ret c'"
    using assms(1) unfolding tx_handle_data_def by (simp only: Let_def prod.case enc option.case run_bind_ret_iff) blast
  obtain a n b where acc: "acc = (a, n, b)" by (cases acc)
  obtain r cc where i: "on_input (sn_congestion_control (sc_sender a)) now n b = (r, cc)" by (metis prod.exhaust)
  let ?a = "a\<lparr>sc_sender := (sc_sender a)\<lparr>sn_congestion_control := cc\<rparr>\<rparr>"
  obtain q where "c' = (case q of Some p \<Rightarrow> ?a\<lparr>sc_timers := update_snd_period (sc_timers ?a) p\<rparr> | None \<Rightarrow> ?a)"
    using r unfolding acc prod.case Let_def i run_bind_ret_iff by blast
  then have c': "sn_encryption (sc_sender c') = sn_encryption (sc_sender (fst acc))"
      "sn_encapsulation (sc_sender c') = sn_encapsulation (sc_sender (fst acc))"
      "sn_send_buffer (sc_sender c') = sn_send_buffer (sc_sender (fst acc))"
      "sc_output c' = sc_output (fst acc)" "sc_status c' = sc_status (fst acc)"
    unfolding acc fst_conv by (simp_all split: option.split)
  have "sc_log S e' st (fst acc)"
  proof (rule run_fold_keeps [where P = "\<lambda>a. sc_log S e' st (fst a)", OF _ _ f])
    show "sc_log S e' st (fst (?c, 0, 0))" using assms(2) by (simp add: sc_log_def)
  next
    fix p a a' assume p: "p \<in> set ps" "sc_log S e' st (fst a)"
      "tx_handle_data_packet ops (rnd (dp_seq_number p)) now p a = ret a'"
    show "sc_log S e' st (fst a')" using assms(4) p(1) by (intro tx_data_packet_log [OF p(3,2)]) auto
  qed
  then show ?thesis using c' by (simp add: sc_log_def)
qed

lemma tx_ack_log: "sc_log S e st c \<Longrightarrow> sc_log S e st (tx_handle_ack_packet ops c now ack)"
  using update_acked_packets [of "txo_rto ops" "sn_send_buffer (sc_sender c)"]
  by (auto simp: tx_handle_ack_packet_def sc_log_def Let_def split_beta sc_with_buffer_def sc_send_control_def
      split: Acknowledgement.splits outcome.splits option.splits) blast+

lemma tx_loss_log: "sc_log S e st c \<Longrightarrow> tx_handle_loss now item c = ret c' \<Longrightarrow> sc_log S e st c'"
  by (cases item; cases "fst item")
    (auto simp: sc_log_def tx_handle_loss_def sc_send_control_def Let_def run_bind_ret_iff)

lemma tx_nak_log:
  assumes "tx_handle_nak_packet c now nak = ret c'" "sc_log S e st c"
  shows "sc_log S e st c'"
proof -
  obtain losses b where b: "add_to_loss_list (sn_send_buffer (sc_sender c)) nak = Ok (losses, b)"
    "run_fold (tx_handle_loss now) losses
      (sc_with_buffer b (c\<lparr>sc_stats := (sc_stats c)\<lparr>stat_rx_nak := stat_rx_nak (sc_stats c) + 1\<rparr>\<rparr>)) = ret c'"
    using assms(1) by (auto simp: tx_handle_nak_packet_def run_bind_ret_iff Let_def)
  let ?c = "sc_with_buffer b (c\<lparr>sc_stats := (sc_stats c)\<lparr>stat_rx_nak := stat_rx_nak (sc_stats c) + 1\<rparr>\<rparr>)"
  obtain ss where "add_losses (sn_send_buffer (sc_sender c)) ss = (losses, b)"
    using b(1) by (auto simp: add_to_loss_list_def map_outcome_ok_Ok_iff)
  then have "sb_packets b = sb_packets (sn_send_buffer (sc_sender c))"
    using add_losses_buffer [of "sn_send_buffer (sc_sender c)" ss] by (simp add: sb_packets_def)
  then have c: "sc_log S e st ?c"
    using assms(2) by (simp add: sc_log_def sc_with_buffer_def)
  show ?thesis
    by (rule run_fold_keeps [where P = "sc_log S e st", OF _ c b(2)]) (rule tx_loss_log)
qed

lemma tx_key_log: "sc_log S e st c \<Longrightarrow> sc_log S e st (tx_handle_key_refresh_response c km)"
  by (auto simp: tx_handle_key_refresh_response_def handle_key_refresh_response_def sc_log_def)

lemma tx_actions_log:
  "sc_log S e st c \<Longrightarrow> \<Union> (action_packets ` set actions) \<subseteq> S \<Longrightarrow> sc_log S e st (fold (tx_action now) actions c)"
proof (induction actions arbitrary: c)
  case (Cons a actions)
  then have "sc_log S e st (tx_action now a c)" by (cases a) (auto simp: sc_log_def)
  then show ?case using Cons by simp
qed simp

lemma tx_snd_log:
  assumes "tx_on_snd_event ops c now n = ret c'" "sc_log S e st c"
  shows "sc_log S e st c'"
proof -
  let ?it = "next_snd_actions (sn_send_buffer (sc_sender c)) (tb_timestamp_from (sn_time_base (sc_sender c)) now) n
    (should_drain_send_buffer (sc_status c))"
  obtain actions it where a: "snd_actions (txo_rto ops) ?it = Some (Ok actions, it)"
    "c' = fold (tx_action now) actions (sc_with_buffer (sai_buffer it) c)"
    using assms(1) by (auto simp: tx_on_snd_event_def Let_def run_bind_ret_iff split: option.splits)
  have "sb_packets (sai_buffer it) \<subseteq> S" "\<Union> (action_packets ` set actions) \<subseteq> S"
    using snd_actions_keeps [OF a(1)] assms(2) by (auto simp: sc_log_def next_snd_actions_def)
  then show ?thesis
    using assms(2) unfolding a(2) by (intro tx_actions_log) (simp_all add: sc_log_def sc_with_buffer_def)
qed

section \<open>The handlers of the connection\<close>

text \<open>The receiver answers with control packets only.\<close>

lemma rx_sync_output: "out_data (rc_output (rx_synchronize_clock rops c now ts)) = out_data (rc_output c)"
  by (simp add: rx_synchronize_clock_def rc_with_arq_def Let_def split_beta)

lemma rx_close_output: "out_data (rc_output (rx_on_close_timeout c now)) = out_data (rc_output c)"
  by (simp add: rx_on_close_timeout_def rc_with_arq_def)

lemma rx_accept_output: "rc_output (snd (rx_accept_data rops c now d)) = rc_output c"
  by (simp add: rx_accept_data_def rc_with_arq_def Let_def split_beta split: outcome.split)

lemma rx_data_output:
  assumes "rx_handle_data_packet rops c now d = ret c'"
  shows "out_data (rc_output c') = out_data (rc_output c)"
proof -
  let ?c = "c\<lparr>rc_stats := (rc_stats c)\<lparr>stat_rx_data := stat_rx_data (rc_stats c) + 1,
    stat_rx_bytes := stat_rx_bytes (rc_stats c) + of_nat (data_wire_size d)\<rparr>\<rparr>"
  obtain r c1 where r: "rx_accept_data rops ?c now d = (r, c1)" by (metis prod.exhaust)
  then have "rc_output c1 = rc_output c" using rx_accept_output [of rops ?c now d] by simp
  then show ?thesis
    using assms r by (cases r) (auto simp: rx_handle_data_packet_def rc_send_control_def Let_def
        split: DataPacketAction.splits)
qed

lemma rx_ack2_output: "rx_handle_ack2_packet c now n = ret c' \<Longrightarrow> out_data (rc_output c') = out_data (rc_output c)"
  by (auto simp: rx_handle_ack2_packet_def rc_with_arq_def Let_def split_beta run_bind_ret_iff split: option.splits)

lemma rx_drop_output:
  assumes "rx_handle_drop_request c now a b = ret c'"
  shows "out_data (rc_output c') = out_data (rc_output c)"
proof -
  obtain r arq where r: "arq_handle_drop_request (rv_arq (rc_receiver c)) a (seq_add b 1) = (r, arq)"
    by (metis prod.exhaust)
  then obtain n where "r = Ok n" using assms by (cases r) (simp_all add: rx_handle_drop_request_def run_bind_def)
  then show ?thesis
    using assms r by (cases "0 < n") (auto simp: rx_handle_drop_request_def rc_with_arq_def)
qed

lemma rx_key_output:
  "rx_handle_key_refresh_request rops c now km = ret c' \<Longrightarrow> out_data (rc_output c') = out_data (rc_output c)"
  by (auto simp: rx_handle_key_refresh_request_def rc_send_control_def Let_def split_beta
      split: outcome.splits option.splits)

lemma rx_ack_output: "rx_on_full_ack_event rops c now = ret c' \<Longrightarrow> out_data (rc_output c') = out_data (rc_output c)"
  by (auto simp: rx_on_full_ack_event_def rc_with_arq_def rc_send_control_def Let_def split_beta run_bind_ret_iff
      split: option.splits)

lemma rx_nak_output: "rx_on_nak_event c now = ret c' \<Longrightarrow> out_data (rc_output c') = out_data (rc_output c)"
  by (auto simp: rx_on_nak_event_def rc_with_arq_def rc_send_control_def Let_def split_beta run_bind_ret_iff
      split: option.splits)

definition dc_log :: "DataPacket set \<Rightarrow> Encapsulation \<Rightarrow> ('s, 'q) DuplexConnection \<Rightarrow> bool" where
  "dc_log S e dc \<longleftrightarrow> sc_log S e (dc_status dc) (sender_context dc)"

lemma dc_log_fields:
  "dc_log S e dc \<longleftrightarrow> sn_encryption (dc_sender dc) = None \<and> sn_encapsulation (dc_sender dc) = e
     \<and> sb_packets (sn_send_buffer (dc_sender dc)) \<subseteq> S \<and> out_data (dc_output dc) \<subseteq> S"
  by (simp add: dc_log_def sc_log_def sender_context_def)

lemma run_sender_log:
  assumes "run_sender dc f = ret dc'" "dc_log S e dc"
    "\<And>c'. f (sender_context dc) = ret c' \<Longrightarrow> sc_log S e (dc_status dc) (sender_context dc) \<Longrightarrow> sc_log T e' (dc_status dc) c'"
  shows "dc_log T e' dc' \<and> dc_status dc' = dc_status dc \<and> dc_receiver dc' = dc_receiver dc"
  using assms
  by (auto simp: run_sender_def run_bind_ret_iff dc_log_def with_sender_def sc_log_def sender_context_def)

lemma run_receiver_log:
  assumes "run_receiver dc f = ret dc'" "dc_log S e dc"
    "\<And>c'. f (receiver_context dc) = ret c' \<Longrightarrow> out_data (rc_output c') = out_data (rc_output (receiver_context dc))"
  shows "dc_log S e dc'"
  using assms
  by (auto simp: run_receiver_def run_bind_ret_iff dc_log_fields with_receiver_def receiver_context_def)

lemma dc_log_update [simp]:
  "dc_log S e (dc\<lparr>dc_timers := t\<rparr>) = dc_log S e dc" "dc_log S e (dc\<lparr>dc_stats := s\<rparr>) = dc_log S e dc"
  "dc_log S e (dc\<lparr>dc_status := x\<rparr>) = dc_log S e dc" "dc_log S e (dc\<lparr>dc_receiver := r\<rparr>) = dc_log S e dc"
  "dc_log S e (dc_send_control dc now c) = dc_log S e dc"
  "dc_log S e (dc\<lparr>dc_output := ensure_alive (dc_output dc) now\<rparr>) = dc_log S e dc"
  by (simp_all add: dc_log_fields dc_send_control_def)

lemma run_bindE:
  assumes "run_bind r f = ret b"
  obtains a where "r = ret a" "f a = ret b"
  using assms by (auto simp: run_bind_ret_iff)

lemma sync_log:
  "run_receiver dc (\<lambda>c. ret (rx_synchronize_clock rops c now ts)) = ret dc' \<Longrightarrow> dc_log S e dc \<Longrightarrow> dc_log S e dc'"
  by (erule run_receiver_log, assumption, auto simp: rx_sync_output)

lemma data_log:
  "run_receiver dc (\<lambda>c. rx_handle_data_packet rops c now d) = ret dc' \<Longrightarrow> dc_log S e dc \<Longrightarrow> dc_log S e dc'"
  by (erule run_receiver_log, assumption, erule rx_data_output)

lemma ack2_log:
  "run_receiver dc (\<lambda>c. rx_handle_ack2_packet c now n) = ret dc' \<Longrightarrow> dc_log S e dc \<Longrightarrow> dc_log S e dc'"
  by (erule run_receiver_log, assumption, erule rx_ack2_output)

lemma drop_log:
  "run_receiver dc (\<lambda>c. rx_handle_drop_request c now a b) = ret dc' \<Longrightarrow> dc_log S e dc \<Longrightarrow> dc_log S e dc'"
  by (erule run_receiver_log, assumption, erule rx_drop_output)

lemma key_log:
  "run_receiver dc (\<lambda>c. rx_handle_key_refresh_request rops c now km) = ret dc' \<Longrightarrow> dc_log S e dc \<Longrightarrow> dc_log S e dc'"
  by (erule run_receiver_log, assumption, erule rx_key_output)

lemma full_ack_log:
  "run_receiver dc (\<lambda>c. rx_on_full_ack_event rops c now) = ret dc' \<Longrightarrow> dc_log S e dc \<Longrightarrow> dc_log S e dc'"
  by (erule run_receiver_log, assumption, erule rx_ack_output)

lemma nak_log:
  "run_receiver dc (\<lambda>c. rx_on_nak_event c now) = ret dc' \<Longrightarrow> dc_log S e dc \<Longrightarrow> dc_log S e dc'"
  by (erule run_receiver_log, assumption, erule rx_nak_output)

lemmas receiver_logs = sync_log data_log ack2_log drop_log key_log full_ack_log nak_log

lemma sender_logs:
  "run_sender dc (\<lambda>c. ret (tx_handle_ack_packet tops c now ack)) = ret dc' \<Longrightarrow> dc_log S e dc \<Longrightarrow> dc_log S e dc'"
  "run_sender dc (\<lambda>c. tx_handle_nak_packet c now nak) = ret dc' \<Longrightarrow> dc_log S e dc \<Longrightarrow> dc_log S e dc'"
  "run_sender dc (\<lambda>c. ret (tx_handle_key_refresh_response c km)) = ret dc' \<Longrightarrow> dc_log S e dc \<Longrightarrow> dc_log S e dc'"
  "run_sender dc (\<lambda>c. tx_on_snd_event tops c now k) = ret dc' \<Longrightarrow> dc_log S e dc \<Longrightarrow> dc_log S e dc'"
  by (drule (1) run_sender_log [where T = S and e' = e]; auto intro: tx_ack_log tx_nak_log tx_key_log tx_snd_log)+

lemma handle_srt_log:
  "handle_srt_control_packet ops dc now s = ret dc' \<Longrightarrow> dc_log S e dc \<Longrightarrow> dc_log S e dc'"
  by (cases s) (auto simp: handle_srt_control_packet_def receiver_logs sender_logs)

lemma handle_control_log:
  assumes "handle_control_packet ops dc now control = ret dc'" "dc_log S e dc"
  shows "dc_log S e dc'"
proof -
  obtain d where d: "run_receiver dc (\<lambda>c. ret (rx_synchronize_clock (co_rx ops) c now (cp_timestamp control))) = ret d"
    "run_bind (ret d) (\<lambda>_. handle_control_packet ops dc now control) = ret dc'"
    using assms(1) unfolding handle_control_packet_def by (auto elim: run_bindE)
  have l: "dc_log S e d" using d(1) assms(2) by (rule receiver_logs(1))
  show ?thesis
    using assms(1) d(1) l
    by (cases "cp_control_type control")
      (simp_all add: handle_control_packet_def handle_handshake_packet_def receiver_logs sender_logs handle_srt_log
        split: option.splits, auto)
qed

lemma handle_packet_log:
  assumes "handle_packet ops dc now packet from = ret dc'" "dc_log S e dc"
  shows "dc_log S e dc'"
proof (cases "from \<noteq> cs_remote (dc_settings dc) \<or> cs_local_sockid (dc_settings dc) \<noteq> packet_dest_sockid packet")
  case True
  then show ?thesis using assms by (cases "from = cs_remote (dc_settings dc)") (simp_all add: handle_packet_def)
next
  case False
  then obtain st where "(case packet of
      Pkt_Data data \<Rightarrow> run_receiver (dc\<lparr>dc_timers := reset_exp (dc_timers dc) now, dc_stats := st\<rparr>)
        (\<lambda>c. rx_handle_data_packet (co_rx ops) c now data)
    | Pkt_Control control \<Rightarrow>
        handle_control_packet ops (dc\<lparr>dc_timers := reset_exp (dc_timers dc) now, dc_stats := st\<rparr>) now control) = ret dc'"
    using assms(1) by (auto simp: handle_packet_def Let_def run_bind_ret_iff)
  moreover have "dc_log S e (dc\<lparr>dc_timers := reset_exp (dc_timers dc) now, dc_stats := st\<rparr>)" using assms(2) by simp
  ultimately show ?thesis
    by (cases packet) (simp_all add: receiver_logs handle_control_log)
qed

lemma check_timers_log:
  assumes "check_timers ops dc now = ret dc'" "dc_log S e dc"
  shows "dc_log S e dc'"
proof -
  obtain d1 d2 d3 where d: "check_ack_timer ops now dc = ret d1" "check_nak_timer now d1 = ret d2"
    "check_snd_timer ops now (check_peer_idle_timer now d2) = ret d3" "dc' = check_close now d3"
    using assms(1) by (auto simp: check_timers_def run_bind_ret_iff)
  have 1: "dc_log S e d1"
    using d(1) assms(2)
    by (auto simp: check_ack_timer_def split_beta Let_def dest!: full_ack_log [where S = S and e = e] split: if_splits)
  have 2: "dc_log S e d2"
    using d(2) 1
    by (auto simp: check_nak_timer_def split_beta Let_def dest!: nak_log [where S = S and e = e] split: if_splits)
  then have "dc_log S e (check_peer_idle_timer now d2)"
    by (simp add: check_peer_idle_timer_def dc_on_peer_idle_timeout_def split_beta Let_def)
  then have "dc_log S e d3"
    using d(3)
    by (auto simp: check_snd_timer_def split_beta Let_def dest!: sender_logs(4) [where S = S and e = e]
        split: option.splits)
  then show ?thesis
    unfolding d(4)
    by (simp add: check_close_def split_beta Let_def with_receiver_def dc_log_fields rx_close_output receiver_context_def
        dc_send_control_def)
qed

lemma next_packet_log:
  assumes "next_packet dc = ret (p, dc')" "dc_log S e dc"
  shows "dc_log S e dc' \<and> (\<forall>d addr. p = Some (Pkt_Data d, addr) \<longrightarrow> plain d \<in> S)"
proof -
  obtain q out where q: "pop_packet (dc_output dc) = (q, out)" by (metis prod.exhaust)
  have "out_data out \<subseteq> S" "\<forall>d. q = Some (Pkt_Data d) \<longrightarrow> plain d \<in> S"
    using out_data_pop(1) [OF q] out_data_pop(2) [of "dc_output dc" _ out] assms(2) q by (auto simp: dc_log_fields)
  then show ?thesis
    using assms q by (cases q) (auto simp: next_packet_def dc_log_fields Let_def run_bind_ret_iff)
qed

lemma next_data_log: "next_data dc now = ret (d, dc') \<Longrightarrow> dc_log S e dc \<Longrightarrow> dc_log S e dc'"
  by (auto simp: next_data_def split_beta Let_def split: outcome.splits)

lemma next_action_log:
  assumes "next_action ops dc now = ret (action, dc')" "dc_log S e dc"
  shows "dc_log S e dc' \<and> (\<forall>d addr. action = SendPacket (Pkt_Data d) addr \<longrightarrow> plain d \<in> S)"
proof (cases "dc_is_open dc")
  case False
  then show ?thesis using assms by (simp add: next_action_def)
next
  case True
  then obtain d1 where d1: "check_timers ops dc now = ret d1" "dc_log S e d1"
    using assms check_timers_log by (fastforce simp: next_action_def run_bind_ret_iff)
  obtain x tm where x: "check_statistics (dc_timers d1) now = (x, tm)" by (metis prod.exhaust)
  show ?thesis
  proof (cases "x = None")
    case False
    then show ?thesis using assms True d1 x by (auto simp: next_action_def dc_update_statistics_def Let_def)
  next
    case none: True
    then obtain p d2 where p: "next_packet (d1\<lparr>dc_timers := tm\<rparr>) = ret (p, d2)"
      using assms(1) True d1(1) x by (auto simp: next_action_def run_bind_ret_iff)
    have l: "dc_log S e d2" "\<forall>d addr. p = Some (Pkt_Data d, addr) \<longrightarrow> plain d \<in> S"
      using next_packet_log [OF p] d1(2) by auto
    then show ?thesis
      using assms(1) True d1(1) x p none next_data_log [of d2 now]
      by (cases p) (auto simp: next_action_def run_bind_ret_iff split: option.splits)
  qed
qed

lemma dc_log_mono: "dc_log S e dc \<Longrightarrow> S \<subseteq> T \<Longrightarrow> dc_log T e dc"
  by (auto simp: dc_log_fields)

text \<open>Handling an input: only the data of the application add packets, those of its message.\<close>

lemma handle_input_log:
  assumes "handle_input ops rnd dc now input = ret (action, dc')" "dc_log S e dc" "\<And>item. input \<noteq> In_Data (Some item)"
  shows "dc_log S e dc' \<and> (\<forall>d addr. action = SendPacket (Pkt_Data d) addr \<longrightarrow> plain d \<in> S)"
proof -
  obtain d1 where d1: "(case input of In_Data data \<Rightarrow> handle_data_input ops rnd dc now data
      | In_Packet packet \<Rightarrow> handle_packet_input ops dc now packet | _ \<Rightarrow> ret dc) = ret d1"
    "next_action ops d1 now = ret (action, dc')"
    using assms(1) unfolding handle_input_def by (rule run_bindE)
  have "dc_log S e d1"
  proof (cases input)
    case (In_Data data)
    then show ?thesis using d1(1) assms(2,3)
      by (cases data) (auto simp: handle_data_input_def handle_data_stream_close_def)
  next
    case (In_Packet packet)
    show ?thesis
    proof (cases packet)
      case (Inl err)
      then show ?thesis using d1(1) assms(2) In_Packet
        by (cases err) (auto simp: handle_packet_input_def handle_socket_close_def)
    next
      case (Inr pa)
      then show ?thesis using d1(1) assms(2) In_Packet handle_packet_log
        by (cases pa) (auto simp: handle_packet_input_def)
    qed
  qed (use d1(1) assms(2) in simp_all)
  then show ?thesis using next_action_log [OF d1(2)] by blast
qed

lemma handle_input_data_log:
  assumes "handle_input ops rnd dc now (In_Data (Some (t, data))) = ret (action, dc')" "dc_log S e dc"
    "encapsulate e (tb_timestamp_from (sn_time_base (dc_sender dc)) t) data = Some (ps, e')"
    "S \<subseteq> T" "plain ` set ps \<subseteq> T"
  shows "dc_log T e' dc' \<and> (\<forall>d addr. action = SendPacket (Pkt_Data d) addr \<longrightarrow> plain d \<in> T)"
proof -
  obtain d1 where d1: "run_sender dc (\<lambda>c. tx_handle_data (co_tx ops) rnd c now (t, data)) = ret d1"
    "next_action ops d1 now = ret (action, dc')"
    using assms(1) by (auto simp: handle_input_def handle_data_input_def elim: run_bindE)
  have "dc_log T e' d1"
    using run_sender_log [OF d1(1) dc_log_mono [OF assms(2,4)], of T e'] tx_handle_data_log assms(3,5)
    by (fastforce simp: sender_context_def)
  then show ?thesis using next_action_log [OF d1(2)] by blast
qed

end
