(* ===== verification/Delivery.thy ===== *)
theory Delivery
  imports Packet_Log "HOL-Library.Sublist"
begin

text \<open>
  Two connections and the network between them. The network may lose, duplicate, delay and reorder
  packets, and it may bring any control packet; data packets are parsed from bytes that the peer has
  sent. The messages that the receiver releases are a subsequence of those given to the sender: each is
  one whole message, unchanged, and in order.
\<close>

section \<open>Messages in the log of packets\<close>

text \<open>The packets of one message, as the sender cuts it with payloads of at most \<open>mx\<close> bytes.\<close>

definition packets_needed :: "nat \<Rightarrow> u8 list \<Rightarrow> nat" where
  "packets_needed mx data = max 1 ((length data + mx - 1) div mx)"

definition is_message :: "nat \<Rightarrow> DataPacket list \<Rightarrow> u8 list \<Rightarrow> bool" where
  "is_message mx ps data \<longleftrightarrow> length ps = packets_needed mx data \<and> concat (map dp_payload ps) = data
     \<and> map (\<lambda>p. flags_contain (dp_message_loc p) PL_FIRST) ps = True # replicate (length ps - 1) False
     \<and> map (\<lambda>p. flags_contain (dp_message_loc p) PL_LAST) ps = replicate (length ps - 1) False @ [True]"

lemma is_message_nonempty: "is_message mx ps data \<Longrightarrow> 0 < length ps"
  by (simp add: is_message_def packets_needed_def)

lemma is_message_marks:
  assumes "is_message mx ps data" "i < length ps"
  shows "flags_contain (dp_message_loc (ps ! i)) PL_FIRST \<longleftrightarrow> i = 0"
    and "flags_contain (dp_message_loc (ps ! i)) PL_LAST \<longleftrightarrow> Suc i = length ps"
proof -
  have "map (\<lambda>p. flags_contain (dp_message_loc p) PL_FIRST) ps ! i = (True # replicate (length ps - 1) False) ! i"
    using assms(1) by (simp add: is_message_def)
  then show "flags_contain (dp_message_loc (ps ! i)) PL_FIRST \<longleftrightarrow> i = 0"
    using assms(2) by (auto simp: nth_Cons split: nat.splits)
  have "map (\<lambda>p. flags_contain (dp_message_loc p) PL_LAST) ps ! i = (replicate (length ps - 1) False @ [True]) ! i"
    using assms(1) by (simp add: is_message_def)
  then show "flags_contain (dp_message_loc (ps ! i)) PL_LAST \<longleftrightarrow> Suc i = length ps"
    using assms(2) by (auto simp: nth_append split: if_splits)
qed

text \<open>A stretch of the log that starts with a first packet and ends with the next last packet is one
  whole message.\<close>

lemma message_stretch:
  assumes "list_all2 (is_message mx) Ps M" "a + k \<le> length (concat Ps)" "0 < k"
    "flags_contain (dp_message_loc (concat Ps ! a)) PL_FIRST"
    "flags_contain (dp_message_loc (concat Ps ! (a + k - 1))) PL_LAST"
    "\<And>i. Suc i < k \<Longrightarrow> \<not> flags_contain (dp_message_loc (concat Ps ! (a + i))) PL_LAST"
  shows "\<exists>m < length Ps. a = length (concat (take m Ps)) \<and> k = length (Ps ! m)"
  using assms
proof (induction arbitrary: a rule: list_all2_induct)
  case (Cons ps Ps data M)
  note marks = is_message_marks [OF Cons.hyps(1)]
  show ?case
  proof (cases "a < length ps")
    case True
    then have "a = 0" using Cons.prems marks(1) by (simp add: nth_append)
    moreover have "k = length ps"
    proof (rule ccontr)
      assume ne: "k \<noteq> length ps"
      show False
      proof (cases "k < length ps")
        case True
        then have "k - 1 < length ps" by simp
        then show False using Cons.prems(2,4) marks(2) [of "k - 1"] \<open>a = 0\<close> True by (simp add: nth_append)
      next
        case False
        then have "flags_contain (dp_message_loc (ps ! (length ps - 1))) PL_LAST"
          using marks(2) [of "length ps - 1"] True by simp
        then show False using Cons.prems(5) [of "length ps - 1"] False ne \<open>a = 0\<close> True by (simp add: nth_append)
      qed
    qed
    ultimately show ?thesis by (intro exI [of _ 0]) simp
  next
    case False
    have "\<exists>m < length Ps. a - length ps = length (concat (take m Ps)) \<and> k = length (Ps ! m)"
    proof (rule Cons.IH)
      show "a - length ps + k \<le> length (concat Ps)" using Cons.prems(1) False by simp
      show "flags_contain (dp_message_loc (concat Ps ! (a - length ps))) PL_FIRST"
        using Cons.prems(3) False by (simp add: nth_append)
      show "flags_contain (dp_message_loc (concat Ps ! (a - length ps + k - 1))) PL_LAST"
        using Cons.prems(2,4) False by (simp add: nth_append split: if_splits)
      show "\<not> flags_contain (dp_message_loc (concat Ps ! (a - length ps + i))) PL_LAST" if "Suc i < k" for i
        using Cons.prems(5) [OF that] False by (simp add: nth_append split: if_splits)
    qed (rule Cons.prems(2))
    then obtain m where "m < length Ps" "a - length ps = length (concat (take m Ps))" "k = length (Ps ! m)" by blast
    then show ?thesis using False by (intro exI [of _ "Suc m"]) simp
  qed
qed simp

lemma concat_take_mono:
  "list_all2 (is_message mx) Ps M \<Longrightarrow> m < n \<Longrightarrow> n \<le> length Ps \<Longrightarrow>
    length (concat (take m Ps)) < length (concat (take n Ps))"
proof (induction n)
  case (Suc n)
  have "take (Suc n) Ps = take n Ps @ [Ps ! n]" using Suc.prems by (simp add: take_Suc_conv_app_nth)
  moreover have "0 < length (Ps ! n)"
    using Suc.prems is_message_nonempty by (metis Suc_le_eq list_all2_nthD)
  ultimately show ?case using Suc by (cases "m = n") auto
qed simp

lemma stretch_payload:
  "list_all2 (is_message mx) Ps M \<Longrightarrow> m < length Ps \<Longrightarrow>
    concat (map dp_payload (take (length (Ps ! m)) (drop (length (concat (take m Ps))) (concat Ps)))) = M ! m"
proof -
  assume a: "list_all2 (is_message mx) Ps M" "m < length Ps"
  have "concat Ps = concat (take m Ps) @ Ps ! m @ concat (drop (Suc m) Ps)"
    using a(2) by (metis append_take_drop_id concat.simps(2) concat_append Cons_nth_drop_Suc)
  moreover have "is_message mx (Ps ! m) (M ! m)" using a by (rule list_all2_nthD)
  ultimately show ?thesis by (simp add: is_message_def)
qed

section \<open>What the receive buffer holds\<close>

text \<open>Position \<open>n\<close> of the receive buffer can only hold a copy of the packet with that number.\<close>

definition w_holds :: "nat \<Rightarrow> DataPacket list \<Rightarrow> Window \<Rightarrow> bool" where
  "w_holds i0 L w \<longleftrightarrow> i0 \<le> w_start w \<and> w_next w \<le> i0 + length L
     \<and> (\<forall>n d. w_got w n = Some d \<longrightarrow> plain d = L ! (n - i0))"

definition rb_holds :: "nat \<Rightarrow> nat \<Rightarrow> DataPacket list \<Rightarrow> nat \<Rightarrow> 's ReceiveBuffer \<Rightarrow> bool" where
  "rb_holds capacity i0 L start rb \<longleftrightarrow> rx_inv capacity (start, rb) \<and> w_holds i0 L (rb_window start rb)"

lemma w_holds_append:
  assumes "w_holds i0 L w" "\<And>n d. w_got w n = Some d \<Longrightarrow> w_start w \<le> n \<and> n < w_next w"
  shows "w_holds i0 (L @ L') w"
proof -
  have "n - i0 < length L" if "w_got w n = Some d" for n d
    using assms(1) assms(2) [OF that] by (auto simp: w_holds_def)
  then show ?thesis using assms(1) by (auto simp: w_holds_def nth_append)
qed

lemma rb_holds_append: "rb_holds capacity i0 L start rb \<Longrightarrow> rb_holds capacity i0 (L @ L') start rb"
  unfolding rb_holds_def by (auto intro!: w_holds_append simp: rb_window_def split: if_splits)

lemma rb_holds_same:
  assumes "rb_holds capacity i0 L start rb" "rx_inv capacity (start, rb')"
    "map data_packet (rb_buffer rb') = map data_packet (rb_buffer rb)"
  shows "rb_holds capacity i0 L start rb'"
proof -
  have len: "length (rb_buffer rb') = length (rb_buffer rb)" using assms(3) by (rule map_eq_imp_length_eq)
  have "data_packet (rb_buffer rb' ! i) = data_packet (rb_buffer rb ! i)" if "i < length (rb_buffer rb)" for i
    using that assms(3) len by (metis nth_map)
  then have "w_got (rb_window start rb') = w_got (rb_window start rb)"
    using len by (auto simp: rb_window_def fun_eq_iff)
  then show ?thesis using assms(1,2) len by (simp add: rb_holds_def w_holds_def rb_window_def)
qed

lemma nak_holds:
  assumes "rb_holds capacity i0 L start rb" "prepare_loss_list rb now mean = (l, rb')"
  shows "rb_holds capacity i0 L start rb'"
  using rb_holds_same [OF assms(1) _ prepare_loss_list_data [OF assms(2)]] sim_nak [OF _ assms(2)] assms(1)
  by (simp add: rb_holds_def)

lemma drop_holds:
  assumes "rb_holds capacity i0 L start rb" "drop_packets rb a b = (c, rb')"
  shows "rb_holds capacity i0 L start rb'"
  using rb_holds_same [OF assms(1) _ drop_packets_data [OF assms(2)]] sim_drop [OF _ assms(2)] assms(1)
  by (simp add: rb_holds_def)

lemma sync_holds:
  assumes "rb_holds capacity i0 L start rb" "rb_synchronize_clock os rb now ts = (adj, rb')"
  shows "rb_holds capacity i0 L start rb'"
proof (rule rb_holds_same [OF assms(1)])
  show "rx_inv capacity (start, rb')" using assms(1) sim_sync [OF _ assms(2)] by (simp add: rb_holds_def)
  show "map data_packet (rb_buffer rb') = map data_packet (rb_buffer rb)"
    using assms(2) by (auto simp: rb_synchronize_clock_def split: prod.splits)
qed

lemma log_position:
  assumes "map dp_seq_number L = seqs_from (seq_of i0) (length L)" "p \<in> set L"
  obtains j where "j < length L" "p = L ! j" "dp_seq_number p = seq_of (i0 + j)"
proof -
  obtain j where j: "j < length L" "p = L ! j" using assms(2) by (auto simp: in_set_conv_nth)
  have "dp_seq_number p = seqs_from (seq_of i0) (length L) ! j" using j assms(1) by (metis nth_map)
  then show thesis using that j by (simp add: seqs_from_def seq_of_add)
qed

lemma push_holds:
  assumes "rb_holds capacity i0 L start rb" "push_packet rb now d = (r, rb')" "plain d \<in> set L"
    "map dp_seq_number L = seqs_from (seq_of i0) (length L)" "length L \<le> 2 ^ 30"
  shows "rb_holds capacity i0 L start rb'"
proof -
  obtain j where j: "j < length L" "plain d = L ! j" "dp_seq_number (plain d) = seq_of (i0 + j)"
    using log_position [OF assms(4,3)] .
  let ?n = "i0 + j" and ?w = "rb_window start rb"
  have inv: "rb_inv rb" "rb_seqno0 rb = seq_of start" and h: "w_holds i0 L ?w" and rx: "rx_inv capacity (start, rb)"
    using assms(1) by (auto simp: rb_holds_def rx_inv_def)
  have d: "dp_seq_number d = seq_of ?n" using j(3) by simp
  have sv: "seq_valid (dp_seq_number d)" using d by simp
  have b: "i0 \<le> start" "start + length (rb_buffer rb) \<le> i0 + length L" using h by (auto simp: w_holds_def rb_window_def)
  have rx': "rx_inv capacity (start, rb')" using sim_push [OF rx sv assms(2)] by blast
  have push: "case w_push (unat (rb_max_buffer_size rb)) ?n d ?w of
      None \<Rightarrow> \<exists>e. push_packet rb now d = (Err e, rb)
    | Some w \<Rightarrow> \<exists>a rb'. push_packet rb now d = (Ok a, rb') \<and> rb_window start rb' = w
        \<and> rb_seqno0 rb' = seq_of start \<and> rb_max_buffer_size rb' = rb_max_buffer_size rb"
    by (rule push_packet_window [OF inv d]) (use b j(1) assms(5) in linarith)+
  have "w_holds i0 L (rb_window start rb')"
  proof (cases "w_push (unat (rb_max_buffer_size rb)) ?n d ?w")
    case None
    then show ?thesis using push assms(2) h by auto
  next
    case (Some w)
    then have "rb_window start rb' = w" using push assms(2) by auto
    moreover have "w = ?w\<lparr>w_next := max (w_next ?w) (Suc ?n), w_got := (w_got ?w)(?n := Some d)\<rparr>"
      using Some by (auto simp: w_push_def split: if_splits)
    ultimately show ?thesis using h j(1,2) by (auto simp: w_holds_def)
  qed
  then show ?thesis using rx' by (simp add: rb_holds_def)
qed

text \<open>The buffer, when it has released a message, has moved over a stretch of the log that is marked as one
  message, and the bytes are the payloads of that stretch.\<close>

definition marked_stretch :: "DataPacket list \<Rightarrow> nat \<Rightarrow> nat \<Rightarrow> bool" where
  "marked_stretch L a k \<longleftrightarrow> a + k \<le> length L \<and> 0 < k \<and> flags_contain (dp_message_loc (L ! a)) PL_FIRST
     \<and> flags_contain (dp_message_loc (L ! (a + k - 1))) PL_LAST
     \<and> (\<forall>i. Suc i < k \<longrightarrow> \<not> flags_contain (dp_message_loc (L ! (a + i))) PL_LAST)"

lemma map_filter_all: "list_all (\<lambda>p. data_packet p \<noteq> None) ps \<Longrightarrow> List.map_filter data_packet ps = map (the \<circ> data_packet) ps"
  by (induction ps) (auto simp: List.map_filter_simps)

lemma complete_message_marks:
  "complete_message ps \<Longrightarrow> bp_is_first (ps ! 0) \<and> bp_is_last (ps ! (length ps - 1)) \<and> list_all (\<lambda>q. \<not> bp_is_last q) (butlast ps)"
  by (cases ps) (auto simp: complete_message_def last_conv_nth split: option.splits)

lemma complete_stretch:
  assumes "rb_holds capacity i0 L start rb" "k \<le> length (rb_buffer rb)" "complete_message (take k (rb_buffer rb))"
  shows "marked_stretch L (start - i0) k
    \<and> message_bytes (take k (rb_buffer rb)) = concat (map dp_payload (take k (drop (start - i0) L)))"
proof -
  let ?bs = "take k (rb_buffer rb)" and ?a = "start - i0"
  have h: "i0 \<le> start" "start + length (rb_buffer rb) \<le> i0 + length L"
    "\<And>n d. w_got (rb_window start rb) n = Some d \<Longrightarrow> plain d = L ! (n - i0)"
    using assms(1) by (auto simp: rb_holds_def w_holds_def rb_window_def)
  have data: "list_all (\<lambda>p. data_packet p \<noteq> None) ?bs" using assms(3) by (rule complete_message_data)
  have len: "length ?bs = k" using assms(2) by simp
  have k: "0 < k" using assms(3) by (cases k) (auto simp: complete_message_def)
  have nth: "\<exists>d. ?bs ! i = BP_Received d \<and> plain d = L ! (?a + i)" if "i < k" for i
  proof -
    note i = that
    have "data_packet (?bs ! i) \<noteq> None" using data i len unfolding list_all_length by metis
    then obtain d where "data_packet (?bs ! i) = Some d" by blast
    then have "?bs ! i = BP_Received d" "w_got (rb_window start rb) (start + i) = Some d"
      using i assms(2) by (auto simp: data_packet_eq_Some rb_window_def)
    then show ?thesis using h(1) h(3) [of "start + i" d] by auto
  qed
  have last: "bp_is_last (?bs ! i) \<longleftrightarrow> flags_contain (dp_message_loc (L ! (?a + i))) PL_LAST" if "i < k" for i
    using nth [OF that] by (auto simp: bp_is_last_def) (metis plain_fields(4))+
  have c: "bp_is_first (?bs ! 0)" "bp_is_last (?bs ! (k - 1))" "list_all (\<lambda>q. \<not> bp_is_last q) (butlast ?bs)"
    using complete_message_marks [OF assms(3)] len by auto
  have "flags_contain (dp_message_loc (L ! ?a)) PL_FIRST"
    using nth [OF k] c(1) by auto (metis plain_fields(4))
  moreover have "flags_contain (dp_message_loc (L ! (?a + k - 1))) PL_LAST"
    using last [of "k - 1"] c(2) k by (simp add: add_diff_assoc2)
  moreover have "\<not> flags_contain (dp_message_loc (L ! (?a + i))) PL_LAST" if "Suc i < k" for i
    using c(3) last [of i] that len by (simp add: list_all_length nth_butlast)
  ultimately have m: "marked_stretch L ?a k"
    using h(1,2) assms(2) k by (auto simp: marked_stretch_def)
  have "map dp_payload (map (the \<circ> data_packet) ?bs) = map dp_payload (take k (drop ?a L))"
  proof (rule nth_equalityI)
    show l: "length (map dp_payload (map (the \<circ> data_packet) ?bs)) = length (map dp_payload (take k (drop ?a L)))"
      using m len by (auto simp: marked_stretch_def)
    fix i assume "i < length (map dp_payload (map (the \<circ> data_packet) ?bs))"
    then have i: "i < k" using len by simp
    then obtain d where d: "?bs ! i = BP_Received d" "plain d = L ! (?a + i)" using nth by blast
    have "dp_payload d = dp_payload (L ! (?a + i))" using d(2) by (metis plain_fields(3))
    then show "map dp_payload (map (the \<circ> data_packet) ?bs) ! i = map dp_payload (take k (drop ?a L)) ! i"
      using i d(1) l len m by (auto simp: marked_stretch_def)
  qed
  then show ?thesis using m by (simp add: message_bytes_def map_filter_all [OF data])
qed

lemma pop_holds:
  assumes "rb_holds capacity i0 L start rb" "i0 + length L < 2 ^ 31" "pop_next_message rb now = (r, rb')"
  shows "\<exists>k. rb_holds capacity i0 L (start + k) rb'
    \<and> (\<forall>t bytes. r = Ok (Some (t, bytes)) \<longrightarrow> marked_stretch L (start - i0) k
        \<and> bytes = concat (map dp_payload (take k (drop (start - i0) L))))"
proof -
  have inv: "rb_inv rb" and rx: "rx_inv capacity (start, rb)" and s: "rb_seqno0 rb = seq_of start"
    and h: "w_holds i0 L (rb_window start rb)"
    using assms(1) by (auto simp: rb_holds_def rx_inv_def)
  have le: "start + length (rb_buffer rb) \<le> i0 + length L" using h by (simp add: w_holds_def rb_window_def)
  have nw: "unat (rb_seqno0 rb) + length (rb_buffer rb) < 2 ^ 31"
    using s le assms(2) by (simp add: unat_seq_of)
  have adv: "rb_holds capacity i0 L (start + k) (rb_advance k (rb\<lparr>rb_remote_clock := c\<rparr>))"
    if "k \<le> length (rb_buffer rb)" for k c
  proof -
    have "rb_holds capacity i0 L start (rb\<lparr>rb_remote_clock := c\<rparr>)"
      by (rule rb_holds_same [OF assms(1)])
        (use rx in \<open>simp_all add: rx_inv_def rb_inv_def rb_aligned_def rb_acked_def\<close>)
    then show ?thesis
      using sim_advance [of capacity start "rb\<lparr>rb_remote_clock := c\<rparr>" k] that
        rb_window_advance [of k "rb\<lparr>rb_remote_clock := c\<rparr>" start]
      by (auto simp: rb_holds_def w_holds_def w_advance_def split: if_splits)
  qed
  show ?thesis
  proof (rule pop_cases [OF inv, of now])
    assume "pop_next_message rb now = (Ok None, rb)"
    then show ?thesis using assms(1,3) by (intro exI [of _ 0]) simp
  next
    fix k ts t clock
    assume k: "k \<le> length (rb_buffer rb)" "complete_message (take k (rb_buffer rb))"
      and p: "pop_next_message rb now =
        (Ok (Some (t, message_bytes (take k (rb_buffer rb)))), rb_advance k (rb\<lparr>rb_remote_clock := clock\<rparr>))"
    show ?thesis
      using adv [OF k(1), of clock] complete_stretch [OF assms(1) k] p assms(3) by (intro exI [of _ k]) auto
  next
    fix j d delay rb''
    assume j: "j < length (too_late_packets rb now)" and p: "pop_next_message rb now =
      (Err \<lparr>me_too_late_packets = (rb_seqno0 rb, seq_add (rb_seqno0 rb) (of_nat (Suc j))), me_delay = delay\<rparr>, rb'')"
      and a: "unat (rb_seqno0 rb) + Suc j < 2 ^ 31 \<longrightarrow> rb'' = rb_advance (Suc j) rb"
    have l: "Suc j \<le> length (rb_buffer rb)" using j too_late_prefix [of rb now] by auto
    then have "rb'' = rb_advance (Suc j) rb" using a nw by simp
    with adv [OF l, of "rb_remote_clock rb"] p assms(3) show ?thesis
      by (intro exI [of _ "Suc j"]) (simp del: of_nat_Suc)
  qed
qed

section \<open>The handlers of the receiver\<close>

definition rv_holds :: "nat \<Rightarrow> nat \<Rightarrow> DataPacket list \<Rightarrow> nat \<Rightarrow> 's Receiver \<Rightarrow> bool" where
  "rv_holds capacity i0 L start rv \<longleftrightarrow> rv_decryption rv = None
     \<and> rb_holds capacity i0 L start (arq_receive_buffer (rv_arq rv))"

lemma rx_sync_holds:
  assumes "rv_holds capacity i0 L start (rc_receiver c)"
  shows "rv_holds capacity i0 L start (rc_receiver (rx_synchronize_clock rops c now ts))"
proof -
  obtain adj rb where "rb_synchronize_clock (rxo_stats rops) (arq_receive_buffer (rv_arq (rc_receiver c))) now ts = (adj, rb)"
    by (metis prod.exhaust)
  then show ?thesis
    using assms sync_holds by (fastforce simp: rx_synchronize_clock_def arq_synchronize_clock_def rv_holds_def
        rc_with_arq_def Let_def)
qed

lemma arq_data_buffer:
  "arq_receive_buffer (snd (arq_handle_data_packet ao arq now d)) = snd (push_packet (arq_receive_buffer arq) now d)"
  by (simp add: arq_handle_data_packet_def update_link_estimates_def arq_next_light_ack_def Let_def split_beta
      split: outcome.split DataPacketAction.split option.split)

lemma rx_data_holds:
  assumes "rx_handle_data_packet rops c now d = ret c'" "rv_holds capacity i0 L start (rc_receiver c)"
    "plain d \<in> set L" "map dp_seq_number L = seqs_from (seq_of i0) (length L)" "length L \<le> 2 ^ 30"
  shows "rv_holds capacity i0 L start (rc_receiver c')"
proof -
  let ?c = "c\<lparr>rc_stats := (rc_stats c)\<lparr>stat_rx_data := stat_rx_data (rc_stats c) + 1,
    stat_rx_bytes := stat_rx_bytes (rc_stats c) + of_nat (data_wire_size d)\<rparr>\<rparr>"
  obtain r c1 where r: "rx_accept_data rops ?c now d = (r, c1)" by (metis prod.exhaust)
  have h: "rv_decryption (rc_receiver c) = None" "rb_holds capacity i0 L start (arq_receive_buffer (rv_arq (rc_receiver c)))"
    using assms(2) by (auto simp: rv_holds_def)
  have "rb_holds capacity i0 L start (snd (push_packet (arq_receive_buffer (rv_arq (rc_receiver c))) now d))"
    by (rule push_holds [OF h(2) _ assms(3-5)]) (rule prod.collapse [symmetric])
  then have "rv_holds capacity i0 L start (rc_receiver (snd (rx_accept_data rops ?c now d)))"
    using h by (simp add: rx_accept_data_def decryption_decrypt_def rv_holds_def rc_with_arq_def Let_def split_beta
        arq_data_buffer split: DataEncryption.split)
  then have "rv_holds capacity i0 L start (rc_receiver c1)" using r by simp
  then show ?thesis
    using assms(1) r by (cases r) (auto simp: rx_handle_data_packet_def rc_send_control_def Let_def
        split: DataPacketAction.splits)
qed

lemma rx_ack2_holds:
  "rx_handle_ack2_packet c now n = ret c' \<Longrightarrow> rv_holds capacity i0 L start (rc_receiver c) \<Longrightarrow>
    rv_holds capacity i0 L start (rc_receiver c')"
  by (auto simp: rx_handle_ack2_packet_def arq_handle_ack2_packet_def rv_holds_def rc_with_arq_def Let_def split_beta
      run_bind_ret_iff split: option.splits)

lemma rx_drop_holds:
  assumes "rx_handle_drop_request c now a b = ret c'" "rv_holds capacity i0 L start (rc_receiver c)"
  shows "rv_holds capacity i0 L start (rc_receiver c')"
proof -
  obtain r rb where r: "drop_packets (arq_receive_buffer (rv_arq (rc_receiver c))) a (seq_add b 1) = (r, rb)"
    by (metis prod.exhaust)
  have "rb_holds capacity i0 L start rb" using assms(2) drop_holds [OF _ r] by (simp add: rv_holds_def)
  moreover obtain n where "r = Ok n"
    using assms(1) r by (cases r) (simp_all add: rx_handle_drop_request_def arq_handle_drop_request_def run_bind_def)
  ultimately show ?thesis
    using assms r
    by (cases "0 < n") (auto simp: rx_handle_drop_request_def arq_handle_drop_request_def rv_holds_def rc_with_arq_def)
qed

lemma rx_key_holds:
  "rx_handle_key_refresh_request rops c now km = ret c' \<Longrightarrow> rv_holds capacity i0 L start (rc_receiver c) \<Longrightarrow>
    rv_holds capacity i0 L start (rc_receiver c')"
  by (auto simp: rx_handle_key_refresh_request_def refresh_key_material_def rv_holds_def)

lemma full_ack_buffer: "arq_receive_buffer (snd (arq_on_full_ack_event ao arq now)) = arq_receive_buffer arq"
  by (simp add: arq_on_full_ack_event_def Let_def split: prod.split outcome.split option.split)

lemma rx_ack_holds:
  "rx_on_full_ack_event rops c now = ret c' \<Longrightarrow> rv_holds capacity i0 L start (rc_receiver c) \<Longrightarrow>
    rv_holds capacity i0 L start (rc_receiver c')"
  by (auto simp: rx_on_full_ack_event_def rv_holds_def rc_with_arq_def rc_send_control_def Let_def split_beta
      run_bind_ret_iff full_ack_buffer split: option.splits)

lemma rx_nak_holds:
  assumes "rx_on_nak_event c now = ret c'" "rv_holds capacity i0 L start (rc_receiver c)"
  shows "rv_holds capacity i0 L start (rc_receiver c')"
proof -
  obtain r rb where r: "prepare_loss_list (arq_receive_buffer (rv_arq (rc_receiver c))) now
      (rtt_mean (arq_rtt (rv_arq (rc_receiver c)))) = (r, rb)"
    by (metis prod.exhaust)
  have "rb_holds capacity i0 L start rb" using assms(2) nak_holds [OF _ r] by (simp add: rv_holds_def)
  then show ?thesis
    using assms r
    by (auto simp: rx_on_nak_event_def arq_on_nak_event_def rv_holds_def rc_with_arq_def rc_send_control_def
        Let_def run_bind_ret_iff split: option.splits)
qed

section \<open>The sender does not close the connection\<close>

lemma tx_data_packet_status:
  assumes "tx_handle_data_packet ops rnd now p acc = ret acc'"
  shows "sc_status (fst acc') = sc_status (fst acc)"
proof -
  obtain c n b where acc: "acc = (c, n, b)" by (cases acc)
  obtain r e where r: "encryption_encrypt (txo_crypto ops) rnd (sn_encryption (sc_sender c)) p = Ok (r, e)"
    using assms by (auto simp: tx_handle_data_packet_def acc run_bind_ret_iff)
  show ?thesis
  proof (cases r)
    case None
    then show ?thesis using assms r by (auto simp: tx_handle_data_packet_def acc)
  next
    case (Some x)
    then obtain k p' km where x: "r = Some (k, p', km)" by (cases x) auto
    obtain q b' where q: "push_data (sn_send_buffer (sc_sender c)) p' = (q, b')" by (metis prod.exhaust)
    show ?thesis
      using assms r x q
      by (cases "0 < k"; cases q; cases km)
        (auto simp: tx_handle_data_packet_def acc Let_def sc_with_buffer_def sc_send_control_def)
  qed
qed

lemma tx_handle_data_status:
  assumes "tx_handle_data ops rnd c now item = ret c'"
  shows "sc_status c' = sc_status c"
proof -
  obtain t data where item: "item = (t, data)" by (cases item)
  obtain ps e where enc: "encapsulate (sn_encapsulation (sc_sender c)) (tb_timestamp_from (sn_time_base (sc_sender c)) t) data
      = Some (ps, e)"
    using assms by (auto simp: tx_handle_data_def item Let_def split: option.splits)
  let ?c = "c\<lparr>sc_sender := (sc_sender c)\<lparr>sn_encapsulation := e\<rparr>\<rparr>"
  obtain acc where f: "run_fold (\<lambda>p. tx_handle_data_packet ops (rnd (dp_seq_number p)) now p) ps (?c, 0, 0) = ret acc"
    and r: "(\<lambda>(self, packets, bytes).
        let (snd_period, cc) = on_input (sn_congestion_control (sc_sender self)) now packets bytes;
            self = self\<lparr>sc_sender := (sc_sender self)\<lparr>sn_congestion_control := cc\<rparr>\<rparr> in
        run_bind (Some snd_period) (\<lambda>snd_period.
        ret (case snd_period of
               Some p \<Rightarrow> self\<lparr>sc_timers := update_snd_period (sc_timers self) p\<rparr> | None \<Rightarrow> self))) acc = ret c'"
    using assms unfolding tx_handle_data_def item
    by (simp only: Let_def prod.case enc option.case run_bind_ret_iff) blast
  have "sc_status (fst acc) = sc_status c"
    by (rule run_fold_keeps [where P = "\<lambda>a. sc_status (fst a) = sc_status c", OF _ _ f])
      (simp_all add: tx_data_packet_status)
  moreover have "sc_status c' = sc_status (fst acc)"
    using r by (cases acc) (auto simp: Let_def split_beta run_bind_ret_iff split: option.splits)
  ultimately show ?thesis by simp
qed

lemma tx_ack_status: "sc_status (tx_handle_ack_packet ops c now ack) = sc_status c"
  by (simp add: tx_handle_ack_packet_def sc_with_buffer_def sc_send_control_def Let_def split_beta
      split: Acknowledgement.split outcome.split option.split)

lemma tx_loss_status: "tx_handle_loss now item c = ret c' \<Longrightarrow> sc_status c' = sc_status c"
  by (cases item; cases "fst item") (auto simp: tx_handle_loss_def sc_send_control_def Let_def run_bind_ret_iff)

lemma tx_nak_status:
  assumes "tx_handle_nak_packet c now nak = ret c'"
  shows "sc_status c' = sc_status c"
proof -
  let ?c = "\<lambda>b. sc_with_buffer b (c\<lparr>sc_stats := (sc_stats c)\<lparr>stat_rx_nak := stat_rx_nak (sc_stats c) + 1\<rparr>\<rparr>)"
  obtain losses b where f: "run_fold (tx_handle_loss now) losses (?c b) = ret c'"
    using assms by (auto simp: tx_handle_nak_packet_def run_bind_ret_iff Let_def)
  show ?thesis
  proof (rule run_fold_keeps [where P = "\<lambda>d. sc_status d = sc_status c", OF _ _ f])
    show "sc_status d' = sc_status c" if "sc_status d = sc_status c" "tx_handle_loss now item d = ret d'" for item d d'
      using tx_loss_status [OF that(2)] that(1) by simp
  qed (simp add: sc_with_buffer_def)
qed

lemma tx_key_status: "sc_status (tx_handle_key_refresh_response c km) = sc_status c"
  by (simp add: tx_handle_key_refresh_response_def)

lemma tx_snd_status:
  assumes "tx_on_snd_event ops c now n = ret c'"
  shows "sc_status c' = sc_status c"
proof -
  have "sc_status (fold (tx_action now) actions d) = sc_status d" for actions and d :: "'a SenderContext"
  proof (induction actions arbitrary: d)
    case (Cons a actions)
    then show ?case by (cases a) auto
  qed simp
  then show ?thesis
    using assms by (auto simp: tx_on_snd_event_def Let_def run_bind_ret_iff sc_with_buffer_def split: option.splits)
qed

section \<open>The connection as receiver\<close>

text \<open>What handling an input does to the receiver: a closed connection stays closed, and the receive buffer
  keeps to the log.\<close>

definition rx_kept :: "nat \<Rightarrow> nat \<Rightarrow> DataPacket list \<Rightarrow> nat \<Rightarrow> ('s, 'q) DuplexConnection \<Rightarrow> ('s, 'q) DuplexConnection \<Rightarrow> bool" where
  "rx_kept capacity i0 L start dc dc' \<longleftrightarrow>
     (status_is_closed (dc_status dc) \<longrightarrow> status_is_closed (dc_status dc'))
     \<and> (rv_holds capacity i0 L start (dc_receiver dc) \<longrightarrow> rv_holds capacity i0 L start (dc_receiver dc'))"

lemma rx_kept_trans: "rx_kept capacity i0 L start a b \<Longrightarrow> rx_kept capacity i0 L start b c \<Longrightarrow> rx_kept capacity i0 L start a c"
  by (simp add: rx_kept_def)

lemma rx_kept_update [simp]:
  "rx_kept capacity i0 L start dc dc"
  "rx_kept capacity i0 L start (dc\<lparr>dc_timers := t\<rparr>) dc' = rx_kept capacity i0 L start dc dc'"
  "rx_kept capacity i0 L start (dc\<lparr>dc_stats := s\<rparr>) dc' = rx_kept capacity i0 L start dc dc'"
  "rx_kept capacity i0 L start dc (dc_send_control dc now c)"
  by (simp_all add: rx_kept_def dc_send_control_def)

lemma run_sender_kept:
  assumes "run_sender dc f = ret dc'" "\<And>c'. f (sender_context dc) = ret c' \<Longrightarrow> sc_status c' = sc_status (sender_context dc)"
  shows "rx_kept capacity i0 L start dc dc'"
  using assms by (auto simp: run_sender_def run_bind_ret_iff with_sender_def rx_kept_def sender_context_def)

lemma run_receiver_kept:
  assumes "run_receiver dc f = ret dc'"
    "\<And>c'. f (receiver_context dc) = ret c' \<Longrightarrow> rv_holds capacity i0 L start (rc_receiver (receiver_context dc)) \<Longrightarrow>
      rv_holds capacity i0 L start (rc_receiver c')"
  shows "rx_kept capacity i0 L start dc dc'"
  using assms by (auto simp: run_receiver_def run_bind_ret_iff with_receiver_def rx_kept_def receiver_context_def)

lemma sender_kept:
  "run_sender dc (\<lambda>c. ret (tx_handle_ack_packet tops c now ack)) = ret dc' \<Longrightarrow> rx_kept capacity i0 L start dc dc'"
  "run_sender dc (\<lambda>c. tx_handle_nak_packet c now nak) = ret dc' \<Longrightarrow> rx_kept capacity i0 L start dc dc'"
  "run_sender dc (\<lambda>c. ret (tx_handle_key_refresh_response c km)) = ret dc' \<Longrightarrow> rx_kept capacity i0 L start dc dc'"
  "run_sender dc (\<lambda>c. tx_on_snd_event tops c now k) = ret dc' \<Longrightarrow> rx_kept capacity i0 L start dc dc'"
  "run_sender dc (\<lambda>c. tx_handle_data tops rnd c now item) = ret dc' \<Longrightarrow> rx_kept capacity i0 L start dc dc'"
  by (erule run_sender_kept; auto simp: tx_ack_status tx_nak_status tx_key_status tx_snd_status tx_handle_data_status)+

lemma receiver_kept:
  "run_receiver dc (\<lambda>c. ret (rx_synchronize_clock rops c now ts)) = ret dc' \<Longrightarrow> rx_kept capacity i0 L start dc dc'"
  "run_receiver dc (\<lambda>c. rx_handle_ack2_packet c now n) = ret dc' \<Longrightarrow> rx_kept capacity i0 L start dc dc'"
  "run_receiver dc (\<lambda>c. rx_handle_drop_request c now a b) = ret dc' \<Longrightarrow> rx_kept capacity i0 L start dc dc'"
  "run_receiver dc (\<lambda>c. rx_handle_key_refresh_request rops c now km) = ret dc' \<Longrightarrow> rx_kept capacity i0 L start dc dc'"
  "run_receiver dc (\<lambda>c. rx_on_full_ack_event rops c now) = ret dc' \<Longrightarrow> rx_kept capacity i0 L start dc dc'"
  "run_receiver dc (\<lambda>c. rx_on_nak_event c now) = ret dc' \<Longrightarrow> rx_kept capacity i0 L start dc dc'"
  by (erule run_receiver_kept; auto simp: rx_sync_holds rx_ack2_holds rx_drop_holds rx_key_holds rx_ack_holds rx_nak_holds)+

lemma closed_forward: "status_step s t \<Longrightarrow> status_is_closed s \<Longrightarrow> status_is_closed t"
  by (drule status_step_forward) (cases "st_connection t"; auto simp: status_le_def status_is_closed_def)

lemma status_kept: "status_step (dc_status dc) t \<Longrightarrow> rx_kept capacity i0 L start dc (dc\<lparr>dc_status := t\<rparr>)"
  by (auto simp: rx_kept_def dest: closed_forward)

lemma handle_control_kept:
  assumes "handle_control_packet ops dc now control = ret dc'"
  shows "rx_kept capacity i0 L start dc dc'"
proof -
  obtain d where d: "run_receiver dc (\<lambda>c. ret (rx_synchronize_clock (co_rx ops) c now (cp_timestamp control))) = ret d"
    using assms unfolding handle_control_packet_def by (auto elim: run_bindE)
  have "rx_kept capacity i0 L start d dc'"
    using assms d
    by (cases "cp_control_type control")
      (auto simp: handle_control_packet_def handle_handshake_packet_def handle_srt_control_packet_def
        intro: status_kept ss_shutdown dest: sender_kept receiver_kept split: option.splits SrtControlPacket.splits)
  then show ?thesis using receiver_kept(1) [OF d] rx_kept_trans by blast
qed

lemma handle_packet_kept:
  assumes "handle_packet ops dc now packet from = ret dc'"
    "map dp_seq_number L = seqs_from (seq_of i0) (length L)" "length L \<le> 2 ^ 30"
    "\<And>d. packet = Pkt_Data d \<Longrightarrow> plain d \<in> set L"
  shows "rx_kept capacity i0 L start dc dc'"
proof (cases "from \<noteq> cs_remote (dc_settings dc) \<or> cs_local_sockid (dc_settings dc) \<noteq> packet_dest_sockid packet")
  case True
  then show ?thesis
    using assms(1) by (cases "from = cs_remote (dc_settings dc)") (simp_all add: handle_packet_def)
next
  case False
  then obtain st where r: "(case packet of
      Pkt_Data data \<Rightarrow> run_receiver (dc\<lparr>dc_timers := reset_exp (dc_timers dc) now, dc_stats := st\<rparr>)
        (\<lambda>c. rx_handle_data_packet (co_rx ops) c now data)
    | Pkt_Control control \<Rightarrow>
        handle_control_packet ops (dc\<lparr>dc_timers := reset_exp (dc_timers dc) now, dc_stats := st\<rparr>) now control) = ret dc'"
    using assms(1) by (auto simp: handle_packet_def Let_def run_bind_ret_iff)
  have "rx_kept capacity i0 L start (dc\<lparr>dc_timers := reset_exp (dc_timers dc) now, dc_stats := st\<rparr>) dc'"
  proof (cases packet)
    case (Pkt_Data d)
    with r have "run_receiver (dc\<lparr>dc_timers := reset_exp (dc_timers dc) now, dc_stats := st\<rparr>)
        (\<lambda>c. rx_handle_data_packet (co_rx ops) c now d) = ret dc'" by simp
    then show ?thesis
      by (rule run_receiver_kept) (erule rx_data_holds, assumption, rule assms(4) [OF Pkt_Data], rule assms(2), rule assms(3))
  next
    case (Pkt_Control c)
    with r show ?thesis by (intro handle_control_kept) simp
  qed
  then show ?thesis by simp
qed

lemma handle_input_kept:
  assumes "handle_input ops rnd dc now input = ret (action, dc')"
    "map dp_seq_number L = seqs_from (seq_of i0) (length L)" "length L \<le> 2 ^ 30"
    "\<And>d from. input = In_Packet (Inr (Pkt_Data d, from)) \<Longrightarrow> plain d \<in> set L"
  obtains d1 where "rx_kept capacity i0 L start dc d1" "next_action ops d1 now = ret (action, dc')"
proof -
  obtain d1 where d1: "(case input of In_Data data \<Rightarrow> handle_data_input ops rnd dc now data
      | In_Packet packet \<Rightarrow> handle_packet_input ops dc now packet | _ \<Rightarrow> ret dc) = ret d1"
    "next_action ops d1 now = ret (action, dc')"
    using assms(1) unfolding handle_input_def by (rule run_bindE)
  have "rx_kept capacity i0 L start dc d1"
  proof (cases input)
    case (In_Data data)
    then show ?thesis using d1(1)
      by (cases data) (auto simp: handle_data_input_def handle_data_stream_close_def
          intro: sender_kept(5) status_kept ss_data_closed)
  next
    case (In_Packet packet)
    show ?thesis
    proof (cases packet)
      case (Inl err)
      then show ?thesis using d1(1) In_Packet
        by (cases err) (auto simp: handle_packet_input_def handle_socket_close_def intro: status_kept ss_socket_closed)
    next
      case (Inr pa)
      obtain p addr where "packet = Inr (p, addr)" using Inr by (cases pa) simp
      then show ?thesis
        using d1(1) In_Packet handle_packet_kept [OF _ assms(2,3), of ops dc now p addr d1] assms(4)
        by (auto simp: handle_packet_input_def)
    qed
  qed (use d1(1) in simp_all)
  then show thesis using that d1(2) by blast
qed

text \<open>The timers: either the connection is closed by its end, with the receive buffer emptied or not, or
  the receiver keeps what it has.\<close>

lemma check_timers_kept:
  assumes "check_timers ops dc now = ret dc'" "rv_holds capacity i0 L start (dc_receiver dc)"
  shows "rv_holds capacity i0 L start (dc_receiver dc')
    \<or> status_is_closed (dc_status dc') \<and> rb_buffer (arq_receive_buffer (rv_arq (dc_receiver dc'))) = []"
proof -
  obtain d1 d2 d3 where d: "check_ack_timer ops now dc = ret d1" "check_nak_timer now d1 = ret d2"
    "check_snd_timer ops now (check_peer_idle_timer now d2) = ret d3" "dc' = check_close now d3"
    using assms(1) by (auto simp: check_timers_def run_bind_ret_iff)
  have 1: "rx_kept capacity i0 L start dc d1"
    using d(1) by (auto simp: check_ack_timer_def split_beta Let_def rx_kept_def
        dest!: receiver_kept(5) [where capacity = capacity and ?i0.0 = i0 and L = L and start = start] split: if_splits)
  have 2: "rx_kept capacity i0 L start d1 d2"
    using d(2) by (auto simp: check_nak_timer_def split_beta Let_def rx_kept_def
        dest!: receiver_kept(6) [where capacity = capacity and ?i0.0 = i0 and L = L and start = start] split: if_splits)
  have 3: "dc_receiver d3 = dc_receiver d2"
    using d(3) by (auto simp: check_snd_timer_def check_peer_idle_timer_def dc_on_peer_idle_timeout_def
        dc_send_control_def split_beta Let_def run_sender_def with_sender_def run_bind_ret_iff split: option.splits if_splits)
  have h: "rv_holds capacity i0 L start (dc_receiver d3)" using 1 2 3 assms(2) by (simp add: rx_kept_def)
  obtain x st where x: "check_receive_close_timeout (dc_status d3) now (receiver_is_flushed (dc_receiver d3)) = (x, st)"
    by (metis prod.exhaust)
  show ?thesis
  proof (cases x)
    case True
    then have "st_connection st = St_Closed"
      using x by (auto simp: check_receive_close_timeout_def split: Status.splits if_splits)
    then have "status_is_closed (snd (check_sender_shutdown st now a b c))" for a b c
      using closed_forward [OF ss_sender] by (simp add: status_is_closed_def)
    then show ?thesis
      using True x unfolding d(4)
      by (simp add: check_close_def split_beta Let_def with_receiver_def dc_send_control_def rx_on_close_timeout_def
          rc_with_arq_def arq_clear_def rb_clear_def receiver_context_def)
  next
    case False
    then show ?thesis
      using h x unfolding d(4) by (simp add: check_close_def split_beta Let_def dc_send_control_def)
  qed
qed

lemma pop_empty: "rb_buffer rb = [] \<Longrightarrow> pop_next_message rb now = (Ok None, rb)"
  by (simp add: pop_next_message_def front_ts_def drop_too_late_packets_def too_late_packets_def)

lemma next_packet_receiver:
  "next_packet dc = ret (p, dc') \<Longrightarrow> dc_receiver dc' = dc_receiver dc \<and> dc_status dc' = dc_status dc"
  by (auto simp: next_packet_def Let_def run_bind_ret_iff split: prod.splits option.splits)

lemma next_data_kept:
  assumes "next_data dc now = ret (x, dc')" "i0 + length L < 2 ^ 31"
    "rv_holds capacity i0 L start (dc_receiver dc)
     \<or> status_is_closed (dc_status dc) \<and> rb_buffer (arq_receive_buffer (rv_arq (dc_receiver dc))) = []"
  shows "status_is_closed (dc_status dc') \<and> x = None
    \<or> (\<exists>k. rv_holds capacity i0 L (start + k) (dc_receiver dc')
        \<and> (\<forall>t bytes. x = Some (t, bytes) \<longrightarrow> marked_stretch L (start - i0) k
            \<and> bytes = concat (map dp_payload (take k (drop (start - i0) L)))))"
proof -
  let ?rb = "arq_receive_buffer (rv_arq (dc_receiver dc))"
  obtain r rb where r: "pop_next_message ?rb now = (r, rb)" by (metis prod.exhaust)
  have dc': "dc_status dc' = dc_status dc" "rv_decryption (dc_receiver dc') = rv_decryption (dc_receiver dc)"
    "arq_receive_buffer (rv_arq (dc_receiver dc')) = rb" and x: "\<And>y. x = Some y \<Longrightarrow> r = Ok (Some y)"
    using assms(1) r by (auto simp: next_data_def arq_pop_next_message_def Let_def split: outcome.splits)
  from assms(3) show ?thesis
  proof
    assume "rv_holds capacity i0 L start (dc_receiver dc)"
    then show ?thesis
      using pop_holds [OF _ assms(2) r, of capacity start] dc' x by (auto simp: rv_holds_def)
  next
    assume e: "status_is_closed (dc_status dc) \<and> rb_buffer ?rb = []"
    then have "r = Ok None" using pop_empty [of ?rb now] r by simp
    then have "x = None" using x by (cases x) auto
    then show ?thesis using dc' e by simp
  qed
qed

text \<open>The answer of a connection that receives: when it releases a message, it is the next marked
  stretch of the log.\<close>

definition rx_answer :: "nat \<Rightarrow> nat \<Rightarrow> DataPacket list \<Rightarrow> nat \<Rightarrow> Action \<Rightarrow> ('s, 'q) DuplexConnection \<Rightarrow> bool" where
  "rx_answer capacity i0 L start action dc \<longleftrightarrow>
     status_is_closed (dc_status dc) \<and> (\<forall>t bytes. action \<noteq> ReleaseData t bytes)
     \<or> (\<exists>k. rv_holds capacity i0 L (start + k) (dc_receiver dc)
        \<and> (\<forall>t bytes. action = ReleaseData t bytes \<longrightarrow> marked_stretch L (start - i0) k
            \<and> bytes = concat (map dp_payload (take k (drop (start - i0) L)))))"

lemma next_action_answer:
  assumes "next_action ops dc now = ret (action, dc')" "i0 + length L < 2 ^ 31"
    "status_is_closed (dc_status dc) \<or> rv_holds capacity i0 L start (dc_receiver dc)"
  shows "rx_answer capacity i0 L start action dc'"
proof (cases "dc_is_open dc")
  case False
  then show ?thesis using assms(1)
    by (auto simp: next_action_def rx_answer_def dc_is_open_def status_is_open_def)
next
  case True
  then have h: "rv_holds capacity i0 L start (dc_receiver dc)"
    using assms(3) by (simp add: dc_is_open_def status_is_open_def)
  obtain d1 where d1: "check_timers ops dc now = ret d1"
    using assms(1) True by (auto simp: next_action_def run_bind_ret_iff)
  note k = check_timers_kept [OF d1 h]
  obtain x tm where x: "check_statistics (dc_timers d1) now = (x, tm)" by (metis prod.exhaust)
  show ?thesis
  proof (cases "x = None")
    case False
    then have "dc_status dc' = dc_status d1" "dc_receiver dc' = dc_receiver d1" "\<And>t bytes. action \<noteq> ReleaseData t bytes"
      using assms(1) True d1 x by (auto simp: next_action_def dc_update_statistics_def Let_def)
    then show ?thesis using k by (auto simp: rx_answer_def intro: exI [of _ 0])
  next
    case none: True
    then obtain p d2 where p: "next_packet (d1\<lparr>dc_timers := tm\<rparr>) = ret (p, d2)"
      using assms(1) True d1(1) x by (auto simp: next_action_def run_bind_ret_iff)
    have d2: "dc_receiver d2 = dc_receiver d1" "dc_status d2 = dc_status d1" using next_packet_receiver [OF p] by auto
    show ?thesis
    proof (cases p)
      case (Some y)
      then have "dc' = d2" "\<And>t bytes. action \<noteq> ReleaseData t bytes"
        using assms(1) True d1 x p none by (auto simp: next_action_def split: prod.splits)
      then show ?thesis using k d2 by (auto simp: rx_answer_def intro: exI [of _ 0])
    next
      case None
      then obtain y where y: "next_data d2 now = ret (y, dc')" "\<And>t bytes. action = ReleaseData t bytes \<Longrightarrow> y = Some (t, bytes)"
        using assms(1) True d1 x p none by (auto simp: next_action_def run_bind_ret_iff split: option.splits)
      show ?thesis
        using next_data_kept [OF y(1) assms(2), of capacity start] k d2 y(2) by (auto simp: rx_answer_def)
    qed
  qed
qed

lemma handle_input_answer:
  assumes "handle_input ops rnd dc now input = ret (action, dc')"
    "map dp_seq_number L = seqs_from (seq_of i0) (length L)" "length L \<le> 2 ^ 30" "i0 + length L < 2 ^ 31"
    "\<And>d from. input = In_Packet (Inr (Pkt_Data d, from)) \<Longrightarrow> plain d \<in> set L"
    "status_is_closed (dc_status dc) \<or> rv_holds capacity i0 L start (dc_receiver dc)"
  shows "rx_answer capacity i0 L start action dc'"
proof -
  obtain d1 where "rx_kept capacity i0 L start dc d1" "next_action ops d1 now = ret (action, dc')"
    using handle_input_kept [OF assms(1-3,5)] .
  then show ?thesis using next_action_answer [OF _ assms(4), of ops d1] assms(6) by (auto simp: rx_kept_def)
qed

section \<open>Two connections and a network\<close>

record ('s, 'q) Link =
  lk_sender :: "('s, 'q) DuplexConnection"
  lk_receiver :: "('s, 'q) DuplexConnection"
  lk_net :: "u8 list set"
  lk_sent :: "u8 list list"
  lk_got :: "u8 list list"

fun sent_bytes :: "Action \<Rightarrow> u8 list set" where
  "sent_bytes (SendPacket p _) = (case packet_serialize p of Ok bs \<Rightarrow> {bs} | _ \<Rightarrow> {})"
| "sent_bytes _ = {}"

fun given :: "Input \<Rightarrow> u8 list list" where
  "given (In_Data (Some (t, data))) = [data]"
| "given _ = []"

fun released :: "Action \<Rightarrow> u8 list list" where
  "released (ReleaseData t bytes) = [bytes]"
| "released _ = []"

text \<open>The sender takes any input, packets of any kind included. The receiver takes any input except
  data packets that nobody sent: the bytes of a data packet are in the network.\<close>

inductive link_step :: "('s, 'q) ConnOps \<Rightarrow> ('s, 'q) Link \<Rightarrow> ('s, 'q) Link \<Rightarrow> bool" for ops where
  link_tx: "handle_input ops rnd (lk_sender s) now input = ret (action, c) \<Longrightarrow>
    link_step ops s (s\<lparr>lk_sender := c, lk_net := lk_net s \<union> sent_bytes action, lk_sent := lk_sent s @ given input\<rparr>)"
| link_rx: "handle_input ops rnd (lk_receiver s) now input = ret (action, c) \<Longrightarrow>
    (\<And>d addr. input = In_Packet (Inr (Pkt_Data d, addr)) \<Longrightarrow>
      \<exists>bs v6. bs \<in> lk_net s \<and> packet_parse bs v6 = Ok (Pkt_Data d)) \<Longrightarrow>
    link_step ops s (s\<lparr>lk_receiver := c, lk_got := lk_got s @ released action\<rparr>)"

text \<open>Both sides start unencrypted and with the same initial sequence number \<open>i0\<close>.\<close>

definition link_init :: "('s, 'q) ConnOps \<Rightarrow> nat \<Rightarrow> nat \<Rightarrow> nat \<Rightarrow> ('s, 'q) Link \<Rightarrow> bool" where
  "link_init ops i0 mx capacity s \<longleftrightarrow> (\<exists>a b. duplex_new ops a = Ok (lk_sender s) \<and> duplex_new ops b = Ok (lk_receiver s)
     \<and> cs_cipher (cn_settings a) = None \<and> cs_cipher (cn_settings b) = None
     \<and> cs_init_seq_num (cn_settings a) = seq_of i0 \<and> cs_init_seq_num (cn_settings b) = seq_of i0
     \<and> unat (cs_max_packet_size (cn_settings a)) = mx \<and> unat (cs_recv_buffer_size (cn_settings b)) = capacity)
     \<and> 0 < mx \<and> capacity < 2 ^ 30 \<and> lk_net s = {} \<and> lk_sent s = [] \<and> lk_got s = []"

definition link_packets :: "nat \<Rightarrow> ('s, 'q) Link \<Rightarrow> nat" where
  "link_packets mx s = (\<Sum>data \<leftarrow> lk_sent s. packets_needed mx data)"

definition tx_side :: "nat \<Rightarrow> nat \<Rightarrow> DataPacket list list \<Rightarrow> ('s, 'q) Link \<Rightarrow> bool" where
  "tx_side i0 mx Ps s \<longleftrightarrow> list_all2 (is_message mx) Ps (lk_sent s) \<and> 0 < mx
     \<and> map dp_seq_number (concat Ps) = seqs_from (seq_of i0) (length (concat Ps)) \<and> (\<forall>p \<in> set (concat Ps). data_wf p)
     \<and> (\<exists>e. dc_log (set (concat Ps)) e (lk_sender s) \<and> en_next_sequence_number e = seq_of (i0 + length (concat Ps))
          \<and> unat (en_max_packet_size e) = mx \<and> msg_valid (en_next_message_number e))
     \<and> (\<forall>bs v6 d. bs \<in> lk_net s \<longrightarrow> packet_parse bs v6 = Ok (Pkt_Data d) \<longrightarrow> plain d \<in> set (concat Ps))"

definition rx_side :: "nat \<Rightarrow> nat \<Rightarrow> DataPacket list list \<Rightarrow> ('s, 'q) Link \<Rightarrow> bool" where
  "rx_side i0 capacity Ps s \<longleftrightarrow> subseq (lk_got s) (lk_sent s)
     \<and> (status_is_closed (dc_status (lk_receiver s))
        \<or> (\<exists>start m. rv_holds capacity i0 (concat Ps) start (dc_receiver (lk_receiver s)) \<and> m \<le> length Ps
            \<and> subseq (lk_got s) (take m (lk_sent s)) \<and> i0 + length (concat (take m Ps)) \<le> start))"

definition link_inv :: "nat \<Rightarrow> nat \<Rightarrow> nat \<Rightarrow> ('s, 'q) Link \<Rightarrow> bool" where
  "link_inv i0 mx capacity s \<longleftrightarrow> (\<exists>Ps. tx_side i0 mx Ps s
     \<and> (link_packets mx s \<le> 2 ^ 30 \<and> i0 + link_packets mx s < 2 ^ 31 \<longrightarrow> rx_side i0 capacity Ps s))"

lemma packets_of_log: "list_all2 (is_message mx) Ps M \<Longrightarrow> length (concat Ps) = (\<Sum>data \<leftarrow> M. packets_needed mx data)"
  by (induction rule: list_all2_induct) (auto simp: is_message_def)

lemma sent_data_parsed:
  assumes "bs \<in> sent_bytes action" "packet_parse bs v6 = Ok (Pkt_Data d)"
    "\<And>d addr. action = SendPacket (Pkt_Data d) addr \<Longrightarrow> plain d \<in> S" "\<And>p. p \<in> S \<Longrightarrow> data_wf p"
  shows "plain d \<in> S"
proof -
  obtain p addr where p: "action = SendPacket p addr" "packet_serialize p = Ok bs"
    using assms(1) by (cases action) (auto split: outcome.splits)
  show ?thesis
  proof (cases p)
    case (Pkt_Data d')
    then have "plain d' \<in> S" using p assms(3) by blast
    moreover from this have "data_wf d'" using assms(4) by (fastforce simp: data_wf_def)
    ultimately show ?thesis using data_packet_roundtrip [of d' v6] p(2) assms(2) Pkt_Data by auto
  next
    case (Pkt_Control c)
    then have "control_serialize c = Ok bs" using p(2) by simp
    then obtain body where "bs = be16 (id_byte (cp_control_type c) OR push_bit 15 1) @ body"
      by (auto simp: control_serialize_def map_outcome_ok_Ok_iff)
    then have "\<not> hd bs AND 0x80 = 0" using control_type_word(2) by simp
    then show ?thesis using assms(2) by (auto simp: packet_parse_def map_outcome_ok_Ok_iff split: if_splits)
  qed
qed

lemma splits_is_message:
  assumes "splits mx s msg ts sid True data ps" "0 < mx" "seq_valid s" "msg_valid msg"
  shows "is_message mx (map plain ps) data" "\<forall>p \<in> set ps. data_wf p"
proof -
  show "is_message mx (map plain ps) data"
    using splits_count [OF assms(1,2)] splits_payload [OF assms(1)] splits_marks [OF assms(1)]
    by (simp add: is_message_def packets_needed_def comp_def)
  show "\<forall>p \<in> set ps. data_wf p"
  proof
    fix p assume p: "p \<in> set ps"
    then have "dp_seq_number p \<in> set (seqs_from s (length ps))"
      using splits_payload(3) [OF assms(1)] by (metis image_eqI set_map)
    moreover have "dp_message_number p = msg" "dp_message_loc p \<in> {PL_FIRST, PL_MIDDLE, PL_LAST, PL_ONLY}"
      using assms(1) p by (auto simp: splits_def list_all_iff)
    ultimately show "data_wf p"
      using assms(4) by (auto simp: data_wf_def seqs_from_def PL_FIRST_def PL_MIDDLE_def PL_LAST_def PL_ONLY_def)
  qed
qed

lemma seqs_from_snoc_block:
  "map dp_seq_number L = seqs_from s (length L) \<Longrightarrow> map dp_seq_number ps = seqs_from (seq_add s (of_nat (length L))) (length ps) \<Longrightarrow>
    map dp_seq_number (L @ ps) = seqs_from s (length (L @ ps))"
  by (simp add: seqs_from_append)

lemma msg_add_valid: "msg_valid (msg_add s n)"
  using msg.add_valid [of s n] by (simp add: msg_valid_def)

lemma tx_sideI:
  assumes "list_all2 (is_message mx) Ps (lk_sent s)" "0 < mx"
    "map dp_seq_number (concat Ps) = seqs_from (seq_of i0) (length (concat Ps))" "\<forall>p \<in> set (concat Ps). data_wf p"
    "dc_log (set (concat Ps)) e (lk_sender s)" "en_next_sequence_number e = seq_of (i0 + length (concat Ps))"
    "unat (en_max_packet_size e) = mx" "msg_valid (en_next_message_number e)"
    "\<And>bs v6 d. bs \<in> lk_net s \<Longrightarrow> packet_parse bs v6 = Ok (Pkt_Data d) \<Longrightarrow> plain d \<in> set (concat Ps)"
  shows "tx_side i0 mx Ps s"
  unfolding tx_side_def using assms by blast

lemma tx_side_input:
  assumes "tx_side i0 mx Ps s" "handle_input ops rnd (lk_sender s) now input = ret (action, c)"
  shows "\<exists>Ps'. length Ps' = length (given input) \<and> tx_side i0 mx (Ps @ Ps')
    (s\<lparr>lk_sender := c, lk_net := lk_net s \<union> sent_bytes action, lk_sent := lk_sent s @ given input\<rparr>)"
proof -
  let ?L = "concat Ps"
  obtain e where e: "dc_log (set ?L) e (lk_sender s)" "en_next_sequence_number e = seq_of (i0 + length ?L)"
    "unat (en_max_packet_size e) = mx" "msg_valid (en_next_message_number e)"
    using assms(1) by (auto simp: tx_side_def)
  show ?thesis
  proof (cases "\<exists>t data. input = In_Data (Some (t, data))")
    case True
    then obtain t data where input: "input = In_Data (Some (t, data))" by blast
    let ?ts = "tb_timestamp_from (sn_time_base (dc_sender (lk_sender s))) t"
    have mx: "0 < unat (en_max_packet_size e)" using e(3) assms(1) by (simp add: tx_side_def)
    obtain ps where ps: "encapsulate e ?ts data = Some (ps, e\<lparr>en_next_message_number := msg_add (en_next_message_number e) 1,
        en_next_sequence_number := seq_add (en_next_sequence_number e) (of_nat (length ps))\<rparr>)"
      "splits mx (seq_of (i0 + length ?L)) (en_next_message_number e) ?ts (en_remote_socket_id e) True data ps"
      using encapsulate_splits [OF mx, of ?ts data] e(2,3) by auto
    have m: "is_message mx (map plain ps) data" "\<forall>p \<in> set ps. data_wf p"
      using splits_is_message [OF ps(2)] e(3,4) mx by auto
    let ?P = "Ps @ [map plain ps]" and ?e = "e\<lparr>en_next_message_number := msg_add (en_next_message_number e) 1,
        en_next_sequence_number := seq_add (en_next_sequence_number e) (of_nat (length ps))\<rparr>"
    have r: "dc_log (set (concat ?P)) ?e c"
      "\<forall>d addr. action = SendPacket (Pkt_Data d) addr \<longrightarrow> plain d \<in> set (concat ?P)"
      using handle_input_data_log [OF assms(2) [unfolded input] e(1) ps(1), of "set (concat ?P)"] by auto
    have wf: "\<forall>p \<in> set (concat ?P). data_wf p" using assms(1) m(2) by (auto simp: tx_side_def data_wf_def)
    have net: "plain d \<in> set (concat ?P)" if "bs \<in> lk_net s \<union> sent_bytes action" "packet_parse bs v6 = Ok (Pkt_Data d)" for bs v6 d
      using that assms(1) sent_data_parsed [of bs action v6 d "set (concat ?P)"] r(2) wf by (auto simp: tx_side_def)
    have "map dp_seq_number (map plain ps) = seqs_from (seq_add (seq_of i0) (of_nat (length ?L))) (length (map plain ps))"
      using splits_payload(3) [OF ps(2)] by (simp add: comp_def seq_of_add)
    then have sq: "map dp_seq_number (concat ?P) = seqs_from (seq_of i0) (length (concat ?P))"
      using assms(1) seqs_from_snoc_block [of ?L "seq_of i0" "map plain ps"] by (simp add: tx_side_def)
    have "list_all2 (is_message mx) ?P (lk_sent s @ [data])"
      using assms(1) m(1) by (auto simp: tx_side_def intro!: list_all2_appendI)
    moreover have "en_next_sequence_number ?e = seq_of (i0 + length (concat ?P))"
      using e(2) by (simp add: seq_of_add add.assoc seq.add_add)
    ultimately have "tx_side i0 mx ?P
        (s\<lparr>lk_sender := c, lk_net := lk_net s \<union> sent_bytes action, lk_sent := lk_sent s @ given input\<rparr>)"
      using r(1) wf net sq e(3) assms(1) by (intro tx_sideI [where e = ?e]) (simp_all add: input tx_side_def msg_add_valid)
    then show ?thesis by (intro exI [of _ "[map plain ps]"]) (simp add: input)
  next
    case False
    then have g: "given input = []" by (cases input rule: given.cases) auto
    have r: "dc_log (set ?L) e c" "\<forall>d addr. action = SendPacket (Pkt_Data d) addr \<longrightarrow> plain d \<in> set ?L"
      using handle_input_log [OF assms(2) e(1)] False by fastforce+
    have wf: "\<forall>p \<in> set ?L. data_wf p" using assms(1) by (auto simp: tx_side_def)
    have "plain d \<in> set ?L" if "bs \<in> lk_net s \<union> sent_bytes action" "packet_parse bs v6 = Ok (Pkt_Data d)" for bs v6 d
      using that assms(1) sent_data_parsed [of bs action v6 d "set ?L"] r(2) wf by (auto simp: tx_side_def)
    then show ?thesis
      using r(1) e assms(1) g by (intro exI [of _ "[]"]) (auto simp: tx_side_def)
  qed
qed

lemma rx_side_sent:
  assumes "rx_side i0 capacity Ps s" "length Ps = length (lk_sent s)"
  shows "rx_side i0 capacity (Ps @ Ps') (s\<lparr>lk_sender := c, lk_net := net, lk_sent := lk_sent s @ M\<rparr>)"
proof -
  have "subseq (lk_got s) (lk_sent s @ M)" using assms(1) by (auto simp: rx_side_def)
  moreover have "rv_holds capacity i0 (concat (Ps @ Ps')) start (dc_receiver (lk_receiver s))"
    if "rv_holds capacity i0 (concat Ps) start (dc_receiver (lk_receiver s))" for start
    using that rb_holds_append by (auto simp: rv_holds_def)
  ultimately show ?thesis using assms by (fastforce simp: rx_side_def)
qed

text \<open>The receiver releases the message that starts where its buffer does.\<close>

lemma rx_side_input:
  assumes "tx_side i0 mx Ps s" "rx_side i0 capacity Ps s" "length (concat Ps) \<le> 2 ^ 30" "i0 + length (concat Ps) < 2 ^ 31"
    "handle_input ops rnd (lk_receiver s) now input = ret (action, c)"
    "\<And>d addr. input = In_Packet (Inr (Pkt_Data d, addr)) \<Longrightarrow>
      \<exists>bs v6. bs \<in> lk_net s \<and> packet_parse bs v6 = Ok (Pkt_Data d)"
  shows "rx_side i0 capacity Ps (s\<lparr>lk_receiver := c, lk_got := lk_got s @ released action\<rparr>)"
proof -
  let ?L = "concat Ps" and ?M = "lk_sent s"
  have tx: "list_all2 (is_message mx) Ps ?M" "map dp_seq_number ?L = seqs_from (seq_of i0) (length ?L)"
    using assms(1) by (auto simp: tx_side_def)
  have len: "length Ps = length ?M" using tx(1) by (rule list_all2_lengthD)
  have net: "plain d \<in> set ?L" if "input = In_Packet (Inr (Pkt_Data d, addr))" for d addr
    using assms(1) assms(6) [OF that] by (auto simp: tx_side_def)
  have no_release: "released action = []" if "\<forall>t bytes. action \<noteq> ReleaseData t bytes"
    using that by (cases action) auto
  show ?thesis
  proof (cases "status_is_closed (dc_status (lk_receiver s))")
    case True
    obtain d1 where d1: "rx_kept capacity i0 ?L 0 (lk_receiver s) d1" "next_action ops d1 now = ret (action, c)"
      by (rule handle_input_kept [OF assms(5) tx(2) assms(3)]) (use net in blast)+
    then have "status_is_closed (dc_status c) \<and> action = Close"
      using True by (auto simp: rx_kept_def next_action_def dc_is_open_def status_is_open_def)
    then show ?thesis using assms(2) by (simp add: rx_side_def)
  next
    case False
    then obtain start m where h: "rv_holds capacity i0 ?L start (dc_receiver (lk_receiver s))" "m \<le> length Ps"
      "subseq (lk_got s) (take m ?M)" "i0 + length (concat (take m Ps)) \<le> start"
      using assms(2) by (auto simp: rx_side_def)
    have "rx_answer capacity i0 ?L start action c"
      by (rule handle_input_answer [OF assms(5) tx(2) assms(3,4)]) (use net h(1) in blast)+
    then consider "status_is_closed (dc_status c)" "released action = []"
      | k where "rv_holds capacity i0 ?L (start + k) (dc_receiver c)" "released action = []"
      | k t bytes where "rv_holds capacity i0 ?L (start + k) (dc_receiver c)" "action = ReleaseData t bytes"
          "marked_stretch ?L (start - i0) k" "bytes = concat (map dp_payload (take k (drop (start - i0) ?L)))"
      using no_release unfolding rx_answer_def by (metis)
    then show ?thesis
    proof cases
      case 1
      then show ?thesis using assms(2) by (simp add: rx_side_def)
    next
      case 2
      then show ?thesis using assms(2) h by (fastforce simp: rx_side_def)
    next
      case 3
      obtain j where j: "j < length Ps" "start - i0 = length (concat (take j Ps))" "k = length (Ps ! j)"
        using message_stretch [OF tx(1), of "start - i0" k] 3(3) by (auto simp: marked_stretch_def)
      have "bytes = ?M ! j" using 3(4) stretch_payload [OF tx(1) j(1)] j(2,3) by simp
      have "m \<le> j"
      proof (rule ccontr)
        assume "\<not> m \<le> j"
        then show False using concat_take_mono [OF tx(1), of j m] h(2,4) j(2) by linarith
      qed
      then have "subseq (lk_got s) (take j ?M)"
        using h(3) by (metis le_iff_add prefix_imp_subseq subseq_order.order_trans take_add prefixI)
      then have sub: "subseq (lk_got s @ [bytes]) (take (Suc j) ?M)"
        using j(1) len \<open>bytes = ?M ! j\<close> by (simp add: take_Suc_conv_app_nth list_emb_append_mono)
      then have "subseq (lk_got s @ [bytes]) ?M"
        by (rule subseq_order.order_trans) (simp add: prefix_imp_subseq take_is_prefix)
      moreover have "i0 + length (concat (take (Suc j) Ps)) \<le> start + k"
        using j h(4) by (simp add: take_Suc_conv_app_nth)
      then have "\<exists>start m. rv_holds capacity i0 ?L start (dc_receiver c) \<and> m \<le> length Ps
          \<and> subseq (lk_got s @ [bytes]) (take m ?M) \<and> i0 + length (concat (take m Ps)) \<le> start"
        using 3(1) j(1) sub by (intro exI [of _ "start + k"] exI [of _ "Suc j"]) simp
      ultimately show ?thesis using 3(2) by (simp add: rx_side_def)
    qed
  qed
qed

lemma duplex_new_parts:
  "duplex_new ops c = Ok dc \<Longrightarrow> dc_sender dc = sender_new (co_tx ops) (cn_settings c)
    \<and> dc_output dc = output_new (cn_settings c) \<and> dc_receiver dc = receiver_new (cn_settings c)"
  by (auto simp: duplex_new_def Let_def bind_outcome_Ok_iff)

lemma link_init_inv:
  assumes "link_init ops i0 mx capacity s"
  shows "link_inv i0 mx capacity s"
proof -
  obtain a b where ab: "duplex_new ops a = Ok (lk_sender s)" "duplex_new ops b = Ok (lk_receiver s)"
    "cs_cipher (cn_settings a) = None" "cs_cipher (cn_settings b) = None"
    "cs_init_seq_num (cn_settings a) = seq_of i0" "cs_init_seq_num (cn_settings b) = seq_of i0"
    "unat (cs_max_packet_size (cn_settings a)) = mx" "unat (cs_recv_buffer_size (cn_settings b)) = capacity"
    and i: "0 < mx" "capacity < 2 ^ 30" "lk_net s = {}" "lk_sent s = []" "lk_got s = []"
    using assms by (auto simp: link_init_def)
  have A: "dc_sender (lk_sender s) = sender_new (co_tx ops) (cn_settings a)" "dc_output (lk_sender s) = output_new (cn_settings a)"
    and B: "dc_receiver (lk_receiver s) = receiver_new (cn_settings b)"
    using duplex_new_parts [OF ab(1)] duplex_new_parts [OF ab(2)] by auto
  have "dc_log {} (encapsulation_new (cn_settings a)) (lk_sender s)"
    using ab(3) A by (simp add: dc_log_fields sender_new_def encryption_new_def output_new_def out_data_def sb_new_def
        sb_packets_def)
  then have "tx_side i0 mx [] s"
    using ab(5,7) i by (intro tx_sideI [where e = "encapsulation_new (cn_settings a)"])
      (simp_all add: encapsulation_new_def seqs_from_def)
  moreover have "rx_init capacity (i0, arq_receive_buffer (rv_arq (receiver_new (cn_settings b))))"
    using ab(6,8) i(2) by (auto simp: rx_init_def receiver_new_def arq_new_def)
  then have "rv_holds capacity i0 (concat []) i0 (dc_receiver (lk_receiver s))"
    using B ab(4) rx_init_inv
    by (auto simp: rv_holds_def rb_holds_def w_holds_def rb_window_def receiver_new_def decryption_new_def arq_new_def
        rb_new_def)
  then have "rx_side i0 capacity [] s" using i by (auto simp: rx_side_def)
  ultimately show ?thesis by (auto simp: link_inv_def)
qed

lemma link_step_inv:
  assumes "link_inv i0 mx capacity s" "link_step ops s t"
  shows "link_inv i0 mx capacity t"
proof -
  obtain Ps where Ps: "tx_side i0 mx Ps s"
    "link_packets mx s \<le> 2 ^ 30 \<and> i0 + link_packets mx s < 2 ^ 31 \<longrightarrow> rx_side i0 capacity Ps s"
    using assms(1) by (auto simp: link_inv_def)
  have n: "length (concat Ps) = link_packets mx s" and len: "length Ps = length (lk_sent s)"
    using Ps(1) packets_of_log list_all2_lengthD by (auto simp: tx_side_def link_packets_def)
  show ?thesis
    using assms(2)
  proof cases
    case (link_tx rnd now input action c)
    obtain Ps' where "tx_side i0 mx (Ps @ Ps') t" using tx_side_input [OF Ps(1) link_tx(2)] link_tx(1) by blast
    moreover have "link_packets mx s \<le> link_packets mx t" using link_tx(1) by (simp add: link_packets_def)
    moreover have "rx_side i0 capacity (Ps @ Ps') t" if "rx_side i0 capacity Ps s"
      using rx_side_sent [OF that len] link_tx(1) by simp
    ultimately show ?thesis unfolding link_inv_def using Ps(2) by (intro exI [of _ "Ps @ Ps'"]) auto
  next
    case (link_rx rnd now input action c)
    have "tx_side i0 mx Ps t" using Ps(1) link_rx(1) by (simp add: tx_side_def)
    moreover have "rx_side i0 capacity Ps t" if "link_packets mx t \<le> 2 ^ 30 \<and> i0 + link_packets mx t < 2 ^ 31"
    proof -
      have b: "link_packets mx s \<le> 2 ^ 30 \<and> i0 + link_packets mx s < 2 ^ 31"
        using that link_rx(1) by (simp add: link_packets_def)
      then have rx: "rx_side i0 capacity Ps s" using Ps(2) by blast
      show ?thesis
        unfolding link_rx(1) by (rule rx_side_input [OF Ps(1) rx _ _ link_rx(2,3)]) (use n b in simp_all)
    qed
    ultimately show ?thesis unfolding link_inv_def by blast
  qed
qed

interpretation link: invariant_system "link_init ops i0 mx capacity" "link_step ops" "link_inv i0 mx capacity"
  for ops i0 mx capacity
  by unfold_locales (auto intro: link_init_inv link_step_inv)

subsection \<open>A concrete run\<close>

text \<open>Two connections are created by \<^const>\<open>duplex_new\<close>. The sender takes the message \<open>[1, 2, 3]\<close> and
  answers with its data packet. The receiver takes this packet and releases the message.\<close>

definition sample_ops :: "(unit, SeqNumber list) ConnOps" where
  "sample_ops = \<lparr>co_rx = \<lparr>rxo_crypto = sample_crypto, rxo_stats = no_stats, rxo_arq = sample_arq_ops\<rparr>,
     co_tx = \<lparr>txo_crypto = sample_crypto, txo_rto = sample_rq\<rparr>\<rparr>"

definition sample_a :: ConnectionSettings where
  "sample_a = sample_settings\<lparr>cs_statistics_interval := 1000000000, cs_send_tsbpd_latency := 0\<rparr>"

definition sample_b :: ConnectionSettings where
  "sample_b = sample_a\<lparr>cs_remote_sockid := 2, cs_local_sockid := 1, cs_recv_tsbpd_latency := 0,
     cs_send_tsbpd_latency := 120000000\<rparr>"

definition start_of :: "Handshake \<Rightarrow> ConnectionSettings \<Rightarrow> (unit, SeqNumber list) DuplexConnection" where
  "start_of handshake settings =
     (case duplex_new sample_ops \<lparr>cn_settings = settings, cn_handshake = handshake\<rparr> of Ok dc \<Rightarrow> dc)"

definition sample_sent :: DataPacket where
  "sample_sent = (sample_data 5)\<lparr>dp_message_number := 0\<rparr>"

text \<open>The definitions that such a run evaluates.\<close>

lemmas run_defs =
  DRIFT_DEVIATION_TOLERANCE_def FullAck_INITIAL_def INPUT_PERIOD_def LIGHT_ACK_PACKET_INTERVAL_def
  PL_FIRST_def PL_LAST_def Packet_HEADER_SIZE_def Timers_SYN_def ahw_new_def append_data_def
  append_next_def arq_handle_data_packet_def arq_is_flushed_def arq_new_def arq_next_light_ack_def
  arq_pop_next_message_def arrival_record_data_packet_def arrival_speed_new_def as_micros_def
  buffer_available_def calculate_periods_def check_ack_timer_def check_close_def check_full_ack_def
  check_nak_def check_nak_timer_def check_peer_idle_timeout_def check_peer_idle_timer_def
  check_receive_close_timeout_def check_sender_shutdown_def check_snd_def check_snd_timer_def
  check_statistics_def check_timers_def clock_instant_from_def clock_monotonic_instant_from_def
  clock_new_def cmp_int_def data_wire_size_def dc_is_open_def decryption_decrypt_def decryption_new_def
  duplex_new_def duration_from_micros_def duration_from_millis_def encapsulate_def encapsulate_iter_def
  encapsulation_new_def encryption_encrypt_def encryption_new_def ensure_alive_def entry_rto_def
  flags_contain_def flow_window_exceeded_def flush_on_close_def front_packet_def front_ts_def
  handle_data_input_def handle_input_def handle_packet_def handle_packet_input_def in_message_def
  input_rate_add_def input_rate_default_def instant_add_span_def instant_sub_def is_finished_def
  link_capacity_new_def link_record_data_packet_def mei_next_def mod_MAX_DIFF_def mod_MAX_def
  mod_add_def mod_cmp_def mod_diff_def mod_lt_def mod_new_truncate_def mod_rem_def mpc_accumulate_def
  mpc_calculate_def mpc_new_def msg_increment_def next_ack_dsn_def next_action_def next_data_def
  next_light_ack_def next_message_packet_count_def next_packet_def next_packet_dsn_def
  next_snd_actions_def number_of_unacked_packets_def on_input_def output_is_empty_def output_new_def
  pop_lost_list_def pop_next_message_def pop_packet_def push_data_def push_packet_def
  rate_estimation_default_def rate_increment_def rb_is_empty_def rb_new_def rc_with_arq_def
  receiver_context_def receiver_is_flushed_def receiver_new_def release_single_packet_message_def
  reset_exp_def rtt_default_def rtt_mean_as_duration_def rtt_variance_as_duration_def run_bind_def
  run_receiver_def run_sender_def rx_accept_data_def rx_count_action_def rx_handle_data_packet_def
  sai_choose_def sai_next_def sai_sent_def sb_drop_too_late_packets_def sb_is_flushed_def sb_new_def
  sc_with_buffer_def scc_new_def send_data_def send_next_16n_packet_def send_next_lost_packet_def
  send_next_packet_def send_next_rto_packet_def send_packet_def sender_context_def sender_is_flushed_def
  sender_new_def seq_increment_def should_drain_send_buffer_def span_as_duration_def
  span_from_millis_def statistics_new_def status_is_closed_def status_is_open_def status_new_def
  tb_instant_from_def tb_new_def tb_timestamp_from_def timer_check_expired_def timer_new_def
  timer_next_instant_def timer_reset_def timers_new_def ts_add_duration_def ts_cmp_def ts_gt_def
  tx_handle_data_def tx_handle_data_packet_def tx_on_snd_event_def update_link_estimates_def
  usize_sub_def with_receiver_def with_sender_def Let_def sample_ops_def sample_a_def sample_b_def
  sample_settings_def sample_rq_def start_of_def PL_ONLY_def sample_sent_def sample_data_def
  sample_arq_ops_def no_stats_def List.map_filter_simps

lemma sample_run_a:
  "\<exists>c. handle_input sample_ops (\<lambda>_ _. []) (start_of h sample_a) 1000000 (In_Data (Some (0, [1, 2, 3])))
     = ret (SendPacket (Pkt_Data sample_sent) (IpV4 0, 9000), c)"
  apply (simp add: run_defs)
  apply (subst mei_collect.simps)
  apply (simp add: run_defs)
  apply (subst mei_collect.simps)
  apply (simp add: run_defs)
  apply (subst snd_actions.simps)
  apply (simp add: run_defs)
  apply (subst snd_actions.simps)
  apply (simp add: run_defs)
  done

lemma sample_run_b:
  "\<exists>c. handle_input sample_ops (\<lambda>_ _. []) (start_of h sample_b) 2000000 (In_Packet (Inr (Pkt_Data sample_sent, (IpV4 0, 9000))))
     = ret (ReleaseData 0 [1, 2, 3], c)"
  apply (simp add: run_defs)
  apply (subst snd_actions.simps)
  apply (simp add: run_defs)
  done

lemma sample_start: "duplex_new sample_ops \<lparr>cn_settings = sample_a, cn_handshake = h\<rparr> = Ok (start_of h sample_a)"
  "duplex_new sample_ops \<lparr>cn_settings = sample_b, cn_handshake = h\<rparr> = Ok (start_of h sample_b)"
  by (simp_all add: run_defs)

definition sample_link :: "Handshake \<Rightarrow> (unit, SeqNumber list) Link" where
  "sample_link h = \<lparr>lk_sender = start_of HS_Connector sample_a, lk_receiver = start_of h sample_b, lk_net = {}, lk_sent = [], lk_got = []\<rparr>"

lemma sample_link_init: "link_init sample_ops 5 1500 8192 (sample_link h)"
proof -
  have "cs_cipher sample_a = None" "cs_cipher sample_b = None" "cs_init_seq_num sample_a = seq_of 5"
    "cs_init_seq_num sample_b = seq_of 5" "unat (cs_max_packet_size sample_a) = 1500"
    "unat (cs_recv_buffer_size sample_b) = 8192"
    by (simp_all add: sample_a_def sample_b_def sample_settings_def seq_of_def)
  with sample_start show ?thesis unfolding link_init_def
    by (intro conjI exI [of _ "\<lparr>cn_settings = sample_a, cn_handshake = HS_Connector\<rparr>"]
        exI [of _ "\<lparr>cn_settings = sample_b, cn_handshake = h\<rparr>"])
      (simp_all add: sample_link_def)
qed

lemma sample_link_run:
  "\<exists>t. (link_step sample_ops)\<^sup>*\<^sup>* (sample_link h) t \<and> lk_sent t = [[1, 2, 3]] \<and> lk_got t = [[1, 2, 3]]"
proof -
  obtain a where a: "handle_input sample_ops (\<lambda>_ _. []) (start_of HS_Connector sample_a) 1000000 (In_Data (Some (0, [1, 2, 3])))
      = ret (SendPacket (Pkt_Data sample_sent) (IpV4 0, 9000), a)" using sample_run_a by blast
  obtain b where b: "handle_input sample_ops (\<lambda>_ _. []) (start_of h sample_b) 2000000
        (In_Packet (Inr (Pkt_Data sample_sent, (IpV4 0, 9000)))) = ret (ReleaseData 0 [1, 2, 3], b)"
    using sample_run_b by blast
  have "data_wf sample_sent" by (simp add: data_wf_def sample_sent_def sample_data_def PL_ONLY_def PL_FIRST_def PL_LAST_def seq_valid_def msg_valid_def)
  from data_packet_roundtrip [OF this] obtain bs where bs: "data_serialize sample_sent = Ok bs"
    "packet_parse bs False = Ok (Pkt_Data sample_sent)" by blast
  let ?s = "(sample_link h)\<lparr>lk_sender := a, lk_net := {bs}, lk_sent := [[1, 2, 3]]\<rparr>"
  have "link_step sample_ops (sample_link h) ?s"
    using link_tx [of sample_ops _ "sample_link h", unfolded sample_link_def, simplified, OF a] bs(1)
    by (simp add: sample_link_def)
  moreover have "link_step sample_ops ?s (?s\<lparr>lk_receiver := b, lk_got := [[1, 2, 3]]\<rparr>)"
    using link_rx [of sample_ops _ ?s, unfolded sample_link_def, simplified, OF b] bs(2)
    by (auto simp: sample_link_def)
  ultimately show ?thesis
    by (intro exI [of _ "?s\<lparr>lk_receiver := b, lk_got := [[1, 2, 3]]\<rparr>"]) auto
qed

section \<open>Properties\<close>

text \<open>C2: Messages arrive unchanged, whole and in order. Whatever the network does with the packets of
  the sender - losing, duplicating, delaying or reordering them -, and whatever other packets, timers and
  inputs reach the two unencrypted connections, the messages that the receiver has released are a
  subsequence of those that were given to the sender. The packets of these messages do not pass the
  wrap-around point of the sequence numbers, and there are at most half as many as there are sequence numbers,
  since a network that delays packets without bound could otherwise bring an old packet with a new
  number.\<close>

theorem messages_delivered_in_order:
  assumes "link_init ops i0 mx capacity s" "(link_step ops)\<^sup>*\<^sup>* s t"
    "link_packets mx t \<le> 2 ^ 30" "i0 + link_packets mx t < 2 ^ 31"
  shows "subseq (lk_got t) (lk_sent t)"
  using link.reachable_inv [OF assms(1,2)] assms(3,4) by (auto simp: link_inv_def rx_side_def)

theorem messages_delivered_in_order_witness:
  "\<exists>t. (link_step sample_ops)\<^sup>*\<^sup>* (sample_link HS_Connector) t \<and> lk_got t = [[1, 2, 3]] \<and> subseq (lk_got t) (lk_sent t)"
proof -
  obtain t where t: "(link_step sample_ops)\<^sup>*\<^sup>* (sample_link HS_Connector) t" "lk_sent t = [[1, 2, 3]]" "lk_got t = [[1, 2, 3]]"
    using sample_link_run by blast
  have "link_packets 1500 t = 1" by (simp add: link_packets_def t(2) packets_needed_def)
  then have "subseq (lk_got t) (lk_sent t)"
    by (intro messages_delivered_in_order [OF sample_link_init t(1)]) simp_all
  with t show ?thesis by blast
qed

end
