(* ===== verification/Handshake_V5.thy ===== *)
theory Handshake_V5
  imports Connection
begin

text \<open>
  The part of the handshake that all three connection modes share (\<open>protocol/pending_connection/mod.rs\<close>
  and \<open>hsv5.rs\<close>): what a side brings into the handshake (\<open>settings/connection.rs\<close>), the responder's
  answer to a handshake request, and the two halves of the initiator. Random values are an argument. The
  \<open>unimplemented!()\<close> branches are panics.
\<close>

section \<open>What the two sides bring and what comes out\<close>

record ConnInitSettings =
  ci_local_sockid :: SocketId
  ci_key_settings :: "KeySettings option"
  ci_key_refresh :: KeyMaterialRefreshSettings
  ci_send_latency :: duration
  ci_recv_latency :: duration
  ci_peer_idle_timeout :: duration
  ci_bandwidth :: LiveBandwidthMode
  ci_statistics_interval :: duration
  ci_too_late_packet_drop :: bool
  ci_recv_buffer_size :: PacketCount
  ci_send_buffer_size :: PacketCount
  ci_max_packet_size :: PacketSize
  ci_max_flow_size :: PacketCount

definition copy_randomize :: "SocketId \<Rightarrow> ConnInitSettings \<Rightarrow> ConnInitSettings" where
  "copy_randomize random self = self\<lparr>ci_local_sockid := random\<rparr>"

text \<open>The random values of \<open>CipherSettings::new_random\<close>: the salt and the bytes of the two keys.\<close>

record KeyRandom =
  rn_salt :: "u8 list"
  rn_even :: "nat \<Rightarrow> u8 list"
  rn_odd :: "nat \<Rightarrow> u8 list"

datatype ConnectError =
    ControlExpected DataPacket
  | HandshakeExpected ControlTypes
  | InductionExpected HandshakeControlInfo
  | WavehandExpected HandshakeControlInfo
  | AgreementExpected HandshakeControlInfo
  | UnexpectedHost SocketAddr SocketAddr
  | ConclusionExpected HandshakeControlInfo
  | UnsupportedProtocolVersion u32
  | InvalidHandshakeCookie i32 i32
  | RendezvousExpected HandshakeControlInfo
  | CookiesMatched i32
  | ExpectedHsReq
  | ExpectedHsResp
  | ExpectedExtFlags
  | ExpectedNoExtFlags
  | ExpectedAccessControlResponse
  | ParseFailed PacketParseError

type_synonym StreamId = "u8 list"

record AccessControlRequest =
  ar_local_socket_id :: SocketId
  ar_remote :: SocketAddr
  ar_remote_socket_id :: SocketId
  ar_stream_id :: "StreamId option"
  ar_key_size :: KeySize

datatype AccessControlResponse =
    ACR_Accepted "KeySettings option"
  | ACR_Rejected RejectReason
  | ACR_Dropped

datatype ConnectionReject = CRej_Rejecting RejectReason | CRej_Rejected RejectReason

fun reject_reason :: "ConnectionReject \<Rightarrow> RejectReason" where
  "reject_reason (CRej_Rejecting r) = r"
| "reject_reason (CRej_Rejected r) = r"

datatype ConnectionResult =
    CR_NotHandled ConnectError
  | CR_Reject "(Packet \<times> SocketAddr) option" ConnectionReject
  | CR_SendPacket "Packet \<times> SocketAddr"
  | CR_Connected "(Packet \<times> SocketAddr) option" Connection
  | CR_NoAction
  | CR_RequestAccess AccessControlRequest
  | CR_Failure IoError

text \<open>Conversion of a stream id that came with a handshake; it is limited to 512 bytes.\<close>

definition stream_id_try_from :: "u8 list \<Rightarrow> (StreamId, usize) outcome" where
  "stream_id_try_from value = (if length value > 512 then Err (length value) else Ok value)"

section \<open>The responder\<close>

datatype GenHsv5Result =
    GH_Accept HandshakeVsInfo ConnectionSettings
  | GH_NotHandled ConnectError
  | GH_Reject ConnectionReject

definition handshake_offer :: "ConnInitSettings \<Rightarrow> SrtHandshake" where
  "handshake_offer settings = \<lparr>sh_version = SrtVersion_CURRENT, sh_flags = SSF_SUPPORTED,
     sh_send_latency = ci_send_latency settings, sh_recv_latency = ci_recv_latency settings\<rparr>"

definition cipher_key_size :: "KeySettings option \<Rightarrow> KeySize" where
  "cipher_key_size ks = (case ks of Some ks \<Rightarrow> ks_key_size ks | None \<Rightarrow> KS_Unspecified)"

text \<open>The cipher that the responder derives from its own key settings and the keying material of the
  request: \<open>Err\<close> is the rejection.\<close>

definition responder_cipher ::
  "Crypto \<Rightarrow> ConnInitSettings \<Rightarrow> HsV5Info \<Rightarrow> (CipherSettings option, CoreRejectReason) outcome" where
  "responder_cipher cr settings incoming =
     (case (ci_key_settings settings, v5_ext_km incoming) of
        (Some key_settings, Some (Srt_KeyRefreshRequest km)) \<Rightarrow>
          if ks_key_size key_settings \<noteq> v5_key_size incoming then Panic
          else (case cipher_settings_new cr key_settings (ci_key_refresh settings) km of
              Ok cm \<Rightarrow> Ok (Some cm)
            | Err _ \<Rightarrow> Err Core_BadSecret
            | Panic \<Rightarrow> Panic)
      | (None, None) \<Rightarrow> Ok None
      | (Some _, Some _) \<Rightarrow> Panic
      | (Some _, None) \<Rightarrow> Err Core_Unsecure
      | (None, Some _) \<Rightarrow> Panic)"

text \<open>\<open>now.checked_sub(rtt / 2).unwrap()\<close> does not fail: \<open>rtt\<close> is \<open>now - induction_time\<close>, so the result is not before
  \<open>induction_time\<close>, which is an instant of the program.\<close>

definition responder_settings ::
  "instant \<Rightarrow> ConnInitSettings \<Rightarrow> SocketAddr \<Rightarrow> instant \<Rightarrow> HandshakeControlInfo \<Rightarrow> HsV5Info \<Rightarrow> SrtHandshake
   \<Rightarrow> CipherSettings option \<Rightarrow> ConnectionSettings" where
  "responder_settings now settings from_addr induction_time with_hsv5 incoming hs cipher =
     (let rtt = instant_sub now induction_time in
      \<lparr>cs_remote = from_addr, cs_remote_sockid = hc_socket_id with_hsv5,
       cs_local_sockid = ci_local_sockid settings,
       cs_socket_start_time = now - int (rtt div 2), cs_rtt = rtt,
       cs_init_seq_num = hc_init_seq_num with_hsv5,
       cs_max_packet_size = min (ci_max_packet_size settings) (hc_max_packet_size with_hsv5),
       cs_max_flow_size = max (ci_max_flow_size settings) (hc_max_flow_size with_hsv5),
       cs_send_tsbpd_latency = max (ci_send_latency settings) (sh_recv_latency hs),
       cs_recv_tsbpd_latency = max (ci_recv_latency settings) (sh_send_latency hs),
       cs_too_late_packet_drop = ci_too_late_packet_drop settings,
       cs_peer_idle_timeout = ci_peer_idle_timeout settings,
       cs_recv_buffer_size = ci_recv_buffer_size settings,
       cs_send_buffer_size = ci_send_buffer_size settings,
       cs_cipher = cipher, cs_stream_id = v5_sid incoming, cs_bandwidth = ci_bandwidth settings,
       cs_statistics_interval = ci_statistics_interval settings\<rparr>)"

text \<open>The function also stores the key settings that the access control gave in the settings of the
  listener, so it returns these.\<close>

definition gen_access_control_response ::
  "Crypto \<Rightarrow> instant \<Rightarrow> ConnInitSettings \<Rightarrow> SocketAddr \<Rightarrow> instant \<Rightarrow> HandshakeControlInfo \<Rightarrow> HsV5Info
   \<Rightarrow> KeySettings option \<Rightarrow> (GenHsv5Result \<times> ConnInitSettings) may_panic" where
  "gen_access_control_response cr now settings from_addr induction_time with_hsv5 incoming key_settings =
     (let settings = (case key_settings of Some ks \<Rightarrow> settings\<lparr>ci_key_settings := Some ks\<rparr> | None \<Rightarrow> settings) in
      case v5_ext_hs incoming of
        Some (Srt_HandshakeRequest hs) \<Rightarrow>
          (case responder_cipher cr settings incoming of
             Panic \<Rightarrow> Panic
           | Err reason \<Rightarrow> Ok (GH_Reject (CRej_Rejecting (RR_Core reason)), settings)
           | Ok cipher \<Rightarrow>
               bind_outcome (case cipher of None \<Rightarrow> Ok None | Some c \<Rightarrow> wrap_keying_material cr c) (\<lambda>outgoing_ext_km.
               let sid = (case hc_info with_hsv5 of HVI_V5 info \<Rightarrow> v5_sid info | _ \<Rightarrow> None) in
               Ok (GH_Accept
                    (HVI_V5 \<lparr>v5_key_size = cipher_key_size (map_option cs_key_settings cipher),
                       v5_ext_hs = Some (Srt_HandshakeResponse (handshake_offer settings)),
                       v5_ext_km = map_option Srt_KeyRefreshResponse outgoing_ext_km,
                       v5_ext_group = None, v5_sid = sid\<rparr>)
                    (responder_settings now settings from_addr induction_time with_hsv5 incoming hs cipher),
                   settings)))
      | Some _ \<Rightarrow> Ok (GH_NotHandled ExpectedHsReq, settings)
      | None \<Rightarrow> Ok (GH_NotHandled ExpectedExtFlags, settings))"

definition gen_hsv5_response ::
  "Crypto \<Rightarrow> ConnInitSettings \<Rightarrow> HandshakeControlInfo \<Rightarrow> SocketAddr \<Rightarrow> instant \<Rightarrow> instant
   \<Rightarrow> (GenHsv5Result \<times> ConnInitSettings) may_panic" where
  "gen_hsv5_response cr settings with_hsv5 from_addr induction_time now =
     (case hc_info with_hsv5 of
        HVI_V5 incoming \<Rightarrow> gen_access_control_response cr now settings from_addr induction_time with_hsv5 incoming None
      | _ \<Rightarrow> Ok (GH_Reject (CRej_Rejecting (RR_Server Server_Version)), settings))"

section \<open>The initiator\<close>

record StartedInitiator =
  si_cipher :: "CipherSettings option"
  si_settings :: ConnInitSettings
  si_streamid :: "u8 list option"
  si_initiate_time :: instant

definition start_hsv5_initiation ::
  "Crypto \<Rightarrow> KeyRandom \<Rightarrow> ConnInitSettings \<Rightarrow> u8 list option \<Rightarrow> instant
   \<Rightarrow> (HandshakeVsInfo \<times> StartedInitiator) may_panic" where
  "start_hsv5_initiation cr rnd settings streamid now =
     (let cipher = map_option (\<lambda>ks. cipher_settings_new_random (rn_salt rnd) (rn_even rnd) (rn_odd rnd) ks
            (ci_key_refresh settings)) (ci_key_settings settings) in
      bind_outcome (case cipher of None \<Rightarrow> Ok None | Some c \<Rightarrow> wrap_keying_material cr c) (\<lambda>km.
      Ok (HVI_V5 \<lparr>v5_key_size = cipher_key_size (ci_key_settings settings),
            v5_ext_hs = Some (Srt_HandshakeRequest (handshake_offer settings)),
            v5_ext_km = map_option Srt_KeyRefreshRequest km, v5_ext_group = None, v5_sid = streamid\<rparr>,
          \<lparr>si_cipher = cipher, si_settings = settings, si_streamid = streamid, si_initiate_time = now\<rparr>)))"

definition finish_hsv5_initiation ::
  "StartedInitiator \<Rightarrow> HandshakeControlInfo \<Rightarrow> SocketAddr \<Rightarrow> instant \<Rightarrow> ConnectError + ConnectionSettings" where
  "finish_hsv5_initiation self response from_addr now =
     (case hc_info response of
        HVI_V5 incoming \<Rightarrow>
          (case v5_ext_hs incoming of
             Some (Srt_HandshakeResponse hs) \<Rightarrow>
               (let settings = si_settings self in
                Inr \<lparr>cs_remote = from_addr, cs_remote_sockid = hc_socket_id response,
                    cs_local_sockid = ci_local_sockid settings,
                    cs_socket_start_time = si_initiate_time self,
                    cs_rtt = instant_sub now (si_initiate_time self),
                    cs_init_seq_num = hc_init_seq_num response,
                    cs_max_packet_size = min (ci_max_packet_size settings) (hc_max_packet_size response),
                    cs_max_flow_size = max (ci_max_flow_size settings) (hc_max_flow_size response),
                    cs_send_tsbpd_latency = max (ci_send_latency settings) (sh_recv_latency hs),
                    cs_recv_tsbpd_latency = max (ci_recv_latency settings) (sh_send_latency hs),
                    cs_too_late_packet_drop = ci_too_late_packet_drop settings,
                    cs_peer_idle_timeout = ci_peer_idle_timeout settings,
                    cs_recv_buffer_size = ci_recv_buffer_size settings,
                    cs_send_buffer_size = ci_send_buffer_size settings,
                    cs_cipher = si_cipher self, cs_stream_id = si_streamid self,
                    cs_bandwidth = ci_bandwidth settings,
                    cs_statistics_interval = ci_statistics_interval settings\<rparr>)
           | Some _ \<Rightarrow> Inl ExpectedHsResp
           | None \<Rightarrow> Inl ExpectedExtFlags)
      | i \<Rightarrow> Inl (UnsupportedProtocolVersion (info_version i)))"

section \<open>The two halves fit together\<close>

text \<open>What the code relies on of the random number generator: it fills as many bytes as are asked for.\<close>

definition key_random_ok :: "KeyRandom \<Rightarrow> bool" where
  "key_random_ok rnd \<longleftrightarrow> length (rn_salt rnd) = 16 \<and> rnd_ok (rn_even rnd) \<and> rnd_ok (rn_odd rnd)"

lemma new_random_wf:
  assumes "key_random_ok rnd"
  shows "stream_keys_wf ks (stream_keys_new_random (rn_salt rnd) (rn_even rnd) (rn_odd rnd) (ks_key_size ks))"
  using assms encryption_key_new_random_fits
  by (auto simp: stream_keys_wf_def stream_keys_new_random_def key_random_ok_def)

text \<open>The request of an initiator.\<close>

definition hs_request :: "Crypto \<Rightarrow> ConnInitSettings \<Rightarrow> u8 list option \<Rightarrow> HandshakeVsInfo \<Rightarrow> StartedInitiator \<Rightarrow> bool" where
  "hs_request cr settings streamid info cm \<longleftrightarrow>
     (\<exists>rnd now. key_random_ok rnd \<and> start_hsv5_initiation cr rnd settings streamid now = Ok (info, cm))"

lemma hs_request_fields:
  assumes "hs_request cr settings streamid info cm"
  obtains v where "info = HVI_V5 v" "v5_ext_hs v = Some (Srt_HandshakeRequest (handshake_offer settings))"
    "v5_sid v = streamid" "v5_key_size v = cipher_key_size (ci_key_settings settings)"
    "si_settings cm = settings" "si_streamid cm = streamid"
  using assms by (auto simp: hs_request_def start_hsv5_initiation_def Let_def bind_outcome_Ok_iff)

lemma start_unencrypted:
  assumes "ci_key_settings settings = None"
  shows "start_hsv5_initiation cr rnd settings streamid now = Ok (HVI_V5 \<lparr>v5_key_size = KS_Unspecified,
      v5_ext_hs = Some (Srt_HandshakeRequest (handshake_offer settings)), v5_ext_km = None, v5_ext_group = None,
      v5_sid = streamid\<rparr>,
    \<lparr>si_cipher = None, si_settings = settings, si_streamid = streamid, si_initiate_time = now\<rparr>)"
  using assms by (simp add: start_hsv5_initiation_def cipher_key_size_def)

text \<open>The two sides either both encrypt or neither; with the same key settings they use the same keys.\<close>

definition ciphers_agree :: "CipherSettings option \<Rightarrow> CipherSettings option \<Rightarrow> bool" where
  "ciphers_agree a b \<longleftrightarrow> (a = None \<longleftrightarrow> b = None)
     \<and> (\<forall>x y. a = Some x \<and> b = Some y \<and> cs_key_settings x = cs_key_settings y \<longrightarrow> cs_stream_keys x = cs_stream_keys y)"

lemma request_cipher:
  assumes "crypto_laws cr" "hs_request cr settings streamid info cm" "info = HVI_V5 v"
  shows "case ci_key_settings settings of
      None \<Rightarrow> si_cipher cm = None \<and> v5_ext_km v = None
    | Some ks \<Rightarrow> \<exists>c km. si_cipher cm = Some c \<and> cs_key_settings c = ks \<and> v5_ext_km v = Some (Srt_KeyRefreshRequest km)
        \<and> v5_key_size v = ks_key_size ks \<and> stream_keys_wf ks (cs_stream_keys c)
        \<and> sk_even_key (cs_stream_keys c) \<noteq> None \<and> unwrap_from cr ks km = Ok (cs_stream_keys c)"
proof (cases "ci_key_settings settings")
  case None
  then show ?thesis using assms by (auto simp: hs_request_def start_unencrypted)
next
  case (Some ks)
  obtain rnd now where r: "key_random_ok rnd" "start_hsv5_initiation cr rnd settings streamid now = Ok (info, cm)"
    using assms(2) by (auto simp: hs_request_def)
  let ?sk = "stream_keys_new_random (rn_salt rnd) (rn_even rnd) (rn_odd rnd) (ks_key_size ks)"
  have even: "sk_even_key ?sk \<noteq> None" by (simp add: stream_keys_new_random_def)
  obtain km where km: "wrap_with cr ?sk ks = Ok (Some km)" "unwrap_from cr ks km = Ok ?sk"
    using stream_keys_roundtrip [OF assms(1) new_random_wf [OF r(1)]] even by blast
  show ?thesis
    using r(2) Some assms(3) km even new_random_wf [OF r(1), of ks]
    by (auto simp: start_hsv5_initiation_def wrap_keying_material_def cipher_settings_new_random_def
        cipher_key_size_def)
qed

lemma responder_cipher_agrees:
  assumes "crypto_laws cr" "hs_request cr settings streamid (HVI_V5 v) cm"
    and "responder_cipher cr own v = Ok cipher"
  shows "ciphers_agree (si_cipher cm) cipher"
proof (cases "ci_key_settings settings")
  case None
  then show ?thesis using request_cipher [OF assms(1,2) refl] assms(3)
    by (auto simp: ciphers_agree_def responder_cipher_def split: option.splits)
next
  case (Some ks)
  obtain c km where c: "si_cipher cm = Some c" "cs_key_settings c = ks" "v5_ext_km v = Some (Srt_KeyRefreshRequest km)"
    "unwrap_from cr ks km = Ok (cs_stream_keys c)"
    using request_cipher [OF assms(1,2) refl, unfolded Some option.case] by blast
  then obtain ks' where ks': "ci_key_settings own = Some ks'"
    using assms(3) by (cases "ci_key_settings own") (auto simp: responder_cipher_def)
  then obtain c' where "cipher = Some c'" "cipher_settings_new cr ks' (ci_key_refresh own) km = Ok c'"
    using assms(3) c(3) by (auto simp: responder_cipher_def split: if_splits outcome.splits)
  then show ?thesis using c by (auto simp: ciphers_agree_def cipher_settings_new_def map_outcome_ok_Ok_iff)
qed

text \<open>With the same key settings on both sides, or none, the responder accepts the request.\<close>

lemma responder_accepts:
  assumes "crypto_laws cr" "hs_request cr settings streamid (HVI_V5 v) cm"
    and "ci_key_settings own = ci_key_settings settings"
  shows "\<exists>cipher km. responder_cipher cr own v = Ok cipher
    \<and> (case cipher of None \<Rightarrow> Ok None | Some c \<Rightarrow> wrap_keying_material cr c) = Ok km"
proof (cases "ci_key_settings settings")
  case None
  then show ?thesis using request_cipher [OF assms(1,2) refl] assms(3)
    by (auto simp: responder_cipher_def)
next
  case (Some ks)
  obtain c :: CipherSettings and km where c: "v5_ext_km v = Some (Srt_KeyRefreshRequest km)" "v5_key_size v = ks_key_size ks"
    "stream_keys_wf ks (cs_stream_keys c)" "sk_even_key (cs_stream_keys c) \<noteq> None"
    "unwrap_from cr ks km = Ok (cs_stream_keys c)"
    using request_cipher [OF assms(1,2) refl, unfolded Some option.case] by blast
  obtain km' where "wrap_with cr (cs_stream_keys c) ks = Ok (Some km')"
    using stream_keys_roundtrip [OF assms(1) c(3)] c(4) by blast
  then show ?thesis using Some c assms(3)
    by (auto simp: responder_cipher_def cipher_settings_new_def wrap_keying_material_def)
qed

end
