(* ===== verification/Handshake_Connect.thy ===== *)
theory Handshake_Connect
  imports Handshake_V5
begin

text \<open>
  The caller's side of the handshake (\<open>protocol/pending_connection/connect.rs\<close>): an induction request, then
  a conclusion request with the cookie of the listener, both repeated on every tick until they are
  answered. Log messages are not modelled.
\<close>

datatype ConnectState =
    Con_Configured
  | InductionResponseWait Packet
  | ConclusionResponseWait Packet StartedInitiator

record Connect =
  co_remote :: SocketAddr
  co_local_addr :: IpAddr
  co_init_settings :: ConnInitSettings
  co_state :: ConnectState
  co_streamid :: "u8 list option"
  co_starting_send_seqnum :: SeqNumber

definition connect_new ::
  "SocketAddr \<Rightarrow> IpAddr \<Rightarrow> ConnInitSettings \<Rightarrow> u8 list option \<Rightarrow> SeqNumber \<Rightarrow> Connect" where
  "connect_new remote local_addr init_settings streamid starting_send_seqnum =
     \<lparr>co_remote = remote, co_local_addr = local_addr, co_init_settings = init_settings,
      co_state = Con_Configured, co_streamid = streamid, co_starting_send_seqnum = starting_send_seqnum\<rparr>"

definition connect_on_start :: "Connect \<Rightarrow> ConnectionResult \<times> Connect" where
  "connect_on_start self =
     (let packet = Pkt_Control \<lparr>cp_timestamp = 0, cp_dest_sockid = 0, cp_control_type = Ctl_Handshake
            \<lparr>hc_init_seq_num = co_starting_send_seqnum self,
             hc_max_packet_size = ci_max_packet_size (co_init_settings self),
             hc_max_flow_size = ci_max_flow_size (co_init_settings self),
             hc_shake_type = Induction, hc_socket_id = ci_local_sockid (co_init_settings self),
             hc_syn_cookie = 0, hc_peer_addr = co_local_addr self, hc_info = HVI_V4 ST_Datagram\<rparr>\<rparr> in
      (CR_SendPacket (packet, co_remote self), self\<lparr>co_state := InductionResponseWait packet\<rparr>))"

text \<open>\<open>..info\<close> keeps the cookie, the packet size, the flow size and the peer address of the listener's
  answer.\<close>

definition connect_wait_for_induction ::
  "Crypto \<Rightarrow> KeyRandom \<Rightarrow> Connect \<Rightarrow> SocketAddr \<Rightarrow> TimeStamp \<Rightarrow> HandshakeControlInfo \<Rightarrow> instant
   \<Rightarrow> (ConnectionResult \<times> Connect) may_panic" where
  "connect_wait_for_induction cr rnd self from_addr timestamp info now =
     (case (hc_shake_type info, hc_info info) of
        (Induction, HVI_V5 _) \<Rightarrow>
          if from_addr = co_remote self then
            map_outcome_ok (\<lambda>(hsv5, cm).
              let packet = Pkt_Control \<lparr>cp_timestamp = timestamp, cp_dest_sockid = 0, cp_control_type = Ctl_Handshake
                    (info\<lparr>hc_shake_type := Conclusion, hc_socket_id := ci_local_sockid (co_init_settings self),
                      hc_info := hsv5, hc_init_seq_num := co_starting_send_seqnum self\<rparr>)\<rparr> in
              (CR_SendPacket (packet, from_addr), self\<lparr>co_state := ConclusionResponseWait packet cm\<rparr>))
            (start_hsv5_initiation cr rnd (co_init_settings self) (co_streamid self) now)
          else Ok (CR_NotHandled (UnexpectedHost (co_remote self) from_addr), self)
      | (Induction, version) \<Rightarrow> Ok (CR_NotHandled (UnsupportedProtocolVersion (info_version version)), self)
      | _ \<Rightarrow> Ok (CR_NotHandled (InductionExpected info), self))"

definition connect_wait_for_conclusion ::
  "Connect \<Rightarrow> SocketAddr \<Rightarrow> instant \<Rightarrow> HandshakeControlInfo \<Rightarrow> StartedInitiator \<Rightarrow> ConnectionResult" where
  "connect_wait_for_conclusion self from_addr now info initiator =
     (case hc_shake_type info of
        Conclusion \<Rightarrow>
          if info_version (hc_info info) = 5 then
            if from_addr = co_remote self then
              (case finish_hsv5_initiation initiator info from_addr now of
                 Inr settings \<Rightarrow> CR_Connected None \<lparr>cn_settings = settings, cn_handshake = HS_Connector\<rparr>
               | Inl rr \<Rightarrow> CR_NotHandled rr)
            else CR_NotHandled (UnexpectedHost (co_remote self) from_addr)
          else CR_NotHandled (UnsupportedProtocolVersion (info_version (hc_info info)))
      | Rejection rej \<Rightarrow>
          if from_addr = co_remote self then CR_Reject None (CRej_Rejected rej)
          else CR_NotHandled (UnexpectedHost (co_remote self) from_addr)
      | Induction \<Rightarrow> CR_NoAction
      | _ \<Rightarrow> CR_NotHandled (ConclusionExpected info))"

definition connect_handle_packet ::
  "Crypto \<Rightarrow> KeyRandom \<Rightarrow> Connect \<Rightarrow> ReceivePacketError + Packet \<times> SocketAddr \<Rightarrow> instant
   \<Rightarrow> (ConnectionResult \<times> Connect) may_panic" where
  "connect_handle_packet cr rnd self packet now =
     (case packet of
        Inr (packet, from_addr) \<Rightarrow>
          (case (co_state self, packet) of
             (InductionResponseWait _, Pkt_Control control) \<Rightarrow>
               (case cp_control_type control of
                  Ctl_Handshake shake \<Rightarrow> connect_wait_for_induction cr rnd self from_addr (cp_timestamp control) shake now
                | control_type \<Rightarrow> Ok (CR_NotHandled (HandshakeExpected control_type), self))
           | (ConclusionResponseWait _ cm, Pkt_Control control) \<Rightarrow>
               (case cp_control_type control of
                  Ctl_Handshake shake \<Rightarrow> Ok (connect_wait_for_conclusion self from_addr now shake cm, self)
                | control_type \<Rightarrow> Ok (CR_NotHandled (HandshakeExpected control_type), self))
           | (_, Pkt_Data data) \<Rightarrow> Ok (CR_NotHandled (ControlExpected data), self)
           | (_, _) \<Rightarrow> Ok (CR_NoAction, self))
      | Inl (RPE_Io error) \<Rightarrow> Ok (if io_kind error = ConnectionReset then CR_NoAction else CR_Failure error, self)
      | Inl (RPE_Parse (BadConnectionType c)) \<Rightarrow>
          Ok (CR_Failure (IoError ConnectionReset (Some (BadConnectionType c))), self)
      | Inl (RPE_Parse e) \<Rightarrow> Ok (CR_NotHandled (ParseFailed e), self))"

definition connect_handle_tick :: "Connect \<Rightarrow> instant \<Rightarrow> ConnectionResult \<times> Connect" where
  "connect_handle_tick self now =
     (case co_state self of
        Con_Configured \<Rightarrow> connect_on_start self
      | InductionResponseWait request_packet \<Rightarrow> (CR_SendPacket (request_packet, co_remote self), self)
      | ConclusionResponseWait request_packet _ \<Rightarrow> (CR_SendPacket (request_packet, co_remote self), self))"

end
