(* ===== verification/Handshake_Listen.thy ===== *)
theory Handshake_Listen
  imports Handshake_V5
begin

text \<open>
  The listener's side of one handshake (\<open>protocol/pending_connection/listen.rs\<close>): it answers an induction
  request with a cookie, and a conclusion request that carries this cookie with the acceptance or the
  rejection of the connection, after asking the application when access control is enabled. The cookie
  (\<open>cookie.rs\<close>: a hash of the address and the system time) is an argument.
\<close>

record ConclusionWaitState =
  cw_from :: SocketAddr
  cw_cookie :: i32
  cw_induction_response :: Packet
  cw_induction_time :: instant

datatype ListenState =
    InductionWait
  | ConclusionWait ConclusionWaitState
  | AccessControlRequested ConclusionWaitState TimeStamp HandshakeControlInfo HsV5Info

record Listen =
  li_init_settings :: ConnInitSettings
  li_state :: ListenState
  li_enable_access_control :: bool

definition listen_new :: "ConnInitSettings \<Rightarrow> bool \<Rightarrow> Listen" where
  "listen_new init_settings enable_access_control =
     \<lparr>li_init_settings = init_settings, li_state = InductionWait,
      li_enable_access_control = enable_access_control\<rparr>"

definition listen_make_rejection ::
  "Listen \<Rightarrow> HandshakeControlInfo \<Rightarrow> SocketAddr \<Rightarrow> TimeStamp \<Rightarrow> ConnectionReject \<Rightarrow> ConnectionResult \<times> Listen" where
  "listen_make_rejection self response_to from_addr timestamp r =
     (CR_Reject (Some (Pkt_Control \<lparr>cp_timestamp = timestamp, cp_dest_sockid = hc_socket_id response_to,
        cp_control_type = Ctl_Handshake (response_to\<lparr>hc_shake_type := Rejection (reject_reason r),
          hc_socket_id := ci_local_sockid (li_init_settings self)\<rparr>)\<rparr>, from_addr)) r,
      self\<lparr>li_state := InductionWait\<rparr>)"

text \<open>The answer of an accepting listener echoes the request (\<open>..shake\<close>).\<close>

definition accept_response :: "Listen \<Rightarrow> ConclusionWaitState \<Rightarrow> TimeStamp \<Rightarrow> HandshakeControlInfo \<Rightarrow> HandshakeVsInfo \<Rightarrow> ControlPacket" where
  "accept_response self state timestamp shake hsv5 =
     \<lparr>cp_timestamp = timestamp, cp_dest_sockid = hc_socket_id shake,
      cp_control_type = Ctl_Handshake (shake\<lparr>hc_syn_cookie := cw_cookie state,
        hc_socket_id := ci_local_sockid (li_init_settings self), hc_info := hsv5, hc_shake_type := Conclusion\<rparr>)\<rparr>"

definition accept_connection ::
  "Crypto \<Rightarrow> Listen \<Rightarrow> instant \<Rightarrow> ConclusionWaitState \<Rightarrow> TimeStamp \<Rightarrow> HandshakeControlInfo \<Rightarrow> HsV5Info
   \<Rightarrow> KeySettings option \<Rightarrow> (ConnectionResult \<times> Listen) may_panic" where
  "accept_connection cr self now state timestamp shake info key_settings =
     map_outcome_ok (\<lambda>(response, settings).
       let self = self\<lparr>li_init_settings := settings\<rparr> in
       case response of
         GH_NotHandled e \<Rightarrow> (CR_NotHandled e, self)
       | GH_Reject r \<Rightarrow> listen_make_rejection self shake (cw_from state) timestamp r
       | GH_Accept hsv5 connection_settings \<Rightarrow>
           let resp_handshake = accept_response self state timestamp shake hsv5 in
           (CR_Connected (Some (Pkt_Control resp_handshake, cw_from state))
              \<lparr>cn_settings = connection_settings, cn_handshake = HS_Listener (cp_control_type resp_handshake)\<rparr>, self))
     (gen_access_control_response cr now (li_init_settings self) (cw_from state) (cw_induction_time state) shake info
        key_settings)"

definition request_access ::
  "Listen \<Rightarrow> SocketAddr \<Rightarrow> SocketId \<Rightarrow> TimeStamp \<Rightarrow> ConclusionWaitState \<Rightarrow> HandshakeControlInfo \<Rightarrow> HsV5Info
   \<Rightarrow> ConnectionResult \<times> Listen" where
  "request_access self remote local_socket_id timestamp state shake incoming =
     (CR_RequestAccess \<lparr>ar_local_socket_id = local_socket_id, ar_remote = remote,
        ar_remote_socket_id = hc_socket_id shake,
        ar_stream_id = (case v5_sid incoming of None \<Rightarrow> None
          | Some s \<Rightarrow> (case stream_id_try_from s of Ok sid \<Rightarrow> Some sid | _ \<Rightarrow> None)),
        ar_key_size = v5_key_size incoming\<rparr>,
      self\<lparr>li_state := AccessControlRequested state timestamp shake incoming\<rparr>)"

definition listen_wait_for_induction ::
  "i32 \<Rightarrow> Listen \<Rightarrow> SocketAddr \<Rightarrow> TimeStamp \<Rightarrow> HandshakeControlInfo \<Rightarrow> instant \<Rightarrow> ConnectionResult \<times> Listen" where
  "listen_wait_for_induction cookie self from_addr timestamp shake now =
     (case hc_shake_type shake of
        Induction \<Rightarrow>
          (let induction_response = Pkt_Control \<lparr>cp_timestamp = timestamp, cp_dest_sockid = hc_socket_id shake,
                 cp_control_type = Ctl_Handshake (shake\<lparr>hc_syn_cookie := cookie,
                   hc_socket_id := ci_local_sockid (li_init_settings self), hc_info := HVI_V5 hs_v5_default\<rparr>)\<rparr> in
           (CR_SendPacket (induction_response, from_addr),
            self\<lparr>li_state := ConclusionWait \<lparr>cw_from = from_addr, cw_cookie = cookie,
              cw_induction_response = induction_response, cw_induction_time = now\<rparr>\<rparr>))
      | _ \<Rightarrow> (CR_NotHandled (InductionExpected shake), self))"

definition listen_wait_for_conclusion ::
  "Crypto \<Rightarrow> Listen \<Rightarrow> instant \<Rightarrow> SocketAddr \<Rightarrow> SocketId \<Rightarrow> TimeStamp \<Rightarrow> ConclusionWaitState \<Rightarrow> HandshakeControlInfo
   \<Rightarrow> (ConnectionResult \<times> Listen) may_panic" where
  "listen_wait_for_conclusion cr self now from_addr local_socket_id timestamp state shake =
     (case hc_shake_type shake of
        Induction \<Rightarrow> Ok (CR_SendPacket (cw_induction_response state, from_addr), self)
      | Conclusion \<Rightarrow>
          if info_version (hc_info shake) = 5 then
            if hc_syn_cookie shake = cw_cookie state then
              (case hc_info shake of
                 HVI_V5 incoming \<Rightarrow>
                   if li_enable_access_control self
                   then Ok (request_access self from_addr local_socket_id timestamp state shake incoming)
                   else accept_connection cr self now state timestamp shake incoming
                          (ci_key_settings (li_init_settings self))
               | _ \<Rightarrow> Ok (listen_make_rejection self shake from_addr timestamp
                          (CRej_Rejecting (RR_Server Server_Version))))
            else Ok (CR_NotHandled (InvalidHandshakeCookie (cw_cookie state) (hc_syn_cookie shake)), self)
          else Ok (CR_NotHandled (UnsupportedProtocolVersion (info_version (hc_info shake))), self)
      | _ \<Rightarrow> Ok (CR_NotHandled (ConclusionExpected shake), self))"

definition listen_handle_control_packets ::
  "Crypto \<Rightarrow> i32 \<Rightarrow> Listen \<Rightarrow> instant \<Rightarrow> SocketAddr \<Rightarrow> ControlPacket \<Rightarrow> (ConnectionResult \<times> Listen) may_panic" where
  "listen_handle_control_packets cr cookie self now from_addr control =
     (case (li_state self, cp_control_type control) of
        (InductionWait, Ctl_Handshake shake) \<Rightarrow>
          Ok (listen_wait_for_induction cookie self from_addr (cp_timestamp control) shake now)
      | (ConclusionWait state, Ctl_Handshake shake) \<Rightarrow>
          listen_wait_for_conclusion cr self now from_addr (cp_dest_sockid control) (cp_timestamp control) state shake
      | (AccessControlRequested _ _ _ _, _) \<Rightarrow> Ok (CR_NotHandled ExpectedAccessControlResponse, self)
      | (_, control_type) \<Rightarrow> Ok (CR_NotHandled (HandshakeExpected control_type), self))"

definition listen_handle_packet ::
  "Crypto \<Rightarrow> i32 \<Rightarrow> Listen \<Rightarrow> instant \<Rightarrow> ReceivePacketError + Packet \<times> SocketAddr \<Rightarrow> (ConnectionResult \<times> Listen) may_panic" where
  "listen_handle_packet cr cookie self now packet =
     (case packet of
        Inr (Pkt_Control control, from_addr) \<Rightarrow> listen_handle_control_packets cr cookie self now from_addr control
      | Inr (Pkt_Data data, _) \<Rightarrow> Ok (CR_NotHandled (ControlExpected data), self)
      | Inl (RPE_Io error) \<Rightarrow> Ok (CR_Failure error, self)
      | Inl (RPE_Parse e) \<Rightarrow> Ok (CR_NotHandled (ParseFailed e), self))"

definition listen_handle_access_control_response ::
  "Crypto \<Rightarrow> Listen \<Rightarrow> instant \<Rightarrow> AccessControlResponse \<Rightarrow> (ConnectionResult \<times> Listen) may_panic" where
  "listen_handle_access_control_response cr self now response =
     (case li_state self of
        AccessControlRequested state timestamp shake info \<Rightarrow>
          (case response of
             ACR_Accepted key_settings \<Rightarrow> accept_connection cr self now state timestamp shake info key_settings
           | ACR_Rejected rr \<Rightarrow> Ok (listen_make_rejection self shake (cw_from state) timestamp (CRej_Rejecting rr))
           | ACR_Dropped \<Rightarrow> Ok (listen_make_rejection self shake (cw_from state) timestamp
               (CRej_Rejecting (RR_Core Core_Peer))))
      | _ \<Rightarrow> Ok (CR_NotHandled ExpectedHsReq, self))"

definition listen_handle_timer :: "Listen \<Rightarrow> instant \<Rightarrow> ConnectionResult" where
  "listen_handle_timer self now = CR_NoAction"

end
