(* ===== verification/Handshake_Rendezvous.thy ===== *)
theory Handshake_Rendezvous
  imports Handshake_V5
begin

text \<open>
  The rendezvous handshake (\<open>protocol/pending_connection/rendezvous.rs\<close>): two equal peers wave at each
  other, the difference of their cookies makes one of them the initiator and the other the responder, and
  the two exchange conclusions until both are connected. Log messages are not modelled; the
  cookie is an argument.
\<close>

datatype RendezvousState =
    Waving
  | AttentionInitiator HandshakeVsInfo StartedInitiator
  | AttentionResponder instant
  | InitiatedResponder ConnectionSettings
  | InitiatedInitiator StartedInitiator
  | FineResponder ConnectionSettings
  | FineInitiator HandshakeVsInfo StartedInitiator

record Rendezvous =
  rv_init_settings :: ConnInitSettings
  rv_local_addr :: SocketAddr
  rv_remote_public :: SocketAddr
  rv_state :: RendezvousState
  rv_cookie :: i32
  rv_last_packet :: "Packet \<times> SocketAddr"
  rv_last_send :: "instant option"
  rv_starting_seqnum :: SeqNumber

definition empty_flags :: HandshakeVsInfo where
  "empty_flags = HVI_V5 hs_v5_default"

definition rendezvous_new ::
  "i32 \<Rightarrow> SocketAddr \<Rightarrow> SocketAddr \<Rightarrow> ConnInitSettings \<Rightarrow> SeqNumber \<Rightarrow> Rendezvous" where
  "rendezvous_new cookie local_addr remote_public init_settings starting_seqnum =
     (let last_packet = (Pkt_Control \<lparr>cp_timestamp = 0, cp_dest_sockid = 0, cp_control_type = Ctl_Handshake
            \<lparr>hc_init_seq_num = starting_seqnum, hc_max_packet_size = ci_max_packet_size init_settings,
             hc_max_flow_size = ci_max_flow_size init_settings, hc_shake_type = Waveahand,
             hc_socket_id = ci_local_sockid init_settings, hc_syn_cookie = cookie,
             hc_peer_addr = fst local_addr, hc_info = empty_flags\<rparr>\<rparr>, remote_public) in
      \<lparr>rv_init_settings = init_settings, rv_local_addr = local_addr, rv_remote_public = remote_public,
       rv_state = Waving, rv_cookie = cookie, rv_last_packet = last_packet, rv_last_send = None,
       rv_starting_seqnum = starting_seqnum\<rparr>)"

datatype RendezvousHsV5 = Initiator | Responder

fun get_handshake :: "Packet \<Rightarrow> ConnectError + HandshakeControlInfo" where
  "get_handshake (Pkt_Control control) =
     (case cp_control_type control of
        Ctl_Handshake info \<Rightarrow> Inr info
      | control_type \<Rightarrow> Inl (HandshakeExpected control_type))"
| "get_handshake (Pkt_Data data) = Inl (ControlExpected data)"

definition extract_ext_info :: "HandshakeControlInfo \<Rightarrow> ConnectError + SrtControlPacket option" where
  "extract_ext_info info =
     (case hc_info info of HVI_V5 hs \<Rightarrow> Inr (v5_ext_hs hs) | _ \<Rightarrow> Inl (UnsupportedProtocolVersion 4))"

definition transition :: "Rendezvous \<Rightarrow> RendezvousState \<Rightarrow> Rendezvous" where
  "transition self state = self\<lparr>rv_state := state\<rparr>"

definition gen_packet :: "Rendezvous \<Rightarrow> ShakeType \<Rightarrow> HandshakeVsInfo \<Rightarrow> HandshakeControlInfo" where
  "gen_packet self shake_type info =
     \<lparr>hc_init_seq_num = rv_starting_seqnum self,
      hc_max_packet_size = ci_max_packet_size (rv_init_settings self),
      hc_max_flow_size = ci_max_flow_size (rv_init_settings self), hc_shake_type = shake_type,
      hc_socket_id = ci_local_sockid (rv_init_settings self), hc_syn_cookie = rv_cookie self,
      hc_peer_addr = fst (rv_local_addr self), hc_info = info\<rparr>"

definition rdv_send :: "Rendezvous \<Rightarrow> SocketId \<Rightarrow> HandshakeControlInfo \<Rightarrow> ConnectionResult \<times> Rendezvous" where
  "rdv_send self dest_sockid packet =
     (let pack_pair = (Pkt_Control \<lparr>cp_timestamp = 0, cp_dest_sockid = dest_sockid,
            cp_control_type = Ctl_Handshake packet\<rparr>, rv_remote_public self) in
      (CR_SendPacket pack_pair, self\<lparr>rv_last_packet := pack_pair\<rparr>))"

definition send_conclusion :: "Rendezvous \<Rightarrow> SocketId \<Rightarrow> HandshakeVsInfo \<Rightarrow> ConnectionResult \<times> Rendezvous" where
  "send_conclusion self dest_sockid info = rdv_send self dest_sockid (gen_packet self Conclusion info)"

definition rdv_make_rejection ::
  "Rendezvous \<Rightarrow> HandshakeControlInfo \<Rightarrow> TimeStamp \<Rightarrow> ConnectionReject \<Rightarrow> ConnectionResult" where
  "rdv_make_rejection self response_to timestamp r =
     CR_Reject (Some (Pkt_Control \<lparr>cp_timestamp = timestamp, cp_dest_sockid = hc_socket_id response_to,
       cp_control_type = Ctl_Handshake (response_to\<lparr>hc_shake_type := Rejection (reject_reason r),
         hc_socket_id := ci_local_sockid (rv_init_settings self)\<rparr>)\<rparr>, rv_remote_public self)) r"

definition set_connected ::
  "Rendezvous \<Rightarrow> ConnectionSettings \<Rightarrow> HandshakeControlInfo option \<Rightarrow> HandshakeControlInfo option \<Rightarrow> ConnectionResult" where
  "set_connected self settings agreement to_send =
     CR_Connected
       (map_option (\<lambda>to_send. (Pkt_Control \<lparr>cp_timestamp = 0, cp_dest_sockid = cs_remote_sockid settings,
          cp_control_type = Ctl_Handshake to_send\<rparr>, rv_remote_public self)) to_send)
       \<lparr>cn_settings = settings, cn_handshake = HS_Rendezvous (map_option Ctl_Handshake agreement)\<rparr>"

section \<open>The states\<close>

text \<open>\<open>wrapping_sub\<close> of the cookies, read as a signed number.\<close>

definition rdv_role :: "i32 \<Rightarrow> i32 \<Rightarrow> RendezvousHsV5 option" where
  "rdv_role own peer =
     (if sint (own - peer) > 0 then Some Initiator else if sint (own - peer) < 0 then Some Responder else None)"

text \<open>The answer of a responder to a handshake request, which both of its states give; \<open>accepted\<close> is the state
  that it enters.\<close>

definition rdv_answer_request ::
  "Crypto \<Rightarrow> Rendezvous \<Rightarrow> HandshakeControlInfo \<Rightarrow> TimeStamp \<Rightarrow> instant \<Rightarrow> instant \<Rightarrow> (ConnectionSettings \<Rightarrow> RendezvousState)
   \<Rightarrow> (ConnectionResult \<times> Rendezvous) may_panic" where
  "rdv_answer_request cr self info timestamp induction_time now accepted =
     map_outcome_ok (\<lambda>(response, settings).
       let self = self\<lparr>rv_init_settings := settings\<rparr> in
       case response of
         GH_Accept hsv5 connection \<Rightarrow>
           send_conclusion (transition (self\<lparr>rv_starting_seqnum := hc_init_seq_num info\<rparr>) (accepted connection))
             (hc_socket_id info) hsv5
       | GH_NotHandled e \<Rightarrow> (CR_NotHandled e, self)
       | GH_Reject r \<Rightarrow> (rdv_make_rejection self info timestamp r, self))
     (gen_hsv5_response cr (rv_init_settings self) info (rv_remote_public self) induction_time now)"

definition handle_waving ::
  "Crypto \<Rightarrow> KeyRandom \<Rightarrow> Rendezvous \<Rightarrow> HandshakeControlInfo \<Rightarrow> TimeStamp \<Rightarrow> instant
   \<Rightarrow> (ConnectionResult \<times> Rendezvous) may_panic" where
  "handle_waving cr rnd self info timestamp now =
     (if rv_state self \<noteq> Waving then Panic else
      case rdv_role (rv_cookie self) (hc_syn_cookie info) of
        None \<Rightarrow> Ok (CR_NotHandled (CookiesMatched (rv_cookie self)), self)
      | Some role \<Rightarrow>
          (case hc_shake_type info of
             Waveahand \<Rightarrow>
               (case role of
                  Initiator \<Rightarrow>
                    map_outcome_ok (\<lambda>(hsv5, initiator).
                      send_conclusion (transition self (AttentionInitiator hsv5 initiator)) (hc_socket_id info) hsv5)
                    (start_hsv5_initiation cr rnd (rv_init_settings self) None now)
                | Responder \<Rightarrow>
                    Ok (send_conclusion (transition (self\<lparr>rv_starting_seqnum := hc_init_seq_num info\<rparr>)
                      (AttentionResponder now)) (hc_socket_id info) empty_flags))
           | Conclusion \<Rightarrow>
               (case extract_ext_info info of
                  Inl e \<Rightarrow> Ok (CR_NotHandled e, self)
                | Inr ext_info \<Rightarrow>
                    (case (role, ext_info) of
                       (Responder, Some (Srt_HandshakeRequest _)) \<Rightarrow>
                         (case rv_last_send self of
                            Some induction_time \<Rightarrow>
                              rdv_answer_request cr self info timestamp induction_time now FineResponder
                          | None \<Rightarrow> Ok (CR_NotHandled (WavehandExpected info), self))
                     | (Initiator, None) \<Rightarrow>
                         map_outcome_ok (\<lambda>(hsv5, initiator).
                           send_conclusion (transition self (FineInitiator hsv5 initiator)) (hc_socket_id info) hsv5)
                         (start_hsv5_initiation cr rnd (rv_init_settings self) None now)
                     | (Responder, Some _) \<Rightarrow> Ok (CR_NotHandled ExpectedHsReq, self)
                     | (Initiator, Some _) \<Rightarrow> Ok (CR_NotHandled ExpectedNoExtFlags, self)
                     | (Responder, None) \<Rightarrow> Ok (CR_NotHandled ExpectedExtFlags, self)))
           | Agreement \<Rightarrow> Ok (CR_NoAction, self)
           | Induction \<Rightarrow> Ok (CR_NotHandled (RendezvousExpected info), self)
           | Rejection rej \<Rightarrow> Ok (CR_Reject None (CRej_Rejected rej), self)))"

text \<open>The end of the initiator: a conclusion with a handshake response connects it.\<close>

definition initiator_connected ::
  "Rendezvous \<Rightarrow> HandshakeControlInfo \<Rightarrow> StartedInitiator \<Rightarrow> HandshakeVsInfo \<Rightarrow> instant \<Rightarrow> ConnectionResult" where
  "initiator_connected self info initiator flags now =
     (let agreement = gen_packet self Agreement flags in
      case finish_hsv5_initiation initiator info (rv_remote_public self) now of
        Inr settings \<Rightarrow> set_connected self settings (Some agreement) (Some agreement)
      | Inl r \<Rightarrow> CR_NotHandled r)"

definition handle_attention_initiator ::
  "Rendezvous \<Rightarrow> HandshakeControlInfo \<Rightarrow> HandshakeVsInfo \<Rightarrow> StartedInitiator \<Rightarrow> instant \<Rightarrow> ConnectionResult \<times> Rendezvous" where
  "handle_attention_initiator self info hsv5 initiator now =
     (case hc_shake_type info of
        Conclusion \<Rightarrow>
          (case extract_ext_info info of
             Inr (Some (Srt_HandshakeResponse _)) \<Rightarrow> (initiator_connected self info initiator empty_flags now, self)
           | Inr (Some _) \<Rightarrow> (CR_NotHandled ExpectedHsResp, self)
           | Inr None \<Rightarrow> send_conclusion (transition self (InitiatedInitiator initiator)) (hc_socket_id info) hsv5
           | Inl e \<Rightarrow> (CR_NotHandled e, self))
      | _ \<Rightarrow> (CR_NoAction, self))"

definition handle_attention_responder ::
  "Crypto \<Rightarrow> Rendezvous \<Rightarrow> HandshakeControlInfo \<Rightarrow> TimeStamp \<Rightarrow> instant \<Rightarrow> instant
   \<Rightarrow> (ConnectionResult \<times> Rendezvous) may_panic" where
  "handle_attention_responder cr self info timestamp induction_time now =
     (case hc_shake_type info of
        Conclusion \<Rightarrow>
          (case extract_ext_info info of
             Inr (Some (Srt_HandshakeRequest _)) \<Rightarrow>
               rdv_answer_request cr self info timestamp induction_time now InitiatedResponder
           | Inr (Some _) \<Rightarrow> Ok (CR_NotHandled ExpectedHsReq, self)
           | Inr None \<Rightarrow> Ok (CR_NotHandled ExpectedExtFlags, self)
           | Inl e \<Rightarrow> Ok (CR_NotHandled e, self))
      | _ \<Rightarrow> Ok (CR_NoAction, self))"

definition handle_fine_initiator ::
  "Rendezvous \<Rightarrow> HandshakeControlInfo \<Rightarrow> HandshakeVsInfo \<Rightarrow> StartedInitiator \<Rightarrow> instant \<Rightarrow> ConnectionResult" where
  "handle_fine_initiator self info hsv5 initiator now =
     (case hc_shake_type info of
        Conclusion \<Rightarrow>
          (case extract_ext_info info of
             Inr (Some (Srt_HandshakeResponse _)) \<Rightarrow> initiator_connected self info initiator hsv5 now
           | Inr (Some _) \<Rightarrow> CR_NotHandled ExpectedHsResp
           | Inr None \<Rightarrow> CR_NotHandled ExpectedExtFlags
           | Inl e \<Rightarrow> CR_NotHandled e)
      | _ \<Rightarrow> CR_NoAction)"

fun ends_handshake :: "Packet \<Rightarrow> bool" where
  "ends_handshake (Pkt_Data _) = True"
| "ends_handshake (Pkt_Control control) =
     (case cp_control_type control of
        Ctl_Handshake info \<Rightarrow> hc_shake_type info = Agreement
      | Ctl_KeepAlive \<Rightarrow> True
      | _ \<Rightarrow> False)"

definition handle_fine_responder :: "Rendezvous \<Rightarrow> Packet \<Rightarrow> ConnectionSettings \<Rightarrow> ConnectionResult" where
  "handle_fine_responder self packet connection =
     (if ends_handshake packet then set_connected self connection None None else CR_NoAction)"

definition handle_initiated_initiator ::
  "Rendezvous \<Rightarrow> HandshakeControlInfo \<Rightarrow> StartedInitiator \<Rightarrow> instant \<Rightarrow> ConnectionResult" where
  "handle_initiated_initiator self info initiator now =
     (case hc_shake_type info of
        Conclusion \<Rightarrow>
          (case extract_ext_info info of
             Inr (Some (Srt_HandshakeResponse _)) \<Rightarrow> initiator_connected self info initiator empty_flags now
           | Inr (Some _) \<Rightarrow> CR_NotHandled ExpectedHsResp
           | Inr None \<Rightarrow> CR_NotHandled ExpectedExtFlags
           | Inl e \<Rightarrow> CR_NotHandled e)
      | _ \<Rightarrow> CR_NoAction)"

definition handle_initiated_responder :: "Rendezvous \<Rightarrow> Packet \<Rightarrow> ConnectionSettings \<Rightarrow> ConnectionResult" where
  "handle_initiated_responder self packet connection =
     (let connected = set_connected self connection None (Some (gen_packet self Agreement empty_flags)) in
      case get_handshake packet of
        Inl _ \<Rightarrow> connected
      | Inr info \<Rightarrow>
          (case (hc_shake_type info, extract_ext_info info) of
             (_, Inl e) \<Rightarrow> CR_NotHandled e
           | (Conclusion, Inr (Some (Srt_HandshakeRequest _))) \<Rightarrow> CR_NoAction
           | (Conclusion, Inr (Some _)) \<Rightarrow> CR_NotHandled ExpectedHsReq
           | (Waveahand, _) \<Rightarrow> CR_NotHandled (AgreementExpected info)
           | _ \<Rightarrow> connected))"

section \<open>Packets and ticks\<close>

definition rendezvous_dispatch ::
  "Crypto \<Rightarrow> KeyRandom \<Rightarrow> Rendezvous \<Rightarrow> Packet \<Rightarrow> instant \<Rightarrow> (ConnectionResult \<times> Rendezvous) may_panic" where
  "rendezvous_dispatch cr rnd self packet now =
     (case (rv_state self, get_handshake packet) of
        (Waving, Inr hs) \<Rightarrow> handle_waving cr rnd self hs (packet_timestamp packet) now
      | (AttentionInitiator hsv5 initiator, Inr hs) \<Rightarrow> Ok (handle_attention_initiator self hs hsv5 initiator now)
      | (AttentionResponder induction_time, Inr hs) \<Rightarrow>
          handle_attention_responder cr self hs (packet_timestamp packet) induction_time now
      | (InitiatedInitiator initiator, Inr hs) \<Rightarrow> Ok (handle_initiated_initiator self hs initiator now, self)
      | (InitiatedResponder connection, _) \<Rightarrow> Ok (handle_initiated_responder self packet connection, self)
      | (FineInitiator hsv5 initiator, Inr hs) \<Rightarrow> Ok (handle_fine_initiator self hs hsv5 initiator now, self)
      | (FineResponder conn, _) \<Rightarrow> Ok (handle_fine_responder self packet conn, self)
      | (_, Inl e) \<Rightarrow> Ok (CR_NotHandled e, self))"

definition rendezvous_handle_packet ::
  "Crypto \<Rightarrow> KeyRandom \<Rightarrow> Rendezvous \<Rightarrow> ReceivePacketError + Packet \<times> SocketAddr \<Rightarrow> instant
   \<Rightarrow> (ConnectionResult \<times> Rendezvous) may_panic" where
  "rendezvous_handle_packet cr rnd self packet now =
     (case packet of
        Inr (packet, from_addr) \<Rightarrow>
          if from_addr \<noteq> rv_remote_public self
          then Ok (CR_NotHandled (UnexpectedHost (rv_remote_public self) from_addr), self)
          else rendezvous_dispatch cr rnd self packet now
      | Inl (RPE_Io error) \<Rightarrow> Ok (if io_kind error = ConnectionReset then CR_NoAction else CR_Failure error, self)
      | Inl (RPE_Parse e) \<Rightarrow> Ok (CR_NotHandled (ParseFailed e), self))"

definition rendezvous_handle_tick :: "Rendezvous \<Rightarrow> instant \<Rightarrow> ConnectionResult \<times> Rendezvous" where
  "rendezvous_handle_tick self now = (CR_SendPacket (rv_last_packet self), self\<lparr>rv_last_send := Some now\<rparr>)"

end
