(* ===== verification/Handshake_Agreement.thy ===== *)
theory Handshake_Agreement
  imports Handshake_Connect Handshake_Listen Handshake_Rendezvous
begin

text \<open>
  The handshake between a caller and a listener over a network that loses, duplicates, delays and reorders
  their packets: whatever happens, two sides that have come out of it connected have agreed on the values
  that data transfer needs.
\<close>

section \<open>The system of a caller and a listener\<close>

text \<open>\<open>'p\<close> is what the network carries: packets here, bytes in theory \<open>Handshake_Wire\<close>.\<close>

record 'p CallSystem =
  sy_caller :: Connect
  sy_listener :: Listen
  sy_to_listener :: "'p set"
  sy_to_caller :: "'p set"
  sy_caller_conn :: "Connection option"
  sy_listener_conn :: "Connection option"

fun sent_packets :: "ConnectionResult \<Rightarrow> Packet set" where
  "sent_packets (CR_SendPacket (p, _)) = {p}"
| "sent_packets (CR_Reject (Some (p, _)) _) = {p}"
| "sent_packets (CR_Connected (Some (p, _)) _) = {p}"
| "sent_packets _ = {}"

fun new_connection :: "ConnectionResult \<Rightarrow> Connection option" where
  "new_connection (CR_Connected _ c) = Some c"
| "new_connection _ = None"

definition caller_result :: "Packet CallSystem \<Rightarrow> ConnectionResult \<Rightarrow> Connect \<Rightarrow> Packet CallSystem" where
  "caller_result s r c = s\<lparr>sy_caller := c, sy_to_listener := sy_to_listener s \<union> sent_packets r,
     sy_caller_conn := new_connection r\<rparr>"

definition listener_result :: "Packet CallSystem \<Rightarrow> ConnectionResult \<Rightarrow> Listen \<Rightarrow> Packet CallSystem" where
  "listener_result s r l = s\<lparr>sy_listener := l, sy_to_caller := sy_to_caller s \<union> sent_packets r,
     sy_listener_conn := new_connection r\<rparr>"

text \<open>The caller takes any input; packets that come from the address \<open>B\<close> of the listener are packets of
  the listener. The listener takes the packets of the caller, errors, and the answers of the access control.
  A side that is connected leaves the handshake; the connection of the listener still answers repeated
  requests (\<^const>\<open>handle_handshake\<close>).\<close>

inductive call_step :: "Crypto \<Rightarrow> SocketAddr \<Rightarrow> SocketAddr \<Rightarrow> Packet CallSystem \<Rightarrow> Packet CallSystem \<Rightarrow> bool" for cr A B where
  caller_tick: "sy_caller_conn s = None \<Longrightarrow> connect_handle_tick (sy_caller s) now = (r, c)
    \<Longrightarrow> call_step cr A B s (caller_result s r c)"
| caller_rx: "sy_caller_conn s = None \<Longrightarrow> key_random_ok rnd
    \<Longrightarrow> (\<And>p. input = Inr (p, B) \<Longrightarrow> p \<in> sy_to_caller s)
    \<Longrightarrow> connect_handle_packet cr rnd (sy_caller s) input now = Ok (r, c)
    \<Longrightarrow> call_step cr A B s (caller_result s r c)"
| listener_rx: "sy_listener_conn s = None
    \<Longrightarrow> (\<And>p addr. input = Inr (p, addr) \<Longrightarrow> addr = A \<and> p \<in> sy_to_listener s)
    \<Longrightarrow> listen_handle_packet cr cookie (sy_listener s) now input = Ok (r, l)
    \<Longrightarrow> call_step cr A B s (listener_result s r l)"
| listener_access: "sy_listener_conn s = None
    \<Longrightarrow> listen_handle_access_control_response cr (sy_listener s) now response = Ok (r, l)
    \<Longrightarrow> call_step cr A B s (listener_result s r l)"
| listener_again: "sy_listener_conn s = Some conn \<Longrightarrow> handle_handshake (cn_handshake conn) shake = Some control
    \<Longrightarrow> call_step cr A B s (s\<lparr>sy_to_caller := insert
      (Pkt_Control \<lparr>cp_timestamp = timestamp, cp_dest_sockid = dest, cp_control_type = control\<rparr>) (sy_to_caller s)\<rparr>)"

definition call_init ::
  "SocketAddr \<Rightarrow> ConnInitSettings \<Rightarrow> u8 list option \<Rightarrow> SeqNumber \<Rightarrow> ConnInitSettings \<Rightarrow> 'p CallSystem \<Rightarrow> bool" where
  "call_init B ci sid iseq own s \<longleftrightarrow>
     (\<exists>local_addr access. sy_caller s = connect_new B local_addr ci sid iseq \<and> sy_listener s = listen_new own access)
     \<and> sy_to_listener s = {} \<and> sy_to_caller s = {} \<and> sy_caller_conn s = None \<and> sy_listener_conn s = None"

section \<open>What the handlers do\<close>

lemma connect_tick_cases:
  assumes "connect_handle_tick c now = (r, c')"
  shows "(\<exists>q. co_state c' = InductionResponseWait q \<and> co_state c = Con_Configured \<and> sent_packets r = {q}
      \<and> new_connection r = None \<and> c' = c\<lparr>co_state := InductionResponseWait q\<rparr>
      \<and> (\<exists>h. get_handshake q = Inr h \<and> hc_shake_type h = Induction
          \<and> hc_max_packet_size h = ci_max_packet_size (co_init_settings c)
          \<and> hc_max_flow_size h = ci_max_flow_size (co_init_settings c)))
    \<or> c' = c \<and> new_connection r = None \<and> (\<exists>q. sent_packets r = {q}
        \<and> (co_state c = InductionResponseWait q \<or> (\<exists>cm. co_state c = ConclusionResponseWait q cm)))"
  using assms by (auto simp: connect_handle_tick_def connect_on_start_def Let_def split: ConnectState.splits)

lemma connect_packet_cases:
  assumes "connect_handle_packet cr rnd c input now = Ok (r, c')"
  shows "c' = c \<and> sent_packets r = {} \<and> new_connection r = None
    \<or> (\<exists>q cm p h st. c' = c \<and> co_state c = ConclusionResponseWait q cm \<and> input = Inr (p, co_remote c)
        \<and> get_handshake p = Inr h \<and> hc_shake_type h = Conclusion \<and> sent_packets r = {}
        \<and> finish_hsv5_initiation cm h (co_remote c) now = Inr st
        \<and> new_connection r = Some \<lparr>cn_settings = st, cn_handshake = HS_Connector\<rparr>)
    \<or> (\<exists>q p h packet cm hsv5. co_state c = InductionResponseWait q \<and> input = Inr (p, co_remote c)
        \<and> get_handshake p = Inr h \<and> hc_shake_type h = Induction
        \<and> start_hsv5_initiation cr rnd (co_init_settings c) (co_streamid c) now = Ok (hsv5, cm)
        \<and> c' = c\<lparr>co_state := ConclusionResponseWait packet cm\<rparr> \<and> sent_packets r = {packet} \<and> new_connection r = None
        \<and> get_handshake packet = Inr (h\<lparr>hc_shake_type := Conclusion, hc_socket_id := ci_local_sockid (co_init_settings c),
             hc_info := hsv5, hc_init_seq_num := co_starting_send_seqnum c\<rparr>))"
  using assms
  by (auto simp: connect_handle_packet_def connect_wait_for_induction_def connect_wait_for_conclusion_def Let_def
      map_outcome_ok_Ok_iff
      split: sum.splits prod.splits ReceivePacketError.splits PacketParseError.splits ConnectState.splits Packet.splits
        ControlTypes.splits ShakeType.splits HandshakeVsInfo.splits if_splits)

text \<open>What an accepting responder has done with the request \<open>h\<close>: the settings of its connection and the
  response \<open>h'\<close>.\<close>

definition accepts ::
  "Crypto \<Rightarrow> ConnInitSettings \<Rightarrow> SocketAddr \<Rightarrow> HandshakeControlInfo \<Rightarrow> ConnectionSettings \<Rightarrow> HandshakeControlInfo \<Rightarrow> bool" where
  "accepts cr own A h settings h' \<longleftrightarrow>
     (\<exists>v hs cipher now t v'. hc_info h = HVI_V5 v \<and> v5_ext_hs v = Some (Srt_HandshakeRequest hs)
        \<and> responder_cipher cr own v = Ok cipher \<and> settings = responder_settings now own A t h v hs cipher
        \<and> hc_init_seq_num h' = hc_init_seq_num h \<and> hc_socket_id h' = ci_local_sockid own \<and> hc_shake_type h' = Conclusion
        \<and> hc_info h' = HVI_V5 v' \<and> v5_ext_hs v' = Some (Srt_HandshakeResponse (handshake_offer own)))"

lemma gen_access_control_response_cases:
  assumes "gen_access_control_response cr now own A t h v ks = Ok (res, own')" "hc_info h = HVI_V5 v"
  shows "(\<exists>ks'. own' = own\<lparr>ci_key_settings := ks'\<rparr>)
    \<and> (\<forall>i settings. res = GH_Accept i settings \<longrightarrow>
        (\<exists>v' hs cipher. i = HVI_V5 v' \<and> v5_ext_hs v = Some (Srt_HandshakeRequest hs)
          \<and> v5_ext_hs v' = Some (Srt_HandshakeResponse (handshake_offer own'))
          \<and> responder_cipher cr own' v = Ok cipher \<and> settings = responder_settings now own' A t h v hs cipher))"
proof -
  define own2 where "own2 = (case ks of Some k \<Rightarrow> own\<lparr>ci_key_settings := Some k\<rparr> | None \<Rightarrow> own)"
  have "\<exists>ks'. own2 = own\<lparr>ci_key_settings := ks'\<rparr>"
  proof (cases ks)
    case None
    then show ?thesis by (intro exI [of _ "ci_key_settings own"]) (simp add: own2_def)
  qed (auto simp: own2_def)
  moreover have "own' = own2 \<and> (\<forall>i settings. res = GH_Accept i settings \<longrightarrow>
        (\<exists>v' hs cipher. i = HVI_V5 v' \<and> v5_ext_hs v = Some (Srt_HandshakeRequest hs)
          \<and> v5_ext_hs v' = Some (Srt_HandshakeResponse (handshake_offer own2))
          \<and> responder_cipher cr own2 v = Ok cipher \<and> settings = responder_settings now own2 A t h v hs cipher))"
    using assms(1) unfolding gen_access_control_response_def own2_def [symmetric] Let_def
    by (auto simp: bind_outcome_Ok_iff split: option.splits SrtControlPacket.splits outcome.splits)
  ultimately show ?thesis by blast
qed

lemma accept_connection_cases:
  assumes "accept_connection cr l now st ts h v ks = Ok (r, l')" "hc_info h = HVI_V5 v"
  shows "(\<exists>ks'. li_init_settings l' = (li_init_settings l)\<lparr>ci_key_settings := ks'\<rparr>)
    \<and> (li_state l' = li_state l \<and> sent_packets r = {} \<and> new_connection r = None
     \<or> li_state l' = InductionWait \<and> new_connection r = None
       \<and> (\<exists>q h' reason. sent_packets r = {q} \<and> get_handshake q = Inr h' \<and> hc_shake_type h' = Rejection reason)
     \<or> (\<exists>q h' settings. li_state l' = li_state l \<and> sent_packets r = {q} \<and> get_handshake q = Inr h'
       \<and> new_connection r = Some \<lparr>cn_settings = settings, cn_handshake = HS_Listener (Ctl_Handshake h')\<rparr>
       \<and> accepts cr (li_init_settings l') (cw_from st) h settings h'
       \<and> hc_max_packet_size h' = hc_max_packet_size h \<and> hc_max_flow_size h' = hc_max_flow_size h))"
proof -
  obtain res own' where g: "gen_access_control_response cr now (li_init_settings l) (cw_from st) (cw_induction_time st) h v ks
      = Ok (res, own')"
    and res: "(r, l') = (let self = l\<lparr>li_init_settings := own'\<rparr> in
       case res of
         GH_NotHandled e \<Rightarrow> (CR_NotHandled e, self)
       | GH_Reject r \<Rightarrow> listen_make_rejection self h (cw_from st) ts r
       | GH_Accept hsv5 connection_settings \<Rightarrow>
           let resp_handshake = accept_response self st ts h hsv5 in
           (CR_Connected (Some (Pkt_Control resp_handshake, cw_from st))
              \<lparr>cn_settings = connection_settings, cn_handshake = HS_Listener (cp_control_type resp_handshake)\<rparr>, self))"
    using assms(1) by (auto simp: accept_connection_def map_outcome_ok_Ok_iff)
  note c = gen_access_control_response_cases [OF g assms(2)]
  show ?thesis
  proof (cases res)
    case (GH_Accept i settings)
    obtain v' hs cipher where a: "i = HVI_V5 v'" "v5_ext_hs v = Some (Srt_HandshakeRequest hs)"
      "v5_ext_hs v' = Some (Srt_HandshakeResponse (handshake_offer own'))"
      "responder_cipher cr own' v = Ok cipher"
      "settings = responder_settings now own' (cw_from st) (cw_induction_time st) h v hs cipher"
      using c GH_Accept by blast
    let ?h' = "h\<lparr>hc_syn_cookie := cw_cookie st, hc_socket_id := ci_local_sockid own', hc_info := i,
      hc_shake_type := Conclusion\<rparr>"
    have "accepts cr own' (cw_from st) h settings ?h'"
      unfolding accepts_def using assms(2) a by auto
    then show ?thesis using res c GH_Accept by (auto simp: Let_def accept_response_def)
  next
    case (GH_NotHandled e)
    then show ?thesis using res c by (auto simp: Let_def)
  next
    case (GH_Reject rj)
    then show ?thesis using res c by (auto simp: Let_def listen_make_rejection_def)
  qed
qed

lemma listen_packet_cases:
  assumes "listen_handle_packet cr cookie l now input = Ok (r, l')"
  shows "l' = l \<and> sent_packets r = {} \<and> new_connection r = None
    \<or> (\<exists>p addr h q. input = Inr (p, addr) \<and> get_handshake p = Inr h \<and> hc_shake_type h = Induction
        \<and> l' = l\<lparr>li_state := ConclusionWait \<lparr>cw_from = addr, cw_cookie = cookie, cw_induction_response = q,
             cw_induction_time = now\<rparr>\<rparr> \<and> sent_packets r = {q} \<and> new_connection r = None
        \<and> get_handshake q = Inr (h\<lparr>hc_syn_cookie := cookie, hc_socket_id := ci_local_sockid (li_init_settings l),
             hc_info := HVI_V5 hs_v5_default\<rparr>))
    \<or> (\<exists>st. li_state l = ConclusionWait st \<and> l' = l \<and> sent_packets r = {cw_induction_response st}
        \<and> new_connection r = None)
    \<or> (\<exists>st p addr h v. li_state l = ConclusionWait st \<and> input = Inr (p, addr) \<and> get_handshake p = Inr h
        \<and> hc_shake_type h = Conclusion \<and> hc_syn_cookie h = cw_cookie st \<and> hc_info h = HVI_V5 v
        \<and> ((\<exists>ts. l' = l\<lparr>li_state := AccessControlRequested st ts h v\<rparr>) \<and> sent_packets r = {} \<and> new_connection r = None
          \<or> (\<exists>ts ks. accept_connection cr l now st ts h v ks = Ok (r, l'))))"
  using assms
  by (auto simp: listen_handle_packet_def listen_handle_control_packets_def listen_wait_for_induction_def
      listen_wait_for_conclusion_def request_access_def Let_def
      split: sum.splits prod.splits ReceivePacketError.splits ListenState.splits Packet.splits
        ControlTypes.splits ShakeType.splits HandshakeVsInfo.splits if_splits)

lemma listen_access_cases:
  assumes "listen_handle_access_control_response cr l now response = Ok (r, l')"
  shows "l' = l \<and> sent_packets r = {} \<and> new_connection r = None
    \<or> (\<exists>st ts h v. li_state l = AccessControlRequested st ts h v
        \<and> ((\<exists>ks. accept_connection cr l now st ts h v ks = Ok (r, l'))
          \<or> l' = l\<lparr>li_state := InductionWait\<rparr> \<and> new_connection r = None
            \<and> (\<exists>q h' reason. sent_packets r = {q} \<and> get_handshake q = Inr h' \<and> hc_shake_type h' = Rejection reason)))"
  using assms
  by (auto simp: listen_handle_access_control_response_def listen_make_rejection_def
      split: ListenState.splits AccessControlResponse.splits)

section \<open>The invariant\<close>

definition induction_ok :: "ConnInitSettings \<Rightarrow> HandshakeControlInfo \<Rightarrow> bool" where
  "induction_ok ci h \<longleftrightarrow> hc_shake_type h = Induction \<and> hc_max_packet_size h = ci_max_packet_size ci
     \<and> hc_max_flow_size h = ci_max_flow_size ci"

definition offered ::
  "Crypto \<Rightarrow> ConnInitSettings \<Rightarrow> u8 list option \<Rightarrow> SeqNumber \<Rightarrow> Connect \<Rightarrow> HandshakeControlInfo \<Rightarrow> StartedInitiator \<Rightarrow> bool" where
  "offered cr ci sid iseq c h cm \<longleftrightarrow>
     (\<exists>q. co_state c = ConclusionResponseWait q cm \<and> get_handshake q = Inr h)
     \<and> hc_shake_type h = Conclusion \<and> hc_init_seq_num h = iseq \<and> hc_max_packet_size h = ci_max_packet_size ci
     \<and> hc_max_flow_size h = ci_max_flow_size ci \<and> hc_socket_id h = ci_local_sockid ci
     \<and> hs_request cr ci sid (hc_info h) cm"

definition caller_inv ::
  "Crypto \<Rightarrow> SocketAddr \<Rightarrow> ConnInitSettings \<Rightarrow> u8 list option \<Rightarrow> SeqNumber \<Rightarrow> Connect \<Rightarrow> Packet set \<Rightarrow> bool" where
  "caller_inv cr B ci sid iseq c net \<longleftrightarrow>
     co_init_settings c = ci \<and> co_remote c = B \<and> co_streamid c = sid \<and> co_starting_send_seqnum c = iseq
     \<and> (\<forall>q. co_state c = InductionResponseWait q \<longrightarrow> (\<exists>h. get_handshake q = Inr h \<and> induction_ok ci h))
     \<and> (\<forall>q cm. co_state c = ConclusionResponseWait q cm \<longrightarrow>
          (\<exists>h. get_handshake q = Inr h \<and> offered cr ci sid iseq c h cm))
     \<and> (\<forall>p h. p \<in> net \<longrightarrow> get_handshake p = Inr h \<longrightarrow> induction_ok ci h \<or> (\<exists>cm. offered cr ci sid iseq c h cm))"

definition accepted ::
  "Crypto \<Rightarrow> SocketAddr \<Rightarrow> ConnInitSettings \<Rightarrow> u8 list option \<Rightarrow> SeqNumber \<Rightarrow> ConnInitSettings
   \<Rightarrow> Connect \<Rightarrow> Connection \<Rightarrow> HandshakeControlInfo \<Rightarrow> bool" where
  "accepted cr A ci sid iseq own c conn h' \<longleftrightarrow>
     (\<exists>ks h cm. offered cr ci sid iseq c h cm \<and> accepts cr (own\<lparr>ci_key_settings := ks\<rparr>) A h (cn_settings conn) h'
        \<and> hc_max_packet_size h' = hc_max_packet_size h \<and> hc_max_flow_size h' = hc_max_flow_size h)"

text \<open>The access control may change the key settings of the listener, and nothing else.\<close>

definition keys_only :: "ConnInitSettings \<Rightarrow> ConnInitSettings \<Rightarrow> bool" where
  "keys_only own x \<longleftrightarrow> (\<exists>ks. x = own\<lparr>ci_key_settings := ks\<rparr>)"

definition net_ok ::
  "Crypto \<Rightarrow> SocketAddr \<Rightarrow> ConnInitSettings \<Rightarrow> u8 list option \<Rightarrow> SeqNumber \<Rightarrow> ConnInitSettings
   \<Rightarrow> Connect \<Rightarrow> Packet set \<Rightarrow> Connection option \<Rightarrow> bool" where
  "net_ok cr A ci sid iseq own c net lc \<longleftrightarrow> (\<forall>p h. p \<in> net \<longrightarrow> get_handshake p = Inr h \<longrightarrow>
     induction_ok ci h \<or> (\<exists>reason. hc_shake_type h = Rejection reason)
     \<or> (\<exists>conn. lc = Some conn \<and> accepted cr A ci sid iseq own c conn h))"

definition listener_inv ::
  "Crypto \<Rightarrow> SocketAddr \<Rightarrow> ConnInitSettings \<Rightarrow> u8 list option \<Rightarrow> SeqNumber \<Rightarrow> ConnInitSettings
   \<Rightarrow> Connect \<Rightarrow> Listen \<Rightarrow> Packet set \<Rightarrow> Connection option \<Rightarrow> bool" where
  "listener_inv cr A ci sid iseq own c l net lc \<longleftrightarrow>
     keys_only own (li_init_settings l)
     \<and> (\<forall>st. li_state l = ConclusionWait st \<longrightarrow> cw_from st = A
          \<and> (\<exists>h. get_handshake (cw_induction_response st) = Inr h \<and> induction_ok ci h))
     \<and> (\<forall>st ts h v. li_state l = AccessControlRequested st ts h v \<longrightarrow> cw_from st = A \<and> hc_info h = HVI_V5 v
          \<and> (\<exists>cm. offered cr ci sid iseq c h cm))
     \<and> net_ok cr A ci sid iseq own c net lc
     \<and> (\<forall>conn. lc = Some conn \<longrightarrow> (\<exists>h. cn_handshake conn = HS_Listener (Ctl_Handshake h) \<and> accepted cr A ci sid iseq own c conn h))"

definition call_inv ::
  "Crypto \<Rightarrow> SocketAddr \<Rightarrow> SocketAddr \<Rightarrow> ConnInitSettings \<Rightarrow> u8 list option \<Rightarrow> SeqNumber \<Rightarrow> ConnInitSettings \<Rightarrow> Packet CallSystem \<Rightarrow> bool" where
  "call_inv cr A B ci sid iseq own s \<longleftrightarrow>
     caller_inv cr B ci sid iseq (sy_caller s) (sy_to_listener s)
     \<and> listener_inv cr A ci sid iseq own (sy_caller s) (sy_listener s) (sy_to_caller s) (sy_listener_conn s)
     \<and> (\<forall>conn. sy_caller_conn s = Some conn \<longrightarrow>
          (\<exists>lc h' q cm now. sy_listener_conn s = Some lc \<and> accepted cr A ci sid iseq own (sy_caller s) lc h'
            \<and> co_state (sy_caller s) = ConclusionResponseWait q cm
            \<and> finish_hsv5_initiation cm h' B now = Inr (cn_settings conn)))"

text \<open>A request that the caller has sent stays the same: the caller leaves its last state only by being
  connected.\<close>

lemma offered_mono:
  assumes "\<And>q cm. co_state c = ConclusionResponseWait q cm \<Longrightarrow> co_state c' = ConclusionResponseWait q cm"
  shows "offered cr ci sid iseq c h cm \<Longrightarrow> offered cr ci sid iseq c' h cm"
    and "accepted cr A ci sid iseq own c conn h' \<Longrightarrow> accepted cr A ci sid iseq own c' conn h'"
    and "listener_inv cr A ci sid iseq own c l net lc \<Longrightarrow> listener_inv cr A ci sid iseq own c' l net lc"
proof -
  show o: "offered cr ci sid iseq c h cm \<Longrightarrow> offered cr ci sid iseq c' h cm" for h cm
    using assms by (auto simp: offered_def)
  show a: "accepted cr A ci sid iseq own c conn h' \<Longrightarrow> accepted cr A ci sid iseq own c' conn h'" for conn h'
    unfolding accepted_def using o by blast
  assume i: "listener_inv cr A ci sid iseq own c l net lc"
  have "\<exists>cm. offered cr ci sid iseq c' h cm" if "\<exists>cm. offered cr ci sid iseq c h cm" for h
    using o that by blast
  moreover have "\<exists>conn. lc = Some conn \<and> accepted cr A ci sid iseq own c' conn h"
    if "\<exists>conn. lc = Some conn \<and> accepted cr A ci sid iseq own c conn h" for h
    using a that by blast
  moreover have "\<exists>h. cn_handshake conn = HS_Listener (Ctl_Handshake h) \<and> accepted cr A ci sid iseq own c' conn h"
    if "\<exists>h. cn_handshake conn = HS_Listener (Ctl_Handshake h) \<and> accepted cr A ci sid iseq own c conn h" for conn
    using a that by blast
  ultimately show "listener_inv cr A ci sid iseq own c' l net lc"
    using i unfolding listener_inv_def net_ok_def by metis
qed

lemma connect_tick_inv:
  assumes "caller_inv cr B ci sid iseq c net" "connect_handle_tick c now = (r, c')"
  shows "caller_inv cr B ci sid iseq c' (net \<union> sent_packets r)" "new_connection r = None"
    "\<And>q cm. co_state c = ConclusionResponseWait q cm \<Longrightarrow> co_state c' = ConclusionResponseWait q cm"
proof -
  consider q h where "co_state c = Con_Configured" "sent_packets r = {q}" "new_connection r = None"
      "c' = c\<lparr>co_state := InductionResponseWait q\<rparr>" "get_handshake q = Inr h" "induction_ok (co_init_settings c) h"
    | q where "c' = c" "new_connection r = None" "sent_packets r = {q}"
        "co_state c = InductionResponseWait q \<or> (\<exists>cm. co_state c = ConclusionResponseWait q cm)"
    using connect_tick_cases [OF assms(2)] by (auto simp: induction_ok_def)
  then have "caller_inv cr B ci sid iseq c' (net \<union> sent_packets r) \<and> new_connection r = None
    \<and> (\<forall>q cm. co_state c = ConclusionResponseWait q cm \<longrightarrow> co_state c' = ConclusionResponseWait q cm)"
  proof cases
    case 1
    then show ?thesis using assms(1) by (auto simp: caller_inv_def offered_def)
  next
    case 2
    then show ?thesis using assms(1) by (auto simp: caller_inv_def)
  qed
  then show "caller_inv cr B ci sid iseq c' (net \<union> sent_packets r)" "new_connection r = None"
    "\<And>q cm. co_state c = ConclusionResponseWait q cm \<Longrightarrow> co_state c' = ConclusionResponseWait q cm"
    by blast+
qed

lemma connect_packet_inv:
  assumes inv: "caller_inv cr B ci sid iseq c net" and rnd: "key_random_ok rnd"
    and net: "\<forall>p h. input = Inr (p, B) \<longrightarrow> get_handshake p = Inr h \<longrightarrow> hc_shake_type h = Induction \<longrightarrow> induction_ok ci h"
    and step: "connect_handle_packet cr rnd c input now = Ok (r, c')"
  shows "caller_inv cr B ci sid iseq c' (net \<union> sent_packets r)"
    "\<And>q cm. co_state c = ConclusionResponseWait q cm \<Longrightarrow> co_state c' = ConclusionResponseWait q cm"
    "\<And>conn. new_connection r = Some conn \<Longrightarrow> c' = c \<and> (\<exists>q cm p h. co_state c = ConclusionResponseWait q cm
       \<and> input = Inr (p, B) \<and> get_handshake p = Inr h \<and> hc_shake_type h = Conclusion
       \<and> finish_hsv5_initiation cm h B now = Inr (cn_settings conn))"
proof -
  have B: "co_remote c = B" "co_init_settings c = ci" "co_streamid c = sid" "co_starting_send_seqnum c = iseq"
    using inv by (auto simp: caller_inv_def)
  let ?goal = "caller_inv cr B ci sid iseq c' (net \<union> sent_packets r)
    \<and> (\<forall>q cm. co_state c = ConclusionResponseWait q cm \<longrightarrow> co_state c' = ConclusionResponseWait q cm)
    \<and> (\<forall>conn. new_connection r = Some conn \<longrightarrow> c' = c \<and> (\<exists>q cm p h. co_state c = ConclusionResponseWait q cm
       \<and> input = Inr (p, B) \<and> get_handshake p = Inr h \<and> hc_shake_type h = Conclusion
       \<and> finish_hsv5_initiation cm h B now = Inr (cn_settings conn)))"
  from connect_packet_cases [OF step, unfolded B] have ?goal
  proof (elim disjE exE conjE)
    fix q p packet cm hsv5 and h :: HandshakeControlInfo
    let ?h = "h\<lparr>hc_shake_type := Conclusion, hc_socket_id := ci_local_sockid ci, hc_info := hsv5, hc_init_seq_num := iseq\<rparr>"
    assume start: "co_state c = InductionResponseWait q" "input = Inr (p, B)"
      "get_handshake p = Inr h" "hc_shake_type h = Induction"
      "start_hsv5_initiation cr rnd ci sid now = Ok (hsv5, cm)"
      "c' = c\<lparr>co_state := ConclusionResponseWait packet cm\<rparr>" "sent_packets r = {packet}" "new_connection r = None"
      "get_handshake packet = Inr ?h"
    have "induction_ok ci h" using net start(2,3,4) by blast
    moreover have "hs_request cr ci sid hsv5 cm" using rnd start(5) by (auto simp: hs_request_def)
    ultimately have "offered cr ci sid iseq c' ?h cm" using start(6,9) by (simp add: offered_def induction_ok_def)
    then show ?goal using inv start by (auto simp: caller_inv_def offered_def)
  qed (use inv in auto)
  then show "caller_inv cr B ci sid iseq c' (net \<union> sent_packets r)"
    "\<And>q cm. co_state c = ConclusionResponseWait q cm \<Longrightarrow> co_state c' = ConclusionResponseWait q cm"
    "\<And>conn. new_connection r = Some conn \<Longrightarrow> c' = c \<and> (\<exists>q cm p h. co_state c = ConclusionResponseWait q cm
       \<and> input = Inr (p, B) \<and> get_handshake p = Inr h \<and> hc_shake_type h = Conclusion
       \<and> finish_hsv5_initiation cm h B now = Inr (cn_settings conn))"
    by blast+
qed

text \<open>How a step of the listener keeps its invariant: what it sends is one of the allowed packets.\<close>

lemma listener_inv_step:
  assumes "listener_inv cr A ci sid iseq own c l net None" "li_init_settings l' = own\<lparr>ci_key_settings := ks\<rparr>"
    and "\<And>st. li_state l' = ConclusionWait st \<Longrightarrow> li_state l' = li_state l \<or> (cw_from st = A
          \<and> (\<exists>h. get_handshake (cw_induction_response st) = Inr h \<and> induction_ok ci h))"
    and "\<And>st ts h v. li_state l' = AccessControlRequested st ts h v \<Longrightarrow> li_state l' = li_state l
          \<or> (cw_from st = A \<and> hc_info h = HVI_V5 v \<and> (\<exists>cm. offered cr ci sid iseq c h cm))"
    and "\<And>p h. p \<in> new \<Longrightarrow> get_handshake p = Inr h \<Longrightarrow>
          induction_ok ci h \<or> (\<exists>reason. hc_shake_type h = Rejection reason)
          \<or> (\<exists>conn. lc = Some conn \<and> accepted cr A ci sid iseq own c conn h)"
    and "\<And>conn. lc = Some conn \<Longrightarrow> \<exists>h. cn_handshake conn = HS_Listener (Ctl_Handshake h) \<and> accepted cr A ci sid iseq own c conn h"
  shows "listener_inv cr A ci sid iseq own c l' (net \<union> new) lc"
  unfolding listener_inv_def
proof (intro conjI allI impI)
  show "keys_only own (li_init_settings l')" using assms(2) by (auto simp: keys_only_def)
next
  show "net_ok cr A ci sid iseq own c (net \<union> new) lc"
    using assms(1,5) unfolding listener_inv_def net_ok_def by blast
qed (use assms(1,3,4,6) in \<open>unfold listener_inv_def, metis\<close>)+

text \<open>An acceptance keeps the invariant of the listener.\<close>

lemma accept_inv:
  assumes inv: "listener_inv cr A ci sid iseq own c l net None"
    and off: "offered cr ci sid iseq c h cm" "hc_info h = HVI_V5 v" "cw_from st = A"
    and acc: "accept_connection cr l now st ts h v ks = Ok (r, l')"
  shows "listener_inv cr A ci sid iseq own c l' (net \<union> sent_packets r) (new_connection r)"
proof -
  obtain k where k: "li_init_settings l = own\<lparr>ci_key_settings := k\<rparr>" using inv by (auto simp: listener_inv_def keys_only_def)
  obtain k' where k': "li_init_settings l' = own\<lparr>ci_key_settings := k'\<rparr>"
    using accept_connection_cases [OF acc off(2)] k by auto
  from accept_connection_cases [OF acc off(2)] show ?thesis
  proof (elim disjE exE conjE)
    fix q h' settings
    assume accept: "li_state l' = li_state l" "sent_packets r = {q}" "get_handshake q = Inr h'"
      "new_connection r = Some \<lparr>cn_settings = settings, cn_handshake = HS_Listener (Ctl_Handshake h')\<rparr>"
      "accepts cr (li_init_settings l') (cw_from st) h settings h'"
      "hc_max_packet_size h' = hc_max_packet_size h" "hc_max_flow_size h' = hc_max_flow_size h"
    have "accepted cr A ci sid iseq own c \<lparr>cn_settings = settings, cn_handshake = HS_Listener (Ctl_Handshake h')\<rparr> h'"
      unfolding accepted_def using off accept k' by auto
    then show ?thesis by (intro listener_inv_step [OF inv k']) (use accept in auto)
  next
    assume "li_state l' = li_state l" "sent_packets r = {}" "new_connection r = None"
    then show ?thesis by (intro listener_inv_step [OF inv k']) auto
  next
    fix q h' reason
    assume "li_state l' = InductionWait" "new_connection r = None" "sent_packets r = {q}"
        "get_handshake q = Inr h'" "hc_shake_type h' = Rejection reason"
    then show ?thesis by (intro listener_inv_step [OF inv k']) auto
  qed
qed

lemma listen_packet_inv:
  assumes inv: "listener_inv cr A ci sid iseq own c l net None"
    and caller: "caller_inv cr B ci sid iseq c net'"
    and net: "\<And>p addr. input = Inr (p, addr) \<Longrightarrow> addr = A \<and> p \<in> net'"
    and step: "listen_handle_packet cr cookie l now input = Ok (r, l')"
  shows "listener_inv cr A ci sid iseq own c l' (net \<union> sent_packets r) (new_connection r)"
proof -
  have sent: "induction_ok ci h \<or> (\<exists>cm. offered cr ci sid iseq c h cm)"
    if "input = Inr (p, addr)" "get_handshake p = Inr h" for p addr h
    using net [OF that(1)] that(2) caller by (auto simp: caller_inv_def)
  obtain k where k: "li_init_settings l = own\<lparr>ci_key_settings := k\<rparr>" using inv by (auto simp: listener_inv_def keys_only_def)
  from listen_packet_cases [OF step] show ?thesis
  proof (elim disjE exE conjE)
    fix p addr q and h :: HandshakeControlInfo
    let ?h = "h\<lparr>hc_syn_cookie := cookie, hc_socket_id := ci_local_sockid (li_init_settings l), hc_info := HVI_V5 hs_v5_default\<rparr>"
    assume a: "input = Inr (p, addr)" "get_handshake p = Inr h" "hc_shake_type h = Induction"
      "l' = l\<lparr>li_state := ConclusionWait \<lparr>cw_from = addr, cw_cookie = cookie, cw_induction_response = q,
             cw_induction_time = now\<rparr>\<rparr>" "sent_packets r = {q}" "new_connection r = None"
      "get_handshake q = Inr ?h"
    have "induction_ok ci h" using sent [OF a(1,2)] a(3) by (auto simp: offered_def)
    then have "induction_ok ci ?h" by (simp add: induction_ok_def)
    then show ?thesis by (intro listener_inv_step [OF inv]) (use k a net [OF a(1)] in auto)
  next
    fix st p addr h v ts
    assume a: "input = Inr (p, addr)" "get_handshake p = Inr h" "hc_shake_type h = Conclusion"
      "li_state l = ConclusionWait st" "hc_info h = HVI_V5 v" "l' = l\<lparr>li_state := AccessControlRequested st ts h v\<rparr>"
      "sent_packets r = {}" "new_connection r = None"
    have "\<exists>cm. offered cr ci sid iseq c h cm" using sent [OF a(1,2)] a(3) by (auto simp: induction_ok_def)
    moreover have "cw_from st = A" using inv a(4) unfolding listener_inv_def by blast
    ultimately show ?thesis by (intro listener_inv_step [OF inv]) (use k a in auto)
  next
    fix st p addr h v ts ks
    assume a: "input = Inr (p, addr)" "get_handshake p = Inr h" "hc_shake_type h = Conclusion"
      "li_state l = ConclusionWait st" "hc_info h = HVI_V5 v" "accept_connection cr l now st ts h v ks = Ok (r, l')"
    obtain cm where "offered cr ci sid iseq c h cm" using sent [OF a(1,2)] a(3) by (auto simp: induction_ok_def)
    moreover have "cw_from st = A" using inv a(4) unfolding listener_inv_def by blast
    ultimately show ?thesis by (intro accept_inv [OF inv _ a(5) _ a(6)])
  next
    fix st
    assume a: "li_state l = ConclusionWait st" "l' = l" "sent_packets r = {cw_induction_response st}" "new_connection r = None"
    have "\<exists>h. get_handshake (cw_induction_response st) = Inr h \<and> induction_ok ci h"
      using inv a(1) unfolding listener_inv_def by blast
    then show ?thesis by (intro listener_inv_step [OF inv]) (use k a in auto)
  next
    assume "l' = l" "sent_packets r = {}" "new_connection r = None"
    then show ?thesis using inv by simp
  qed
qed

lemma listen_access_inv:
  assumes inv: "listener_inv cr A ci sid iseq own c l net None"
    and step: "listen_handle_access_control_response cr l now response = Ok (r, l')"
  shows "listener_inv cr A ci sid iseq own c l' (net \<union> sent_packets r) (new_connection r)"
proof -
  obtain k where k: "li_init_settings l = own\<lparr>ci_key_settings := k\<rparr>" using inv by (auto simp: listener_inv_def keys_only_def)
  from listen_access_cases [OF step] show ?thesis
  proof (elim disjE exE conjE)
    fix st ts h v ks
    assume a: "li_state l = AccessControlRequested st ts h v" "accept_connection cr l now st ts h v ks = Ok (r, l')"
    then obtain cm where "offered cr ci sid iseq c h cm" "cw_from st = A" "hc_info h = HVI_V5 v"
      using inv unfolding listener_inv_def by blast
    then show ?thesis by (intro accept_inv [OF inv _ _ _ a(2)])
  next
    assume "l' = l" "sent_packets r = {}" "new_connection r = None"
    then show ?thesis using inv by simp
  next
    fix q h' reason
    assume a: "l' = l\<lparr>li_state := InductionWait\<rparr>" "new_connection r = None" "sent_packets r = {q}"
      "get_handshake q = Inr h'" "hc_shake_type h' = Rejection reason"
    then show ?thesis by (intro listener_inv_step [OF inv]) (use k in auto)
  qed
qed

lemma call_init_inv:
  assumes "call_init B ci sid iseq own s"
  shows "call_inv cr A B ci sid iseq own s"
proof -
  obtain la ac where "sy_caller s = connect_new B la ci sid iseq" "sy_listener s = listen_new own ac"
    using assms by (auto simp: call_init_def)
  moreover have "keys_only own own" unfolding keys_only_def by (intro exI [of _ "ci_key_settings own"]) simp
  ultimately show ?thesis using assms
    by (auto simp: call_init_def call_inv_def caller_inv_def listener_inv_def net_ok_def connect_new_def
        listen_new_def)
qed

lemma caller_result_inv:
  assumes inv: "call_inv cr A B ci sid iseq own s" and none: "sy_caller_conn s = None"
    and c: "caller_inv cr B ci sid iseq c (sy_to_listener s \<union> sent_packets r)"
    and mono: "\<And>q cm. co_state (sy_caller s) = ConclusionResponseWait q cm \<Longrightarrow> co_state c = ConclusionResponseWait q cm"
    and conn: "\<And>conn. new_connection r = Some conn \<Longrightarrow> c = sy_caller s \<and> (\<exists>q cm p h now. co_state c = ConclusionResponseWait q cm
       \<and> p \<in> sy_to_caller s \<and> get_handshake p = Inr h \<and> hc_shake_type h = Conclusion
       \<and> finish_hsv5_initiation cm h B now = Inr (cn_settings conn))"
  shows "call_inv cr A B ci sid iseq own (caller_result s r c)"
proof -
  have l: "listener_inv cr A ci sid iseq own (sy_caller s) (sy_listener s) (sy_to_caller s) (sy_listener_conn s)"
    using inv by (simp add: call_inv_def)
  have "listener_inv cr A ci sid iseq own c (sy_listener s) (sy_to_caller s) (sy_listener_conn s)"
    using mono l by (rule offered_mono(3))
  moreover have "\<exists>lc h' q cm now. sy_listener_conn s = Some lc \<and> accepted cr A ci sid iseq own c lc h'
            \<and> co_state c = ConclusionResponseWait q cm \<and> finish_hsv5_initiation cm h' B now = Inr (cn_settings conn)"
    if "new_connection r = Some conn" for conn
  proof -
    note new = that
    obtain q cm p h now where a: "co_state c = ConclusionResponseWait q cm" "p \<in> sy_to_caller s"
      "get_handshake p = Inr h" "hc_shake_type h = Conclusion" "c = sy_caller s"
      "finish_hsv5_initiation cm h B now = Inr (cn_settings conn)"
      using conn [OF new] by blast
    have "\<not> induction_ok ci h" "\<nexists>reason. hc_shake_type h = Rejection reason" using a(4) by (auto simp: induction_ok_def)
    then have "\<exists>lc. sy_listener_conn s = Some lc \<and> accepted cr A ci sid iseq own (sy_caller s) lc h"
      using l a(2,3) unfolding listener_inv_def net_ok_def by blast
    then show ?thesis using a by blast
  qed
  ultimately show ?thesis using c by (simp add: call_inv_def caller_result_def)
qed

lemma listener_result_inv:
  assumes "call_inv cr A B ci sid iseq own s" "sy_listener_conn s = None"
    and "listener_inv cr A ci sid iseq own (sy_caller s) l (sy_to_caller s \<union> sent_packets r) (new_connection r)"
  shows "call_inv cr A B ci sid iseq own (listener_result s r l)"
  using assms by (auto simp: call_inv_def listener_result_def)

lemma listener_inv_insert:
  assumes "listener_inv cr A ci sid iseq own c l net lc"
    and "\<And>h. get_handshake p = Inr h \<Longrightarrow> \<exists>conn. lc = Some conn \<and> accepted cr A ci sid iseq own c conn h"
  shows "listener_inv cr A ci sid iseq own c l (insert p net) lc"
proof -
  have "net_ok cr A ci sid iseq own c net lc" using assms(1) unfolding listener_inv_def by (elim conjE)
  then have "net_ok cr A ci sid iseq own c (insert p net) lc" using assms(2) unfolding net_ok_def by blast
  with assms(1) show ?thesis unfolding listener_inv_def by (elim conjE, intro conjI) assumption+
qed

lemma call_step_inv:
  assumes inv: "call_inv cr A B ci sid iseq own s" and step: "call_step cr A B s t"
  shows "call_inv cr A B ci sid iseq own t"
proof -
  have ci: "caller_inv cr B ci sid iseq (sy_caller s) (sy_to_listener s)"
    and li: "listener_inv cr A ci sid iseq own (sy_caller s) (sy_listener s) (sy_to_caller s) (sy_listener_conn s)"
    using inv by (auto simp: call_inv_def)
  from step show ?thesis
  proof cases
    case (caller_tick now r c)
    show ?thesis unfolding caller_tick(1)
      by (rule caller_result_inv [OF inv caller_tick(2) connect_tick_inv(1,3) [OF ci caller_tick(3)]])
        (simp_all add: connect_tick_inv(2) [OF ci caller_tick(3)])
  next
    case (caller_rx rnd input now r c)
    have "induction_ok ci h" if "input = Inr (p, B)" "get_handshake p = Inr h" "hc_shake_type h = Induction" for p h
    proof -
      have "\<not> accepted cr A ci sid iseq own (sy_caller s) conn h" for conn
        using that(3) by (auto simp: accepted_def accepts_def)
      moreover have "induction_ok ci h \<or> (\<exists>reason. hc_shake_type h = Rejection reason)
          \<or> (\<exists>conn. sy_listener_conn s = Some conn \<and> accepted cr A ci sid iseq own (sy_caller s) conn h)"
        using li caller_rx(4) [OF that(1)] that(2) unfolding listener_inv_def net_ok_def by blast
      ultimately show ?thesis using that(3) by auto
    qed
    then have "\<forall>p h. input = Inr (p, B) \<longrightarrow> get_handshake p = Inr h \<longrightarrow> hc_shake_type h = Induction \<longrightarrow> induction_ok ci h"
      by blast
    note c = connect_packet_inv [OF ci caller_rx(3) this caller_rx(5)]
    show ?thesis unfolding caller_rx(1)
    proof (rule caller_result_inv [OF inv caller_rx(2) c(1,2)])
      fix conn
      assume "new_connection r = Some conn"
      from c(3) [OF this] obtain q cm p h where x: "c = sy_caller s" "co_state (sy_caller s) = ConclusionResponseWait q cm"
        "input = Inr (p, B)" "get_handshake p = Inr h" "hc_shake_type h = Conclusion"
        "finish_hsv5_initiation cm h B now = Inr (cn_settings conn)" by blast
      show "c = sy_caller s \<and> (\<exists>q cm p h now. co_state c = ConclusionResponseWait q cm
       \<and> p \<in> sy_to_caller s \<and> get_handshake p = Inr h \<and> hc_shake_type h = Conclusion
       \<and> finish_hsv5_initiation cm h B now = Inr (cn_settings conn))"
        using x(1,2,4-6) caller_rx(4) [OF x(3)] by blast
    qed
  next
    case (listener_rx input cookie now r l)
    show ?thesis unfolding listener_rx(1)
      by (rule listener_result_inv [OF inv listener_rx(2)])
        (rule listen_packet_inv [OF li [unfolded listener_rx(2)] ci listener_rx(3,4)])
  next
    case (listener_access now response r l)
    show ?thesis unfolding listener_access(1)
      by (rule listener_result_inv [OF inv listener_access(2)])
        (rule listen_access_inv [OF li [unfolded listener_access(2)] listener_access(3)])
  next
    case (listener_again conn shake control timestamp dest)
    obtain h where h: "cn_handshake conn = HS_Listener (Ctl_Handshake h)"
      "accepted cr A ci sid iseq own (sy_caller s) conn h"
      using li listener_again(2) unfolding listener_inv_def by blast
    let ?p = "Pkt_Control \<lparr>cp_timestamp = timestamp, cp_dest_sockid = dest, cp_control_type = control\<rparr>"
    have "get_handshake ?p = Inr h" using h(1) listener_again(3) by (auto simp: handle_handshake_def)
    then have "\<exists>lc. sy_listener_conn s = Some lc \<and> accepted cr A ci sid iseq own (sy_caller s) lc h'"
      if "get_handshake ?p = Inr h'" for h'
      using h(2) listener_again(2) that by simp
    then have "listener_inv cr A ci sid iseq own (sy_caller s) (sy_listener s) (insert ?p (sy_to_caller s)) (sy_listener_conn s)"
      by (rule listener_inv_insert [OF li])
    then show ?thesis using inv listener_again(1) by (simp add: call_inv_def)
  qed
qed

interpretation call: invariant_system "call_init B ci sid iseq own" "call_step cr A B" "call_inv cr A B ci sid iseq own"
  for cr A B ci sid iseq own
  by unfold_locales (auto intro: call_init_inv call_step_inv)

section \<open>Agreement\<close>

text \<open>What the two sides have to agree on: the first sequence number, each other's socket ids, the latency of
  each direction, the stream id and the keys.\<close>

definition settings_agree :: "ConnectionSettings \<Rightarrow> ConnectionSettings \<Rightarrow> bool" where
  "settings_agree a b \<longleftrightarrow> cs_init_seq_num a = cs_init_seq_num b
     \<and> cs_remote_sockid a = cs_local_sockid b \<and> cs_remote_sockid b = cs_local_sockid a
     \<and> cs_send_tsbpd_latency a = cs_recv_tsbpd_latency b \<and> cs_recv_tsbpd_latency a = cs_send_tsbpd_latency b
     \<and> cs_stream_id a = cs_stream_id b \<and> ciphers_agree (cs_cipher a) (cs_cipher b)"

lemma initiator_responder_agree:
  assumes "crypto_laws cr" "hs_request cr ci sid (hc_info h) cm" "hc_socket_id h = ci_local_sockid ci"
    and "accepts cr own A h b h'" "finish_hsv5_initiation cm h' B now = Inr a"
  shows "settings_agree a b"
    "cs_init_seq_num a = hc_init_seq_num h" "cs_stream_id a = sid" "cs_remote a = B" "cs_remote b = A"
    "cs_max_packet_size a = min (ci_max_packet_size ci) (hc_max_packet_size h')"
    "cs_max_packet_size b = min (ci_max_packet_size own) (hc_max_packet_size h)"
    "cs_max_flow_size a = max (ci_max_flow_size ci) (hc_max_flow_size h')"
    "cs_max_flow_size b = max (ci_max_flow_size own) (hc_max_flow_size h)"
proof -
  obtain v hs cipher t0 t v' where acc: "hc_info h = HVI_V5 v" "v5_ext_hs v = Some (Srt_HandshakeRequest hs)"
    "responder_cipher cr own v = Ok cipher" "b = responder_settings t0 own A t h v hs cipher"
    "hc_init_seq_num h' = hc_init_seq_num h" "hc_socket_id h' = ci_local_sockid own"
    "hc_info h' = HVI_V5 v'" "v5_ext_hs v' = Some (Srt_HandshakeResponse (handshake_offer own))"
    using assms(4) unfolding accepts_def by blast
  obtain v2 where v2: "hc_info h = HVI_V5 v2" "v5_ext_hs v2 = Some (Srt_HandshakeRequest (handshake_offer ci))"
    "v5_sid v2 = sid" "si_settings cm = ci" "si_streamid cm = sid"
    using hs_request_fields [OF assms(2)] by metis
  have eq: "hs = handshake_offer ci" "v5_sid v = sid" using v2 acc(1,2) by auto
  have "ciphers_agree (si_cipher cm) cipher"
    using responder_cipher_agrees [OF assms(1) _ acc(3)] assms(2) unfolding acc(1) by blast
  then show "settings_agree a b"
    "cs_init_seq_num a = hc_init_seq_num h" "cs_stream_id a = sid" "cs_remote a = B" "cs_remote b = A"
    "cs_max_packet_size a = min (ci_max_packet_size ci) (hc_max_packet_size h')"
    "cs_max_packet_size b = min (ci_max_packet_size own) (hc_max_packet_size h)"
    "cs_max_flow_size a = max (ci_max_flow_size ci) (hc_max_flow_size h')"
    "cs_max_flow_size b = max (ci_max_flow_size own) (hc_max_flow_size h)"
    using assms(3,5) acc eq v2(4,5)
    by (auto simp: finish_hsv5_initiation_def responder_settings_def settings_agree_def Let_def handshake_offer_def
        max.commute)
qed

lemma call_agreement:
  assumes "crypto_laws cr" "call_init B ci sid iseq own s" "(call_step cr A B)\<^sup>*\<^sup>* s t"
    "sy_caller_conn t = Some a"
  shows "\<exists>b. sy_listener_conn t = Some b \<and> settings_agree (cn_settings a) (cn_settings b)
    \<and> cs_init_seq_num (cn_settings a) = iseq \<and> cs_stream_id (cn_settings a) = sid
    \<and> cs_remote (cn_settings a) = B \<and> cs_remote (cn_settings b) = A"
    and "\<exists>b. sy_listener_conn t = Some b
    \<and> cs_max_packet_size (cn_settings a) = ci_max_packet_size ci
    \<and> cs_max_packet_size (cn_settings b) = min (ci_max_packet_size own) (ci_max_packet_size ci)
    \<and> cs_max_flow_size (cn_settings a) = ci_max_flow_size ci
    \<and> cs_max_flow_size (cn_settings b) = max (ci_max_flow_size own) (ci_max_flow_size ci)"
proof -
  have "call_inv cr A B ci sid iseq own t" by (rule call.reachable_inv [OF assms(2,3)])
  then obtain b h' q cm now where b: "sy_listener_conn t = Some b" "accepted cr A ci sid iseq own (sy_caller t) b h'"
    "co_state (sy_caller t) = ConclusionResponseWait q cm" "finish_hsv5_initiation cm h' B now = Inr (cn_settings a)"
    using assms(4) unfolding call_inv_def by blast
  obtain ks h cm' where h: "offered cr ci sid iseq (sy_caller t) h cm'"
    "accepts cr (own\<lparr>ci_key_settings := ks\<rparr>) A h (cn_settings b) h'"
    "hc_max_packet_size h' = hc_max_packet_size h" "hc_max_flow_size h' = hc_max_flow_size h"
    using b(2) unfolding accepted_def by blast
  have "cm' = cm" using h(1) b(3) by (auto simp: offered_def)
  then have o: "hs_request cr ci sid (hc_info h) cm" "hc_socket_id h = ci_local_sockid ci" "hc_init_seq_num h = iseq"
    "hc_max_packet_size h = ci_max_packet_size ci" "hc_max_flow_size h = ci_max_flow_size ci"
    using h(1) by (auto simp: offered_def)
  note agree = initiator_responder_agree [OF assms(1) o(1,2) h(2) b(4)]
  show "\<exists>b. sy_listener_conn t = Some b \<and> settings_agree (cn_settings a) (cn_settings b)
    \<and> cs_init_seq_num (cn_settings a) = iseq \<and> cs_stream_id (cn_settings a) = sid
    \<and> cs_remote (cn_settings a) = B \<and> cs_remote (cn_settings b) = A"
    using b(1) agree(1-5) o(3) by auto
  show "\<exists>b. sy_listener_conn t = Some b
    \<and> cs_max_packet_size (cn_settings a) = ci_max_packet_size ci
    \<and> cs_max_packet_size (cn_settings b) = min (ci_max_packet_size own) (ci_max_packet_size ci)
    \<and> cs_max_flow_size (cn_settings a) = ci_max_flow_size ci
    \<and> cs_max_flow_size (cn_settings b) = max (ci_max_flow_size own) (ci_max_flow_size ci)"
    using b(1) agree(6-9) h(3,4) o(4,5) by auto
qed

section \<open>The handshake completes\<close>

text \<open>The four packets of an undisturbed handshake.\<close>

definition call_p1 :: "IpAddr \<Rightarrow> ConnInitSettings \<Rightarrow> SeqNumber \<Rightarrow> HandshakeControlInfo" where
  "call_p1 local_addr ci iseq = \<lparr>hc_init_seq_num = iseq, hc_max_packet_size = ci_max_packet_size ci,
     hc_max_flow_size = ci_max_flow_size ci, hc_shake_type = Induction, hc_socket_id = ci_local_sockid ci,
     hc_syn_cookie = 0, hc_peer_addr = local_addr, hc_info = HVI_V4 ST_Datagram\<rparr>"

definition call_p2 :: "i32 \<Rightarrow> ConnInitSettings \<Rightarrow> HandshakeControlInfo \<Rightarrow> HandshakeControlInfo" where
  "call_p2 cookie own h = h\<lparr>hc_syn_cookie := cookie, hc_socket_id := ci_local_sockid own, hc_info := HVI_V5 hs_v5_default\<rparr>"

definition call_p3 :: "ConnInitSettings \<Rightarrow> SeqNumber \<Rightarrow> HandshakeVsInfo \<Rightarrow> HandshakeControlInfo \<Rightarrow> HandshakeControlInfo" where
  "call_p3 ci iseq hsv5 h = h\<lparr>hc_shake_type := Conclusion, hc_socket_id := ci_local_sockid ci, hc_info := hsv5,
     hc_init_seq_num := iseq\<rparr>"

definition hs_packet :: "SocketId \<Rightarrow> HandshakeControlInfo \<Rightarrow> Packet" where
  "hs_packet dest h = Pkt_Control \<lparr>cp_timestamp = 0, cp_dest_sockid = dest, cp_control_type = Ctl_Handshake h\<rparr>"

lemma accept_succeeds:
  assumes "crypto_laws cr" "hs_request cr ci sid (hc_info h) cm"
    and "ci_key_settings (li_init_settings l) = ci_key_settings ci" "ks \<in> {None, ci_key_settings ci}"
    and info: "hc_info h = HVI_V5 v"
  shows "\<exists>p h' conn l' v'. accept_connection cr l now st ts h v ks = Ok (CR_Connected (Some (p, cw_from st)) conn, l')
    \<and> get_handshake p = Inr h' \<and> hc_shake_type h' = Conclusion \<and> hc_info h' = HVI_V5 v'
    \<and> v5_ext_hs v' = Some (Srt_HandshakeResponse (handshake_offer (li_init_settings l)))"
proof -
  let ?own = "li_init_settings l"
  have ks: "(case ks of Some k \<Rightarrow> ?own\<lparr>ci_key_settings := Some k\<rparr> | None \<Rightarrow> ?own) = ?own"
    using assms(3,4) by (auto split: option.split)
  have v: "v5_ext_hs v = Some (Srt_HandshakeRequest (handshake_offer ci))"
    using hs_request_fields [OF assms(2)] info by (metis HandshakeVsInfo.inject(2))
  obtain cipher km where c: "responder_cipher cr ?own v = Ok cipher"
    "(case cipher of None \<Rightarrow> Ok None | Some c \<Rightarrow> wrap_keying_material cr c) = Ok km"
    using responder_accepts [OF assms(1) assms(2) [unfolded info] assms(3)] by blast
  show ?thesis
    unfolding accept_connection_def gen_access_control_response_def ks Let_def v
    by (simp add: c accept_response_def)
qed

text \<open>The caller is as in \<open>s\<close>, the listener is connected and its response is in the network.\<close>

definition answered :: "ConnInitSettings \<Rightarrow> Packet CallSystem \<Rightarrow> Packet CallSystem \<Rightarrow> bool" where
  "answered own s t \<longleftrightarrow> (\<exists>p h' v'. sy_listener_conn t \<noteq> None \<and> sy_caller_conn t = sy_caller_conn s
     \<and> sy_caller t = sy_caller s \<and> p \<in> sy_to_caller t \<and> get_handshake p = Inr h' \<and> hc_shake_type h' = Conclusion
     \<and> hc_info h' = HVI_V5 v' \<and> v5_ext_hs v' = Some (Srt_HandshakeResponse (handshake_offer own)))"

lemma answeredI:
  assumes "get_handshake p = Inr h'" "hc_shake_type h' = Conclusion" "hc_info h' = HVI_V5 v'"
    "v5_ext_hs v' = Some (Srt_HandshakeResponse (handshake_offer own))"
    and "sy_caller u = sy_caller s" "sy_caller_conn u = sy_caller_conn s"
  shows "answered own s (listener_result u (CR_Connected (Some (p, addr)) conn) l)"
  using assms by (auto simp: answered_def listener_result_def)

lemma start_succeeds:
  assumes "crypto_laws cr" "key_random_ok rnd"
  shows "\<exists>hsv5 cm. start_hsv5_initiation cr rnd ci sid now = Ok (hsv5, cm) \<and> hs_request cr ci sid hsv5 cm"
proof -
  have "\<exists>km. wrap_keying_material cr (cipher_settings_new_random (rn_salt rnd) (rn_even rnd) (rn_odd rnd) ks refresh) = Ok km"
    for ks refresh
    using stream_keys_roundtrip [OF assms(1) new_random_wf [OF assms(2), of ks]]
    by (auto simp: wrap_keying_material_def cipher_settings_new_random_def stream_keys_new_random_def)
  then have "\<exists>x. start_hsv5_initiation cr rnd ci sid now = Ok x"
    by (cases "ci_key_settings ci") (auto simp: start_hsv5_initiation_def Let_def bind_outcome_Ok_iff)
  then show ?thesis using assms(2) by (auto simp: hs_request_def)
qed

text \<open>The completing run only needs that ticks, packets that have been sent and the acceptance by the access control
  are steps.\<close>

locale call_steps =
  fixes step :: "Packet CallSystem \<Rightarrow> Packet CallSystem \<Rightarrow> bool"
    and cr :: Crypto and A :: SocketAddr and B :: SocketAddr
  assumes caller_ticks: "sy_caller_conn s = None \<Longrightarrow> connect_handle_tick (sy_caller s) now = (r, c)
      \<Longrightarrow> step s (caller_result s r c)"
    and caller_receives: "sy_caller_conn s = None \<Longrightarrow> key_random_ok rnd \<Longrightarrow> p \<in> sy_to_caller s
      \<Longrightarrow> connect_handle_packet cr rnd (sy_caller s) (Inr (p, B)) now = Ok (r, c) \<Longrightarrow> step s (caller_result s r c)"
    and listener_receives: "sy_listener_conn s = None \<Longrightarrow> p \<in> sy_to_listener s
      \<Longrightarrow> listen_handle_packet cr cookie (sy_listener s) now (Inr (p, A)) = Ok (r, l) \<Longrightarrow> step s (listener_result s r l)"
    and access_granted: "sy_listener_conn s = None
      \<Longrightarrow> listen_handle_access_control_response cr (sy_listener s) now (ACR_Accepted ks) = Ok (r, l)
      \<Longrightarrow> step s (listener_result s r l)"
begin

text \<open>A listener that waits for the conclusion accepts a request of a caller with the same key settings, after
  the access control has accepted it when it is enabled.\<close>

lemma listener_accepts:
  assumes s: "sy_listener_conn s = None" "sy_listener s = l" "li_state l = ConclusionWait st"
    and h: "hs_packet 0 h \<in> sy_to_listener s" "hc_shake_type h = Conclusion" "hc_syn_cookie h = cw_cookie st"
      "hc_info h = HVI_V5 v"
    and cr: "crypto_laws cr" "hs_request cr ci sid (hc_info h) cm" "ci_key_settings (li_init_settings l) = ci_key_settings ci"
  shows "\<exists>t. step\<^sup>*\<^sup>* s t \<and> answered (li_init_settings l) s t"
proof (cases "li_enable_access_control l")
  case False
  have keys: "ci_key_settings (li_init_settings l) \<in> {None, ci_key_settings ci}" using cr(3) by simp
  obtain p h' conn l' v' where a: "accept_connection cr l 0 st 0 h v (ci_key_settings (li_init_settings l))
      = Ok (CR_Connected (Some (p, cw_from st)) conn, l')" "get_handshake p = Inr h'" "hc_shake_type h' = Conclusion"
    "hc_info h' = HVI_V5 v'" "v5_ext_hs v' = Some (Srt_HandshakeResponse (handshake_offer (li_init_settings l)))"
    using accept_succeeds [OF cr keys h(4)] by blast
  have "listen_handle_packet cr 0 (sy_listener s) 0 (Inr (hs_packet 0 h, A)) = Ok (CR_Connected (Some (p, cw_from st)) conn, l')"
    using False h a(1) s by (simp add: hs_packet_def listen_handle_packet_def listen_handle_control_packets_def
        listen_wait_for_conclusion_def)
  from listener_receives [OF s(1) h(1) this]
  have "step s (listener_result s (CR_Connected (Some (p, cw_from st)) conn) l')" by simp
  then show ?thesis using answeredI [OF a(2-5) refl refl] by (intro exI conjI r_into_rtranclp)
next
  case True
  let ?l = "l\<lparr>li_state := AccessControlRequested st 0 h v\<rparr>"
  have own: "li_init_settings ?l = li_init_settings l" by simp
  then have keys: "ci_key_settings (li_init_settings ?l) = ci_key_settings ci" using cr(3) by simp
  obtain p h' conn l' v' where a: "accept_connection cr ?l 0 st 0 h v None
      = Ok (CR_Connected (Some (p, cw_from st)) conn, l')" "get_handshake p = Inr h'" "hc_shake_type h' = Conclusion"
    "hc_info h' = HVI_V5 v'" "v5_ext_hs v' = Some (Srt_HandshakeResponse (handshake_offer (li_init_settings l)))"
    using accept_succeeds [OF cr(1,2) keys _ h(4), of None] unfolding own by blast
  obtain r where r: "listen_handle_packet cr 0 (sy_listener s) 0 (Inr (hs_packet 0 h, A)) = Ok (CR_RequestAccess r, ?l)"
    using True h s by (simp add: hs_packet_def listen_handle_packet_def listen_handle_control_packets_def
        listen_wait_for_conclusion_def request_access_def)
  let ?s = "listener_result s (CR_RequestAccess r) ?l"
  have 1: "step s ?s" by (rule listener_receives [OF s(1) h(1) r])
  have "listen_handle_access_control_response cr (sy_listener ?s) 0 (ACR_Accepted None)
      = Ok (CR_Connected (Some (p, cw_from st)) conn, l')"
    using a(1) by (simp add: listener_result_def listen_handle_access_control_response_def)
  from access_granted [OF _ this]
  have "step ?s (listener_result ?s (CR_Connected (Some (p, cw_from st)) conn) l')" by (simp add: listener_result_def)
  with 1 have "step\<^sup>*\<^sup>* s (listener_result ?s (CR_Connected (Some (p, cw_from st)) conn) l')"
    by (meson converse_rtranclp_into_rtranclp r_into_rtranclp)
  moreover have "answered (li_init_settings l) s (listener_result ?s (CR_Connected (Some (p, cw_from st)) conn) l')"
    by (rule answeredI [OF a(2-5)]) (simp_all add: listener_result_def)
  ultimately show ?thesis by blast
qed

lemma handshake_run:
  assumes init: "call_init B ci sid iseq own s" and cr: "crypto_laws cr" and rnd: "key_random_ok rnd"
    and keys: "ci_key_settings own = ci_key_settings ci"
  shows "\<exists>t a b. step\<^sup>*\<^sup>* s t \<and> sy_caller_conn t = Some a \<and> sy_listener_conn t = Some b"
proof -
  obtain la ac where s: "sy_caller s = connect_new B la ci sid iseq" "sy_listener s = listen_new own ac"
    "sy_to_listener s = {}" "sy_to_caller s = {}" "sy_caller_conn s = None" "sy_listener_conn s = None"
    using init by (auto simp: call_init_def)
  obtain hsv5 cm where st: "start_hsv5_initiation cr rnd ci sid 0 = Ok (hsv5, cm)" "hs_request cr ci sid hsv5 cm"
    using start_succeeds [OF cr rnd] by blast
  obtain v where v: "hsv5 = HVI_V5 v" using hs_request_fields [OF st(2)] by blast
  define h1 where "h1 = call_p1 la ci iseq"
  define h2 where "h2 = call_p2 0 own h1"
  define h3 where "h3 = call_p3 ci iseq hsv5 h2"
  define p1 where "p1 = hs_packet 0 h1"
  define p2 where "p2 = hs_packet (ci_local_sockid ci) h2"
  define p3 where "p3 = hs_packet 0 h3"
  define c0 where "c0 = connect_new B la ci sid iseq"
  define st2 where "st2 = \<lparr>cw_from = A, cw_cookie = (0 :: i32), cw_induction_response = p2, cw_induction_time = (0 :: instant)\<rparr>"
  define l2 where "l2 = (listen_new own ac)\<lparr>li_state := ConclusionWait st2\<rparr>"
  note defs = h1_def h2_def h3_def p1_def p2_def p3_def c0_def st2_def l2_def call_p1_def call_p2_def call_p3_def hs_packet_def
    Let_def
  define s1 where "s1 = caller_result s (CR_SendPacket (p1, B)) (c0\<lparr>co_state := InductionResponseWait p1\<rparr>)"
  define s2 where "s2 = listener_result s1 (CR_SendPacket (p2, A)) l2"
  define s3 where "s3 = caller_result s2 (CR_SendPacket (p3, B)) (c0\<lparr>co_state := ConclusionResponseWait p3 cm\<rparr>)"
  have f1: "sy_caller s1 = c0\<lparr>co_state := InductionResponseWait p1\<rparr>" "sy_to_listener s1 = {p1}"
    "sy_listener s1 = listen_new own ac" "sy_listener_conn s1 = None" "sy_to_caller s1 = {}" "sy_caller_conn s1 = None"
    using s by (simp_all add: s1_def caller_result_def)
  have f2: "sy_caller s2 = c0\<lparr>co_state := InductionResponseWait p1\<rparr>" "sy_to_listener s2 = {p1}"
    "sy_listener s2 = l2" "sy_listener_conn s2 = None" "sy_to_caller s2 = {p2}" "sy_caller_conn s2 = None"
    using f1 by (simp_all add: s2_def listener_result_def)
  have f3: "sy_caller s3 = c0\<lparr>co_state := ConclusionResponseWait p3 cm\<rparr>" "p3 \<in> sy_to_listener s3"
    "sy_listener s3 = l2" "sy_listener_conn s3 = None" "sy_caller_conn s3 = None"
    using f2 by (simp_all add: s3_def caller_result_def)
  have "connect_handle_tick (sy_caller s) 0 = (CR_SendPacket (p1, B), c0\<lparr>co_state := InductionResponseWait p1\<rparr>)"
    by (simp add: s(1) defs connect_handle_tick_def connect_on_start_def connect_new_def)
  from caller_ticks [OF s(5) this] have 1: "step s s1" unfolding s1_def .
  have "listen_handle_packet cr 0 (sy_listener s1) 0 (Inr (p1, A)) = Ok (CR_SendPacket (p2, A), l2)"
    by (simp add: f1 defs listen_handle_packet_def listen_handle_control_packets_def listen_wait_for_induction_def
        listen_new_def)
  from listener_receives [OF f1(4) _ this] have 2: "step s1 s2" unfolding s2_def by (simp add: f1(2))
  have "connect_handle_packet cr rnd (sy_caller s2) (Inr (p2, B)) 0
      = Ok (CR_SendPacket (p3, B), c0\<lparr>co_state := ConclusionResponseWait p3 cm\<rparr>)"
    using st(1) by (simp add: f2 defs connect_handle_packet_def connect_wait_for_induction_def connect_new_def)
  from caller_receives [OF f2(6) rnd _ this] have 3: "step s2 s3" unfolding s3_def by (simp add: f2(5))
  have "li_init_settings l2 = own" "li_state l2 = ConclusionWait st2" by (simp_all add: l2_def listen_new_def)
  moreover have "hc_info h3 = HVI_V5 v" "hc_shake_type h3 = Conclusion" "hc_syn_cookie h3 = cw_cookie st2"
      "hs_packet 0 h3 \<in> sy_to_listener s3" "hs_request cr ci sid (hc_info h3) cm"
    using st(2) v f3(2) by (simp_all add: defs)
  ultimately have "\<exists>s4. step\<^sup>*\<^sup>* s3 s4 \<and> answered own s3 s4"
    using listener_accepts [OF f3(4,3), of st2 h3 v ci sid cm] cr keys by simp
  then obtain s4 p h' v' where s4: "step\<^sup>*\<^sup>* s3 s4" "sy_listener_conn s4 \<noteq> None" "sy_caller_conn s4 = None"
    "sy_caller s4 = sy_caller s3" "p \<in> sy_to_caller s4" "get_handshake p = Inr h'" "hc_shake_type h' = Conclusion"
    "hc_info h' = HVI_V5 v'" "v5_ext_hs v' = Some (Srt_HandshakeResponse (handshake_offer own))"
    unfolding answered_def f3(5) by blast
  obtain a where a: "finish_hsv5_initiation cm h' B 0 = Inr a"
    using s4(8,9) by (simp add: finish_hsv5_initiation_def Let_def)
  obtain pc where pc: "p = Pkt_Control pc" "cp_control_type pc = Ctl_Handshake h'"
    using s4(6) by (cases p) (auto split: ControlTypes.splits)
  have "connect_handle_packet cr rnd (sy_caller s4) (Inr (p, B)) 0
      = Ok (CR_Connected None \<lparr>cn_settings = a, cn_handshake = HS_Connector\<rparr>, sy_caller s4)"
    using a s4(7,8) by (simp add: s4(4) f3(1) pc c0_def connect_new_def connect_handle_packet_def connect_wait_for_conclusion_def)
  from caller_receives [OF s4(3) rnd s4(5) this]
  have "step s4 (caller_result s4 (CR_Connected None \<lparr>cn_settings = a, cn_handshake = HS_Connector\<rparr>) (sy_caller s4))"
    by simp
  with 1 2 3 s4(1,2) show ?thesis
    by (intro exI [of _ "caller_result s4 (CR_Connected None \<lparr>cn_settings = a, cn_handshake = HS_Connector\<rparr>) (sy_caller s4)"])
      (auto simp: caller_result_def intro: converse_rtranclp_into_rtranclp rtranclp.rtrancl_into_rtrancl)
qed

end

interpretation call_packets: call_steps "call_step cr A B" cr A B for cr A B
proof unfold_locales
  fix s :: "Packet CallSystem" and now r c
  assume "sy_caller_conn s = None" "connect_handle_tick (sy_caller s) now = (r, c)"
  then show "call_step cr A B s (caller_result s r c)" by (rule call_step.caller_tick)
next
  fix s :: "Packet CallSystem" and rnd p now r c
  assume "sy_caller_conn s = None" "key_random_ok rnd" "p \<in> sy_to_caller s"
    "connect_handle_packet cr rnd (sy_caller s) (Inr (p, B)) now = Ok (r, c)"
  then show "call_step cr A B s (caller_result s r c)" by (intro call_step.caller_rx) auto
next
  fix s :: "Packet CallSystem" and p cookie now r l
  assume "sy_listener_conn s = None" "p \<in> sy_to_listener s"
    "listen_handle_packet cr cookie (sy_listener s) now (Inr (p, A)) = Ok (r, l)"
  then show "call_step cr A B s (listener_result s r l)" by (intro call_step.listener_rx) auto
next
  fix s :: "Packet CallSystem" and now ks r l
  assume "sy_listener_conn s = None" "listen_handle_access_control_response cr (sy_listener s) now (ACR_Accepted ks) = Ok (r, l)"
  then show "call_step cr A B s (listener_result s r l)" by (rule call_step.listener_access)
qed

subsection \<open>Sample settings\<close>

definition sample_ci :: ConnInitSettings where
  "sample_ci = \<lparr>ci_local_sockid = 2, ci_key_settings = Some \<lparr>ks_key_size = KS_AES128, ks_passphrase = replicate 10 65\<rparr>,
     ci_key_refresh = key_refresh_default, ci_send_latency = 0, ci_recv_latency = 120000000,
     ci_peer_idle_timeout = 5000000000, ci_bandwidth = LB_Unlimited, ci_statistics_interval = 1000000000,
     ci_too_late_packet_drop = True, ci_recv_buffer_size = 8192, ci_send_buffer_size = 2,
     ci_max_packet_size = 1500, ci_max_flow_size = 8192\<rparr>"

definition sample_own :: ConnInitSettings where
  "sample_own = sample_ci\<lparr>ci_local_sockid := 1, ci_send_latency := 120000000, ci_recv_latency := 0, ci_max_packet_size := 1316\<rparr>"

definition sample_addr :: SocketAddr where "sample_addr = (IpV4 0, 9000)"

definition call_start :: "ConnInitSettings \<Rightarrow> ConnInitSettings \<Rightarrow> 'p CallSystem" where
  "call_start ci own = \<lparr>sy_caller = connect_new sample_addr (IpV4 1) ci None 5, sy_listener = listen_new own False,
     sy_to_listener = {}, sy_to_caller = {}, sy_caller_conn = None, sy_listener_conn = None\<rparr>"

definition sample_wait :: ConclusionWaitState where
  "sample_wait = \<lparr>cw_from = sample_addr, cw_cookie = 7,
     cw_induction_response = hs_packet 2 (call_p1 (IpV4 1) sample_ci 5), cw_induction_time = 0\<rparr>"

definition sample_offer :: HsV5Info where
  "sample_offer = \<lparr>v5_key_size = KS_AES128, v5_ext_hs = Some (Srt_HandshakeRequest (handshake_offer sample_ci)),
     v5_ext_km = Some (Srt_KeyRefreshRequest \<lparr>km_pt = PT_KeyingMaterial, km_key_flags = 1, km_keki = 0, km_cipher = CT_Ctr,
       km_auth = Auth_None, km_salt = replicate 16 1, km_wrapped_keys = replicate 24 2\<rparr>),
     v5_ext_group = None, v5_sid = None\<rparr>"

lemma call_start_init: "call_init sample_addr ci None 5 own (call_start ci own)"
  by (auto simp: call_init_def call_start_def)

definition sample_random :: KeyRandom where
  "sample_random = \<lparr>rn_salt = replicate 16 1, rn_even = (\<lambda>n. replicate n 2), rn_odd = (\<lambda>n. replicate n 3)\<rparr>"

lemma sample_random_ok: "key_random_ok sample_random"
  by (simp add: key_random_ok_def sample_random_def rnd_ok_def)

lemma sample_call_run:
  "\<exists>t a b. (call_step sample_crypto sample_addr sample_addr)\<^sup>*\<^sup>* (call_start sample_ci sample_own) t
    \<and> sy_caller_conn t = Some a \<and> sy_listener_conn t = Some b"
  by (rule call_packets.handshake_run [OF call_start_init sample_crypto_laws sample_random_ok]) (simp add: sample_own_def)

section \<open>Properties\<close>

text \<open>C33: The two sides do not agree on the size of a packet when the listener allows less than the caller:
  the listener takes the smaller size, but sends back the size of the caller, so the caller goes on with
  its own. In the same way only the listener takes the larger flow window.\<close>

theorem handshake_packet_sizes:
  assumes "crypto_laws cr" "call_init B ci sid iseq own s" "(call_step cr A B)\<^sup>*\<^sup>* s t"
    "sy_caller_conn t = Some a" "sy_listener_conn t = Some b"
  shows "cs_max_packet_size (cn_settings a) = ci_max_packet_size ci
    \<and> cs_max_packet_size (cn_settings b) = min (ci_max_packet_size own) (ci_max_packet_size ci)
    \<and> cs_max_flow_size (cn_settings a) = ci_max_flow_size ci
    \<and> cs_max_flow_size (cn_settings b) = max (ci_max_flow_size own) (ci_max_flow_size ci)"
  using call_agreement(2) [OF assms(1-4)] assms(5) by auto

theorem handshake_packet_sizes_witness:
  "\<exists>t a b. (call_step sample_crypto sample_addr sample_addr)\<^sup>*\<^sup>* (call_start sample_ci sample_own) t
    \<and> sy_caller_conn t = Some a \<and> sy_listener_conn t = Some b \<and> cs_max_packet_size (cn_settings a) = 1500
    \<and> cs_max_packet_size (cn_settings b) = 1316"
proof -
  obtain t a b where t: "(call_step sample_crypto sample_addr sample_addr)\<^sup>*\<^sup>* (call_start sample_ci sample_own) t"
    "sy_caller_conn t = Some a" "sy_listener_conn t = Some b" using sample_call_run by blast
  have "cs_max_packet_size (cn_settings a) = 1500" "cs_max_packet_size (cn_settings b) = 1316"
    using handshake_packet_sizes [OF sample_crypto_laws call_start_init t] by (simp_all add: sample_own_def sample_ci_def)
  with t show ?thesis by blast
qed

text \<open>C18: From every start a run leads to both sides being connected, provided that they have the same key
  settings or none: the four packets of the handshake, and the answer of the access control when it is enabled.\<close>

theorem handshake_completes:
  assumes "call_init B ci sid iseq own s" "crypto_laws cr" "key_random_ok rnd" "ci_key_settings own = ci_key_settings ci"
  shows "\<exists>t a b. (call_step cr A B)\<^sup>*\<^sup>* s t \<and> sy_caller_conn t = Some a \<and> sy_listener_conn t = Some b"
  by (rule call_packets.handshake_run [OF assms])

theorem handshake_completes_witness:
  "\<exists>t a b. (call_step sample_crypto sample_addr sample_addr)\<^sup>*\<^sup>* (call_start sample_ci sample_own) t
    \<and> sy_caller_conn t = Some a \<and> sy_listener_conn t = Some b"
  by (rule handshake_completes [OF call_start_init sample_crypto_laws sample_random_ok]) (simp add: sample_own_def)



end
