(* ===== verification/Rendezvous_Agreement.thy ===== *)
theory Rendezvous_Agreement
  imports Handshake_Agreement
begin

text \<open>
  The rendezvous handshake of two peers over a network that loses, duplicates, delays and reorders
  their packets. The cookies make one peer the initiator and the other the responder; two peers that
  are connected have agreed on the same values as caller and listener, and on the sizes of packets and flow window.
\<close>

section \<open>Roles\<close>

text \<open>The peer of an initiator is a responder; two cookies at the distance \<open>2 ^ 31\<close> make responders of both.\<close>

lemma rdv_role_opposite:
  assumes "rdv_role own peer = Some Initiator"
  shows "rdv_role peer own = Some Responder"
proof -
  let ?d = "own - peer"
  have pos: "0 < sint ?d" using assms by (auto simp: rdv_role_def split: if_splits)
  moreover have "sint ?d < 2 ^ 31" using sint_less [of ?d] by simp
  ultimately have "sint (- ?d) = - sint ?d"
    by (subst sint_word_ariths) (simp add: signed_take_bit_int_eq_self)
  moreover have "- ?d = peer - own" by simp
  ultimately have "sint (peer - own) = - sint ?d" by metis
  then show ?thesis using pos by (simp add: rdv_role_def)
qed

section \<open>What the handlers do\<close>

lemma gen_hsv5_response_cases:
  assumes "gen_hsv5_response cr own h A t now = Ok (res, own')"
  shows "own' = own"
    and "\<And>i settings. res = GH_Accept i settings \<Longrightarrow> \<exists>v v' hs cipher. hc_info h = HVI_V5 v \<and> i = HVI_V5 v'
      \<and> v5_ext_hs v = Some (Srt_HandshakeRequest hs) \<and> v5_ext_hs v' = Some (Srt_HandshakeResponse (handshake_offer own))
      \<and> responder_cipher cr own v = Ok cipher \<and> settings = responder_settings now own A t h v hs cipher"
proof -
  have "own' = own \<and> (\<forall>i settings. res = GH_Accept i settings \<longrightarrow> (\<exists>v v' hs cipher. hc_info h = HVI_V5 v \<and> i = HVI_V5 v'
      \<and> v5_ext_hs v = Some (Srt_HandshakeRequest hs) \<and> v5_ext_hs v' = Some (Srt_HandshakeResponse (handshake_offer own))
      \<and> responder_cipher cr own v = Ok cipher \<and> settings = responder_settings now own A t h v hs cipher))"
    using assms
    by (auto simp: gen_hsv5_response_def gen_access_control_response_def Let_def bind_outcome_Ok_iff
        split: HandshakeVsInfo.splits option.splits SrtControlPacket.splits outcome.splits)
  then show "own' = own" "\<And>i settings. res = GH_Accept i settings \<Longrightarrow> \<exists>v v' hs cipher. hc_info h = HVI_V5 v \<and> i = HVI_V5 v'
      \<and> v5_ext_hs v = Some (Srt_HandshakeRequest hs) \<and> v5_ext_hs v' = Some (Srt_HandshakeResponse (handshake_offer own))
      \<and> responder_cipher cr own v = Ok cipher \<and> settings = responder_settings now own A t h v hs cipher"
    by blast+
qed

fun initiator_of :: "RendezvousState \<Rightarrow> StartedInitiator option" where
  "initiator_of (AttentionInitiator _ cm) = Some cm"
| "initiator_of (InitiatedInitiator cm) = Some cm"
| "initiator_of (FineInitiator _ cm) = Some cm"
| "initiator_of _ = None"

fun committed_of :: "RendezvousState \<Rightarrow> ConnectionSettings option" where
  "committed_of (InitiatedResponder st) = Some st"
| "committed_of (FineResponder st) = Some st"
| "committed_of _ = None"

fun initiator_state :: "RendezvousState \<Rightarrow> bool" where
  "initiator_state Waving = True"
| "initiator_state (AttentionInitiator _ _) = True"
| "initiator_state (InitiatedInitiator _) = True"
| "initiator_state (FineInitiator _ _) = True"
| "initiator_state _ = False"

fun responder_state :: "RendezvousState \<Rightarrow> bool" where
  "responder_state Waving = True"
| "responder_state (AttentionResponder _) = True"
| "responder_state (InitiatedResponder _) = True"
| "responder_state (FineResponder _) = True"
| "responder_state _ = False"

lemma initiator_cases:
  assumes step: "rendezvous_handle_packet cr rnd x input now = Ok (r, x')" and st: "initiator_state (rv_state x)"
    and role: "\<forall>p h. input = Inr (p, rv_remote_public x) \<longrightarrow> get_handshake p = Inr h \<longrightarrow>
      rdv_role (rv_cookie x) (hc_syn_cookie h) = Some Initiator \<or> (\<exists>reason. hc_shake_type h = Rejection reason)"
  shows "x' = x \<and> sent_packets r = {} \<and> new_connection r = None
    \<or> (\<exists>hsv5 cm q state dest. rv_state x = Waving \<and> start_hsv5_initiation cr rnd (rv_init_settings x) None now = Ok (hsv5, cm)
        \<and> state \<in> {AttentionInitiator hsv5 cm, FineInitiator hsv5 cm} \<and> q = hs_packet dest (gen_packet x Conclusion hsv5)
        \<and> x' = x\<lparr>rv_state := state, rv_last_packet := (q, rv_remote_public x)\<rparr> \<and> sent_packets r = {q} \<and> new_connection r = None)
    \<or> (\<exists>hsv5 cm q dest. rv_state x = AttentionInitiator hsv5 cm \<and> q = hs_packet dest (gen_packet x Conclusion hsv5)
        \<and> x' = x\<lparr>rv_state := InitiatedInitiator cm, rv_last_packet := (q, rv_remote_public x)\<rparr>
        \<and> sent_packets r = {q} \<and> new_connection r = None)
    \<or> (\<exists>cm p h hs st q flags dest. x' = x \<and> initiator_of (rv_state x) = Some cm \<and> input = Inr (p, rv_remote_public x)
        \<and> get_handshake p = Inr h \<and> hc_shake_type h = Conclusion \<and> extract_ext_info h = Inr (Some (Srt_HandshakeResponse hs))
        \<and> finish_hsv5_initiation cm h (rv_remote_public x) now = Inr st
        \<and> q = hs_packet dest (gen_packet x Agreement flags) \<and> sent_packets r = {q}
        \<and> new_connection r = Some \<lparr>cn_settings = st,
            cn_handshake = HS_Rendezvous (Some (Ctl_Handshake (gen_packet x Agreement flags)))\<rparr>)"
proof -
  note defs = rendezvous_handle_packet_def rendezvous_dispatch_def hs_packet_def Let_def send_conclusion_def rdv_send_def transition_def
    initiator_connected_def set_connected_def
  note splits = sum.splits prod.splits ReceivePacketError.splits if_splits ShakeType.splits option.splits SrtControlPacket.splits
  show ?thesis
  proof (cases "rv_state x")
    case Waving
    then show ?thesis using step role
      by (auto simp: defs handle_waving_def map_outcome_ok_Ok_iff gen_packet_def split: splits RendezvousHsV5.splits)
  next
    case (AttentionInitiator hsv5 cm)
    then show ?thesis using step
      by (auto simp: defs handle_attention_initiator_def gen_packet_def split: splits)
  next
    case (InitiatedInitiator cm)
    then show ?thesis using step
      by (auto simp: defs handle_initiated_initiator_def split: splits)
  next
    case (FineInitiator hsv5 cm)
    then show ?thesis using step
      by (auto simp: defs handle_fine_initiator_def split: splits)
  qed (use st in auto)
qed

lemma rdv_answer_cases:
  assumes "rdv_answer_request cr y h ts t now acc = Ok (r, y')"
  shows "y' = y \<and> new_connection r = None \<and> (\<forall>p h. p \<in> sent_packets r \<longrightarrow> get_handshake p = Inr h \<longrightarrow>
        (\<exists>reason. hc_shake_type h = Rejection reason))
    \<or> (\<exists>q i st dest. gen_hsv5_response cr (rv_init_settings y) h (rv_remote_public y) t now = Ok (GH_Accept i st, rv_init_settings y)
        \<and> y' = y\<lparr>rv_starting_seqnum := hc_init_seq_num h, rv_state := acc st, rv_last_packet := (q, rv_remote_public y)\<rparr>
        \<and> q = hs_packet dest (gen_packet y' Conclusion i) \<and> sent_packets r = {q} \<and> new_connection r = None)"
proof -
  obtain res own where g: "gen_hsv5_response cr (rv_init_settings y) h (rv_remote_public y) t now = Ok (res, own)"
    and r: "(r, y') = (let self = y\<lparr>rv_init_settings := own\<rparr> in
       case res of
         GH_Accept hsv5 connection \<Rightarrow>
           send_conclusion (transition (self\<lparr>rv_starting_seqnum := hc_init_seq_num h\<rparr>) (acc connection)) (hc_socket_id h) hsv5
       | GH_NotHandled e \<Rightarrow> (CR_NotHandled e, self)
       | GH_Reject r \<Rightarrow> (rdv_make_rejection self h ts r, self))"
    using assms by (auto simp: rdv_answer_request_def map_outcome_ok_Ok_iff)
  have own: "y\<lparr>rv_init_settings := own\<rparr> = y" using gen_hsv5_response_cases(1) [OF g] by simp
  show ?thesis
  proof (cases res)
    case (GH_Accept i st)
    then show ?thesis using g r gen_hsv5_response_cases(1) [OF g]
      by (auto simp: own Let_def send_conclusion_def rdv_send_def transition_def hs_packet_def gen_packet_def)
  next
    case (GH_NotHandled e)
    then show ?thesis using r by (simp add: own)
  next
    case (GH_Reject rj)
    then show ?thesis using r by (auto simp: own rdv_make_rejection_def)
  qed
qed

text \<open>A packet on which a responder that has accepted the request is connected.\<close>

definition closes_handshake :: "Packet \<Rightarrow> bool" where
  "closes_handshake p \<longleftrightarrow> (case get_handshake p of
     Inl _ \<Rightarrow> True
   | Inr h \<Rightarrow> hc_shake_type h \<noteq> Waveahand \<and> (hc_shake_type h = Conclusion \<longrightarrow> extract_ext_info h = Inr None))"

lemma initiated_responder_cases:
  "sent_packets (handle_initiated_responder y p c) = {} \<and> new_connection (handle_initiated_responder y p c) = None
   \<or> closes_handshake p \<and> handle_initiated_responder y p c = set_connected y c None (Some (gen_packet y Agreement empty_flags))"
  by (auto simp: handle_initiated_responder_def closes_handshake_def Let_def
      split: sum.splits ShakeType.splits option.splits SrtControlPacket.splits)

lemma fine_responder_cases:
  "sent_packets (handle_fine_responder y p c) = {} \<and> new_connection (handle_fine_responder y p c) = None
   \<or> closes_handshake p \<and> handle_fine_responder y p c = set_connected y c None None"
proof -
  have "ends_handshake p \<Longrightarrow> closes_handshake p"
    by (cases p) (auto simp: closes_handshake_def split: ControlTypes.splits)
  then show ?thesis by (auto simp: handle_fine_responder_def)
qed

lemma responder_cases:
  assumes step: "rendezvous_handle_packet cr rnd y input now = Ok (r, y')" and st: "responder_state (rv_state y)"
    and role: "\<forall>p h. input = Inr (p, rv_remote_public y) \<longrightarrow> get_handshake p = Inr h \<longrightarrow>
      rdv_role (rv_cookie y) (hc_syn_cookie h) = Some Responder"
  shows "y' = y \<and> new_connection r = None \<and> (\<forall>p h. p \<in> sent_packets r \<longrightarrow> get_handshake p = Inr h \<longrightarrow>
        (\<exists>reason. hc_shake_type h = Rejection reason))
    \<or> (\<exists>p h q dest. rv_state y = Waving \<and> input = Inr (p, rv_remote_public y) \<and> get_handshake p = Inr h
        \<and> hc_shake_type h = Waveahand \<and> y' = y\<lparr>rv_starting_seqnum := hc_init_seq_num h, rv_state := AttentionResponder now,
             rv_last_packet := (q, rv_remote_public y)\<rparr>
        \<and> q = hs_packet dest (gen_packet y' Conclusion empty_flags) \<and> sent_packets r = {q} \<and> new_connection r = None)
    \<or> (\<exists>p h q i st state dest t. committed_of (rv_state y) = None \<and> input = Inr (p, rv_remote_public y) \<and> get_handshake p = Inr h
        \<and> hc_shake_type h = Conclusion \<and> gen_hsv5_response cr (rv_init_settings y) h (rv_remote_public y) t now
            = Ok (GH_Accept i st, rv_init_settings y)
        \<and> state \<in> {InitiatedResponder st, FineResponder st}
        \<and> y' = y\<lparr>rv_starting_seqnum := hc_init_seq_num h, rv_state := state, rv_last_packet := (q, rv_remote_public y)\<rparr>
        \<and> q = hs_packet dest (gen_packet y' Conclusion i) \<and> sent_packets r = {q} \<and> new_connection r = None)
    \<or> (\<exists>p st conn. y' = y \<and> committed_of (rv_state y) = Some st \<and> input = Inr (p, rv_remote_public y) \<and> closes_handshake p
        \<and> (\<forall>q h. q \<in> sent_packets r \<longrightarrow> get_handshake q = Inr h \<longrightarrow> hc_shake_type h = Agreement
             \<and> hc_syn_cookie h = rv_cookie y)
        \<and> new_connection r = Some conn \<and> cn_settings conn = st \<and> cn_handshake conn = HS_Rendezvous None)"
proof -
  note defs = rendezvous_handle_packet_def rendezvous_dispatch_def
  note splits = sum.splits prod.splits ReceivePacketError.splits if_splits ShakeType.splits option.splits SrtControlPacket.splits
  show ?thesis
  proof (cases "rv_state y")
    case Waving
    have "y' = y \<and> sent_packets r = {} \<and> new_connection r = None
      \<or> (\<exists>p h. input = Inr (p, rv_remote_public y) \<and> get_handshake p = Inr h
          \<and> (hc_shake_type h = Waveahand \<and> (r, y') = send_conclusion (transition (y\<lparr>rv_starting_seqnum := hc_init_seq_num h\<rparr>)
                      (AttentionResponder now)) (hc_socket_id h) empty_flags
            \<or> hc_shake_type h = Conclusion \<and> (\<exists>ts t. rdv_answer_request cr y h ts t now FineResponder = Ok (r, y'))))"
      using step role Waving by (auto simp: defs handle_waving_def split: splits RendezvousHsV5.splits)
    then show ?thesis
    proof (elim disjE exE conjE)
      fix p h ts t
      assume "rdv_answer_request cr y h ts t now FineResponder = Ok (r, y')"
        "input = Inr (p, rv_remote_public y)" "get_handshake p = Inr h" "hc_shake_type h = Conclusion"
      then show ?thesis using rdv_answer_cases [of cr y h ts t now FineResponder r y'] Waving by fastforce
    qed (use Waving in \<open>auto simp: send_conclusion_def rdv_send_def transition_def hs_packet_def Let_def gen_packet_def\<close>)
  next
    case (AttentionResponder t)
    have "y' = y \<and> sent_packets r = {} \<and> new_connection r = None
      \<or> (\<exists>p h ts. input = Inr (p, rv_remote_public y) \<and> get_handshake p = Inr h \<and> hc_shake_type h = Conclusion
          \<and> rdv_answer_request cr y h ts t now InitiatedResponder = Ok (r, y'))"
      using step AttentionResponder by (auto simp: defs handle_attention_responder_def split: splits)
    then show ?thesis
    proof (elim disjE exE conjE)
      fix p h ts
      assume "rdv_answer_request cr y h ts t now InitiatedResponder = Ok (r, y')"
        "input = Inr (p, rv_remote_public y)" "get_handshake p = Inr h" "hc_shake_type h = Conclusion"
      then show ?thesis using rdv_answer_cases [of cr y h ts t now InitiatedResponder r y'] AttentionResponder by fastforce
    qed simp
  next
    case (InitiatedResponder c)
    have "y' = y \<and> sent_packets r = {} \<and> new_connection r = None
      \<or> (\<exists>p. input = Inr (p, rv_remote_public y) \<and> y' = y \<and> r = handle_initiated_responder y p c)"
      using step InitiatedResponder by (auto simp: defs split: sum.splits prod.splits ReceivePacketError.splits if_splits)
    then show ?thesis
    proof (elim disjE exE conjE)
      fix p
      assume "input = Inr (p, rv_remote_public y)" "y' = y" "r = handle_initiated_responder y p c"
      then show ?thesis using initiated_responder_cases [of y p c] InitiatedResponder
        by (elim disjE) (auto simp: set_connected_def gen_packet_def)
    qed simp
  next
    case (FineResponder c)
    have "y' = y \<and> sent_packets r = {} \<and> new_connection r = None
      \<or> (\<exists>p. input = Inr (p, rv_remote_public y) \<and> y' = y \<and> r = handle_fine_responder y p c)"
      using step FineResponder by (auto simp: defs split: sum.splits prod.splits ReceivePacketError.splits if_splits)
    then show ?thesis
    proof (elim disjE exE conjE)
      fix p
      assume "input = Inr (p, rv_remote_public y)" "y' = y" "r = handle_fine_responder y p c"
      then show ?thesis using fine_responder_cases [of y p c] FineResponder
        by (elim disjE) (auto simp: set_connected_def)
    qed simp
  qed (use st in auto)
qed

section \<open>The system of two peers\<close>

text \<open>\<open>rd_i\<close> is the peer whose cookie makes it the initiator, \<open>rd_r\<close> the other one; \<open>I\<close> and \<open>R\<close> are their
  addresses. A connected peer sends data and other packets that are no handshakes, and it answers repeated
  handshakes.\<close>

record 'p RdvSystem =
  rd_i :: Rendezvous
  rd_r :: Rendezvous
  rd_to_r :: "'p set"
  rd_to_i :: "'p set"
  rd_i_conn :: "Connection option"
  rd_r_conn :: "Connection option"

definition initiator_result :: "Packet RdvSystem \<Rightarrow> ConnectionResult \<Rightarrow> Rendezvous \<Rightarrow> Packet RdvSystem" where
  "initiator_result s r x = s\<lparr>rd_i := x, rd_to_r := rd_to_r s \<union> sent_packets r, rd_i_conn := new_connection r\<rparr>"

definition responder_result :: "Packet RdvSystem \<Rightarrow> ConnectionResult \<Rightarrow> Rendezvous \<Rightarrow> Packet RdvSystem" where
  "responder_result s r y = s\<lparr>rd_r := y, rd_to_i := rd_to_i s \<union> sent_packets r, rd_r_conn := new_connection r\<rparr>"

definition connected_sends :: "Connection \<Rightarrow> Packet \<Rightarrow> bool" where
  "connected_sends conn p \<longleftrightarrow> (\<forall>h. get_handshake p = Inr h \<longrightarrow>
     (\<exists>shake. handle_handshake (cn_handshake conn) shake = Some (Ctl_Handshake h)))"

inductive rdv_step :: "Crypto \<Rightarrow> SocketAddr \<Rightarrow> SocketAddr \<Rightarrow> Packet RdvSystem \<Rightarrow> Packet RdvSystem \<Rightarrow> bool" for cr I R where
  i_tick: "rd_i_conn s = None \<Longrightarrow> rendezvous_handle_tick (rd_i s) now = (r, x) \<Longrightarrow> rdv_step cr I R s (initiator_result s r x)"
| i_rx: "rd_i_conn s = None \<Longrightarrow> key_random_ok rnd \<Longrightarrow> (\<And>p. input = Inr (p, R) \<Longrightarrow> p \<in> rd_to_i s)
    \<Longrightarrow> rendezvous_handle_packet cr rnd (rd_i s) input now = Ok (r, x) \<Longrightarrow> rdv_step cr I R s (initiator_result s r x)"
| r_tick: "rd_r_conn s = None \<Longrightarrow> rendezvous_handle_tick (rd_r s) now = (r, y) \<Longrightarrow> rdv_step cr I R s (responder_result s r y)"
| r_rx: "rd_r_conn s = None \<Longrightarrow> key_random_ok rnd \<Longrightarrow> (\<And>p. input = Inr (p, I) \<Longrightarrow> p \<in> rd_to_r s)
    \<Longrightarrow> rendezvous_handle_packet cr rnd (rd_r s) input now = Ok (r, y) \<Longrightarrow> rdv_step cr I R s (responder_result s r y)"
| i_more: "rd_i_conn s = Some conn \<Longrightarrow> connected_sends conn p \<Longrightarrow> rdv_step cr I R s (s\<lparr>rd_to_r := insert p (rd_to_r s)\<rparr>)"
| r_more: "rd_r_conn s = Some conn \<Longrightarrow> connected_sends conn p \<Longrightarrow> rdv_step cr I R s (s\<lparr>rd_to_i := insert p (rd_to_i s)\<rparr>)"

definition rdv_init ::
  "SocketAddr \<Rightarrow> SocketAddr \<Rightarrow> ConnInitSettings \<Rightarrow> SeqNumber \<Rightarrow> ConnInitSettings \<Rightarrow> i32 \<Rightarrow> i32 \<Rightarrow> 'p RdvSystem \<Rightarrow> bool" where
  "rdv_init I R ii iseq ro ci cr' s \<longleftrightarrow>
     (\<exists>la lb rseq. rd_i s = rendezvous_new ci la R ii iseq \<and> rd_r s = rendezvous_new cr' lb I ro rseq)
     \<and> rd_to_r s = {} \<and> rd_to_i s = {} \<and> rd_i_conn s = None \<and> rd_r_conn s = None
     \<and> rdv_role ci cr' = Some Initiator"

section \<open>The invariant\<close>

text \<open>The handshakes of the initiator: \<open>state\<close> is its state and \<open>done\<close> says that it is connected.\<close>

definition i_handshake ::
  "Crypto \<Rightarrow> ConnInitSettings \<Rightarrow> SeqNumber \<Rightarrow> i32 \<Rightarrow> RendezvousState \<Rightarrow> bool \<Rightarrow> HandshakeControlInfo \<Rightarrow> bool" where
  "i_handshake cr ii iseq ci state connected h \<longleftrightarrow>
     hc_init_seq_num h = iseq \<and> hc_max_packet_size h = ci_max_packet_size ii \<and> hc_max_flow_size h = ci_max_flow_size ii
     \<and> hc_socket_id h = ci_local_sockid ii \<and> hc_syn_cookie h = ci
     \<and> (hc_shake_type h = Waveahand
        \<or> hc_shake_type h = Conclusion \<and> (\<exists>cm. initiator_of state = Some cm \<and> hs_request cr ii None (hc_info h) cm)
        \<or> hc_shake_type h = Agreement \<and> connected)"

definition initiator_inv ::
  "Crypto \<Rightarrow> SocketAddr \<Rightarrow> ConnInitSettings \<Rightarrow> SeqNumber \<Rightarrow> i32 \<Rightarrow> Rendezvous \<Rightarrow> Packet set \<Rightarrow> Connection option \<Rightarrow> bool" where
  "initiator_inv cr R ii iseq ci x net conn \<longleftrightarrow>
     rv_init_settings x = ii \<and> rv_starting_seqnum x = iseq \<and> rv_cookie x = ci \<and> rv_remote_public x = R
     \<and> initiator_state (rv_state x)
     \<and> (\<forall>hsv5 cm. rv_state x = AttentionInitiator hsv5 cm \<longrightarrow> hs_request cr ii None hsv5 cm)
     \<and> (\<exists>h. get_handshake (fst (rv_last_packet x)) = Inr h \<and> i_handshake cr ii iseq ci (rv_state x) (conn \<noteq> None) h)
     \<and> (\<forall>p h. p \<in> net \<longrightarrow> get_handshake p = Inr h \<longrightarrow> i_handshake cr ii iseq ci (rv_state x) (conn \<noteq> None) h)
     \<and> (\<forall>p e. p \<in> net \<longrightarrow> get_handshake p = Inl e \<longrightarrow> conn \<noteq> None)
     \<and> (\<forall>c. conn = Some c \<longrightarrow> (\<exists>h. cn_handshake c = HS_Rendezvous (Some (Ctl_Handshake h))
          \<and> i_handshake cr ii iseq ci (rv_state x) True h))"

text \<open>The settings that the responder has accepted, and the response \<open>h'\<close> that it sends.\<close>

definition rdv_committed ::
  "Crypto \<Rightarrow> SocketAddr \<Rightarrow> ConnInitSettings \<Rightarrow> SeqNumber \<Rightarrow> ConnInitSettings \<Rightarrow> RendezvousState
   \<Rightarrow> ConnectionSettings \<Rightarrow> HandshakeControlInfo \<Rightarrow> bool" where
  "rdv_committed cr I ii iseq ro state settings h' \<longleftrightarrow>
     (\<exists>h cm. initiator_of state = Some cm \<and> hs_request cr ii None (hc_info h) cm \<and> hc_socket_id h = ci_local_sockid ii
        \<and> hc_init_seq_num h = iseq \<and> hc_max_packet_size h = ci_max_packet_size ii \<and> hc_max_flow_size h = ci_max_flow_size ii
        \<and> accepts cr ro I h settings h'
        \<and> hc_max_packet_size h' = ci_max_packet_size ro \<and> hc_max_flow_size h' = ci_max_flow_size ro)"

definition r_handshake ::
  "Crypto \<Rightarrow> SocketAddr \<Rightarrow> ConnInitSettings \<Rightarrow> SeqNumber \<Rightarrow> ConnInitSettings \<Rightarrow> i32 \<Rightarrow> RendezvousState \<Rightarrow> RendezvousState
   \<Rightarrow> HandshakeControlInfo \<Rightarrow> bool" where
  "r_handshake cr I ii iseq ro cr' istate rstate h \<longleftrightarrow>
     (\<exists>reason. hc_shake_type h = Rejection reason)
     \<or> hc_syn_cookie h = cr' \<and> (hc_shake_type h \<in> {Waveahand, Agreement}
        \<or> hc_shake_type h = Conclusion \<and> (extract_ext_info h = Inr None
           \<or> (\<exists>settings. committed_of rstate = Some settings \<and> rdv_committed cr I ii iseq ro istate settings h)))"

definition responder_inv ::
  "Crypto \<Rightarrow> SocketAddr \<Rightarrow> ConnInitSettings \<Rightarrow> SeqNumber \<Rightarrow> ConnInitSettings \<Rightarrow> i32 \<Rightarrow> RendezvousState \<Rightarrow> Rendezvous
   \<Rightarrow> Packet set \<Rightarrow> Connection option \<Rightarrow> bool" where
  "responder_inv cr I ii iseq ro cr' istate y net conn \<longleftrightarrow>
     rv_init_settings y = ro \<and> rv_cookie y = cr' \<and> rv_remote_public y = I \<and> responder_state (rv_state y)
     \<and> (\<forall>settings. committed_of (rv_state y) = Some settings \<longrightarrow> (\<exists>h'. rdv_committed cr I ii iseq ro istate settings h'))
     \<and> (\<exists>h. get_handshake (fst (rv_last_packet y)) = Inr h \<and> r_handshake cr I ii iseq ro cr' istate (rv_state y) h)
     \<and> (\<forall>p h. p \<in> net \<longrightarrow> get_handshake p = Inr h \<longrightarrow> r_handshake cr I ii iseq ro cr' istate (rv_state y) h)
     \<and> (\<forall>c. conn = Some c \<longrightarrow> committed_of (rv_state y) = Some (cn_settings c) \<and> cn_handshake c = HS_Rendezvous None)"

definition rdv_inv ::
  "Crypto \<Rightarrow> SocketAddr \<Rightarrow> SocketAddr \<Rightarrow> ConnInitSettings \<Rightarrow> SeqNumber \<Rightarrow> ConnInitSettings \<Rightarrow> i32 \<Rightarrow> i32 \<Rightarrow> Packet RdvSystem \<Rightarrow> bool" where
  "rdv_inv cr I R ii iseq ro ci cr' s \<longleftrightarrow>
     initiator_inv cr R ii iseq ci (rd_i s) (rd_to_r s) (rd_i_conn s)
     \<and> responder_inv cr I ii iseq ro cr' (rv_state (rd_i s)) (rd_r s) (rd_to_i s) (rd_r_conn s)
     \<and> (rd_r_conn s \<noteq> None \<longrightarrow> rd_i_conn s \<noteq> None)
     \<and> (\<forall>c. rd_i_conn s = Some c \<longrightarrow> (\<exists>cm h' settings now. initiator_of (rv_state (rd_i s)) = Some cm
          \<and> committed_of (rv_state (rd_r s)) = Some settings \<and> rdv_committed cr I ii iseq ro (rv_state (rd_i s)) settings h'
          \<and> finish_hsv5_initiation cm h' R now = Inr (cn_settings c)))
     \<and> rdv_role ci cr' = Some Initiator \<and> rdv_role cr' ci = Some Responder"

lemma i_handshake_mono:
  assumes "i_handshake cr ii iseq ci state connected h"
    and "\<And>cm. initiator_of state = Some cm \<Longrightarrow> initiator_of state' = Some cm" "connected \<Longrightarrow> connected'"
  shows "i_handshake cr ii iseq ci state' connected' h"
  using assms unfolding i_handshake_def by blast

lemma r_handshake_mono:
  assumes "r_handshake cr I ii iseq ro cr' istate rstate h"
    and "\<And>cm. initiator_of istate = Some cm \<Longrightarrow> initiator_of istate' = Some cm"
    and "\<And>st. committed_of rstate = Some st \<Longrightarrow> committed_of rstate' = Some st"
  shows "r_handshake cr I ii iseq ro cr' istate' rstate' h"
  using assms unfolding r_handshake_def rdv_committed_def by blast

lemma rdv_committed_mono:
  assumes "rdv_committed cr I ii iseq ro istate st h"
    and "\<And>cm. initiator_of istate = Some cm \<Longrightarrow> initiator_of istate' = Some cm"
  shows "rdv_committed cr I ii iseq ro istate' st h"
  using assms unfolding rdv_committed_def by blast

lemma initiator_invD:
  assumes "initiator_inv cr R ii iseq ci x net conn"
  shows "rv_init_settings x = ii" "rv_starting_seqnum x = iseq" "rv_cookie x = ci" "rv_remote_public x = R"
    "initiator_state (rv_state x)" "\<And>hsv5 cm. rv_state x = AttentionInitiator hsv5 cm \<Longrightarrow> hs_request cr ii None hsv5 cm"
    "\<exists>h. get_handshake (fst (rv_last_packet x)) = Inr h \<and> i_handshake cr ii iseq ci (rv_state x) (conn \<noteq> None) h"
    "\<And>p h. p \<in> net \<Longrightarrow> get_handshake p = Inr h \<Longrightarrow> i_handshake cr ii iseq ci (rv_state x) (conn \<noteq> None) h"
    "\<And>p e. p \<in> net \<Longrightarrow> get_handshake p = Inl e \<Longrightarrow> conn \<noteq> None"
    "\<And>c. conn = Some c \<Longrightarrow> \<exists>h. cn_handshake c = HS_Rendezvous (Some (Ctl_Handshake h))
          \<and> i_handshake cr ii iseq ci (rv_state x) True h"
  using assms unfolding initiator_inv_def by (elim conjE; metis)+

text \<open>What a step of the initiator has to keep.\<close>

lemma initiator_inv_step:
  assumes inv: "initiator_inv cr R ii iseq ci x net None"
    and "rv_init_settings x' = ii" "rv_starting_seqnum x' = iseq" "rv_cookie x' = ci" "rv_remote_public x' = R"
      "initiator_state (rv_state x')"
    and mono: "\<And>cm. initiator_of (rv_state x) = Some cm \<Longrightarrow> initiator_of (rv_state x') = Some cm"
    and "\<And>hsv5 cm. rv_state x' = AttentionInitiator hsv5 cm \<Longrightarrow> hs_request cr ii None hsv5 cm"
    and last: "rv_last_packet x' = rv_last_packet x
      \<or> (\<exists>h. get_handshake (fst (rv_last_packet x')) = Inr h \<and> i_handshake cr ii iseq ci (rv_state x') (conn \<noteq> None) h)"
    and new: "\<And>p. p \<in> new \<Longrightarrow> \<exists>h. get_handshake p = Inr h \<and> i_handshake cr ii iseq ci (rv_state x') (conn \<noteq> None) h"
    and "\<And>c. conn = Some c \<Longrightarrow> \<exists>h. cn_handshake c = HS_Rendezvous (Some (Ctl_Handshake h))
          \<and> i_handshake cr ii iseq ci (rv_state x') True h"
  shows "initiator_inv cr R ii iseq ci x' (net \<union> new) conn"
proof -
  have old: "i_handshake cr ii iseq ci (rv_state x') (conn \<noteq> None) h" if "p \<in> net" "get_handshake p = Inr h" for p h
  proof -
    have "i_handshake cr ii iseq ci (rv_state x) False h" using initiator_invD(8) [OF inv that] by simp
    then show ?thesis by (rule i_handshake_mono) (use mono in auto)
  qed
  have l: "\<exists>h. get_handshake (fst (rv_last_packet x')) = Inr h \<and> i_handshake cr ii iseq ci (rv_state x') (conn \<noteq> None) h"
  proof (rule disjE [OF last])
    assume same: "rv_last_packet x' = rv_last_packet x"
    obtain h where h: "get_handshake (fst (rv_last_packet x)) = Inr h" "i_handshake cr ii iseq ci (rv_state x) False h"
      using initiator_invD(7) [OF inv] by auto
    have "i_handshake cr ii iseq ci (rv_state x') (conn \<noteq> None) h" by (rule i_handshake_mono [OF h(2) mono]) auto
    then show ?thesis using h(1) same by auto
  qed
  have n: "conn \<noteq> None" if "p \<in> net \<union> new" "get_handshake p = Inl e" for p e
    using initiator_invD(9) [OF inv] new that by fastforce
  have a: "i_handshake cr ii iseq ci (rv_state x') (conn \<noteq> None) h" if "p \<in> net \<union> new" "get_handshake p = Inr h" for p h
    using old new that by fastforce
  show ?thesis unfolding initiator_inv_def using assms(2-6,8,11) l n a by blast
qed

lemma gen_packet_i_handshake:
  assumes "rv_init_settings x = ii" "rv_starting_seqnum x = iseq" "rv_cookie x = ci"
    and "t = Conclusion \<and> (\<exists>cm. initiator_of state = Some cm \<and> hs_request cr ii None i cm) \<or> t = Agreement \<and> connected"
  shows "i_handshake cr ii iseq ci state connected (gen_packet x t i)"
  using assms by (auto simp: i_handshake_def gen_packet_def)

lemma get_handshake_hs_packet [simp]: "get_handshake (hs_packet dest h) = Inr h"
  by (simp add: hs_packet_def)

lemma rdv_tick_fields:
  assumes "rendezvous_handle_tick x now = (r, x')"
  shows "x' = x\<lparr>rv_last_send := Some now\<rparr>" "sent_packets r = {fst (rv_last_packet x)}" "new_connection r = None"
  using assms by (cases "rv_last_packet x"; auto simp: rendezvous_handle_tick_def)+

lemma initiator_tick_inv:
  assumes inv: "initiator_inv cr R ii iseq ci x net None" and "rendezvous_handle_tick x now = (r, x')"
  shows "initiator_inv cr R ii iseq ci x' (net \<union> sent_packets r) (new_connection r)" "rv_state x' = rv_state x"
    "new_connection r = None"
proof -
  note t = rdv_tick_fields [OF assms(2)]
  show "initiator_inv cr R ii iseq ci x' (net \<union> sent_packets r) (new_connection r)"
    unfolding t by (rule initiator_inv_step [OF inv]) (use initiator_invD(1-7) [OF inv] in auto)
  show "rv_state x' = rv_state x" "new_connection r = None" unfolding t by simp_all
qed

lemma initiator_packet_inv:
  assumes inv: "initiator_inv cr R ii iseq ci x net None" and rnd: "key_random_ok rnd"
    and role: "\<forall>p h. input = Inr (p, R) \<longrightarrow> get_handshake p = Inr h \<longrightarrow>
      rdv_role ci (hc_syn_cookie h) = Some Initiator \<or> (\<exists>reason. hc_shake_type h = Rejection reason)"
    and step: "rendezvous_handle_packet cr rnd x input now = Ok (r, x')"
  shows "initiator_inv cr R ii iseq ci x' (net \<union> sent_packets r) (new_connection r)
    \<and> (\<forall>cm. initiator_of (rv_state x) = Some cm \<longrightarrow> initiator_of (rv_state x') = Some cm)
    \<and> (\<forall>c. new_connection r = Some c \<longrightarrow> (\<exists>cm p h hs. initiator_of (rv_state x') = Some cm \<and> input = Inr (p, R)
        \<and> get_handshake p = Inr h \<and> hc_shake_type h = Conclusion \<and> extract_ext_info h = Inr (Some (Srt_HandshakeResponse hs))
        \<and> finish_hsv5_initiation cm h R now = Inr (cn_settings c)))"
proof -
  note x = initiator_invD [OF inv]
  from initiator_cases [OF step x(5), unfolded x(1,3,4), OF role] show ?thesis
  proof (elim disjE exE conjE)
    fix hsv5 cm q state dest
    assume a: "rv_state x = Waving" "start_hsv5_initiation cr rnd ii None now = Ok (hsv5, cm)"
      "state \<in> {AttentionInitiator hsv5 cm, FineInitiator hsv5 cm}" "q = hs_packet dest (gen_packet x Conclusion hsv5)"
      "x' = x\<lparr>rv_state := state, rv_last_packet := (q, R)\<rparr>" "sent_packets r = {q}" "new_connection r = None"
    have st: "initiator_state state" "initiator_of state = Some cm" using a(3) by auto
    have req: "hs_request cr ii None hsv5 cm" using rnd a(2) by (auto simp: hs_request_def)
    have "i_handshake cr ii iseq ci state False (gen_packet x Conclusion hsv5)"
      by (rule gen_packet_i_handshake [OF x(1-3)]) (use st req in auto)
    then have "initiator_inv cr R ii iseq ci x' (net \<union> sent_packets r) (new_connection r)"
      unfolding a(6,7) by (intro initiator_inv_step [OF inv]) (use a st req x in auto)
    then show ?thesis using a by simp
  next
    fix hsv5 cm q dest
    assume a: "rv_state x = AttentionInitiator hsv5 cm" "q = hs_packet dest (gen_packet x Conclusion hsv5)"
      "x' = x\<lparr>rv_state := InitiatedInitiator cm, rv_last_packet := (q, R)\<rparr>" "sent_packets r = {q}" "new_connection r = None"
    have req: "hs_request cr ii None hsv5 cm" by (rule x(6) [OF a(1)])
    have "i_handshake cr ii iseq ci (InitiatedInitiator cm) False (gen_packet x Conclusion hsv5)"
      by (rule gen_packet_i_handshake [OF x(1-3)]) (use req in auto)
    then have "initiator_inv cr R ii iseq ci x' (net \<union> sent_packets r) (new_connection r)"
      unfolding a(4,5) by (intro initiator_inv_step [OF inv]) (use a req x in auto)
    then show ?thesis using a by simp
  next
    fix cm p h hs st q flags dest
    assume a: "x' = x" "initiator_of (rv_state x) = Some cm" "input = Inr (p, R)" "get_handshake p = Inr h"
      "hc_shake_type h = Conclusion" "extract_ext_info h = Inr (Some (Srt_HandshakeResponse hs))"
      "finish_hsv5_initiation cm h R now = Inr st" "q = hs_packet dest (gen_packet x Agreement flags)" "sent_packets r = {q}"
      "new_connection r = Some \<lparr>cn_settings = st, cn_handshake = HS_Rendezvous (Some (Ctl_Handshake (gen_packet x Agreement flags)))\<rparr>"
    have g: "i_handshake cr ii iseq ci (rv_state x) True (gen_packet x Agreement flags)"
      by (rule gen_packet_i_handshake [OF x(1-3)]) simp
    have "initiator_inv cr R ii iseq ci x' (net \<union> sent_packets r) (new_connection r)"
      unfolding a(1,9,10) by (rule initiator_inv_step [OF inv]) (use a(8) g x(1-6) in auto)
    then show ?thesis using a by auto
  next
    assume "x' = x" "sent_packets r = {}" "new_connection r = None"
    then show ?thesis using inv by simp
  qed
qed

lemma responder_invD:
  assumes "responder_inv cr I ii iseq ro cr' istate y net conn"
  shows "rv_init_settings y = ro" "rv_cookie y = cr'" "rv_remote_public y = I" "responder_state (rv_state y)"
    "\<And>settings. committed_of (rv_state y) = Some settings \<Longrightarrow> \<exists>h'. rdv_committed cr I ii iseq ro istate settings h'"
    "\<exists>h. get_handshake (fst (rv_last_packet y)) = Inr h \<and> r_handshake cr I ii iseq ro cr' istate (rv_state y) h"
    "\<And>p h. p \<in> net \<Longrightarrow> get_handshake p = Inr h \<Longrightarrow> r_handshake cr I ii iseq ro cr' istate (rv_state y) h"
    "\<And>c. conn = Some c \<Longrightarrow> committed_of (rv_state y) = Some (cn_settings c) \<and> cn_handshake c = HS_Rendezvous None"
  using assms unfolding responder_inv_def by (elim conjE; metis)+

lemma responder_inv_step:
  assumes inv: "responder_inv cr I ii iseq ro cr' istate y net conn0"
    and "rv_init_settings y' = ro" "rv_cookie y' = cr'" "rv_remote_public y' = I" "responder_state (rv_state y')"
    and imono: "\<And>cm. initiator_of istate = Some cm \<Longrightarrow> initiator_of istate' = Some cm"
    and mono: "\<And>st. committed_of (rv_state y) = Some st \<Longrightarrow> committed_of (rv_state y') = Some st"
    and comm: "\<And>st. committed_of (rv_state y') = Some st \<Longrightarrow> committed_of (rv_state y) = Some st
      \<or> (\<exists>h'. rdv_committed cr I ii iseq ro istate' st h')"
    and last: "rv_last_packet y' = rv_last_packet y
      \<or> (\<exists>h. get_handshake (fst (rv_last_packet y')) = Inr h \<and> r_handshake cr I ii iseq ro cr' istate' (rv_state y') h)"
    and new: "\<And>p h. p \<in> new \<Longrightarrow> get_handshake p = Inr h \<Longrightarrow> r_handshake cr I ii iseq ro cr' istate' (rv_state y') h"
    and "\<And>c. conn = Some c \<Longrightarrow> committed_of (rv_state y') = Some (cn_settings c) \<and> cn_handshake c = HS_Rendezvous None"
  shows "responder_inv cr I ii iseq ro cr' istate' y' (net \<union> new) conn"
proof -
  note y = responder_invD [OF inv]
  have "r_handshake cr I ii iseq ro cr' istate' (rv_state y') h" if "p \<in> net \<union> new" "get_handshake p = Inr h" for p h
    using that new r_handshake_mono [OF y(7) imono mono] by blast
  moreover have "\<exists>h'. rdv_committed cr I ii iseq ro istate' st h'" if "committed_of (rv_state y') = Some st" for st
    using comm [OF that] y(5) rdv_committed_mono [OF _ imono] by blast
  moreover have "\<exists>h. get_handshake (fst (rv_last_packet y')) = Inr h \<and> r_handshake cr I ii iseq ro cr' istate' (rv_state y') h"
    using last y(6) r_handshake_mono [OF _ imono mono] by metis
  ultimately show ?thesis unfolding responder_inv_def using assms(2-5,11) by blast
qed

lemma responder_tick_inv:
  assumes inv: "responder_inv cr I ii iseq ro cr' istate y net None" and "rendezvous_handle_tick y now = (r, y')"
  shows "responder_inv cr I ii iseq ro cr' istate y' (net \<union> sent_packets r) (new_connection r)" "rv_state y' = rv_state y"
    "new_connection r = None"
proof -
  note t = rdv_tick_fields [OF assms(2)]
  show "responder_inv cr I ii iseq ro cr' istate y' (net \<union> sent_packets r) (new_connection r)"
    unfolding t by (rule responder_inv_step [OF inv]) (use responder_invD(1-6) [OF inv] in auto)
  show "rv_state y' = rv_state y" "new_connection r = None" unfolding t by simp_all
qed

lemma gen_packet_r_handshake:
  assumes "rv_cookie y = cr'" "t \<in> {Waveahand, Agreement} \<or> t = Conclusion \<and> i = empty_flags"
  shows "r_handshake cr I ii iseq ro cr' istate rstate (gen_packet y t i)"
  using assms by (auto simp: r_handshake_def gen_packet_def extract_ext_info_def empty_flags_def hs_v5_default_def)

lemma responder_packet_inv:
  assumes inv: "responder_inv cr I ii iseq ro cr' istate y net None"
    and role: "rdv_role cr' ci = Some Responder"
    and net: "\<forall>p h. input = Inr (p, I) \<longrightarrow> get_handshake p = Inr h \<longrightarrow> i_handshake cr ii iseq ci istate connected h"
    and net': "\<forall>p e. input = Inr (p, I) \<longrightarrow> get_handshake p = Inl e \<longrightarrow> connected"
    and step: "rendezvous_handle_packet cr rnd y input now = Ok (r, y')"
  shows "responder_inv cr I ii iseq ro cr' istate y' (net \<union> sent_packets r) (new_connection r)
    \<and> (\<forall>st. committed_of (rv_state y) = Some st \<longrightarrow> committed_of (rv_state y') = Some st)
    \<and> (new_connection r \<noteq> None \<longrightarrow> connected)"
proof -
  note y = responder_invD [OF inv]
  have role': "\<forall>p h. input = Inr (p, I) \<longrightarrow> get_handshake p = Inr h \<longrightarrow> rdv_role cr' (hc_syn_cookie h) = Some Responder"
    using net role by (simp add: i_handshake_def)
  from responder_cases [OF step y(4), unfolded y(1,2,3), OF role'] show ?thesis
  proof (elim disjE exE conjE)
    fix p h q dest
    assume a: "rv_state y = Waving" "input = Inr (p, I)" "get_handshake p = Inr h" "hc_shake_type h = Waveahand"
      "y' = y\<lparr>rv_starting_seqnum := hc_init_seq_num h, rv_state := AttentionResponder now, rv_last_packet := (q, I)\<rparr>"
      "q = hs_packet dest (gen_packet y' Conclusion empty_flags)" "sent_packets r = {q}" "new_connection r = None"
    have "rv_cookie y' = cr'" using a(5) y(2) by simp
    then have "r_handshake cr I ii iseq ro cr' istate (AttentionResponder now) (gen_packet y' Conclusion empty_flags)"
      by (rule gen_packet_r_handshake) simp
    then obtain g where q: "get_handshake q = Inr g" "r_handshake cr I ii iseq ro cr' istate (AttentionResponder now) g"
      unfolding a(6) by simp
    have "responder_inv cr I ii iseq ro cr' istate y' (net \<union> sent_packets r) (new_connection r)"
      unfolding a(7,8) by (intro responder_inv_step [OF inv]) (use a(1,5) q y(1-6) in auto)
    then show ?thesis using a(1,8) by simp
  next
    fix p h q i st state dest t
    assume a: "committed_of (rv_state y) = None" "input = Inr (p, I)" "get_handshake p = Inr h" "hc_shake_type h = Conclusion"
      "gen_hsv5_response cr ro h I t now = Ok (GH_Accept i st, ro)" "state \<in> {InitiatedResponder st, FineResponder st}"
      "y' = y\<lparr>rv_starting_seqnum := hc_init_seq_num h, rv_state := state, rv_last_packet := (q, I)\<rparr>"
      "q = hs_packet dest (gen_packet y' Conclusion i)" "sent_packets r = {q}" "new_connection r = None"
    have ih: "i_handshake cr ii iseq ci istate connected h" using net a(2,3) by blast
    obtain v v' hs cipher where g: "hc_info h = HVI_V5 v" "i = HVI_V5 v'" "v5_ext_hs v = Some (Srt_HandshakeRequest hs)"
      "v5_ext_hs v' = Some (Srt_HandshakeResponse (handshake_offer ro))" "responder_cipher cr ro v = Ok cipher"
      "st = responder_settings now ro I t h v hs cipher"
      using gen_hsv5_response_cases(2) [OF a(5) refl] by blast
    have "accepts cr ro I h st (gen_packet y' Conclusion i)"
      unfolding accepts_def using g a(7) y(1) by (auto simp: gen_packet_def)
    moreover have "hc_max_packet_size (gen_packet y' Conclusion i) = ci_max_packet_size ro"
      "hc_max_flow_size (gen_packet y' Conclusion i) = ci_max_flow_size ro" using a(7) y(1) by (simp_all add: gen_packet_def)
    ultimately have c: "rdv_committed cr I ii iseq ro istate st (gen_packet y' Conclusion i)"
      unfolding rdv_committed_def using ih a(4) by (auto simp: i_handshake_def)
    have cst: "committed_of state = Some st" "responder_state state" using a(6) by auto
    have "hc_syn_cookie (gen_packet y' Conclusion i) = cr'" "hc_shake_type (gen_packet y' Conclusion i) = Conclusion"
      using a(7) y(2) by (simp_all add: gen_packet_def)
    then have "r_handshake cr I ii iseq ro cr' istate state (gen_packet y' Conclusion i)"
      unfolding r_handshake_def using c cst by blast
    then obtain g where q: "get_handshake q = Inr g" "r_handshake cr I ii iseq ro cr' istate state g"
      "rdv_committed cr I ii iseq ro istate st g"
      unfolding a(8) using c by simp
    have "responder_inv cr I ii iseq ro cr' istate y' (net \<union> sent_packets r) (new_connection r)"
      unfolding a(9,10) by (intro responder_inv_step [OF inv]) (use a(1,7) q cst y(1-6) in auto)
    then show ?thesis using a(1,10) by simp
  next
    fix p st conn
    assume a: "y' = y" "committed_of (rv_state y) = Some st" "input = Inr (p, I)" "closes_handshake p"
      "\<forall>q h. q \<in> sent_packets r \<longrightarrow> get_handshake q = Inr h \<longrightarrow> hc_shake_type h = Agreement \<and> hc_syn_cookie h = cr'"
      "new_connection r = Some conn" "cn_settings conn = st" "cn_handshake conn = HS_Rendezvous None"
    have connected
    proof (cases "get_handshake p")
      case (Inl e)
      then show ?thesis using net' a(3) by blast
    next
      case (Inr h)
      have "i_handshake cr ii iseq ci istate connected h" using net a(3) Inr by blast
      moreover have "hs_request cr ii None (hc_info h) cm \<Longrightarrow> extract_ext_info h \<noteq> Inr None" for cm
        using hs_request_fields [of cr ii None "hc_info h" cm] by (force simp: extract_ext_info_def)
      ultimately show ?thesis using a(4) Inr by (auto simp: i_handshake_def closes_handshake_def)
    qed
    moreover have "responder_inv cr I ii iseq ro cr' istate y' (net \<union> sent_packets r) (new_connection r)"
      unfolding a(1,6)
    proof (rule responder_inv_step [OF inv])
      fix q h
      assume "q \<in> sent_packets r" "get_handshake q = Inr h"
      then show "r_handshake cr I ii iseq ro cr' istate (rv_state y) h"
        using a(5) by (auto simp: r_handshake_def)
    qed (use a(2,7,8) y(1-6) in auto)
    ultimately show ?thesis using a(1) by simp
  next
    assume "y' = y" "new_connection r = None" "\<forall>p h. p \<in> sent_packets r \<longrightarrow> get_handshake p = Inr h \<longrightarrow>
        (\<exists>reason. hc_shake_type h = Rejection reason)"
    then have "responder_inv cr I ii iseq ro cr' istate y' (net \<union> sent_packets r) (new_connection r)"
      by (intro responder_inv_step [OF inv]) (use y(1-6) in \<open>auto simp: r_handshake_def\<close>)
    then show ?thesis using \<open>y' = y\<close> \<open>new_connection r = None\<close> by simp
  qed
qed

lemma rdv_invD:
  assumes "rdv_inv cr I R ii iseq ro ci cr' s"
  shows "initiator_inv cr R ii iseq ci (rd_i s) (rd_to_r s) (rd_i_conn s)"
    "responder_inv cr I ii iseq ro cr' (rv_state (rd_i s)) (rd_r s) (rd_to_i s) (rd_r_conn s)"
    "rd_r_conn s \<noteq> None \<Longrightarrow> rd_i_conn s \<noteq> None"
    "\<And>c. rd_i_conn s = Some c \<Longrightarrow> \<exists>cm h' settings now. initiator_of (rv_state (rd_i s)) = Some cm
          \<and> committed_of (rv_state (rd_r s)) = Some settings \<and> rdv_committed cr I ii iseq ro (rv_state (rd_i s)) settings h'
          \<and> finish_hsv5_initiation cm h' R now = Inr (cn_settings c)"
    "rdv_role ci cr' = Some Initiator" "rdv_role cr' ci = Some Responder"
  using assms unfolding rdv_inv_def by (elim conjE; metis)+

lemma rdv_init_inv:
  assumes "rdv_init I R ii iseq ro ci cr' s"
  shows "rdv_inv cr I R ii iseq ro ci cr' s"
proof -
  obtain la lb rseq where n: "rd_i s = rendezvous_new ci la R ii iseq" "rd_r s = rendezvous_new cr' lb I ro rseq"
    "rd_to_r s = {}" "rd_to_i s = {}" "rd_i_conn s = None" "rd_r_conn s = None"
    "rdv_role ci cr' = Some Initiator"
    using assms unfolding rdv_init_def by blast
  have "initiator_inv cr R ii iseq ci (rendezvous_new ci la R ii iseq) {} None"
    by (simp add: initiator_inv_def rendezvous_new_def Let_def i_handshake_def)
  moreover have "responder_inv cr I ii iseq ro cr' istate (rendezvous_new cr' lb I ro rseq) {} None" for istate
    by (simp add: responder_inv_def rendezvous_new_def Let_def r_handshake_def)
  ultimately show ?thesis unfolding rdv_inv_def using n rdv_role_opposite [OF n(7)] by simp
qed

text \<open>A step of the initiator keeps what holds of the responder.\<close>

lemma responder_inv_initiator:
  assumes inv: "responder_inv cr I ii iseq ro cr' istate y net conn"
    and "\<And>cm. initiator_of istate = Some cm \<Longrightarrow> initiator_of istate' = Some cm"
  shows "responder_inv cr I ii iseq ro cr' istate' y net conn"
proof -
  have "responder_inv cr I ii iseq ro cr' istate' y (net \<union> {}) conn"
    by (rule responder_inv_step [OF inv]) (use assms(2) responder_invD [OF inv] in blast)+
  then show ?thesis by simp
qed

lemma rdv_initiator_step:
  assumes inv: "rdv_inv cr I R ii iseq ro ci cr' s" and none: "rd_i_conn s = None"
    and i: "initiator_inv cr R ii iseq ci x' (rd_to_r s \<union> sent_packets r) (new_connection r)"
    and mono: "\<And>cm. initiator_of (rv_state (rd_i s)) = Some cm \<Longrightarrow> initiator_of (rv_state x') = Some cm"
    and new: "\<And>c. new_connection r = Some c \<Longrightarrow> \<exists>cm h' settings now. initiator_of (rv_state x') = Some cm
          \<and> committed_of (rv_state (rd_r s)) = Some settings \<and> rdv_committed cr I ii iseq ro (rv_state x') settings h'
          \<and> finish_hsv5_initiation cm h' R now = Inr (cn_settings c)"
  shows "rdv_inv cr I R ii iseq ro ci cr' (initiator_result s r x')"
proof -
  note d = rdv_invD [OF inv]
  have "rd_r_conn s = None" using d(3) none by blast
  moreover have "responder_inv cr I ii iseq ro cr' (rv_state x') (rd_r s) (rd_to_i s) (rd_r_conn s)"
    by (rule responder_inv_initiator [OF d(2) mono])
  ultimately show ?thesis unfolding rdv_inv_def initiator_result_def using i new d(5,6) by simp
qed

lemma rdv_responder_step:
  assumes inv: "rdv_inv cr I R ii iseq ro ci cr' s"
    and r: "responder_inv cr I ii iseq ro cr' (rv_state (rd_i s)) y' (rd_to_i s \<union> sent_packets r) (new_connection r)"
    and mono: "\<And>st. committed_of (rv_state (rd_r s)) = Some st \<Longrightarrow> committed_of (rv_state y') = Some st"
    and new: "new_connection r \<noteq> None \<Longrightarrow> rd_i_conn s \<noteq> None"
  shows "rdv_inv cr I R ii iseq ro ci cr' (responder_result s r y')"
proof -
  note d = rdv_invD [OF inv]
  have "\<exists>cm h' settings now. initiator_of (rv_state (rd_i s)) = Some cm
          \<and> committed_of (rv_state y') = Some settings \<and> rdv_committed cr I ii iseq ro (rv_state (rd_i s)) settings h'
          \<and> finish_hsv5_initiation cm h' R now = Inr (cn_settings c)" if "rd_i_conn s = Some c" for c
    using d(4) [OF that] mono by blast
  then show ?thesis unfolding rdv_inv_def responder_result_def using d(1,5,6) r new by simp
qed

lemma rdv_step_inv:
  assumes inv: "rdv_inv cr I R ii iseq ro ci cr' s" and "rdv_step cr I R s s'"
  shows "rdv_inv cr I R ii iseq ro ci cr' s'"
  using assms(2)
proof cases
  note d = rdv_invD [OF inv]
  {
    case (i_tick now r x)
    note t = initiator_tick_inv [OF d(1) [unfolded i_tick(2)] i_tick(3)]
    show ?thesis unfolding i_tick(1) by (rule rdv_initiator_step [OF inv i_tick(2) t(1)]) (use t(2,3) in simp_all)
  next
    case (i_rx rnd input now r x)
    have hs: "r_handshake cr I ii iseq ro cr' (rv_state (rd_i s)) (rv_state (rd_r s)) h"
      if "input = Inr (p, R)" "get_handshake p = Inr h" for p h
      using responder_invD(7) [OF d(2)] i_rx(4) that by blast
    have role: "\<forall>p h. input = Inr (p, R) \<longrightarrow> get_handshake p = Inr h \<longrightarrow>
      rdv_role ci (hc_syn_cookie h) = Some Initiator \<or> (\<exists>reason. hc_shake_type h = Rejection reason)"
      using hs d(5) by (auto simp: r_handshake_def)
    note t = initiator_packet_inv [OF d(1) [unfolded i_rx(2)] i_rx(3) role i_rx(5)]
    have mono: "initiator_of (rv_state (rd_i s)) = Some cm \<Longrightarrow> initiator_of (rv_state x) = Some cm" for cm
      using t by blast
    show ?thesis unfolding i_rx(1)
    proof (rule rdv_initiator_step [OF inv i_rx(2) _ mono])
      show "initiator_inv cr R ii iseq ci x (rd_to_r s \<union> sent_packets r) (new_connection r)" using t by blast
      fix c
      assume "new_connection r = Some c"
      then obtain cm p h hs' where c: "initiator_of (rv_state x) = Some cm" "input = Inr (p, R)" "get_handshake p = Inr h"
        "hc_shake_type h = Conclusion" "extract_ext_info h = Inr (Some (Srt_HandshakeResponse hs'))"
        "finish_hsv5_initiation cm h R now = Inr (cn_settings c)" using t by blast
      obtain st where "committed_of (rv_state (rd_r s)) = Some st" "rdv_committed cr I ii iseq ro (rv_state (rd_i s)) st h"
        using hs [OF c(2,3)] c(4,5) by (auto simp: r_handshake_def)
      then show "\<exists>cm h' settings now. initiator_of (rv_state x) = Some cm
          \<and> committed_of (rv_state (rd_r s)) = Some settings \<and> rdv_committed cr I ii iseq ro (rv_state x) settings h'
          \<and> finish_hsv5_initiation cm h' R now = Inr (cn_settings c)"
        using c(1,6) rdv_committed_mono [OF _ mono] by blast
    qed
  next
    case (r_tick now r y)
    note t = responder_tick_inv [OF d(2) [unfolded r_tick(2)] r_tick(3)]
    show ?thesis unfolding r_tick(1) by (rule rdv_responder_step [OF inv t(1)]) (use t(2,3) in simp_all)
  next
    case (r_rx rnd input now r y)
    have net: "\<forall>p h. input = Inr (p, I) \<longrightarrow> get_handshake p = Inr h \<longrightarrow>
        i_handshake cr ii iseq ci (rv_state (rd_i s)) (rd_i_conn s \<noteq> None) h"
      "\<forall>p e. input = Inr (p, I) \<longrightarrow> get_handshake p = Inl e \<longrightarrow> rd_i_conn s \<noteq> None"
      using initiator_invD(8,9) [OF d(1)] r_rx(4) by blast+
    note t = responder_packet_inv [OF d(2) [unfolded r_rx(2)] d(6) net r_rx(5)]
    show ?thesis unfolding r_rx(1) by (rule rdv_responder_step [OF inv]) (use t in blast)+
  next
    case (i_more conn p)
    obtain g where g: "cn_handshake conn = HS_Rendezvous (Some (Ctl_Handshake g))" "i_handshake cr ii iseq ci (rv_state (rd_i s)) True g"
      using initiator_invD(10) [OF d(1) i_more(2)] by blast
    have "get_handshake p = Inr h \<Longrightarrow> h = g" for h
      using i_more(3) g(1) by (auto simp: connected_sends_def handle_handshake_def split: ShakeType.splits if_splits)
    then have "initiator_inv cr R ii iseq ci (rd_i s) (insert p (rd_to_r s)) (rd_i_conn s)"
      using d(1) g(2) i_more(2) unfolding initiator_inv_def by auto
    then show ?thesis using inv unfolding rdv_inv_def i_more(1) by simp
  next
    case (r_more conn p)
    have "cn_handshake conn = HS_Rendezvous None" using responder_invD(8) [OF d(2) r_more(2)] by blast
    then have "get_handshake p \<noteq> Inr h" for h
      using r_more(3) by (auto simp: connected_sends_def handle_handshake_def split: ShakeType.splits if_splits)
    then have "responder_inv cr I ii iseq ro cr' (rv_state (rd_i s)) (rd_r s) (insert p (rd_to_i s)) (rd_r_conn s)"
      using d(2) unfolding responder_inv_def by auto
    then show ?thesis using inv unfolding rdv_inv_def r_more(1) by simp
  }
qed

interpretation rdv: invariant_system "rdv_init I R ii iseq ro ci cr'" "rdv_step cr I R" "rdv_inv cr I R ii iseq ro ci cr'"
  for cr I R ii iseq ro ci cr'
  by unfold_locales (auto intro: rdv_init_inv rdv_step_inv)

section \<open>Agreement\<close>

lemma rdv_agreement:
  assumes cr: "crypto_laws cr" and init: "rdv_init I R ii iseq ro ci cr' s" and steps: "(rdv_step cr I R)\<^sup>*\<^sup>* s t"
    and b: "rd_r_conn t = Some b"
  shows "\<exists>a. rd_i_conn t = Some a \<and> settings_agree (cn_settings a) (cn_settings b)
    \<and> cs_init_seq_num (cn_settings a) = iseq \<and> cs_remote (cn_settings a) = R \<and> cs_remote (cn_settings b) = I
    \<and> cs_max_packet_size (cn_settings a) = cs_max_packet_size (cn_settings b)
    \<and> cs_max_flow_size (cn_settings a) = cs_max_flow_size (cn_settings b)"
proof -
  note d = rdv_invD [OF rdv.reachable_inv [OF init steps]]
  obtain a where a: "rd_i_conn t = Some a" using d(3) b by blast
  obtain cm h' st now where c: "initiator_of (rv_state (rd_i t)) = Some cm" "committed_of (rv_state (rd_r t)) = Some st"
    "rdv_committed cr I ii iseq ro (rv_state (rd_i t)) st h'" "finish_hsv5_initiation cm h' R now = Inr (cn_settings a)"
    using d(4) [OF a] by blast
  have st: "st = cn_settings b" using responder_invD(8) [OF d(2) b] c(2) by simp
  obtain h where h: "hs_request cr ii None (hc_info h) cm" "hc_socket_id h = ci_local_sockid ii" "hc_init_seq_num h = iseq"
    "hc_max_packet_size h = ci_max_packet_size ii" "hc_max_flow_size h = ci_max_flow_size ii" "accepts cr ro I h st h'"
    "hc_max_packet_size h' = ci_max_packet_size ro" "hc_max_flow_size h' = ci_max_flow_size ro"
    using c(1,3) unfolding rdv_committed_def by auto
  note agree = initiator_responder_agree [OF cr h(1,2,6) c(4)]
  show ?thesis using a agree h(3-5,7,8) unfolding st by (auto simp: min.commute max.commute)
qed

section \<open>The handshake completes\<close>

lemma rdv_answer_succeeds:
  assumes "crypto_laws cr" "hs_request cr ii sid (hc_info h) cm" "ci_key_settings (rv_init_settings y) = ci_key_settings ii"
  shows "\<exists>v' st y'. rdv_answer_request cr y h ts t now acc = Ok (CR_SendPacket (hs_packet (hc_socket_id h)
      (gen_packet y' Conclusion (HVI_V5 v')), rv_remote_public y), y')
    \<and> rv_state y' = acc st \<and> rv_remote_public y' = rv_remote_public y
    \<and> v5_ext_hs v' = Some (Srt_HandshakeResponse (handshake_offer (rv_init_settings y)))"
proof -
  obtain v where v: "hc_info h = HVI_V5 v" "v5_ext_hs v = Some (Srt_HandshakeRequest (handshake_offer ii))"
    using hs_request_fields [OF assms(2)] by metis
  obtain cipher km where c: "responder_cipher cr (rv_init_settings y) v = Ok cipher"
    "(case cipher of None \<Rightarrow> Ok None | Some c \<Rightarrow> wrap_keying_material cr c) = Ok km"
    using responder_accepts [OF assms(1) assms(2) [unfolded v(1)] assms(3)] by blast
  show ?thesis
    by (auto simp: rdv_answer_request_def gen_hsv5_response_def gen_access_control_response_def v c send_conclusion_def
        rdv_send_def transition_def hs_packet_def gen_packet_def Let_def)
qed

text \<open>Both peers wave, the responder answers with an empty conclusion and the initiator sends its request.\<close>

definition requested :: "Crypto \<Rightarrow> SocketAddr \<Rightarrow> SocketAddr \<Rightarrow> ConnInitSettings \<Rightarrow> ConnInitSettings \<Rightarrow> Packet RdvSystem \<Rightarrow> bool" where
  "requested cr I R ii ro t \<longleftrightarrow> rd_i_conn t = None \<and> rd_r_conn t = None
     \<and> rv_remote_public (rd_i t) = R \<and> rv_remote_public (rd_r t) = I \<and> rv_init_settings (rd_r t) = ro
     \<and> rv_state (rd_r t) = AttentionResponder 0
     \<and> (\<exists>hsv5 cm p h. rv_state (rd_i t) = FineInitiator hsv5 cm \<and> p \<in> rd_to_r t \<and> get_handshake p = Inr h
          \<and> hc_shake_type h = Conclusion \<and> hc_info h = hsv5 \<and> hs_request cr ii None hsv5 cm)"

text \<open>The completing run only needs that ticks and packets that have been sent are steps.\<close>

locale rdv_steps =
  fixes step :: "Packet RdvSystem \<Rightarrow> Packet RdvSystem \<Rightarrow> bool"
    and cr :: Crypto and I :: SocketAddr and R :: SocketAddr
  assumes i_ticks: "rd_i_conn s = None \<Longrightarrow> rendezvous_handle_tick (rd_i s) now = (r, x) \<Longrightarrow> step s (initiator_result s r x)"
    and i_receives: "rd_i_conn s = None \<Longrightarrow> key_random_ok rnd \<Longrightarrow> p \<in> rd_to_i s
      \<Longrightarrow> rendezvous_handle_packet cr rnd (rd_i s) (Inr (p, R)) now = Ok (r, x) \<Longrightarrow> step s (initiator_result s r x)"
    and r_receives: "rd_r_conn s = None \<Longrightarrow> key_random_ok rnd \<Longrightarrow> p \<in> rd_to_r s
      \<Longrightarrow> rendezvous_handle_packet cr rnd (rd_r s) (Inr (p, I)) now = Ok (r, y) \<Longrightarrow> step s (responder_result s r y)"
begin

lemma rdv_requested:
  assumes init: "rdv_init I R ii iseq ro ci cr' s" and cr: "crypto_laws cr" and rnd: "key_random_ok rnd"
  shows "\<exists>t. step\<^sup>*\<^sup>* s t \<and> requested cr I R ii ro t"
proof -
  obtain la lb rseq where s: "rd_i s = rendezvous_new ci la R ii iseq" "rd_r s = rendezvous_new cr' lb I ro rseq"
    "rd_i_conn s = None" "rd_r_conn s = None" and role: "rdv_role ci cr' = Some Initiator"
    using init unfolding rdv_init_def by blast
  note role' = rdv_role_opposite [OF role]
  obtain hsv5 cm where st: "start_hsv5_initiation cr rnd ii None 0 = Ok (hsv5, cm)" "hs_request cr ii None hsv5 cm"
    using start_succeeds [OF cr rnd] by blast
  note defs = rendezvous_new_def rendezvous_handle_packet_def rendezvous_dispatch_def handle_waving_def send_conclusion_def
    transition_def rdv_send_def hs_packet_def gen_packet_def Let_def
  define x1 where "x1 = (rd_i s)\<lparr>rv_last_send := Some 0\<rparr>"
  define p1 where "p1 = fst (rv_last_packet (rd_i s))"
  define s1 where "s1 = initiator_result s (CR_SendPacket (rv_last_packet (rd_i s))) x1"
  have 1: "step s s1" unfolding s1_def x1_def
    by (rule i_ticks [OF s(3), of 0]) (simp add: rendezvous_handle_tick_def)
  have f1: "rd_i s1 = x1" "p1 \<in> rd_to_r s1" "rd_r s1 = rd_r s" "rd_i_conn s1 = None" "rd_r_conn s1 = None"
    using s by (simp_all add: s1_def p1_def initiator_result_def rendezvous_new_def Let_def)
  define y0 where "y0 = (rd_r s)\<lparr>rv_starting_seqnum := iseq, rv_state := AttentionResponder 0\<rparr>"
  define p2 where "p2 = hs_packet (ci_local_sockid ii) (gen_packet y0 Conclusion empty_flags)"
  define y2 where "y2 = y0\<lparr>rv_last_packet := (p2, I)\<rparr>"
  have "rendezvous_handle_packet cr rnd (rd_r s1) (Inr (p1, I)) 0 = Ok (CR_SendPacket (p2, I), y2)"
    using role' by (simp add: f1 s p1_def p2_def y0_def y2_def defs)
  then have 2: "step s1 (responder_result s1 (CR_SendPacket (p2, I)) y2)" (is "step _ ?s2")
    by (rule r_receives [OF f1(5) rnd f1(2)])
  have f2: "rd_i ?s2 = x1" "p2 \<in> rd_to_i ?s2" "rd_r ?s2 = y2" "rd_i_conn ?s2 = None" "rd_r_conn ?s2 = None"
    using f1 by (simp_all add: responder_result_def)
  define x3' where "x3' = x1\<lparr>rv_state := FineInitiator hsv5 cm\<rparr>"
  define p3 where "p3 = hs_packet (ci_local_sockid ro) (gen_packet x3' Conclusion hsv5)"
  define x3 where "x3 = x3'\<lparr>rv_last_packet := (p3, R)\<rparr>"
  have "rendezvous_handle_packet cr rnd (rd_i ?s2) (Inr (p2, R)) 0 = Ok (CR_SendPacket (p3, R), x3)"
    using role st(1) unfolding f2
    by (simp add: s x1_def p2_def p3_def x3_def x3'_def y0_def defs extract_ext_info_def empty_flags_def hs_v5_default_def)
  then have 3: "step ?s2 (initiator_result ?s2 (CR_SendPacket (p3, R)) x3)" (is "step _ ?s3")
    by (rule i_receives [OF f2(4) rnd f2(2)])
  have p3: "get_handshake p3 = Inr (gen_packet x3' Conclusion hsv5)" by (simp add: p3_def)
  have "requested cr I R ii ro ?s3"
    unfolding requested_def
    using f2 st(2) p3
    by (auto simp: initiator_result_def x3_def x3'_def x1_def y2_def y0_def s rendezvous_new_def Let_def gen_packet_def)
  with 1 2 3 show ?thesis by (meson r_into_rtranclp rtranclp.rtrancl_into_rtrancl)
qed

lemma rdv_finish:
  assumes req: "requested cr I R ii ro s" and cr: "crypto_laws cr" and rnd: "key_random_ok rnd"
    and keys: "ci_key_settings ro = ci_key_settings ii"
  shows "\<exists>t a b. step\<^sup>*\<^sup>* s t \<and> rd_i_conn t = Some a \<and> rd_r_conn t = Some b"
proof -
  obtain hsv5 cm p3 h3 where s: "rd_i_conn s = None" "rd_r_conn s = None" "rv_remote_public (rd_i s) = R" "rv_remote_public (rd_r s) = I"
    "rv_init_settings (rd_r s) = ro" "rv_state (rd_r s) = AttentionResponder 0" "rv_state (rd_i s) = FineInitiator hsv5 cm"
    and h3: "p3 \<in> rd_to_r s" "get_handshake p3 = Inr h3" "hc_shake_type h3 = Conclusion" "hc_info h3 = hsv5"
      "hs_request cr ii None hsv5 cm"
    using req unfolding requested_def by blast
  obtain v where v: "hsv5 = HVI_V5 v" "v5_ext_hs v = Some (Srt_HandshakeRequest (handshake_offer ii))"
    using hs_request_fields [OF h3(5)] by metis
  note defs = rendezvous_handle_packet_def rendezvous_dispatch_def extract_ext_info_def
  obtain v' st' y4 where y4: "rdv_answer_request cr (rd_r s) h3 (packet_timestamp p3) 0 0 InitiatedResponder
      = Ok (CR_SendPacket (hs_packet (hc_socket_id h3) (gen_packet y4 Conclusion (HVI_V5 v')), I), y4)"
    "rv_state y4 = InitiatedResponder st'" "rv_remote_public y4 = I" "v5_ext_hs v' = Some (Srt_HandshakeResponse (handshake_offer ro))"
    using rdv_answer_succeeds [of cr ii None h3 cm "rd_r s" "packet_timestamp p3" 0 0 InitiatedResponder] cr keys h3(4,5) s by auto
  define h4 where "h4 = gen_packet y4 Conclusion (HVI_V5 v')"
  define p4 where "p4 = hs_packet (hc_socket_id h3) h4"
  have "rendezvous_handle_packet cr rnd (rd_r s) (Inr (p3, I)) 0 = Ok (CR_SendPacket (p4, I), y4)"
    using y4(1) h3 v s by (simp add: p4_def h4_def defs handle_attention_responder_def)
  then have 4: "step s (responder_result s (CR_SendPacket (p4, I)) y4)" (is "step _ ?s4")
    by (rule r_receives [OF s(2) rnd h3(1)])
  have f4: "rd_i ?s4 = rd_i s" "p4 \<in> rd_to_i ?s4" "rd_r ?s4 = y4" "rd_i_conn ?s4 = None" "rd_r_conn ?s4 = None"
    using s by (simp_all add: responder_result_def)
  obtain a where a: "finish_hsv5_initiation cm h4 R 0 = Inr a"
    using y4(4) by (simp add: finish_hsv5_initiation_def h4_def gen_packet_def Let_def)
  define g where "g = gen_packet (rd_i s) Agreement hsv5"
  define r5 where "r5 = set_connected (rd_i s) a (Some g) (Some g)"
  have h4: "hc_shake_type h4 = Conclusion" "hc_info h4 = HVI_V5 v'" by (simp_all add: h4_def gen_packet_def)
  have "rendezvous_handle_packet cr rnd (rd_i ?s4) (Inr (p4, R)) 0 = Ok (r5, rd_i s)"
    unfolding f4 using a s h4 y4(4)
    by (simp add: p4_def r5_def g_def defs handle_fine_initiator_def initiator_connected_def Let_def)
  then have 5: "step ?s4 (initiator_result ?s4 r5 (rd_i s))" (is "step _ ?s5")
    by (rule i_receives [OF f4(4) rnd f4(2)])
  define p5 where "p5 = hs_packet (cs_remote_sockid a) g"
  have f5: "p5 \<in> rd_to_r ?s5" "rd_r ?s5 = y4" "rd_i_conn ?s5 \<noteq> None" "rd_r_conn ?s5 = None"
    using f4 by (simp_all add: initiator_result_def r5_def p5_def set_connected_def hs_packet_def)
  define r6 where "r6 = set_connected y4 st' None (Some (gen_packet y4 Agreement empty_flags))"
  have "rendezvous_handle_packet cr rnd (rd_r ?s5) (Inr (p5, I)) 0 = Ok (r6, y4)"
    unfolding f5 using y4(2,3) v
    by (simp add: p5_def r6_def g_def gen_packet_def defs handle_initiated_responder_def Let_def)
  then have 6: "step ?s5 (responder_result ?s5 r6 y4)"
    by (rule r_receives [OF f5(4) rnd f5(1)])
  have "step\<^sup>*\<^sup>* s (responder_result ?s5 r6 y4)"
    using 4 5 6 by (meson r_into_rtranclp rtranclp.rtrancl_into_rtrancl)
  moreover have "rd_i_conn (responder_result ?s5 r6 y4) \<noteq> None" "rd_r_conn (responder_result ?s5 r6 y4) \<noteq> None"
    using f5(3) by (simp_all add: responder_result_def r6_def set_connected_def)
  ultimately show ?thesis by blast
qed

lemma rdv_run:
  assumes "rdv_init I R ii iseq ro ci cr' s" "crypto_laws cr" "key_random_ok rnd" "ci_key_settings ro = ci_key_settings ii"
  shows "\<exists>t a b. step\<^sup>*\<^sup>* s t \<and> rd_i_conn t = Some a \<and> rd_r_conn t = Some b"
  using rdv_requested [OF assms(1-3)] rdv_finish [OF _ assms(2-4)] by (meson rtranclp_trans)

end

interpretation rdv_packets: rdv_steps "rdv_step cr I R" cr I R for cr I R
proof unfold_locales
  fix s :: "Packet RdvSystem" and now r x
  assume "rd_i_conn s = None" "rendezvous_handle_tick (rd_i s) now = (r, x)"
  then show "rdv_step cr I R s (initiator_result s r x)" by (rule rdv_step.i_tick)
next
  fix s :: "Packet RdvSystem" and rnd p now r x
  assume "rd_i_conn s = None" "key_random_ok rnd" "p \<in> rd_to_i s"
    "rendezvous_handle_packet cr rnd (rd_i s) (Inr (p, R)) now = Ok (r, x)"
  then show "rdv_step cr I R s (initiator_result s r x)" by (intro rdv_step.i_rx) auto
next
  fix s :: "Packet RdvSystem" and rnd p now r y
  assume "rd_r_conn s = None" "key_random_ok rnd" "p \<in> rd_to_r s"
    "rendezvous_handle_packet cr rnd (rd_r s) (Inr (p, I)) now = Ok (r, y)"
  then show "rdv_step cr I R s (responder_result s r y)" by (intro rdv_step.r_rx) auto
qed

section \<open>Rejections\<close>

text \<open>The packet with which a peer rejects a request is the request with the cookie of its receiver.\<close>

lemma rdv_rejection_packet:
  assumes "rdv_answer_request cr y h ts t now acc = Ok (CR_Reject (Some (p, addr)) rj, y')"
  shows "\<exists>g. get_handshake p = Inr g \<and> hc_shake_type g = Rejection (reject_reason rj) \<and> hc_syn_cookie g = hc_syn_cookie h"
proof -
  obtain res own where "(CR_Reject (Some (p, addr)) rj, y') = (let self = y\<lparr>rv_init_settings := own\<rparr> in
       case res of
         GH_Accept hsv5 connection \<Rightarrow>
           send_conclusion (transition (self\<lparr>rv_starting_seqnum := hc_init_seq_num h\<rparr>) (acc connection)) (hc_socket_id h) hsv5
       | GH_NotHandled e \<Rightarrow> (CR_NotHandled e, self)
       | GH_Reject r \<Rightarrow> (rdv_make_rejection self h ts r, self))"
    using assms by (auto simp: rdv_answer_request_def map_outcome_ok_Ok_iff)
  then show ?thesis
    by (cases res) (auto simp: Let_def send_conclusion_def rdv_send_def rdv_make_rejection_def)
qed

lemma rdv_role_self: "rdv_role own peer = None \<longleftrightarrow> own = peer"
proof -
  have "sint (own - peer) = 0 \<longleftrightarrow> own = peer" by (metis right_minus_eq sint_0 signed_word_eqI)
  then show ?thesis by (auto simp: rdv_role_def)
qed

section \<open>Properties\<close>

definition rdv_start :: "ConnInitSettings \<Rightarrow> ConnInitSettings \<Rightarrow> 'p RdvSystem" where
  "rdv_start ii ro = \<lparr>rd_i = rendezvous_new 9 sample_addr sample_addr ii 5, rd_r = rendezvous_new 7 sample_addr sample_addr ro 3,
     rd_to_r = {}, rd_to_i = {}, rd_i_conn = None, rd_r_conn = None\<rparr>"

lemma rdv_start_init: "rdv_init sample_addr sample_addr ii 5 ro 9 7 (rdv_start ii ro)"
  unfolding rdv_init_def
  by (intro conjI exI [of _ sample_addr] exI [of _ "3 :: SeqNumber"]) (simp_all add: rdv_start_def rdv_role_def)

text \<open>C19: From every start a run of the rendezvous handshake leads to both peers being connected, provided that they
  have the same key settings or none: the wave of the initiator, two conclusions of each side and the
  agreement are enough.\<close>

theorem rendezvous_completes:
  assumes "rdv_init I R ii iseq ro ci cr' s" "crypto_laws cr" "key_random_ok rnd" "ci_key_settings ro = ci_key_settings ii"
  shows "\<exists>t a b. (rdv_step cr I R)\<^sup>*\<^sup>* s t \<and> rd_i_conn t = Some a \<and> rd_r_conn t = Some b"
  by (rule rdv_packets.rdv_run [OF assms])

theorem rendezvous_completes_witness:
  "\<exists>t a b. (rdv_step sample_crypto sample_addr sample_addr)\<^sup>*\<^sup>* (rdv_start sample_ci sample_own) t
    \<and> rd_i_conn t = Some a \<and> rd_r_conn t = Some b"
  by (rule rendezvous_completes [OF rdv_start_init sample_crypto_laws sample_random_ok]) (simp add: sample_own_def)

text \<open>C34: An initiator never learns that its request was rejected: the rejection carries the cookie of the initiator
  itself, so a waving peer takes it for a packet of its own and every later state ignores it.\<close>

theorem rendezvous_rejection_ignored:
  assumes "rdv_answer_request cr y h ts t t' acc = Ok (CR_Reject (Some (p, addr)) rj, y')"
    and "hc_syn_cookie h = rv_cookie x" "initiator_state (rv_state x)"
  shows "\<exists>r. rendezvous_handle_packet cr rnd x (Inr (p, rv_remote_public x)) now = Ok (r, x)
    \<and> r \<in> {CR_NoAction, CR_NotHandled (CookiesMatched (rv_cookie x))}"
proof -
  obtain g where g: "get_handshake p = Inr g" "hc_shake_type g = Rejection (reject_reason rj)" "hc_syn_cookie g = rv_cookie x"
    using rdv_rejection_packet [OF assms(1)] assms(2) by auto
  have role: "rdv_role (rv_cookie x) (rv_cookie x) = None" by (simp add: rdv_role_self)
  show ?thesis using assms(3) g role
    by (cases "rv_state x") (auto simp: rendezvous_handle_packet_def rendezvous_dispatch_def handle_waving_def
        handle_attention_initiator_def handle_initiated_initiator_def handle_fine_initiator_def)
qed

definition sample_request :: HandshakeControlInfo where
  "sample_request = \<lparr>hc_init_seq_num = 5, hc_max_packet_size = 1500, hc_max_flow_size = 8192, hc_shake_type = Conclusion,
     hc_socket_id = 2, hc_syn_cookie = 9, hc_peer_addr = IpV4 0,
     hc_info = HVI_V5 \<lparr>v5_key_size = KS_Unspecified, v5_ext_hs = Some (Srt_HandshakeRequest (handshake_offer sample_ci)),
       v5_ext_km = None, v5_ext_group = None, v5_sid = None\<rparr>\<rparr>"

lemma sample_rejection:
  "rdv_answer_request sample_crypto (rendezvous_new 7 sample_addr sample_addr sample_own 3) sample_request 0 0 0 FineResponder
   = Ok (CR_Reject (Some (hs_packet 2 (sample_request\<lparr>hc_shake_type := Rejection (RR_Core Core_Unsecure), hc_socket_id := 1\<rparr>),
       sample_addr)) (CRej_Rejecting (RR_Core Core_Unsecure)), rendezvous_new 7 sample_addr sample_addr sample_own 3)"
  by (simp add: rdv_answer_request_def gen_hsv5_response_def gen_access_control_response_def responder_cipher_def sample_request_def
      rendezvous_new_def sample_own_def sample_ci_def Let_def rdv_make_rejection_def hs_packet_def)

theorem rendezvous_rejection_ignored_witness:
  "\<exists>r. rendezvous_handle_packet sample_crypto sample_random (rendezvous_new 9 sample_addr sample_addr sample_ci 5)
      (Inr (hs_packet 2 (sample_request\<lparr>hc_shake_type := Rejection (RR_Core Core_Unsecure), hc_socket_id := 1\<rparr>), sample_addr)) 0
      = Ok (r, rendezvous_new 9 sample_addr sample_addr sample_ci 5) \<and> r \<in> {CR_NoAction, CR_NotHandled (CookiesMatched 9)}"
  using rendezvous_rejection_ignored [OF sample_rejection, of "rendezvous_new 9 sample_addr sample_addr sample_ci 5" sample_random 0]
  by (simp add: rendezvous_new_def sample_request_def Let_def)

end
