(* ===== verification/Handshake_Wire.thy ===== *)
theory Handshake_Wire
  imports Handshake_Agreement
begin

text \<open>
  The handshake of a caller and a listener over a network that carries bytes: a packet is serialized when it is sent
  and parsed when it arrives (\<open>srt-tokio/src/net.rs\<close>). The wire holds a latency as a 16 bit number of milliseconds
  and the packet and flow sizes as 32 bit numbers, so the two sides can agree only when their settings fit; with
  such settings the system on the wire refines the one of theory \<open>Handshake_Agreement\<close>.
\<close>

section \<open>Sockets\<close>

text \<open>\<open>PacketSocket::send\<close>: the bytes of the packets that are serialized without a panic. \<open>is_ipv6\<close> is the family of
  the local address of the socket that parses.\<close>

definition on_wire :: "Packet set \<Rightarrow> u8 list set" where
  "on_wire P = {bs. \<exists>p\<in>P. packet_serialize p = Ok bs}"

definition socket_parse :: "bool \<Rightarrow> u8 list \<Rightarrow> SocketAddr \<Rightarrow> (ReceivePacketError + Packet \<times> SocketAddr) may_panic" where
  "socket_parse is_ipv6 buffer from =
     (case packet_parse buffer is_ipv6 of
        Ok packet \<Rightarrow> Ok (Inr (packet, from))
      | Err e \<Rightarrow> Ok (Inl (RPE_Parse e))
      | Panic \<Rightarrow> Panic)"

definition from_wire :: "bool \<Rightarrow> u8 list set \<Rightarrow> Packet set" where
  "from_wire is_ipv6 N = {p. \<exists>bs\<in>N. packet_parse bs is_ipv6 = Ok p}"

lemma socket_parse_packet:
  "socket_parse v6 bs addr = Ok (Inr (p, addr')) \<longleftrightarrow> packet_parse bs v6 = Ok p \<and> addr' = addr"
  by (auto simp: socket_parse_def split: outcome.splits)

lemma from_wire_union: "from_wire v6 (M \<union> N) = from_wire v6 M \<union> from_wire v6 N" "from_wire v6 {} = {}"
  by (auto simp: from_wire_def)

lemma from_wire_on_wire:
  assumes "\<forall>p\<in>P. packet_wf v6 p"
  shows "from_wire v6 (on_wire P) = P"
proof
  show "from_wire v6 (on_wire P) \<subseteq> P"
    using packet_wf_roundtrip assms unfolding from_wire_def on_wire_def
    by clarsimp (metis outcome.inject(1))
  show "P \<subseteq> from_wire v6 (on_wire P)"
    using packet_wf_roundtrip assms unfolding from_wire_def on_wire_def by blast
qed

section \<open>The system on the wire\<close>

definition caller_wire_result :: "u8 list CallSystem \<Rightarrow> ConnectionResult \<Rightarrow> Connect \<Rightarrow> u8 list CallSystem" where
  "caller_wire_result s r c = s\<lparr>sy_caller := c, sy_to_listener := sy_to_listener s \<union> on_wire (sent_packets r),
     sy_caller_conn := new_connection r\<rparr>"

definition listener_wire_result :: "u8 list CallSystem \<Rightarrow> ConnectionResult \<Rightarrow> Listen \<Rightarrow> u8 list CallSystem" where
  "listener_wire_result s r l = s\<lparr>sy_listener := l, sy_to_caller := sy_to_caller s \<union> on_wire (sent_packets r),
     sy_listener_conn := new_connection r\<rparr>"

text \<open>The steps are those of \<^const>\<open>call_step\<close>, with datagrams instead of packets. The caller receives any bytes of
  any host, except that those of the address \<open>B\<close> are bytes that the listener has sent; the listener receives the bytes
  of the caller, and errors. A rejection by the application has a code that its constructor allows
  (\<^const>\<open>reject_wf\<close>).\<close>

inductive call_wire_step ::
  "Crypto \<Rightarrow> bool \<Rightarrow> SocketAddr \<Rightarrow> SocketAddr \<Rightarrow> u8 list CallSystem \<Rightarrow> u8 list CallSystem \<Rightarrow> bool" for cr v6 A B where
  caller_tick: "sy_caller_conn s = None \<Longrightarrow> connect_handle_tick (sy_caller s) now = (r, c)
    \<Longrightarrow> call_wire_step cr v6 A B s (caller_wire_result s r c)"
| caller_rx: "sy_caller_conn s = None \<Longrightarrow> key_random_ok rnd \<Longrightarrow> (addr = B \<Longrightarrow> bs \<in> sy_to_caller s)
    \<Longrightarrow> socket_parse v6 bs addr = Ok input \<Longrightarrow> connect_handle_packet cr rnd (sy_caller s) input now = Ok (r, c)
    \<Longrightarrow> call_wire_step cr v6 A B s (caller_wire_result s r c)"
| caller_error: "sy_caller_conn s = None \<Longrightarrow> connect_handle_packet cr rnd (sy_caller s) (Inl e) now = Ok (r, c)
    \<Longrightarrow> call_wire_step cr v6 A B s (caller_wire_result s r c)"
| listener_rx: "sy_listener_conn s = None \<Longrightarrow> bs \<in> sy_to_listener s
    \<Longrightarrow> socket_parse v6 bs A = Ok input \<Longrightarrow> listen_handle_packet cr cookie (sy_listener s) now input = Ok (r, l)
    \<Longrightarrow> call_wire_step cr v6 A B s (listener_wire_result s r l)"
| listener_error: "sy_listener_conn s = None \<Longrightarrow> listen_handle_packet cr cookie (sy_listener s) now (Inl e) = Ok (r, l)
    \<Longrightarrow> call_wire_step cr v6 A B s (listener_wire_result s r l)"
| listener_access: "sy_listener_conn s = None \<Longrightarrow> (\<And>rr. response = ACR_Rejected rr \<Longrightarrow> reject_wf rr)
    \<Longrightarrow> listen_handle_access_control_response cr (sy_listener s) now response = Ok (r, l)
    \<Longrightarrow> call_wire_step cr v6 A B s (listener_wire_result s r l)"
| listener_again: "sy_listener_conn s = Some conn \<Longrightarrow> handle_handshake (cn_handshake conn) shake = Some control
    \<Longrightarrow> call_wire_step cr v6 A B s (s\<lparr>sy_to_caller := sy_to_caller s \<union> on_wire
      {Pkt_Control \<lparr>cp_timestamp = timestamp, cp_dest_sockid = dest, cp_control_type = control\<rparr>}\<rparr>)"

text \<open>Settings that fit the wire: whole milliseconds below 2^16 and sizes below 2^32. Of the caller also the
  first sequence number, the stream id and its local address, which is of the family of the sockets.\<close>

definition settings_fit :: "ConnInitSettings \<Rightarrow> bool" where
  "settings_fit s \<longleftrightarrow> ci_send_latency s mod 1000000 = 0 \<and> ci_send_latency s < 65536 * 1000000
     \<and> ci_recv_latency s mod 1000000 = 0 \<and> ci_recv_latency s < 65536 * 1000000
     \<and> unat (ci_max_packet_size s) < 2 ^ 32 \<and> unat (ci_max_flow_size s) < 2 ^ 32"

definition address_fits :: "bool \<Rightarrow> IpAddr \<Rightarrow> bool" where
  "address_fits v6 a \<longleftrightarrow> (case a of IpV4 _ \<Rightarrow> \<not> v6 | IpV6 octets \<Rightarrow> v6 \<and> length octets = 16)"

definition caller_fits :: "bool \<Rightarrow> Connect \<Rightarrow> bool" where
  "caller_fits v6 c \<longleftrightarrow> settings_fit (co_init_settings c) \<and> seq_valid (co_starting_send_seqnum c)
     \<and> address_fits v6 (co_local_addr c) \<and> pred_option (\<lambda>s. ext_wf (Srt_StreamId s)) (co_streamid c)"

section \<open>Handshakes that fit the wire\<close>

lemma packet_wf_handshake: "get_handshake p = Inr h \<Longrightarrow> packet_wf v6 p \<longleftrightarrow> handshake_wf v6 h"
  by (cases p) (auto split: ControlTypes.splits)

lemma handshake_wf_packet [simp]:
  "packet_wf v6 (Pkt_Control \<lparr>cp_timestamp = ts, cp_dest_sockid = dest, cp_control_type = Ctl_Handshake h\<rparr>) \<longleftrightarrow> handshake_wf v6 h"
  by simp

lemma offer_wf: "settings_fit s \<Longrightarrow> srt_handshake_wf (handshake_offer s)"
  by (simp add: settings_fit_def srt_handshake_wf_def handshake_offer_def SSF_SUPPORTED_def shake_flags_truncate_def
      SSF_TSBPDSND_def SSF_TSBPDRCV_def SSF_HAICRYPT_def SSF_TLPKTDROP_def SSF_NAKREPORT_def SSF_REXMITFLG_def SSF_STREAM_def
      SSF_PACKET_FILTER_def)

lemma settings_fit_keys [simp]: "settings_fit (s\<lparr>ci_key_settings := ks\<rparr>) = settings_fit s"
  by (simp add: settings_fit_def)

lemma key_option_length:
  "pred_option (key_fits ks) k \<Longrightarrow> length (key_option_bytes k) = (if k = None then 0 else key_size_as_usize (ks_key_size ks))"
  by (cases k) (auto simp: key_option_bytes_def key_fits_def)

lemma wrapped_length:
  assumes "crypto_laws cr" "encrypt_wrapped_keys cr kek keys = Ok out" "length keys mod 8 = 0" "16 \<le> length keys"
  shows "length out = length keys + 8"
  using wrapped_keys_roundtrip [OF assms(1,3,4), of kek] assms(2) by auto

lemma wrap_wf:
  assumes cr: "crypto_laws cr" and wf: "stream_keys_wf ks sk" and km: "wrap_with cr sk ks = Ok (Some km)"
  shows "km_wf km"
proof -
  let ?n = "key_size_as_usize (ks_key_size ks)"
  let ?keys = "key_option_bytes (sk_even_key sk) @ key_option_bytes (sk_odd_key sk)"
  have n: "?n \<in> {16, 24, 32}" by (rule key_size_cases)
  have len: "length ?keys = (if sk_even_key sk = None then 0 else ?n) + (if sk_odd_key sk = None then 0 else ?n)"
    using wf key_option_length by (auto simp: stream_keys_wf_def)
  obtain out where out: "encrypt_wrapped_keys cr (kek_new cr ks (sk_salt sk)) ?keys = Ok out"
    using km by (auto simp: wrap_with_def Let_def map_outcome_ok_Ok_iff)
  have some: "sk_even_key sk \<noteq> None \<or> sk_odd_key sk \<noteq> None"
    using km by (auto simp: wrap_with_def Let_def map_outcome_ok_Ok_iff split: option.splits)
  have "length out = length ?keys + 8"
    by (rule wrapped_length [OF cr out]) (use n len some in auto)
  then show ?thesis
    using km out len n wf
    by (auto simp: wrap_with_def Let_def map_outcome_ok_Ok_iff km_wf_def stream_keys_wf_def KeyFlags_EVEN_def
        KeyFlags_ODD_def count_ones_flags split: option.splits)
qed

lemma unwrap_key_fits:
  assumes "unwrap_key b bytes = Ok k" "length bytes = key_size_as_usize (ks_key_size ks)"
  shows "pred_option (key_fits ks) k"
  using assms by (auto simp: unwrap_key_def encryption_key_try_from_def key_fits_def split: if_splits option.splits)

lemma unwrap_wf:
  assumes "unwrap_from cr ks km = Ok sk"
  shows "stream_keys_wf ks sk"
proof -
  let ?n = "key_size_as_usize (ks_key_size ks)"
  obtain keys e od where k: "length (km_salt km) = 16" "\<not> (length keys < ?n \<and> flags_contain (km_key_flags km) KeyFlags_EVEN)"
    "\<not> (length keys < ?n \<and> flags_contain (km_key_flags km) KeyFlags_ODD)"
    "unwrap_key (flags_contain (km_key_flags km) KeyFlags_EVEN) (take ?n keys) = Ok e"
    "unwrap_key (flags_contain (km_key_flags km) KeyFlags_ODD) (drop (length keys - ?n) keys) = Ok od"
    "sk = \<lparr>sk_salt = km_salt km, sk_even_key = e, sk_odd_key = od\<rparr>"
    using assms by (auto simp: unwrap_from_def salt_try_from_def Let_def ek_len_kek_new bind_outcome_Ok_iff
        split: if_splits outcome.splits)
  have "pred_option (key_fits ks) e"
    using k(2,4) unwrap_key_fits [OF k(4)] by (cases "length keys < ?n") (auto simp: unwrap_key_def)
  moreover have "pred_option (key_fits ks) od"
    using k(3,5) unwrap_key_fits [OF k(5)] by (cases "length keys < ?n") (auto simp: unwrap_key_def)
  ultimately show ?thesis using k(1,6) by (simp add: stream_keys_wf_def)
qed

lemma request_wf:
  assumes "crypto_laws cr" "key_random_ok rnd" "settings_fit s" "pred_option (\<lambda>s. ext_wf (Srt_StreamId s)) sid"
    and start: "start_hsv5_initiation cr rnd s sid now = Ok (info, cm)" and "shake \<noteq> Induction"
  shows "info_wf shake info"
proof -
  let ?sk = "\<lambda>ks. stream_keys_new_random (rn_salt rnd) (rn_even rnd) (rn_odd rnd) (ks_key_size ks)"
  have "km_wf km" if "wrap_with cr (?sk ks) ks = Ok (Some km)" for ks km
    by (rule wrap_wf [OF assms(1) new_random_wf [OF assms(2)] that])
  then show ?thesis
    using start assms(4,6) offer_wf [OF assms(3)]
    by (auto simp: start_hsv5_initiation_def Let_def bind_outcome_Ok_iff v5_wf_def ext_wf_def wrap_keying_material_def
        cipher_settings_new_random_def pred_option_def split: option.splits)
qed

lemma responder_cipher_wf:
  assumes "responder_cipher cr own v = Ok (Some c)"
  shows "stream_keys_wf (cs_key_settings c) (cs_stream_keys c)"
  using assms unwrap_wf
  by (auto simp: responder_cipher_def cipher_settings_new_def map_outcome_ok_Ok_iff
      split: option.splits SrtControlPacket.splits if_splits outcome.splits)

lemma response_wf:
  assumes "crypto_laws cr" "settings_fit own" "hc_info h = HVI_V5 v" "pred_option (\<lambda>s. ext_wf (Srt_StreamId s)) (v5_sid v)"
    and gen: "gen_access_control_response cr now own from t h v ks = Ok (GH_Accept info cs, own')" and "shake \<noteq> Induction"
  shows "info_wf shake info"
proof -
  define own2 where "own2 = (case ks of Some k \<Rightarrow> own\<lparr>ci_key_settings := Some k\<rparr> | None \<Rightarrow> own)"
  obtain cipher km where c: "responder_cipher cr own2 v = Ok cipher"
    "(case cipher of None \<Rightarrow> Ok None | Some c \<Rightarrow> wrap_keying_material cr c) = Ok km"
    "info = HVI_V5 \<lparr>v5_key_size = cipher_key_size (map_option cs_key_settings cipher),
       v5_ext_hs = Some (Srt_HandshakeResponse (handshake_offer own2)), v5_ext_km = map_option Srt_KeyRefreshResponse km,
       v5_ext_group = None, v5_sid = v5_sid v\<rparr>"
    using gen assms(3) unfolding gen_access_control_response_def own2_def [symmetric] Let_def
    by (auto simp: bind_outcome_Ok_iff split: option.splits SrtControlPacket.splits outcome.splits)
  have "km_wf x" if "km = Some x" for x
    using c(1,2) that wrap_wf [OF assms(1) responder_cipher_wf]
    by (cases cipher) (auto simp: wrap_keying_material_def)
  moreover have "settings_fit own2" using assms(2) by (auto simp: own2_def split: option.splits)
  ultimately show ?thesis
    using c(3) assms(4,6) offer_wf [of own2] by (auto simp: v5_wf_def ext_wf_def pred_option_def)
qed

lemma gen_response_settings:
  assumes "gen_access_control_response cr now own from t h v ks = Ok (res, own')"
  shows "settings_fit own' = settings_fit own" "res = GH_Reject rj \<Longrightarrow> shake_wf (Rejection (reject_reason rj))"
  using assms unfolding gen_access_control_response_def Let_def
  by (auto simp: bind_outcome_Ok_iff split: option.splits SrtControlPacket.splits outcome.splits)

section \<open>The handlers keep to the wire format\<close>

definition connect_wf :: "bool \<Rightarrow> SocketAddr \<Rightarrow> Connect \<Rightarrow> bool" where
  "connect_wf v6 B c \<longleftrightarrow> caller_fits v6 c \<and> co_remote c = B
     \<and> (\<forall>q cm. co_state c = InductionResponseWait q \<or> co_state c = ConclusionResponseWait q cm \<longrightarrow> packet_wf v6 q)"

definition listen_wf :: "bool \<Rightarrow> Listen \<Rightarrow> bool" where
  "listen_wf v6 l \<longleftrightarrow> settings_fit (li_init_settings l)
     \<and> (\<forall>st. li_state l = ConclusionWait st \<longrightarrow> packet_wf v6 (cw_induction_response st))
     \<and> (\<forall>st ts h v. li_state l = AccessControlRequested st ts h v \<longrightarrow>
          handshake_wf v6 h \<and> hc_shake_type h = Conclusion \<and> hc_info h = HVI_V5 v)"

lemma handshake_wf_echo:
  assumes "handshake_wf v6 h" "shake_wf shake" "info_wf shake info" "seq_valid n"
  shows "handshake_wf v6 (h\<lparr>hc_shake_type := shake, hc_socket_id := i, hc_info := info, hc_init_seq_num := n\<rparr>)"
  using assms by (auto simp: handshake_wf_def)

lemma connect_tick_wf:
  assumes "connect_wf v6 B c" "connect_handle_tick c now = (r, c')"
  shows "connect_wf v6 B c'" "\<forall>p\<in>sent_packets r. packet_wf v6 p"
  using assms
  by (auto simp: connect_wf_def connect_handle_tick_def connect_on_start_def Let_def caller_fits_def settings_fit_def
      handshake_wf_def address_fits_def split: ConnectState.splits)

lemma connect_packet_wf:
  assumes wf: "connect_wf v6 B c" and cr: "crypto_laws cr" and rnd: "key_random_ok rnd"
    and net: "\<And>p. input = Inr (p, B) \<Longrightarrow> packet_wf v6 p" and step: "connect_handle_packet cr rnd c input now = Ok (r, c')"
  shows "connect_wf v6 B c' \<and> (\<forall>p\<in>sent_packets r. packet_wf v6 p)"
  using connect_packet_cases [OF step]
proof (elim disjE exE conjE)
  fix q p h packet cm hsv5
  assume i: "input = Inr (p, co_remote c)" "get_handshake p = Inr h"
    and start: "start_hsv5_initiation cr rnd (co_init_settings c) (co_streamid c) now = Ok (hsv5, cm)"
    and c': "c' = c\<lparr>co_state := ConclusionResponseWait packet cm\<rparr>" "sent_packets r = {packet}"
    and packet: "get_handshake packet = Inr (h\<lparr>hc_shake_type := Conclusion, hc_socket_id := ci_local_sockid (co_init_settings c),
      hc_info := hsv5, hc_init_seq_num := co_starting_send_seqnum c\<rparr>)"
  have f: "settings_fit (co_init_settings c)" "pred_option (\<lambda>s. ext_wf (Srt_StreamId s)) (co_streamid c)"
    "seq_valid (co_starting_send_seqnum c)" "co_remote c = B"
    using wf by (auto simp: connect_wf_def caller_fits_def)
  have h: "handshake_wf v6 h" using net i f(4) packet_wf_handshake [OF i(2), of v6] by simp
  have "packet_wf v6 packet"
    unfolding packet_wf_handshake [OF packet]
    by (rule handshake_wf_echo [OF h _ request_wf [OF cr rnd f(1,2) start] f(3)]) simp_all
  then show ?thesis using wf c' by (auto simp: connect_wf_def caller_fits_def)
qed (use wf in auto)

definition answers_wf :: "bool \<Rightarrow> Connection option \<Rightarrow> bool" where
  "answers_wf v6 c \<longleftrightarrow> (\<forall>conn shake control. c = Some conn \<longrightarrow> handle_handshake (cn_handshake conn) shake = Some control
     \<longrightarrow> control_wf v6 control)"

lemma make_rejection_wf:
  assumes "handshake_wf v6 h" "hc_shake_type h = Conclusion" "shake_wf (Rejection (reject_reason rj))"
    and "listen_make_rejection l h from ts rj = (r, l')" "settings_fit (li_init_settings l)"
  shows "listen_wf v6 l' \<and> (\<forall>p\<in>sent_packets r. packet_wf v6 p) \<and> answers_wf v6 (new_connection r)"
proof -
  have "info_wf (Rejection (reject_reason rj)) (hc_info h)"
    using assms(1,2) by (cases "hc_info h") (auto simp: handshake_wf_def v5_wf_def)
  then show ?thesis
    using assms by (auto simp: listen_make_rejection_def listen_wf_def answers_wf_def handshake_wf_def)
qed

lemma accept_connection_wf:
  assumes wf: "listen_wf v6 l" and h: "handshake_wf v6 h" "hc_shake_type h = Conclusion" "hc_info h = HVI_V5 v"
    and cr: "crypto_laws cr" and acc: "accept_connection cr l now st ts h v ks = Ok (r, l')"
  shows "listen_wf v6 l' \<and> (\<forall>p\<in>sent_packets r. packet_wf v6 p) \<and> answers_wf v6 (new_connection r)"
proof -
  obtain res own' where g: "gen_access_control_response cr now (li_init_settings l) (cw_from st) (cw_induction_time st) h v ks
      = Ok (res, own')"
    and res: "(r, l') = (let self = l\<lparr>li_init_settings := own'\<rparr> in
       case res of
         GH_NotHandled e \<Rightarrow> (CR_NotHandled e, self)
       | GH_Reject r \<Rightarrow> listen_make_rejection self h (cw_from st) ts r
       | GH_Accept hsv5 connection_settings \<Rightarrow>
           let resp_handshake = accept_response self st ts h hsv5 in
           (CR_Connected (Some (Pkt_Control resp_handshake, cw_from st))
              \<lparr>cn_settings = connection_settings, cn_handshake = HS_Listener (cp_control_type resp_handshake)\<rparr>, self))"
    using acc by (auto simp: accept_connection_def map_outcome_ok_Ok_iff)
  have fit: "settings_fit (li_init_settings l)" using wf by (simp add: listen_wf_def)
  note own = gen_response_settings [OF g]
  have wf': "listen_wf v6 (l\<lparr>li_init_settings := own'\<rparr>)" using wf own(1) by (simp add: listen_wf_def)
  show ?thesis
  proof (cases res)
    case (GH_NotHandled e)
    then show ?thesis using res wf' by (auto simp: Let_def answers_wf_def)
  next
    case (GH_Reject rj)
    then have "listen_make_rejection (l\<lparr>li_init_settings := own'\<rparr>) h (cw_from st) ts rj = (r, l')"
      using res by (simp add: Let_def)
    then show ?thesis
      by (rule make_rejection_wf [OF h(1,2) own(2) [OF GH_Reject]]) (use fit own(1) in simp)
  next
    case (GH_Accept info cs)
    have "pred_option (\<lambda>s. ext_wf (Srt_StreamId s)) (v5_sid v)"
      using h by (auto simp: handshake_wf_def v5_wf_def)
    then have "info_wf Conclusion info"
      using response_wf [OF cr fit h(3)] g GH_Accept by simp
    then have "handshake_wf v6 (h\<lparr>hc_syn_cookie := cw_cookie st, hc_socket_id := ci_local_sockid own', hc_info := info,
      hc_shake_type := Conclusion\<rparr>)" using h(1) by (auto simp: handshake_wf_def)
    then show ?thesis
      using res wf' GH_Accept by (auto simp: Let_def accept_response_def answers_wf_def handle_handshake_def)
  qed
qed

lemma listen_packet_wf:
  assumes wf: "listen_wf v6 l" and cr: "crypto_laws cr"
    and net: "\<And>p addr. input = Inr (p, addr) \<Longrightarrow> packet_wf v6 p" and step: "listen_handle_packet cr cookie l now input = Ok (r, l')"
  shows "listen_wf v6 l' \<and> (\<forall>p\<in>sent_packets r. packet_wf v6 p) \<and> answers_wf v6 (new_connection r)"
proof -
  have h: "handshake_wf v6 h" if "input = Inr (p, addr)" "get_handshake p = Inr h" for p addr h
    using net [OF that(1)] packet_wf_handshake [OF that(2)] by simp
  show ?thesis
    using listen_packet_cases [OF step]
  proof (elim disjE exE conjE)
    fix p addr h q
    assume i: "input = Inr (p, addr)" "get_handshake p = Inr h" "hc_shake_type h = Induction"
      and l': "l' = l\<lparr>li_state := ConclusionWait \<lparr>cw_from = addr, cw_cookie = cookie, cw_induction_response = q,
        cw_induction_time = now\<rparr>\<rparr>" "sent_packets r = {q}" "new_connection r = None"
      and q: "get_handshake q = Inr (h\<lparr>hc_syn_cookie := cookie, hc_socket_id := ci_local_sockid (li_init_settings l),
        hc_info := HVI_V5 hs_v5_default\<rparr>)"
    have "packet_wf v6 q"
      unfolding packet_wf_handshake [OF q] using h [OF i(1,2)] i(3) by (auto simp: handshake_wf_def v5_wf_def)
    then show ?thesis using wf l' by (auto simp: listen_wf_def answers_wf_def)
  next
    fix st p addr v ts ks and h :: HandshakeControlInfo
    assume "input = Inr (p, addr)" "get_handshake p = Inr h" "hc_shake_type h = Conclusion" "hc_info h = HVI_V5 v"
      and acc: "accept_connection cr l now st ts h v ks = Ok (r, l')"
    then show ?thesis using accept_connection_wf [OF wf h _ _ cr acc] by blast
  qed (use wf h in \<open>auto simp: listen_wf_def answers_wf_def\<close>)
qed

lemma listen_access_wf:
  assumes wf: "listen_wf v6 l" and cr: "crypto_laws cr" and rr: "\<And>rr. response = ACR_Rejected rr \<Longrightarrow> reject_wf rr"
    and step: "listen_handle_access_control_response cr l now response = Ok (r, l')"
  shows "listen_wf v6 l' \<and> (\<forall>p\<in>sent_packets r. packet_wf v6 p) \<and> answers_wf v6 (new_connection r)"
proof (cases "\<exists>st ts h v. li_state l = AccessControlRequested st ts h v")
  case False
  then show ?thesis using step wf
    by (auto simp: listen_handle_access_control_response_def answers_wf_def split: ListenState.splits)
next
  case True
  then obtain st ts h v where s: "li_state l = AccessControlRequested st ts h v" by blast
  then have h: "handshake_wf v6 h" "hc_shake_type h = Conclusion" "hc_info h = HVI_V5 v" "settings_fit (li_init_settings l)"
    using wf by (auto simp: listen_wf_def)
  show ?thesis
  proof (cases response)
    case (ACR_Accepted ks)
    then show ?thesis
      using step s accept_connection_wf [OF wf h(1-3) cr] by (simp add: listen_handle_access_control_response_def)
  next
    case (ACR_Rejected x)
    then have m: "listen_make_rejection l h (cw_from st) ts (CRej_Rejecting x) = (r, l')"
      using step s by (simp add: listen_handle_access_control_response_def)
    show ?thesis by (rule make_rejection_wf [OF h(1,2) _ m h(4)]) (use rr [OF ACR_Rejected] in simp)
  next
    case ACR_Dropped
    then have m: "listen_make_rejection l h (cw_from st) ts (CRej_Rejecting (RR_Core Core_Peer)) = (r, l')"
      using step s by (simp add: listen_handle_access_control_response_def)
    show ?thesis by (rule make_rejection_wf [OF h(1,2) _ m h(4)]) simp
  qed
qed

section \<open>The wire refines the packets\<close>

text \<open>What the receivers can parse from the bytes in the network.\<close>

definition call_view :: "bool \<Rightarrow> u8 list CallSystem \<Rightarrow> Packet CallSystem" where
  "call_view v6 s = \<lparr>sy_caller = sy_caller s, sy_listener = sy_listener s, sy_to_listener = from_wire v6 (sy_to_listener s),
     sy_to_caller = from_wire v6 (sy_to_caller s), sy_caller_conn = sy_caller_conn s, sy_listener_conn = sy_listener_conn s\<rparr>"

lemma call_view_simps [simp]:
  "sy_caller (call_view v6 s) = sy_caller s" "sy_listener (call_view v6 s) = sy_listener s"
  "sy_to_listener (call_view v6 s) = from_wire v6 (sy_to_listener s)" "sy_to_caller (call_view v6 s) = from_wire v6 (sy_to_caller s)"
  "sy_caller_conn (call_view v6 s) = sy_caller_conn s" "sy_listener_conn (call_view v6 s) = sy_listener_conn s"
  by (simp_all add: call_view_def)

definition call_wire_inv :: "bool \<Rightarrow> SocketAddr \<Rightarrow> u8 list CallSystem \<Rightarrow> bool" where
  "call_wire_inv v6 B s \<longleftrightarrow> connect_wf v6 B (sy_caller s) \<and> listen_wf v6 (sy_listener s)
     \<and> (\<forall>p\<in>from_wire v6 (sy_to_listener s). packet_wf v6 p) \<and> (\<forall>p\<in>from_wire v6 (sy_to_caller s). packet_wf v6 p)
     \<and> answers_wf v6 (sy_listener_conn s)"

lemma caller_wire_step:
  assumes "call_wire_inv v6 B s" "connect_wf v6 B c" "\<forall>p\<in>sent_packets r. packet_wf v6 p"
  shows "call_wire_inv v6 B (caller_wire_result s r c)"
    "call_view v6 (caller_wire_result s r c) = caller_result (call_view v6 s) r c"
  using assms from_wire_on_wire [OF assms(3)]
  by (auto simp: call_wire_inv_def caller_wire_result_def caller_result_def call_view_def from_wire_union)

lemma listener_wire_step:
  assumes "call_wire_inv v6 B s" "listen_wf v6 l \<and> (\<forall>p\<in>sent_packets r. packet_wf v6 p) \<and> answers_wf v6 (new_connection r)"
  shows "call_wire_inv v6 B (listener_wire_result s r l)"
    "call_view v6 (listener_wire_result s r l) = listener_result (call_view v6 s) r l"
  using assms from_wire_on_wire [of "sent_packets r" v6]
  by (auto simp: call_wire_inv_def listener_wire_result_def listener_result_def call_view_def from_wire_union)

lemma call_wire_refines:
  assumes inv: "call_wire_inv v6 B s" and cr: "crypto_laws cr" and step: "call_wire_step cr v6 A B s t"
  shows "call_wire_inv v6 B t \<and> call_step cr A B (call_view v6 s) (call_view v6 t)"
  using step
proof cases
  case (caller_tick now r c)
  have "connect_wf v6 B (sy_caller s)" using inv by (simp add: call_wire_inv_def)
  note w = caller_wire_step [OF inv connect_tick_wf [OF this caller_tick(3)]]
  show ?thesis unfolding caller_tick(1) w(2)
    by (intro conjI w(1) call_step.caller_tick) (use caller_tick in auto)
next
  case (caller_rx rnd addr bs input now r c)
  have net: "p \<in> from_wire v6 (sy_to_caller s)" if "input = Inr (p, B)" for p
    using that caller_rx(4,5) by (auto simp: socket_parse_packet from_wire_def)
  have "connect_wf v6 B c \<and> (\<forall>p\<in>sent_packets r. packet_wf v6 p)"
    by (rule connect_packet_wf [OF _ cr caller_rx(3) _ caller_rx(6)]) (use inv net in \<open>auto simp: call_wire_inv_def\<close>)
  note w = caller_wire_step [OF inv this [THEN conjunct1] this [THEN conjunct2]]
  show ?thesis unfolding caller_rx(1) w(2)
    by (intro conjI w(1) call_step.caller_rx [OF _ caller_rx(3)]) (use caller_rx net in auto)
next
  case (caller_error rnd e now r c)
  have c: "c = sy_caller s" "sent_packets r = {}"
    using connect_packet_cases [OF caller_error(3)] by auto
  note w = caller_wire_step [OF inv, of c r]
  have "call_step cr A B (call_view v6 s) (caller_result (call_view v6 s) r c)"
    by (rule call_step.caller_rx [where input = "Inl e" and rnd = sample_random and now = now])
      (use caller_error sample_random_ok in \<open>auto simp: connect_handle_packet_def split: ReceivePacketError.splits PacketParseError.splits\<close>)
  then show ?thesis using w inv c by (simp add: caller_error(1) call_wire_inv_def)
next
  case (listener_rx bs input cookie now r l)
  have net: "addr = A \<and> p \<in> from_wire v6 (sy_to_listener s)" if "input = Inr (p, addr)" for p addr
    using that listener_rx(3,4) by (auto simp: socket_parse_packet from_wire_def)
  have "listen_wf v6 l \<and> (\<forall>p\<in>sent_packets r. packet_wf v6 p) \<and> answers_wf v6 (new_connection r)"
    by (rule listen_packet_wf [OF _ cr _ listener_rx(5)]) (use inv net in \<open>auto simp: call_wire_inv_def\<close>)
  note w = listener_wire_step [OF inv this]
  show ?thesis unfolding listener_rx(1) w(2)
    by (intro conjI w(1) call_step.listener_rx) (use listener_rx net in auto)
next
  case (listener_error cookie now e r l)
  have "listen_wf v6 l \<and> (\<forall>p\<in>sent_packets r. packet_wf v6 p) \<and> answers_wf v6 (new_connection r)"
    by (rule listen_packet_wf [OF _ cr _ listener_error(3)]) (use inv in \<open>auto simp: call_wire_inv_def\<close>)
  note w = listener_wire_step [OF inv this]
  show ?thesis unfolding listener_error(1) w(2)
    by (intro conjI w(1) call_step.listener_rx [where input = "Inl e"]) (use listener_error in auto)
next
  case (listener_access response now r l)
  have "listen_wf v6 l \<and> (\<forall>p\<in>sent_packets r. packet_wf v6 p) \<and> answers_wf v6 (new_connection r)"
    by (rule listen_access_wf [OF _ cr listener_access(3,4)]) (use inv in \<open>auto simp: call_wire_inv_def\<close>)
  note w = listener_wire_step [OF inv this]
  show ?thesis unfolding listener_access(1) w(2)
    by (intro conjI w(1) call_step.listener_access) (use listener_access in auto)
next
  case (listener_again conn shake control timestamp dest)
  let ?p = "Pkt_Control \<lparr>cp_timestamp = timestamp, cp_dest_sockid = dest, cp_control_type = control\<rparr>"
  have p: "packet_wf v6 ?p"
    using inv listener_again(2,3) by (auto simp: call_wire_inv_def answers_wf_def)
  then have net: "from_wire v6 (sy_to_caller s \<union> on_wire {?p}) = insert ?p (from_wire v6 (sy_to_caller s))"
    using from_wire_on_wire [of "{?p}"] by (simp add: from_wire_union)
  have "call_view v6 t = (call_view v6 s)\<lparr>sy_to_caller := insert ?p (sy_to_caller (call_view v6 s))\<rparr>"
    by (simp add: listener_again(1) call_view_def net)
  moreover have "call_wire_inv v6 B t"
    using inv p unfolding listener_again(1) call_wire_inv_def by (simp add: net)
  moreover have "call_step cr A B (call_view v6 s)
      ((call_view v6 s)\<lparr>sy_to_caller := insert ?p (sy_to_caller (call_view v6 s))\<rparr>)"
    by (rule call_step.listener_again [OF _ listener_again(3)]) (simp add: listener_again(2))
  ultimately show ?thesis by simp
qed

definition call_wire_start :: "Crypto \<Rightarrow> bool \<Rightarrow> SocketAddr \<Rightarrow> u8 list CallSystem \<Rightarrow> bool" where
  "call_wire_start cr v6 B s \<longleftrightarrow> crypto_laws cr \<and> call_wire_inv v6 B s"

interpretation call_wire: refinement_system "call_wire_start cr v6 B" "call_wire_step cr v6 A B" "call_wire_start cr v6 B"
  "call_view v6" "call_step cr A B" for cr v6 A B
  by unfold_locales (use call_wire_refines [of v6 B _ cr A] in \<open>auto simp: call_wire_start_def\<close>)

lemma call_wire_init:
  assumes "call_init B ci sid iseq own s" "caller_fits v6 (sy_caller s)" "settings_fit own"
  shows "call_wire_inv v6 B s" "call_init B ci sid iseq own (call_view v6 s)"
  using assms
  by (auto simp: call_init_def call_wire_inv_def connect_wf_def connect_new_def listen_wf_def listen_new_def answers_wf_def
      from_wire_union)

text \<open>Every step between views that the packets allow can be made on the wire.\<close>

definition call_wire_lift :: "Crypto \<Rightarrow> bool \<Rightarrow> SocketAddr \<Rightarrow> SocketAddr \<Rightarrow> Packet CallSystem \<Rightarrow> Packet CallSystem \<Rightarrow> bool" where
  "call_wire_lift cr v6 A B p q \<longleftrightarrow>
     (\<forall>s. call_wire_start cr v6 B s \<longrightarrow> call_view v6 s = p \<longrightarrow> (\<exists>t. call_wire_step cr v6 A B s t \<and> call_view v6 t = q))"

lemma call_wire_lift_steps:
  assumes "(call_wire_lift cr v6 A B)\<^sup>*\<^sup>* p q" "call_wire_start cr v6 B s" "call_view v6 s = p"
  shows "\<exists>t. (call_wire_step cr v6 A B)\<^sup>*\<^sup>* s t \<and> call_view v6 t = q"
  using assms
proof (induction rule: rtranclp_induct)
  case (step q r)
  then obtain t where t: "(call_wire_step cr v6 A B)\<^sup>*\<^sup>* s t" "call_view v6 t = q" by blast
  have "call_wire_start cr v6 B t" by (rule call_wire.inv_steps [OF t(1) step.prems(1)])
  then obtain u where u: "call_wire_step cr v6 A B t u" "call_view v6 u = r"
    using step.hyps(2) t(2) unfolding call_wire_lift_def by blast
  show ?case using rtranclp.rtrancl_into_rtrancl [OF t(1) u(1)] u(2) by blast
qed blast

interpretation call_bytes: call_steps "call_wire_lift cr v6 A B" cr A B for cr v6 A B
proof unfold_locales
  fix p :: "Packet CallSystem" and now r c
  assume p: "sy_caller_conn p = None" "connect_handle_tick (sy_caller p) now = (r, c)"
  show "call_wire_lift cr v6 A B p (caller_result p r c)"
    unfolding call_wire_lift_def
  proof (intro allI impI)
    fix s assume s: "call_wire_start cr v6 B s" "call_view v6 s = p"
    then have "connect_wf v6 B (sy_caller s)" "connect_handle_tick (sy_caller s) now = (r, c)" "sy_caller_conn s = None"
      using p by (auto simp: call_wire_start_def call_wire_inv_def)
    then show "\<exists>t. call_wire_step cr v6 A B s t \<and> call_view v6 t = caller_result p r c"
      using caller_wire_step(2) [OF _ connect_tick_wf] call_wire_step.caller_tick s
      unfolding call_wire_start_def by metis
  qed
next
  fix p :: "Packet CallSystem" and rnd q now r c
  assume p: "sy_caller_conn p = None" "key_random_ok rnd" "q \<in> sy_to_caller p"
    "connect_handle_packet cr rnd (sy_caller p) (Inr (q, B)) now = Ok (r, c)"
  show "call_wire_lift cr v6 A B p (caller_result p r c)"
    unfolding call_wire_lift_def
  proof (intro allI impI)
    fix s assume s: "call_wire_start cr v6 B s" "call_view v6 s = p"
    then obtain bs where bs: "bs \<in> sy_to_caller s" "packet_parse bs v6 = Ok q" using p(3) by (auto simp: from_wire_def)
    have h: "connect_handle_packet cr rnd (sy_caller s) (Inr (q, B)) now = Ok (r, c)" "sy_caller_conn s = None"
      using p s by auto
    have "call_wire_step cr v6 A B s (caller_wire_result s r c)"
      by (rule call_wire_step.caller_rx [OF h(2) p(2) _ _ h(1)]) (use bs in \<open>auto simp: socket_parse_packet\<close>)
    moreover have "connect_wf v6 B c \<and> (\<forall>p\<in>sent_packets r. packet_wf v6 p)"
      by (rule connect_packet_wf [OF _ _ p(2) _ h(1)]) (use s p(3) in \<open>auto simp: call_wire_start_def call_wire_inv_def\<close>)
    ultimately show "\<exists>t. call_wire_step cr v6 A B s t \<and> call_view v6 t = caller_result p r c"
      using caller_wire_step(2) s unfolding call_wire_start_def by metis
  qed
next
  fix p :: "Packet CallSystem" and q cookie now r l
  assume p: "sy_listener_conn p = None" "q \<in> sy_to_listener p"
    "listen_handle_packet cr cookie (sy_listener p) now (Inr (q, A)) = Ok (r, l)"
  show "call_wire_lift cr v6 A B p (listener_result p r l)"
    unfolding call_wire_lift_def
  proof (intro allI impI)
    fix s assume s: "call_wire_start cr v6 B s" "call_view v6 s = p"
    then obtain bs where bs: "bs \<in> sy_to_listener s" "packet_parse bs v6 = Ok q" using p(2) by (auto simp: from_wire_def)
    have h: "listen_handle_packet cr cookie (sy_listener s) now (Inr (q, A)) = Ok (r, l)" "sy_listener_conn s = None"
      using p s by auto
    have "call_wire_step cr v6 A B s (listener_wire_result s r l)"
      by (rule call_wire_step.listener_rx [OF h(2) bs(1) _ h(1)]) (use bs in \<open>auto simp: socket_parse_packet\<close>)
    moreover have "listen_wf v6 l \<and> (\<forall>p\<in>sent_packets r. packet_wf v6 p) \<and> answers_wf v6 (new_connection r)"
      by (rule listen_packet_wf [OF _ _ _ h(1)]) (use s p(2) in \<open>auto simp: call_wire_start_def call_wire_inv_def\<close>)
    ultimately show "\<exists>t. call_wire_step cr v6 A B s t \<and> call_view v6 t = listener_result p r l"
      using listener_wire_step(2) s unfolding call_wire_start_def by metis
  qed
next
  fix p :: "Packet CallSystem" and now ks r l
  assume p: "sy_listener_conn p = None"
    "listen_handle_access_control_response cr (sy_listener p) now (ACR_Accepted ks) = Ok (r, l)"
  show "call_wire_lift cr v6 A B p (listener_result p r l)"
    unfolding call_wire_lift_def
  proof (intro allI impI)
    fix s assume s: "call_wire_start cr v6 B s" "call_view v6 s = p"
    have h: "listen_handle_access_control_response cr (sy_listener s) now (ACR_Accepted ks) = Ok (r, l)" "sy_listener_conn s = None"
      using p s by auto
    have "call_wire_step cr v6 A B s (listener_wire_result s r l)"
      by (rule call_wire_step.listener_access [OF h(2) _ h(1)]) simp
    moreover have "listen_wf v6 l \<and> (\<forall>p\<in>sent_packets r. packet_wf v6 p) \<and> answers_wf v6 (new_connection r)"
      by (rule listen_access_wf [OF _ _ _ h(1)]) (use s in \<open>auto simp: call_wire_start_def call_wire_inv_def\<close>)
    ultimately show "\<exists>t. call_wire_step cr v6 A B s t \<and> call_view v6 t = listener_result p r l"
      using listener_wire_step(2) s unfolding call_wire_start_def by metis
  qed
qed

lemma wire_handshake_run:
  assumes "call_init B ci sid iseq own s" "caller_fits v6 (sy_caller s)" "settings_fit own" "crypto_laws cr" "key_random_ok rnd"
    "ci_key_settings own = ci_key_settings ci"
  shows "\<exists>t a b. (call_wire_step cr v6 A B)\<^sup>*\<^sup>* s t \<and> sy_caller_conn t = Some a \<and> sy_listener_conn t = Some b"
proof -
  note i = call_wire_init [OF assms(1-3)]
  obtain p a b where p: "(call_wire_lift cr v6 A B)\<^sup>*\<^sup>* (call_view v6 s) p" "sy_caller_conn p = Some a" "sy_listener_conn p = Some b"
    using call_bytes.handshake_run [OF i(2) assms(4-6)] by blast
  obtain t where "(call_wire_step cr v6 A B)\<^sup>*\<^sup>* s t" "call_view v6 t = p"
    using call_wire_lift_steps [OF p(1) _ refl] i(1) assms(4) unfolding call_wire_start_def by blast
  then show ?thesis using p(2,3) by auto
qed

text \<open>A latency of 70 seconds arrives as 4464 milliseconds, and 1.5 milliseconds arrive as one.\<close>

lemma latency_truncated:
  "duration_from_millis (unat (of_nat (as_millis 70000000000) :: u16)) = 4464000000"
  "duration_from_millis (unat (of_nat (as_millis 1500000) :: u16)) = 1000000"
  by (simp_all add: as_millis_def duration_from_millis_def)

section \<open>Properties\<close>

text \<open>C3: A caller that comes out of the handshake connected has a listener that is connected too, and the two
  agree, over a network that carries the bytes of their packets: whatever the network does with these bytes, whatever
  bytes of other hosts, errors and ticks reach the caller, and whatever the access control answers, they
  use the same first sequence number (that of the caller), each other's socket ids, the same latency for each direction and the
  same stream id; they encrypt both or neither, and with the same key settings they use the same keys. The settings of both
  sides have to fit the wire: latencies of whole milliseconds below 2^16 milliseconds, sizes
  below 2^32, a stream id that is not empty and does not end in a zero byte, and sockets of the same address family. A longer or finer
  latency is truncated on the wire, and the two sides do not agree on it.\<close>

theorem handshake_agreement:
  assumes "crypto_laws cr" "call_init B ci sid iseq own s" "caller_fits v6 (sy_caller s)" "settings_fit own"
    "(call_wire_step cr v6 A B)\<^sup>*\<^sup>* s t" "sy_caller_conn t = Some a"
  shows "\<exists>b. sy_listener_conn t = Some b \<and> settings_agree (cn_settings a) (cn_settings b)
    \<and> cs_init_seq_num (cn_settings a) = iseq \<and> cs_stream_id (cn_settings a) = sid
    \<and> cs_remote (cn_settings a) = B \<and> cs_remote (cn_settings b) = A"
proof -
  note i = call_wire_init [OF assms(2-4)]
  have "(call_step cr A B)\<^sup>*\<^sup>* (call_view v6 s) (call_view v6 t)"
    using call_wire.refines [OF assms(5)] i(1) assms(1) by (simp add: call_wire_start_def)
  from call_agreement(1) [OF assms(1) i(2) this, of a] assms(6) show ?thesis by simp
qed

lemma sample_settings_fit: "settings_fit sample_ci" "settings_fit sample_own"
  by (simp_all add: settings_fit_def sample_ci_def sample_own_def)

theorem handshake_agreement_witness:
  "\<exists>t a b. (call_wire_step sample_crypto False sample_addr sample_addr)\<^sup>*\<^sup>* (call_start sample_ci sample_own) t
    \<and> sy_caller_conn t = Some a \<and> sy_listener_conn t = Some b \<and> settings_agree (cn_settings a) (cn_settings b)
    \<and> cs_init_seq_num (cn_settings a) = 5"
proof -
  have fits: "caller_fits False (sy_caller (call_start sample_ci sample_own :: u8 list CallSystem))"
    using sample_settings_fit by (simp add: caller_fits_def call_start_def connect_new_def address_fits_def seq_valid_def)
  have keys: "ci_key_settings sample_own = ci_key_settings sample_ci" by (simp add: sample_own_def)
  obtain t a where t: "(call_wire_step sample_crypto False sample_addr sample_addr)\<^sup>*\<^sup>* (call_start sample_ci sample_own) t"
    "sy_caller_conn t = Some a"
    using wire_handshake_run [OF call_start_init fits sample_settings_fit(2) sample_crypto_laws sample_random_ok keys, of sample_addr]
    by blast
  then show ?thesis
    using handshake_agreement [OF sample_crypto_laws call_start_init fits sample_settings_fit(2) t] by blast
qed

end
