(* ===== verification/Rendezvous_Wire.thy ===== *)
theory Rendezvous_Wire
  imports Rendezvous_Agreement Handshake_Wire
begin

text \<open>
  The rendezvous handshake over a network that carries bytes, as in theory \<open>Handshake_Wire\<close>: with settings that fit
  the wire it refines the system of theory \<open>Rendezvous_Agreement\<close>.
\<close>

section \<open>The system on the wire\<close>

definition initiator_wire_result :: "u8 list RdvSystem \<Rightarrow> ConnectionResult \<Rightarrow> Rendezvous \<Rightarrow> u8 list RdvSystem" where
  "initiator_wire_result s r x = s\<lparr>rd_i := x, rd_to_r := rd_to_r s \<union> on_wire (sent_packets r), rd_i_conn := new_connection r\<rparr>"

definition responder_wire_result :: "u8 list RdvSystem \<Rightarrow> ConnectionResult \<Rightarrow> Rendezvous \<Rightarrow> u8 list RdvSystem" where
  "responder_wire_result s r y = s\<lparr>rd_r := y, rd_to_i := rd_to_i s \<union> on_wire (sent_packets r), rd_r_conn := new_connection r\<rparr>"

text \<open>Both peers receive any bytes of any host, except that those of the address of the other peer are bytes that it
  has sent. A connected peer goes on to send packets of the wire format that are no handshakes, and its answers
  to repeated handshakes.\<close>

inductive rdv_wire_step ::
  "Crypto \<Rightarrow> bool \<Rightarrow> SocketAddr \<Rightarrow> SocketAddr \<Rightarrow> u8 list RdvSystem \<Rightarrow> u8 list RdvSystem \<Rightarrow> bool" for cr v6 I R where
  i_tick: "rd_i_conn s = None \<Longrightarrow> rendezvous_handle_tick (rd_i s) now = (r, x)
    \<Longrightarrow> rdv_wire_step cr v6 I R s (initiator_wire_result s r x)"
| i_rx: "rd_i_conn s = None \<Longrightarrow> key_random_ok rnd \<Longrightarrow> (addr = R \<Longrightarrow> bs \<in> rd_to_i s) \<Longrightarrow> socket_parse v6 bs addr = Ok input
    \<Longrightarrow> rendezvous_handle_packet cr rnd (rd_i s) input now = Ok (r, x)
    \<Longrightarrow> rdv_wire_step cr v6 I R s (initiator_wire_result s r x)"
| i_error: "rd_i_conn s = None \<Longrightarrow> key_random_ok rnd \<Longrightarrow> rendezvous_handle_packet cr rnd (rd_i s) (Inl e) now = Ok (r, x)
    \<Longrightarrow> rdv_wire_step cr v6 I R s (initiator_wire_result s r x)"
| r_tick: "rd_r_conn s = None \<Longrightarrow> rendezvous_handle_tick (rd_r s) now = (r, y)
    \<Longrightarrow> rdv_wire_step cr v6 I R s (responder_wire_result s r y)"
| r_rx: "rd_r_conn s = None \<Longrightarrow> key_random_ok rnd \<Longrightarrow> (addr = I \<Longrightarrow> bs \<in> rd_to_r s) \<Longrightarrow> socket_parse v6 bs addr = Ok input
    \<Longrightarrow> rendezvous_handle_packet cr rnd (rd_r s) input now = Ok (r, y)
    \<Longrightarrow> rdv_wire_step cr v6 I R s (responder_wire_result s r y)"
| r_error: "rd_r_conn s = None \<Longrightarrow> key_random_ok rnd \<Longrightarrow> rendezvous_handle_packet cr rnd (rd_r s) (Inl e) now = Ok (r, y)
    \<Longrightarrow> rdv_wire_step cr v6 I R s (responder_wire_result s r y)"
| i_more: "rd_i_conn s = Some conn \<Longrightarrow> connected_sends conn p \<Longrightarrow> packet_wf v6 p
    \<Longrightarrow> rdv_wire_step cr v6 I R s (s\<lparr>rd_to_r := rd_to_r s \<union> on_wire {p}\<rparr>)"
| r_more: "rd_r_conn s = Some conn \<Longrightarrow> connected_sends conn p \<Longrightarrow> packet_wf v6 p
    \<Longrightarrow> rdv_wire_step cr v6 I R s (s\<lparr>rd_to_i := rd_to_i s \<union> on_wire {p}\<rparr>)"

definition peer_fits :: "bool \<Rightarrow> Rendezvous \<Rightarrow> bool" where
  "peer_fits v6 x \<longleftrightarrow> settings_fit (rv_init_settings x) \<and> seq_valid (rv_starting_seqnum x)
     \<and> address_fits v6 (fst (rv_local_addr x))"

section \<open>The handlers keep to the wire format\<close>

definition rdv_state_wf :: "RendezvousState \<Rightarrow> bool" where
  "rdv_state_wf state \<longleftrightarrow> (\<forall>info cm shake. state = AttentionInitiator info cm \<or> state = FineInitiator info cm \<longrightarrow>
     shake \<noteq> Induction \<longrightarrow> info_wf shake info)"

definition rdv_wf :: "bool \<Rightarrow> SocketAddr \<Rightarrow> Rendezvous \<Rightarrow> bool" where
  "rdv_wf v6 P x \<longleftrightarrow> peer_fits v6 x \<and> rv_remote_public x = P \<and> packet_wf v6 (fst (rv_last_packet x)) \<and> rdv_state_wf (rv_state x)"

definition rdv_ok :: "bool \<Rightarrow> SocketAddr \<Rightarrow> ConnectionResult \<times> Rendezvous \<Rightarrow> bool" where
  "rdv_ok v6 P rx \<longleftrightarrow> rdv_wf v6 P (snd rx) \<and> (\<forall>p\<in>sent_packets (fst rx). packet_wf v6 p)"

lemma empty_flags_wf: "shake \<noteq> Induction \<Longrightarrow> info_wf shake empty_flags"
  by (simp add: empty_flags_def v5_wf_def hs_v5_default_def)

lemma gen_packet_wf:
  assumes "peer_fits v6 x" "shake_wf shake" "info_wf shake info"
  shows "handshake_wf v6 (gen_packet x shake info)"
  using assms by (auto simp: peer_fits_def settings_fit_def address_fits_def handshake_wf_def gen_packet_def)

lemma send_conclusion_ok:
  assumes "rdv_wf v6 P x" "info_wf Conclusion info" "rdv_state_wf state" "seq_valid n"
  shows "rdv_ok v6 P (send_conclusion (transition (x\<lparr>rv_starting_seqnum := n\<rparr>) state) dest info)"
    "rdv_ok v6 P (send_conclusion (transition x state) dest info)"
proof -
  have "peer_fits v6 (x\<lparr>rv_starting_seqnum := n, rv_state := state\<rparr>)" "peer_fits v6 (x\<lparr>rv_state := state\<rparr>)"
    using assms by (auto simp: rdv_wf_def peer_fits_def)
  then have "handshake_wf v6 (gen_packet (x\<lparr>rv_starting_seqnum := n, rv_state := state\<rparr>) Conclusion info)"
    "handshake_wf v6 (gen_packet (x\<lparr>rv_state := state\<rparr>) Conclusion info)"
    using assms(2) by (auto intro: gen_packet_wf)
  then show "rdv_ok v6 P (send_conclusion (transition (x\<lparr>rv_starting_seqnum := n\<rparr>) state) dest info)"
    "rdv_ok v6 P (send_conclusion (transition x state) dest info)"
    using assms by (auto simp: rdv_ok_def rdv_wf_def send_conclusion_def transition_def rdv_send_def Let_def peer_fits_def)
qed

lemma rdv_start_ok:
  assumes "rdv_wf v6 P x" "crypto_laws cr" "key_random_ok rnd"
    "start_hsv5_initiation cr rnd (rv_init_settings x) None now = Ok (info, cm)" "state \<in> {AttentionInitiator info cm, FineInitiator info cm}"
  shows "rdv_ok v6 P (send_conclusion (transition x state) dest info)"
proof -
  have "settings_fit (rv_init_settings x)" using assms(1) by (simp add: rdv_wf_def peer_fits_def)
  then have "info_wf shake info" if "shake \<noteq> Induction" for shake
    using request_wf [OF assms(2,3) _ _ assms(4) that] by simp
  then show ?thesis using assms(5) by (intro send_conclusion_ok(2) [OF assms(1), where n = 0]) (auto simp: rdv_state_wf_def seq_valid_def)
qed

lemma rdv_answer_ok:
  assumes wf: "rdv_wf v6 P y" and cr: "crypto_laws cr" and h: "handshake_wf v6 h" "hc_shake_type h = Conclusion"
    and acc: "\<And>st. rdv_state_wf (acc st)" and ans: "rdv_answer_request cr y h ts t now acc = Ok rx"
  shows "rdv_ok v6 P rx"
proof -
  obtain res own where g: "gen_hsv5_response cr (rv_init_settings y) h (rv_remote_public y) t now = Ok (res, own)"
    and rx: "rx = (let self = y\<lparr>rv_init_settings := own\<rparr> in
       case res of
         GH_Accept hsv5 connection \<Rightarrow>
           send_conclusion (transition (self\<lparr>rv_starting_seqnum := hc_init_seq_num h\<rparr>) (acc connection)) (hc_socket_id h) hsv5
       | GH_NotHandled e \<Rightarrow> (CR_NotHandled e, self)
       | GH_Reject r \<Rightarrow> (rdv_make_rejection self h ts r, self))"
    using ans by (auto simp: rdv_answer_request_def map_outcome_ok_Ok_iff)
  have own: "y\<lparr>rv_init_settings := own\<rparr> = y" using gen_hsv5_response_cases(1) [OF g] by simp
  have fit: "settings_fit (rv_init_settings y)" using wf by (simp add: rdv_wf_def peer_fits_def)
  show ?thesis
  proof (cases res)
    case (GH_NotHandled e)
    then show ?thesis using rx wf own by (simp add: rdv_ok_def)
  next
    case (GH_Reject rj)
    have "shake_wf (Rejection (reject_reason rj))"
      using g GH_Reject gen_response_settings(2) by (fastforce simp: gen_hsv5_response_def split: HandshakeVsInfo.splits)
    moreover have "info_wf (Rejection (reject_reason rj)) (hc_info h)"
      using h by (cases "hc_info h") (auto simp: handshake_wf_def v5_wf_def)
    ultimately show ?thesis using rx wf own h GH_Reject by (auto simp: rdv_ok_def rdv_make_rejection_def handshake_wf_def)
  next
    case (GH_Accept info st)
    then obtain v where v: "hc_info h = HVI_V5 v"
      "gen_access_control_response cr now (rv_init_settings y) (rv_remote_public y) t h v None = Ok (GH_Accept info st, own)"
      using g by (auto simp: gen_hsv5_response_def split: HandshakeVsInfo.splits)
    have "pred_option (\<lambda>s. ext_wf (Srt_StreamId s)) (v5_sid v)" using h v(1) by (auto simp: handshake_wf_def v5_wf_def)
    then have "info_wf Conclusion info" using response_wf [OF cr fit v(1) _ v(2)] by simp
    moreover have "seq_valid (hc_init_seq_num h)" using h(1) by (simp add: handshake_wf_def)
    ultimately show ?thesis using rx own GH_Accept acc send_conclusion_ok(1) [OF wf] by (simp add: Let_def)
  qed
qed

lemma rdv_connected_ok:
  assumes "rdv_wf v6 P x" "info_wf Agreement flags"
  shows "rdv_ok v6 P (initiator_connected x h cm flags now, x)" "rdv_ok v6 P (set_connected x st None (Some (gen_packet x Agreement flags)), x)"
    "rdv_ok v6 P (set_connected x st None None, x)"
proof -
  have "handshake_wf v6 (gen_packet x Agreement flags)" using assms by (intro gen_packet_wf) (auto simp: rdv_wf_def)
  then show "rdv_ok v6 P (initiator_connected x h cm flags now, x)"
    "rdv_ok v6 P (set_connected x st None (Some (gen_packet x Agreement flags)), x)" "rdv_ok v6 P (set_connected x st None None, x)"
    using assms(1) by (auto simp: rdv_ok_def initiator_connected_def Let_def set_connected_def split: sum.splits)
qed

lemma rdv_unchanged_ok:
  assumes "rdv_wf v6 P x" "sent_packets r = {}"
  shows "rdv_ok v6 P (r, x)"
  using assms by (simp add: rdv_ok_def)

lemma rdv_waving_ok:
  assumes wf: "rdv_wf v6 P x" and cr: "crypto_laws cr" and rnd: "key_random_ok rnd" and h: "handshake_wf v6 h"
    and step: "handle_waving cr rnd x h ts now = Ok rx"
  shows "rdv_ok v6 P rx"
proof -
  have seq: "seq_valid (hc_init_seq_num h)" using h by (simp add: handshake_wf_def)
  have "snd rx = x \<and> sent_packets (fst rx) = {}
    \<or> (\<exists>info cm state. start_hsv5_initiation cr rnd (rv_init_settings x) None now = Ok (info, cm)
        \<and> state \<in> {AttentionInitiator info cm, FineInitiator info cm} \<and> rx = send_conclusion (transition x state) (hc_socket_id h) info)
    \<or> rx = send_conclusion (transition (x\<lparr>rv_starting_seqnum := hc_init_seq_num h\<rparr>) (AttentionResponder now)) (hc_socket_id h) empty_flags
    \<or> (\<exists>t. hc_shake_type h = Conclusion \<and> rdv_answer_request cr x h ts t now FineResponder = Ok rx)"
    using step
    by (auto simp: handle_waving_def map_outcome_ok_Ok_iff
        split: if_splits option.splits ShakeType.splits RendezvousHsV5.splits sum.splits SrtControlPacket.splits)
  then show ?thesis
  proof (elim disjE exE conjE)
    fix t
    assume "hc_shake_type h = Conclusion" "rdv_answer_request cr x h ts t now FineResponder = Ok rx"
    then show ?thesis using rdv_answer_ok [OF wf cr h, of FineResponder] by (simp add: rdv_state_wf_def)
  next
    assume "rx = send_conclusion (transition (x\<lparr>rv_starting_seqnum := hc_init_seq_num h\<rparr>) (AttentionResponder now))
      (hc_socket_id h) empty_flags"
    then show ?thesis using send_conclusion_ok(1) [OF wf empty_flags_wf _ seq] by (simp add: rdv_state_wf_def)
  next
    fix info cm state
    assume "start_hsv5_initiation cr rnd (rv_init_settings x) None now = Ok (info, cm)"
      "state \<in> {AttentionInitiator info cm, FineInitiator info cm}" "rx = send_conclusion (transition x state) (hc_socket_id h) info"
    then show ?thesis using rdv_start_ok [OF wf cr rnd] by blast
  qed (use wf in \<open>simp add: rdv_ok_def\<close>)
qed

lemma rdv_attention_initiator_ok:
  assumes wf: "rdv_wf v6 P x" and st: "rv_state x = AttentionInitiator info cm"
  shows "rdv_ok v6 P (handle_attention_initiator x h info cm now)"
proof -
  have i: "info_wf Conclusion info" using wf st by (simp add: rdv_wf_def rdv_state_wf_def)
  have "rdv_ok v6 P (send_conclusion (transition x (InitiatedInitiator cm)) (hc_socket_id h) info)"
    by (rule send_conclusion_ok(2) [OF wf i, where n = 0]) (simp_all add: rdv_state_wf_def seq_valid_def)
  then show ?thesis
    using rdv_connected_ok(1) [OF wf empty_flags_wf] rdv_unchanged_ok [OF wf]
    by (auto simp: handle_attention_initiator_def split: ShakeType.splits sum.splits option.splits SrtControlPacket.splits)
qed

lemma rdv_dispatch_ok:
  assumes wf: "rdv_wf v6 P x" and cr: "crypto_laws cr" and rnd: "key_random_ok rnd" and p: "packet_wf v6 p"
    and step: "rendezvous_dispatch cr rnd x p now = Ok rx"
  shows "rdv_ok v6 P rx"
proof -
  have h: "handshake_wf v6 h" if "get_handshake p = Inr h" for h using p packet_wf_handshake [OF that] by simp
  note same = rdv_unchanged_ok [OF wf]
  note conn = rdv_connected_ok [OF wf empty_flags_wf]
  note splits = ShakeType.splits sum.splits option.splits SrtControlPacket.splits
  show ?thesis
  proof (cases "rv_state x")
    case Waving
    then show ?thesis using step rdv_waving_ok [OF wf cr rnd h] same
      by (auto simp: rendezvous_dispatch_def split: sum.splits)
  next
    case (AttentionInitiator info cm)
    then show ?thesis using step rdv_attention_initiator_ok [OF wf AttentionInitiator] same
      by (auto simp: rendezvous_dispatch_def split: sum.splits)
  next
    case (AttentionResponder t)
    then show ?thesis using step rdv_answer_ok [OF wf cr h, of _ InitiatedResponder] same
      by (auto simp: rendezvous_dispatch_def handle_attention_responder_def rdv_state_wf_def split: splits)
  next
    case (InitiatedResponder st)
    then show ?thesis using step initiated_responder_cases [of x p st] same conn
      by (auto simp: rendezvous_dispatch_def split: sum.splits)
  next
    case (InitiatedInitiator cm)
    then show ?thesis using step same conn
      by (auto simp: rendezvous_dispatch_def handle_initiated_initiator_def split: splits)
  next
    case (FineResponder st)
    then show ?thesis using step fine_responder_cases [of x p st] same conn
      by (auto simp: rendezvous_dispatch_def split: sum.splits)
  next
    case (FineInitiator info cm)
    have "info_wf Agreement info" using wf FineInitiator by (simp add: rdv_wf_def rdv_state_wf_def)
    then show ?thesis using step FineInitiator same rdv_connected_ok(1) [OF wf]
      by (auto simp: rendezvous_dispatch_def handle_fine_initiator_def split: splits)
  qed
qed

lemma rdv_packet_ok:
  assumes wf: "rdv_wf v6 P x" and cr: "crypto_laws cr" and rnd: "key_random_ok rnd"
    and net: "\<And>p. input = Inr (p, P) \<Longrightarrow> packet_wf v6 p" and step: "rendezvous_handle_packet cr rnd x input now = Ok rx"
  shows "rdv_ok v6 P rx"
proof (cases "\<exists>p. input = Inr (p, P)")
  case True
  then obtain p where p: "input = Inr (p, P)" by blast
  then have "rendezvous_dispatch cr rnd x p now = Ok rx"
    using step wf by (simp add: rendezvous_handle_packet_def rdv_wf_def)
  then show ?thesis by (rule rdv_dispatch_ok [OF wf cr rnd net [OF p]])
next
  case False
  then have "snd rx = x \<and> sent_packets (fst rx) = {}"
    using step wf by (auto simp: rendezvous_handle_packet_def rdv_wf_def split: sum.splits prod.splits ReceivePacketError.splits if_splits)
  then show ?thesis using wf by (simp add: rdv_ok_def)
qed

lemma rdv_tick_ok:
  assumes "rdv_wf v6 P x" "rendezvous_handle_tick x now = rx"
  shows "rdv_ok v6 P rx"
  using assms by (cases "rv_last_packet x") (auto simp: rdv_ok_def rdv_wf_def rendezvous_handle_tick_def peer_fits_def)

section \<open>The wire refines the packets\<close>

definition rdv_view :: "bool \<Rightarrow> u8 list RdvSystem \<Rightarrow> Packet RdvSystem" where
  "rdv_view v6 s = \<lparr>rd_i = rd_i s, rd_r = rd_r s, rd_to_r = from_wire v6 (rd_to_r s), rd_to_i = from_wire v6 (rd_to_i s),
     rd_i_conn = rd_i_conn s, rd_r_conn = rd_r_conn s\<rparr>"

lemma rdv_view_simps [simp]:
  "rd_i (rdv_view v6 s) = rd_i s" "rd_r (rdv_view v6 s) = rd_r s"
  "rd_to_r (rdv_view v6 s) = from_wire v6 (rd_to_r s)" "rd_to_i (rdv_view v6 s) = from_wire v6 (rd_to_i s)"
  "rd_i_conn (rdv_view v6 s) = rd_i_conn s" "rd_r_conn (rdv_view v6 s) = rd_r_conn s"
  by (simp_all add: rdv_view_def)

definition rdv_wire_inv :: "bool \<Rightarrow> SocketAddr \<Rightarrow> SocketAddr \<Rightarrow> u8 list RdvSystem \<Rightarrow> bool" where
  "rdv_wire_inv v6 I R s \<longleftrightarrow> rdv_wf v6 R (rd_i s) \<and> rdv_wf v6 I (rd_r s)
     \<and> (\<forall>p\<in>from_wire v6 (rd_to_r s). packet_wf v6 p) \<and> (\<forall>p\<in>from_wire v6 (rd_to_i s). packet_wf v6 p)"

lemma rdv_wire_result:
  assumes "rdv_wire_inv v6 I R s"
  shows "rdv_ok v6 R (r, x) \<Longrightarrow> rdv_wire_inv v6 I R (initiator_wire_result s r x)"
    "rdv_ok v6 R (r, x) \<Longrightarrow> rdv_view v6 (initiator_wire_result s r x) = initiator_result (rdv_view v6 s) r x"
    "rdv_ok v6 I (r, y) \<Longrightarrow> rdv_wire_inv v6 I R (responder_wire_result s r y)"
    "rdv_ok v6 I (r, y) \<Longrightarrow> rdv_view v6 (responder_wire_result s r y) = responder_result (rdv_view v6 s) r y"
  using assms from_wire_on_wire [of "sent_packets r" v6]
  by (auto simp: rdv_ok_def rdv_wire_inv_def initiator_wire_result_def initiator_result_def responder_wire_result_def
      responder_result_def rdv_view_def from_wire_union)

lemma rdv_wire_more:
  assumes "rdv_wire_inv v6 I R s" "packet_wf v6 p"
  shows "rdv_wire_inv v6 I R (s\<lparr>rd_to_r := rd_to_r s \<union> on_wire {p}\<rparr>)"
    "rdv_view v6 (s\<lparr>rd_to_r := rd_to_r s \<union> on_wire {p}\<rparr>) = (rdv_view v6 s)\<lparr>rd_to_r := insert p (rd_to_r (rdv_view v6 s))\<rparr>"
    "rdv_wire_inv v6 I R (s\<lparr>rd_to_i := rd_to_i s \<union> on_wire {p}\<rparr>)"
    "rdv_view v6 (s\<lparr>rd_to_i := rd_to_i s \<union> on_wire {p}\<rparr>) = (rdv_view v6 s)\<lparr>rd_to_i := insert p (rd_to_i (rdv_view v6 s))\<rparr>"
  using assms from_wire_on_wire [of "{p}" v6] by (auto simp: rdv_wire_inv_def rdv_view_def from_wire_union)

lemma rdv_wire_refines:
  assumes inv: "rdv_wire_inv v6 I R s" and cr: "crypto_laws cr" and step: "rdv_wire_step cr v6 I R s t"
  shows "rdv_wire_inv v6 I R t \<and> rdv_step cr I R (rdv_view v6 s) (rdv_view v6 t)"
proof -
  have i: "rdv_wf v6 R (rd_i s)" "rdv_wf v6 I (rd_r s)" using inv by (simp_all add: rdv_wire_inv_def)
  note res = rdv_wire_result [OF inv]
  show ?thesis using step
  proof cases
    case (i_tick now r x)
    note ok = rdv_tick_ok [OF i(1) i_tick(3)]
    show ?thesis unfolding i_tick(1) res(2) [OF ok] by (intro conjI res(1) ok rdv_step.i_tick) (use i_tick in auto)
  next
    case (i_rx rnd addr bs input now r x)
    have net: "p \<in> from_wire v6 (rd_to_i s)" if "input = Inr (p, R)" for p
      using that i_rx(4,5) by (auto simp: socket_parse_packet from_wire_def)
    have ok: "rdv_ok v6 R (r, x)"
      by (rule rdv_packet_ok [OF i(1) cr i_rx(3) _ i_rx(6)]) (use inv net in \<open>auto simp: rdv_wire_inv_def\<close>)
    show ?thesis unfolding i_rx(1) res(2) [OF ok]
      by (intro conjI res(1) ok rdv_step.i_rx [OF _ i_rx(3)]) (use i_rx net in auto)
  next
    case (i_error rnd e now r x)
    have ok: "rdv_ok v6 R (r, x)" by (rule rdv_packet_ok [OF i(1) cr i_error(3) _ i_error(4)]) simp
    show ?thesis unfolding i_error(1) res(2) [OF ok]
      by (intro conjI res(1) ok rdv_step.i_rx [OF _ i_error(3), where input = "Inl e"]) (use i_error in auto)
  next
    case (r_tick now r y)
    note ok = rdv_tick_ok [OF i(2) r_tick(3)]
    show ?thesis unfolding r_tick(1) res(4) [OF ok] by (intro conjI res(3) ok rdv_step.r_tick) (use r_tick in auto)
  next
    case (r_rx rnd addr bs input now r y)
    have net: "p \<in> from_wire v6 (rd_to_r s)" if "input = Inr (p, I)" for p
      using that r_rx(4,5) by (auto simp: socket_parse_packet from_wire_def)
    have ok: "rdv_ok v6 I (r, y)"
      by (rule rdv_packet_ok [OF i(2) cr r_rx(3) _ r_rx(6)]) (use inv net in \<open>auto simp: rdv_wire_inv_def\<close>)
    show ?thesis unfolding r_rx(1) res(4) [OF ok]
      by (intro conjI res(3) ok rdv_step.r_rx [OF _ r_rx(3)]) (use r_rx net in auto)
  next
    case (r_error rnd e now r y)
    have ok: "rdv_ok v6 I (r, y)" by (rule rdv_packet_ok [OF i(2) cr r_error(3) _ r_error(4)]) simp
    show ?thesis unfolding r_error(1) res(4) [OF ok]
      by (intro conjI res(3) ok rdv_step.r_rx [OF _ r_error(3), where input = "Inl e"]) (use r_error in auto)
  next
    case (i_more conn p)
    note m = rdv_wire_more [OF inv i_more(4)]
    show ?thesis unfolding i_more(1) m(2) by (intro conjI m(1) rdv_step.i_more [where conn = conn]) (use i_more in auto)
  next
    case (r_more conn p)
    note m = rdv_wire_more [OF inv r_more(4)]
    show ?thesis unfolding r_more(1) m(4) by (intro conjI m(3) rdv_step.r_more [where conn = conn]) (use r_more in auto)
  qed
qed

definition rdv_wire_start :: "Crypto \<Rightarrow> bool \<Rightarrow> SocketAddr \<Rightarrow> SocketAddr \<Rightarrow> u8 list RdvSystem \<Rightarrow> bool" where
  "rdv_wire_start cr v6 I R s \<longleftrightarrow> crypto_laws cr \<and> rdv_wire_inv v6 I R s"

interpretation rdv_wire: refinement_system "rdv_wire_start cr v6 I R" "rdv_wire_step cr v6 I R" "rdv_wire_start cr v6 I R"
  "rdv_view v6" "rdv_step cr I R" for cr v6 I R
  by unfold_locales (use rdv_wire_refines [of v6 I R _ cr] in \<open>auto simp: rdv_wire_start_def\<close>)

lemma rendezvous_new_wf:
  assumes "peer_fits v6 (rendezvous_new c la P st n)"
  shows "rdv_wf v6 P (rendezvous_new c la P st n)"
  using assms empty_flags_wf [of Waveahand]
  by (auto simp: rdv_wf_def rendezvous_new_def Let_def rdv_state_wf_def peer_fits_def settings_fit_def address_fits_def
      handshake_wf_def)

lemma rdv_wire_init:
  assumes init: "rdv_init I R ii iseq ro ci cr' s" and fits: "peer_fits v6 (rd_i s)" "peer_fits v6 (rd_r s)"
  shows "rdv_wire_inv v6 I R s" "rdv_init I R ii iseq ro ci cr' (rdv_view v6 s)"
proof -
  obtain la lb rseq where s: "rd_i s = rendezvous_new ci la R ii iseq" "rd_r s = rendezvous_new cr' lb I ro rseq"
    "rd_to_r s = {}" "rd_to_i s = {}" using init unfolding rdv_init_def by blast
  show "rdv_wire_inv v6 I R s"
    using rendezvous_new_wf fits by (simp add: rdv_wire_inv_def s from_wire_union)
  show "rdv_init I R ii iseq ro ci cr' (rdv_view v6 s)" using init by (simp add: rdv_init_def from_wire_union)
qed

text \<open>Every step between views that the packets allow can be made on the wire.\<close>

definition rdv_wire_lift :: "Crypto \<Rightarrow> bool \<Rightarrow> SocketAddr \<Rightarrow> SocketAddr \<Rightarrow> Packet RdvSystem \<Rightarrow> Packet RdvSystem \<Rightarrow> bool" where
  "rdv_wire_lift cr v6 I R p q \<longleftrightarrow>
     (\<forall>s. rdv_wire_start cr v6 I R s \<longrightarrow> rdv_view v6 s = p \<longrightarrow> (\<exists>t. rdv_wire_step cr v6 I R s t \<and> rdv_view v6 t = q))"

lemma rdv_wire_lift_steps:
  assumes "(rdv_wire_lift cr v6 I R)\<^sup>*\<^sup>* p q" "rdv_wire_start cr v6 I R s" "rdv_view v6 s = p"
  shows "\<exists>t. (rdv_wire_step cr v6 I R)\<^sup>*\<^sup>* s t \<and> rdv_view v6 t = q"
  using assms
proof (induction rule: rtranclp_induct)
  case (step q r)
  then obtain t where t: "(rdv_wire_step cr v6 I R)\<^sup>*\<^sup>* s t" "rdv_view v6 t = q" by blast
  have "rdv_wire_start cr v6 I R t" by (rule rdv_wire.inv_steps [OF t(1) step.prems(1)])
  then obtain u where u: "rdv_wire_step cr v6 I R t u" "rdv_view v6 u = r"
    using step.hyps(2) t(2) unfolding rdv_wire_lift_def by blast
  show ?case using rtranclp.rtrancl_into_rtrancl [OF t(1) u(1)] u(2) by blast
qed blast

lemma rdv_wire_liftI:
  assumes "\<And>s. rdv_wire_inv v6 I R s \<Longrightarrow> crypto_laws cr \<Longrightarrow> rdv_view v6 s = p
    \<Longrightarrow> \<exists>t. rdv_wire_step cr v6 I R s t \<and> rdv_view v6 t = q"
  shows "rdv_wire_lift cr v6 I R p q"
  using assms by (auto simp: rdv_wire_lift_def rdv_wire_start_def)

interpretation rdv_bytes: rdv_steps "rdv_wire_lift cr v6 I R" cr I R for cr v6 I R
proof unfold_locales
  fix p :: "Packet RdvSystem" and now r x
  assume p: "rd_i_conn p = None" "rendezvous_handle_tick (rd_i p) now = (r, x)"
  show "rdv_wire_lift cr v6 I R p (initiator_result p r x)"
  proof (rule rdv_wire_liftI)
    fix s assume s: "rdv_wire_inv v6 I R s" "rdv_view v6 s = p"
    then have h: "rd_i_conn s = None" "rendezvous_handle_tick (rd_i s) now = (r, x)" "rdv_wf v6 R (rd_i s)"
      using p by (auto simp: rdv_wire_inv_def)
    show "\<exists>t. rdv_wire_step cr v6 I R s t \<and> rdv_view v6 t = initiator_result p r x"
      using rdv_wire_result(2) [OF s(1) rdv_tick_ok [OF h(3,2)]] rdv_wire_step.i_tick [OF h(1,2)] s(2) by blast
  qed
next
  fix p :: "Packet RdvSystem" and rnd q now r x
  assume p: "rd_i_conn p = None" "key_random_ok rnd" "q \<in> rd_to_i p"
    "rendezvous_handle_packet cr rnd (rd_i p) (Inr (q, R)) now = Ok (r, x)"
  show "rdv_wire_lift cr v6 I R p (initiator_result p r x)"
  proof (rule rdv_wire_liftI)
    fix s assume s: "rdv_wire_inv v6 I R s" "crypto_laws cr" "rdv_view v6 s = p"
    then have h: "rd_i_conn s = None" "rendezvous_handle_packet cr rnd (rd_i s) (Inr (q, R)) now = Ok (r, x)"
      "rdv_wf v6 R (rd_i s)" using p by (auto simp: rdv_wire_inv_def)
    obtain bs where bs: "bs \<in> rd_to_i s" "packet_parse bs v6 = Ok q" using p(3) s(3) by (auto simp: from_wire_def)
    have ok: "rdv_ok v6 R (r, x)"
      by (rule rdv_packet_ok [OF h(3) s(2) p(2) _ h(2)]) (use s p(3) in \<open>auto simp: rdv_wire_inv_def\<close>)
    have "rdv_wire_step cr v6 I R s (initiator_wire_result s r x)"
      by (rule rdv_wire_step.i_rx [OF h(1) p(2) _ _ h(2)]) (use bs in \<open>auto simp: socket_parse_packet\<close>)
    then show "\<exists>t. rdv_wire_step cr v6 I R s t \<and> rdv_view v6 t = initiator_result p r x"
      using rdv_wire_result(2) [OF s(1) ok] s(3) by blast
  qed
next
  fix p :: "Packet RdvSystem" and rnd q now r y
  assume p: "rd_r_conn p = None" "key_random_ok rnd" "q \<in> rd_to_r p"
    "rendezvous_handle_packet cr rnd (rd_r p) (Inr (q, I)) now = Ok (r, y)"
  show "rdv_wire_lift cr v6 I R p (responder_result p r y)"
  proof (rule rdv_wire_liftI)
    fix s assume s: "rdv_wire_inv v6 I R s" "crypto_laws cr" "rdv_view v6 s = p"
    then have h: "rd_r_conn s = None" "rendezvous_handle_packet cr rnd (rd_r s) (Inr (q, I)) now = Ok (r, y)"
      "rdv_wf v6 I (rd_r s)" using p by (auto simp: rdv_wire_inv_def)
    obtain bs where bs: "bs \<in> rd_to_r s" "packet_parse bs v6 = Ok q" using p(3) s(3) by (auto simp: from_wire_def)
    have ok: "rdv_ok v6 I (r, y)"
      by (rule rdv_packet_ok [OF h(3) s(2) p(2) _ h(2)]) (use s p(3) in \<open>auto simp: rdv_wire_inv_def\<close>)
    have "rdv_wire_step cr v6 I R s (responder_wire_result s r y)"
      by (rule rdv_wire_step.r_rx [OF h(1) p(2) _ _ h(2)]) (use bs in \<open>auto simp: socket_parse_packet\<close>)
    then show "\<exists>t. rdv_wire_step cr v6 I R s t \<and> rdv_view v6 t = responder_result p r y"
      using rdv_wire_result(4) [OF s(1) ok] s(3) by blast
  qed
qed

lemma wire_rdv_run:
  assumes "rdv_init I R ii iseq ro ci cr' s" "peer_fits v6 (rd_i s)" "peer_fits v6 (rd_r s)" "crypto_laws cr" "key_random_ok rnd"
    "ci_key_settings ro = ci_key_settings ii"
  shows "\<exists>t a b. (rdv_wire_step cr v6 I R)\<^sup>*\<^sup>* s t \<and> rd_i_conn t = Some a \<and> rd_r_conn t = Some b"
proof -
  note i = rdv_wire_init [OF assms(1-3)]
  obtain p a b where p: "(rdv_wire_lift cr v6 I R)\<^sup>*\<^sup>* (rdv_view v6 s) p" "rd_i_conn p = Some a" "rd_r_conn p = Some b"
    using rdv_bytes.rdv_run [OF i(2) assms(4-6)] by blast
  obtain t where "(rdv_wire_step cr v6 I R)\<^sup>*\<^sup>* s t" "rdv_view v6 t = p"
    using rdv_wire_lift_steps [OF p(1) _ refl] i(1) assms(4) unfolding rdv_wire_start_def by blast
  then show ?thesis using p(2,3) by auto
qed

section \<open>Properties\<close>

text \<open>C4: A responder comes out of the rendezvous handshake connected only when the initiator is connected too, and
  the two agree, over a network that carries the bytes of their packets: whatever the network does with these bytes,
  whatever errors and bytes of other hosts reach them and whatever well formed packets a connected peer sends, they
  use the same first sequence number (that of the initiator), each other's socket ids, the same latency for each
  direction, the same packet size and flow window; they encrypt both or neither, and with the same key settings
  they use the same keys. The settings of both peers have to fit the wire: latencies of whole milliseconds below
  2^16 milliseconds, sizes below 2^32, and sockets of the same address family. What does not fit is truncated on
  the wire, and the two peers do not agree on it.\<close>

theorem rendezvous_agreement:
  assumes "crypto_laws cr" "rdv_init I R ii iseq ro ci cr' s" "peer_fits v6 (rd_i s)" "peer_fits v6 (rd_r s)"
    "(rdv_wire_step cr v6 I R)\<^sup>*\<^sup>* s t" "rd_r_conn t = Some b"
  shows "\<exists>a. rd_i_conn t = Some a \<and> settings_agree (cn_settings a) (cn_settings b)
    \<and> cs_init_seq_num (cn_settings a) = iseq \<and> cs_remote (cn_settings a) = R \<and> cs_remote (cn_settings b) = I
    \<and> cs_max_packet_size (cn_settings a) = cs_max_packet_size (cn_settings b)
    \<and> cs_max_flow_size (cn_settings a) = cs_max_flow_size (cn_settings b)"
proof -
  note i = rdv_wire_init [OF assms(2-4)]
  have "(rdv_step cr I R)\<^sup>*\<^sup>* (rdv_view v6 s) (rdv_view v6 t)"
    using rdv_wire.refines [OF assms(5)] i(1) assms(1) by (simp add: rdv_wire_start_def)
  from rdv_agreement [OF assms(1) i(2) this, of b] assms(6) show ?thesis by simp
qed

theorem rendezvous_agreement_witness:
  "\<exists>t a b. (rdv_wire_step sample_crypto False sample_addr sample_addr)\<^sup>*\<^sup>* (rdv_start sample_ci sample_own) t
    \<and> rd_i_conn t = Some a \<and> rd_r_conn t = Some b \<and> settings_agree (cn_settings a) (cn_settings b)
    \<and> cs_init_seq_num (cn_settings a) = 5"
proof -
  have fits: "peer_fits False (rd_i (rdv_start sample_ci sample_own :: u8 list RdvSystem))"
    "peer_fits False (rd_r (rdv_start sample_ci sample_own :: u8 list RdvSystem))"
    using sample_settings_fit
    by (simp_all add: peer_fits_def rdv_start_def rendezvous_new_def Let_def sample_addr_def address_fits_def seq_valid_def)
  have keys: "ci_key_settings sample_own = ci_key_settings sample_ci" by (simp add: sample_own_def)
  obtain t b where t: "(rdv_wire_step sample_crypto False sample_addr sample_addr)\<^sup>*\<^sup>* (rdv_start sample_ci sample_own) t"
    "rd_r_conn t = Some b"
    using wire_rdv_run [OF rdv_start_init fits sample_crypto_laws sample_random_ok keys] by blast
  then show ?thesis
    using rendezvous_agreement [OF sample_crypto_laws rdv_start_init fits t] by blast
qed

end
