(* ===== verification/Spec2Isabelle.thy ===== *)
theory Spec2Isabelle
  imports Srt_Prelude Modular_Num Srt_Time Loss_Compression Data_Packet Srt_Control Control_Packet Key_Wrap Encryption Remote_Clock Reachability Settings Receive_Buffer Receive_Release Receive_Window
    Ack_History Arq Encapsulation Send_Buffer Send_Algorithm Send_Delivery Congestion_Control
    Connection_Status Socket_Output Receiver Sender Connection Packet_Log Delivery Handshake_V5 Handshake_Connect Handshake_Listen
    Handshake_Rendezvous Handshake_Agreement Rendezvous_Agreement Handshake_Wire Rendezvous_Wire
begin

text \<open>
  A verification development of the implementation of the SRT protocol (secure reliable transport) in
  \<open>src/srt-protocol\<close>, with the conversion between packets and datagrams of \<open>src/srt-tokio/src/net.rs\<close>.

  \<^bold>\<open>The program.\<close> SRT carries messages over UDP. A connection begins with a handshake: a caller and a listener
  exchange four packets, or two equal peers meet in a rendezvous; the handshake settles the first sequence number, the
  latencies and the keys. The sender then splits a message into data packets, encrypts them, and keeps them until they
  are acknowledged; the receiver puts them into order, reports losses, acknowledges, and releases a message at its
  play-out time. A connection is a state machine without I/O: it takes inputs with their time and gives the next action.

  \<^bold>\<open>Conventions.\<close> Fixed-width integers are \<open>word\<close>s and wrap, as in a release build; \<open>usize\<close> counters are naturals.
  An \<open>Instant\<close> is an integer and a \<open>Duration\<close> a natural number of nanoseconds. A fallible function returns an \<open>outcome\<close>:
  \<open>Ok\<close>, \<open>Err\<close>, or \<open>Panic\<close> where the code panics. A method that changes \<open>self\<close> returns the new record. Code of other crates
  is a parameter: AES, AES-CTR and PBKDF2 (\<open>Crypto\<close>, with the laws \<open>crypto_laws\<close>), random values (\<open>key_random_ok\<close>, \<open>rnd_ok\<close>),
  the statistics of \<open>streaming-stats\<close>, the queues of \<open>keyed_priority_queue\<close> and \<open>arraydeque\<close>, the division of two \<open>f64\<close> and the
  cookie of a listener. Log messages are left out.

  \<^bold>\<open>Theories and the files that they model\<close> (paths under \<open>src/srt-protocol/src\<close>):

  \<^item> \<open>Srt_Prelude\<close>: outcomes, big endian bytes and shared lemmas. \<open>Reachability\<close>: the locales of invariants and refinements of
    step relations, which the stateful components interpret.
  \<^item> \<open>Modular_Num\<close> (\<open>packet/modular_num.rs\<close>, \<open>seq_number.rs\<close>, \<open>msg_number.rs\<close>): wrapping numbers; the order is shown to be that of
    the integers for numbers less than half of the range apart, and where it is not an order.
  \<^item> \<open>Srt_Time\<close> (\<open>packet/time.rs\<close>, \<open>protocol/time\<close>): time stamps, time base, round trip time and timers.
  \<^item> \<open>Loss_Compression\<close> (\<open>packet/control/loss_compression.rs\<close>): the round trip of loss lists, and its failure across the wrap of
    the sequence numbers.
  \<^item> \<open>Data_Packet\<close>, \<open>Srt_Control\<close>, \<open>Control_Packet\<close> (\<open>packet/data.rs\<close>, \<open>packet/control/srt.rs\<close>, \<open>packet/control/mod.rs\<close>, \<open>packet/mod.rs\<close>): all packets with
    parser, serializer and size; the round trips in both directions, and inputs on which the parser panics.
  \<^item> \<open>Key_Wrap\<close>, \<open>Encryption\<close> (\<open>protocol/encryption\<close>, \<open>settings/encryption.rs\<close>): key wrapping, stream keys and the refresh of keys; unwrapping undoes
    wrapping, and the receiver has the key of every packet.
  \<^item> \<open>Remote_Clock\<close> (\<open>protocol/receiver/time.rs\<close>): the clock of the sender; release times never go back.
  \<^item> \<open>Settings\<close> (\<open>options/units.rs\<close>, \<open>options/bandwidth.rs\<close>, \<open>connection/mod.rs\<close>): units of data and rate, and the settings of a connection.
  \<^item> \<open>Receive_Buffer\<close>, \<open>Receive_Release\<close>, \<open>Receive_Window\<close> (\<open>protocol/receiver/buffer.rs\<close>): the buffer, its invariant, the release and the giving up
    of messages, and the refinement of a window of numbered slots. Giving up packets whose numbers pass the wrap breaks the
    buffer (shown); the runs of the refinement exclude exactly this.
  \<^item> \<open>Ack_History\<close>, \<open>Arq\<close>, \<open>Receiver\<close> (\<open>protocol/receiver/history.rs\<close>, \<open>arq.rs\<close>, \<open>mod.rs\<close>): acknowledgements, loss reports and the estimate of the arrival
    speed.
  \<^item> \<open>Encapsulation\<close>, \<open>Send_Buffer\<close>, \<open>Send_Algorithm\<close>, \<open>Send_Delivery\<close>, \<open>Congestion_Control\<close>, \<open>Sender\<close> (\<open>protocol/sender\<close>): splitting of messages, the
    retransmission buffer and its loop, pacing. A NAK is retransmitted, an acknowledgement removes exactly the acknowledged
    packets, and the loop of actions ends.
  \<^item> \<open>Socket_Output\<close>, \<open>Connection_Status\<close>, \<open>Connection\<close> (\<open>protocol/output\<close>, \<open>statistics/mod.rs\<close>, \<open>connection/status.rs\<close>, \<open>connection/mod.rs\<close>, \<open>protocol/handshake\<close>): the connection and
    its life cycle.
  \<^item> \<open>Packet_Log\<close>, \<open>Delivery\<close>: a sender and a receiver over a network that loses, duplicates, delays and reorders packets; what is
    released is a subsequence of what was sent.
  \<^item> \<open>Handshake_V5\<close>, \<open>Handshake_Connect\<close>, \<open>Handshake_Listen\<close>, \<open>Handshake_Rendezvous\<close> (\<open>protocol/pending_connection\<close>): the handlers of the handshake.
  \<^item> \<open>Handshake_Agreement\<close>, \<open>Rendezvous_Agreement\<close>: the two sides of a handshake over such a network, with an inductive invariant, their
    agreement, and a run in which both are connected. \<open>Handshake_Wire\<close>, \<open>Rendezvous_Wire\<close>: the same over a network of bytes,
    which refines them when the settings fit the fields on the wire. The run is proved once in the locales \<open>call_steps\<close> and
    \<open>rdv_steps\<close> and used for packets and for bytes.

  This theory joins the handshake and the delivery of messages.

  \<^bold>\<open>Bounds and fuel.\<close> No definition uses fuel. The two loops over an iterator, which take all packets of a message (\<open>mei_collect\<close>)
  and all actions of the send buffer (\<open>snd_actions\<close>), are partial functions with \<open>None\<close> for not returning; both are shown to
  return. The handlers of the connection carry this option on (\<open>'a run\<close>). All other recursions are structural or have
  a termination proof. Statements about sequence numbers bound the packets of a run by half of the range of
  the numbers, because the comparison of the code means nothing beyond it.

  \<^bold>\<open>Not modelled.\<close> The multiplexing listener (\<open>listener\<close>), which hands packets to handshakes and connections; the builders and
  checks of options and the parsing of URIs (\<open>options\<close>) and of access control lists (\<open>access\<close>), which produce the settings
  that the definitions take; \<open>srt-tokio\<close> apart from the two functions named, \<open>srt-c\<close> and \<open>srt-transmit\<close>, which are I/O
  around the modelled state machines; \<open>Debug\<close> and \<open>Display\<close>.
\<close>

section \<open>From the handshake to the delivery of messages\<close>

text \<open>Two connections between which nothing has been sent: \<open>x\<close> sends and \<open>y\<close> receives.\<close>

definition fresh_link :: "('s, 'q) DuplexConnection \<Rightarrow> ('s, 'q) DuplexConnection \<Rightarrow> ('s, 'q) Link" where
  "fresh_link x y = \<lparr>lk_sender = x, lk_receiver = y, lk_net = {}, lk_sent = [], lk_got = []\<rparr>"

text \<open>The connections with which a handshake without keys ends are a link, in both directions.\<close>

lemma handshake_link_init:
  assumes call: "crypto_laws cr" "call_init B ci sid (seq_of i0) own s" "(call_step cr A B)\<^sup>*\<^sup>* s t"
      "sy_caller_conn t = Some a" "sy_listener_conn t = Some b"
    and plain: "cs_cipher (cn_settings a) = None" and ends: "(c, d) = (a, b) \<or> (c, d) = (b, a)"
    and new: "duplex_new ops c = Ok x" "duplex_new ops d = Ok y"
    and sizes: "0 < cs_max_packet_size (cn_settings c)" "unat (cs_recv_buffer_size (cn_settings d)) < 2 ^ 30"
  shows "link_init ops i0 (unat (cs_max_packet_size (cn_settings c))) (unat (cs_recv_buffer_size (cn_settings d)))
    (fresh_link x y)"
proof -
  have "settings_agree (cn_settings a) (cn_settings b)" "cs_init_seq_num (cn_settings a) = seq_of i0"
    using call_agreement(1) [OF call(1-4)] call(5) by auto
  then have "cs_cipher (cn_settings b) = None" "cs_init_seq_num (cn_settings b) = seq_of i0"
    using plain by (auto simp: settings_agree_def ciphers_agree_def split: option.splits)
  then have "cs_cipher (cn_settings c) = None" "cs_cipher (cn_settings d) = None"
    "cs_init_seq_num (cn_settings c) = seq_of i0" "cs_init_seq_num (cn_settings d) = seq_of i0"
    using plain ends \<open>cs_init_seq_num (cn_settings a) = seq_of i0\<close> by auto
  then show ?thesis unfolding link_init_def fresh_link_def
    using new sizes by (intro conjI exI [of _ c] exI [of _ d]) (simp_all add: word_less_nat_alt)
qed

subsection \<open>A concrete run\<close>

definition plain_ci :: ConnInitSettings where
  "plain_ci = sample_ci\<lparr>ci_key_settings := None\<rparr>"

definition plain_own :: ConnInitSettings where
  "plain_own = sample_own\<lparr>ci_key_settings := None, ci_max_packet_size := 1500\<rparr>"

lemma plain_call_run:
  "\<exists>t h. (call_step sample_crypto sample_addr sample_addr)\<^sup>*\<^sup>* (call_start plain_ci plain_own) t
    \<and> sy_caller_conn t = Some \<lparr>cn_settings = sample_a, cn_handshake = HS_Connector\<rparr>
    \<and> sy_listener_conn t = Some \<lparr>cn_settings = sample_b, cn_handshake = h\<rparr>"
proof -
  let ?A = sample_addr and ?s = "call_start plain_ci plain_own"
  define v where "v = \<lparr>v5_key_size = KS_Unspecified, v5_ext_hs = Some (Srt_HandshakeRequest (handshake_offer plain_ci)),
    v5_ext_km = None, v5_ext_group = None, v5_sid = None\<rparr>"
  define cm where "cm = \<lparr>si_cipher = None, si_settings = plain_ci, si_streamid = None, si_initiate_time = (0 :: instant)\<rparr>"
  define h1 where "h1 = call_p1 (IpV4 1) plain_ci 5"
  define h2 where "h2 = call_p2 0 plain_own h1"
  define h3 where "h3 = call_p3 plain_ci 5 (HVI_V5 v) h2"
  define p1 where "p1 = hs_packet 0 h1"
  define p2 where "p2 = hs_packet 2 h2"
  define p3 where "p3 = hs_packet 0 h3"
  define c0 where "c0 = connect_new ?A (IpV4 1) plain_ci None 5"
  define w where "w = \<lparr>cw_from = ?A, cw_cookie = (0 :: i32), cw_induction_response = p2, cw_induction_time = (0 :: instant)\<rparr>"
  define l2 where "l2 = (listen_new plain_own False)\<lparr>li_state := ConclusionWait w\<rparr>"
  define v4 where "v4 = v\<lparr>v5_ext_hs := Some (Srt_HandshakeResponse (handshake_offer plain_own))\<rparr>"
  define p4 where "p4 = accept_response l2 w 0 h3 (HVI_V5 v4)"
  define r4 where "r4 = CR_Connected (Some (Pkt_Control p4, ?A)) \<lparr>cn_settings = sample_b, cn_handshake = HS_Listener (cp_control_type p4)\<rparr>"
  define r5 where "r5 = CR_Connected None \<lparr>cn_settings = sample_a, cn_handshake = HS_Connector\<rparr>"
  define c1 where "c1 = c0\<lparr>co_state := InductionResponseWait p1\<rparr>"
  define c3 where "c3 = c0\<lparr>co_state := ConclusionResponseWait p3 cm\<rparr>"
  define s1 where "s1 = caller_result ?s (CR_SendPacket (p1, ?A)) c1"
  define s2 where "s2 = listener_result s1 (CR_SendPacket (p2, ?A)) l2"
  define s3 where "s3 = caller_result s2 (CR_SendPacket (p3, ?A)) c3"
  define s4 where "s4 = listener_result s3 r4 l2"
  define s5 where "s5 = caller_result s4 r5 c3"
  note packets = h1_def h2_def h3_def p1_def p2_def p3_def call_p1_def call_p2_def call_p3_def hs_packet_def Let_def
  note settings = plain_ci_def plain_own_def sample_own_def sample_ci_def
  have 1: "call_step sample_crypto ?A ?A ?s s1" unfolding s1_def
    by (rule call_step.caller_tick [where now = 0])
      (simp_all add: call_start_def packets c1_def c0_def connect_handle_tick_def connect_on_start_def connect_new_def)
  have 2: "call_step sample_crypto ?A ?A s1 s2" unfolding s2_def
    by (rule call_step.listener_rx [where input = "Inr (p1, ?A)" and now = 0 and cookie = 0])
      (simp_all add: s1_def caller_result_def call_start_def packets l2_def w_def listen_handle_packet_def
        listen_handle_control_packets_def listen_wait_for_induction_def listen_new_def, simp_all add: settings)
  have f3: "start_hsv5_initiation sample_crypto sample_random plain_ci None 0 = Ok (HVI_V5 v, cm)"
    by (simp add: start_hsv5_initiation_def settings v_def cm_def cipher_key_size_def handshake_offer_def)
  have 3: "call_step sample_crypto ?A ?A s2 s3" unfolding s3_def
    by (rule call_step.caller_rx [where input = "Inr (p2, ?A)" and now = 0 and rnd = sample_random])
      (simp_all add: s2_def s1_def caller_result_def listener_result_def call_start_def packets c1_def c3_def c0_def sample_random_ok
        connect_handle_packet_def connect_wait_for_induction_def connect_new_def f3)
  have c4: "gen_access_control_response sample_crypto 0 plain_own ?A 0 h3 v None = Ok (GH_Accept (HVI_V5 v4) sample_b, plain_own)"
    by (simp add: gen_access_control_response_def responder_cipher_def responder_settings_def v_def v4_def packets settings
        cipher_key_size_def handshake_offer_def sample_b_def sample_a_def sample_settings_def sample_addr_def instant_sub_def)
  have "accept_connection sample_crypto l2 0 w 0 h3 v None = Ok (r4, l2)"
    using c4 by (simp add: accept_connection_def l2_def listen_new_def w_def r4_def p4_def Let_def)
  then have 4: "call_step sample_crypto ?A ?A s3 s4" unfolding s4_def
    by (intro call_step.listener_rx [where input = "Inr (p3, ?A)" and now = 0 and cookie = 0])
      (simp_all add: s3_def s2_def s1_def caller_result_def listener_result_def call_start_def listen_handle_packet_def
        listen_handle_control_packets_def listen_wait_for_conclusion_def listen_new_def l2_def packets w_def settings)
  have "finish_hsv5_initiation cm (h3\<lparr>hc_socket_id := 1, hc_info := HVI_V5 v4\<rparr>) ?A 0 = Inr sample_a"
    by (simp add: finish_hsv5_initiation_def v_def v4_def cm_def packets settings handshake_offer_def sample_a_def
        sample_settings_def sample_addr_def instant_sub_def)
  then have 5: "call_step sample_crypto ?A ?A s4 s5" unfolding s5_def
    by (intro call_step.caller_rx [where input = "Inr (Pkt_Control p4, ?A)" and now = 0 and rnd = sample_random])
      (simp_all add: s4_def s3_def s2_def s1_def caller_result_def listener_result_def call_start_def c3_def c0_def sample_random_ok
        connect_handle_packet_def connect_wait_for_conclusion_def connect_new_def r4_def r5_def p4_def accept_response_def
        l2_def listen_new_def w_def packets settings)
  have "(call_step sample_crypto ?A ?A)\<^sup>*\<^sup>* ?s s5"
    using 1 2 3 4 5 by (meson r_into_rtranclp rtranclp.rtrancl_into_rtrancl)
  then show ?thesis
    by (intro exI conjI) (auto simp: s5_def s4_def caller_result_def listener_result_def r4_def r5_def)
qed

section \<open>Properties\<close>

text \<open>C1: A caller and a listener that have come out of the handshake deliver messages, in both directions. Whatever the network
  has done with the packets of the handshake, the connections that the two sides create from its result
  form a link: the messages that one of them releases are a subsequence of those that were given to
  the other, whatever the network does with the packets of the connection. The connection has no keys, and
  the number of packets is bounded as for every link.\<close>

theorem connected_peers_deliver:
  assumes "crypto_laws cr" "call_init B ci sid (seq_of iseq) own s" "(call_step cr A B)\<^sup>*\<^sup>* s t"
      "sy_caller_conn t = Some a" "sy_listener_conn t = Some b"
    and "cs_cipher (cn_settings a) = None" "(c, d) = (a, b) \<or> (c, d) = (b, a)"
    and "duplex_new ops c = Ok x" "duplex_new ops d = Ok y"
    and "0 < cs_max_packet_size (cn_settings c)" "unat (cs_recv_buffer_size (cn_settings d)) < 2 ^ 30"
    and "(link_step ops)\<^sup>*\<^sup>* (fresh_link x y) u"
    and "link_packets (unat (cs_max_packet_size (cn_settings c))) u \<le> 2 ^ 30"
      "iseq + link_packets (unat (cs_max_packet_size (cn_settings c))) u < 2 ^ 31"
  shows "subseq (lk_got u) (lk_sent u)"
  using link.reachable_inv [OF handshake_link_init [OF assms(1-11)] assms(12)] assms(13,14)
  by (auto simp: link_inv_def rx_side_def)

theorem connected_peers_deliver_witness:
  "\<exists>t a b x y u. (call_step sample_crypto sample_addr sample_addr)\<^sup>*\<^sup>* (call_start plain_ci plain_own) t
    \<and> sy_caller_conn t = Some a \<and> sy_listener_conn t = Some b \<and> duplex_new sample_ops a = Ok x \<and> duplex_new sample_ops b = Ok y
    \<and> (link_step sample_ops)\<^sup>*\<^sup>* (fresh_link x y) u \<and> lk_got u = [[1, 2, 3]] \<and> subseq (lk_got u) (lk_sent u)"
proof -
  obtain t h where t: "(call_step sample_crypto sample_addr sample_addr)\<^sup>*\<^sup>* (call_start plain_ci plain_own) t"
    "sy_caller_conn t = Some \<lparr>cn_settings = sample_a, cn_handshake = HS_Connector\<rparr>" (is "_ = Some ?a")
    "sy_listener_conn t = Some \<lparr>cn_settings = sample_b, cn_handshake = h\<rparr>" (is "_ = Some ?b")
    using plain_call_run by blast
  obtain u where u: "(link_step sample_ops)\<^sup>*\<^sup>* (sample_link h) u" "lk_sent u = [[1, 2, 3]]" "lk_got u = [[1, 2, 3]]"
    using sample_link_run by blast
  have link: "sample_link h = fresh_link (start_of HS_Connector sample_a) (start_of h sample_b)"
    by (simp add: sample_link_def fresh_link_def)
  have five: "seq_of 5 = 5" by (simp add: seq_of_def)
  have sizes: "cs_cipher sample_a = None" "cs_max_packet_size sample_a = 1500" "cs_recv_buffer_size sample_b = 8192"
    by (simp_all add: sample_a_def sample_b_def sample_settings_def)
  have packets: "link_packets 1500 u = 1" by (simp add: link_packets_def u(2) packets_needed_def)
  have "subseq (lk_got u) (lk_sent u)"
    by (rule connected_peers_deliver [where iseq = 5, unfolded five, OF sample_crypto_laws call_start_init t _ _
          sample_start(1) sample_start(2) _ _ u(1) [unfolded link]])
      (simp_all add: sizes packets)
  then show ?thesis using t u sample_start unfolding link by blast
qed

end
